(* ===== verification/Prelude.thy ===== *)
theory Prelude
  imports Main "HOL-Library.AList" "HOL-Library.Multiset"
begin

section \<open>Shared vocabulary: deadlines, JSON values, rows of a table, results\<close>

text \<open>
  What every component of the billing library uses: the order of expiry deadlines
  (a NULL deadline is the last one), the JSON values of \<open>metadata\<close> columns and provider
  payloads, the two operations on a table of rows (look a row up by id, update a row by id),
  and the textual form of row ids. The collections \<open>db_simps\<close>, \<open>wf_intros\<close> and
  \<open>frame\<close> gather the facts the component theories rewrite with.
\<close>

named_theorems db_simps
  "how the elementary database writes act on the projections of the database"
named_theorems frame
  "which tables and which wallets an operation leaves alone"
named_theorems measure_simps
  "how an operation changes the credit totals of a wallet"

type_synonym uuid = nat
type_synonym uid = string
type_synonym time = int

subsection \<open>Deadlines\<close>

text \<open>
  A nullable timestamp that means "when this dies": \<open>At t\<close> is the timestamp \<open>t\<close>
  (microseconds since the epoch), \<open>Never\<close> is NULL. The order puts \<open>Never\<close> last,
  which is \<open>F("expires_at").asc(nulls_last=True)\<close>; the two database filters
  \<open>expires_at IS NULL OR expires_at > now\<close> and \<open>expires_at <= now\<close> are
  \<open>At now < d\<close> and \<open>d \<le> At now\<close>.
\<close>

datatype deadline = At time | Never

instantiation deadline :: linorder
begin

fun less_eq_deadline :: "deadline \<Rightarrow> deadline \<Rightarrow> bool" where
  "less_eq_deadline (At a) (At b) = (a \<le> b)"
| "less_eq_deadline _ Never = True"
| "less_eq_deadline Never (At b) = False"

definition less_deadline :: "deadline \<Rightarrow> deadline \<Rightarrow> bool" where
  "less_deadline a b = (a \<le> b \<and> \<not> b \<le> a)"

instance
proof
  fix x y z :: deadline
  show "(x < y) = (x \<le> y \<and> \<not> y \<le> x)" by (rule less_deadline_def)
  show "x \<le> x" by (cases x) auto
  show "x \<le> y \<Longrightarrow> y \<le> z \<Longrightarrow> x \<le> z" by (cases x; cases y; cases z) auto
  show "x \<le> y \<Longrightarrow> y \<le> x \<Longrightarrow> x = y" by (cases x; cases y) auto
  show "x \<le> y \<or> y \<le> x" by (cases x; cases y) auto
qed

end

lemma deadline_le_Never [simp]: "d \<le> Never"
  by (cases d) auto

lemma deadline_less_simps [simp]:
  "(At a < At b) = (a < b)" "At a < Never" "\<not> Never < d"
  by (simp_all only: less_deadline_def less_eq_deadline.simps) (auto simp: deadline_le_Never)

lemma deadline_le_At: "d \<le> At t \<longleftrightarrow> (\<exists>s. d = At s \<and> s \<le> t)"
  by (cases d) auto

fun deadline_of :: "time option \<Rightarrow> deadline" where
  "deadline_of None = Never"
| "deadline_of (Some t) = At t"

subsection \<open>JSON values\<close>

text \<open>
  The values of a \<open>JSONField\<close> and of a webhook payload. \<open>JTime t\<close> is the ISO-8601
  text of the instant \<open>t\<close> as \<open>datetime.isoformat()\<close> writes it for an aware UTC value;
  that text is an injective image of the instant, and no code path of the model looks
  inside it but the letters, which read its UTC date. A dictionary is an association list in insertion order, so that
  \<open>d[k] = v\<close> keeps the position of a key it overwrites, as Python does.
\<close>

datatype json =
    JNull
  | JBool bool
  | JInt int
  | JStr string
  | JTime time
  | JArr "json list"
  | JObj "(string \<times> json) list"

type_synonym dict = "(string \<times> json) list"

definition dget :: "dict \<Rightarrow> string \<Rightarrow> json option" where
  "dget d k = map_of d k"

definition dset :: "string \<Rightarrow> json \<Rightarrow> dict \<Rightarrow> dict" where
  "dset k v d = AList.update k v d"

definition dmerge :: "dict \<Rightarrow> dict \<Rightarrow> dict" where
  "dmerge d e = fold (\<lambda>(k, v) acc. dset k v acc) e d"

text \<open>Python truthiness of a JSON value, and of a possibly absent key (\<open>d.get(k)\<close>).\<close>

fun truthy :: "json \<Rightarrow> bool" where
  "truthy JNull = False"
| "truthy (JBool b) = b"
| "truthy (JInt n) = (n \<noteq> 0)"
| "truthy (JStr s) = (s \<noteq> [])"
| "truthy (JTime _) = True"
| "truthy (JArr xs) = (xs \<noteq> [])"
| "truthy (JObj d) = (d \<noteq> [])"

definition dtruthy :: "dict \<Rightarrow> string \<Rightarrow> bool" where
  "dtruthy d k = (case dget d k of None \<Rightarrow> False | Some v \<Rightarrow> truthy v)"

lemma dget_Nil [simp]: "dget [] k = None"
  by (simp add: dget_def)

lemma dget_dset [simp]: "dget (dset k v d) k' = (if k' = k then Some v else dget d k')"
  by (simp add: dget_def dset_def update_conv')

lemma dget_dmerge_notin: "k \<notin> fst ` set e \<Longrightarrow> dget (dmerge d e) k = dget d k"
  unfolding dmerge_def by (induction e arbitrary: d) auto

lemma dget_dmerge_Nil [simp]: "dmerge d [] = d"
  by (simp add: dmerge_def)

lemma dget_dmerge_Cons: "dmerge d ((k, v) # e) = dmerge (dset k v d) e"
  by (simp add: dmerge_def)

text \<open>\<open>obj.get(k)\<close> read as an integer that is not a bool, as a string, as a sub-object.\<close>

definition dint :: "dict \<Rightarrow> string \<Rightarrow> int option" where
  "dint d k = (case dget d k of Some (JInt n) \<Rightarrow> Some n | _ \<Rightarrow> None)"

definition dstr :: "dict \<Rightarrow> string \<Rightarrow> string option" where
  "dstr d k = (case dget d k of Some (JStr s) \<Rightarrow> Some s | _ \<Rightarrow> None)"

definition dobj :: "dict \<Rightarrow> string \<Rightarrow> dict" where
  "dobj d k = (case dget d k of Some (JObj e) \<Rightarrow> e | _ \<Rightarrow> [])"

definition darr :: "dict \<Rightarrow> string \<Rightarrow> json list" where
  "darr d k = (case dget d k of Some (JArr xs) \<Rightarrow> xs | _ \<Rightarrow> [])"

subsection \<open>Text of a row id\<close>

text \<open>
  \<open>str(row.id)\<close>. Row ids are UUIDs; the model numbers rows and writes the number in
  decimal, which is injective as the canonical UUID text is.
\<close>

definition digit_char :: "nat \<Rightarrow> char" where
  "digit_char n = char_of (48 + n)"

fun uuid_str :: "uuid \<Rightarrow> string" where
  "uuid_str n = (if n < 10 then [digit_char n] else uuid_str (n div 10) @ [digit_char (n mod 10)])"

declare uuid_str.simps [simp del]

lemma digit_char_inj: "a < 10 \<Longrightarrow> b < 10 \<Longrightarrow> digit_char a = digit_char b \<Longrightarrow> a = b"
proof -
  assume "a < 10" "b < 10" "digit_char a = digit_char b"
  then have "of_char (char_of (48 + a) :: char) = (of_char (char_of (48 + b) :: char) :: nat)"
    by (simp add: digit_char_def)
  with \<open>a < 10\<close> \<open>b < 10\<close> show "a = b" by (simp add: of_char_of)
qed

lemma uuid_str_nonempty [simp]: "uuid_str n \<noteq> []" "[] \<noteq> uuid_str n"
  by (subst uuid_str.simps, simp)+

lemma uuid_str_inj [simp]: "uuid_str m = uuid_str n \<longleftrightarrow> m = n"
proof
  show "uuid_str m = uuid_str n \<Longrightarrow> m = n"
  proof (induction m arbitrary: n rule: uuid_str.induct)
    case (1 m)
    have m: "uuid_str m = (if m < 10 then [digit_char m] else uuid_str (m div 10) @ [digit_char (m mod 10)])"
      and n: "uuid_str n = (if n < 10 then [digit_char n] else uuid_str (n div 10) @ [digit_char (n mod 10)])"
      by (subst uuid_str.simps, rule refl)+
    show ?case
    proof (cases "m < 10")
      case True
      with 1(2) m n have "n < 10" by (auto split: if_splits)
      with True 1(2) m n show ?thesis by (auto dest: digit_char_inj)
    next
      case False
      with 1(2) m n have ge: "\<not> n < 10" by (auto split: if_splits)
      with False 1(2) m n have "uuid_str (m div 10) = uuid_str (n div 10)"
        and "digit_char (m mod 10) = digit_char (n mod 10)" by auto
      with 1(1)[OF False] have "m div 10 = n div 10" and "m mod 10 = n mod 10"
        by (auto dest: digit_char_inj[rotated 2])
      then show ?thesis by (metis div_mult_mod_eq)
    qed
  qed
qed simp

text \<open>\<open>str(n)\<close> for an integer.\<close>

definition int_str :: "int \<Rightarrow> string" where
  "int_str n = (if n < 0 then CHR ''-'' # uuid_str (nat (- n)) else uuid_str (nat n))"

subsection \<open>Tables of rows\<close>

text \<open>
  A table is the list of its rows in insertion order. The id of a row is drawn from one
  counter of the database, so insertion order is both \<open>created_at\<close> order and id order.
\<close>

definition get_row :: "('r \<Rightarrow> uuid) \<Rightarrow> uuid \<Rightarrow> 'r list \<Rightarrow> 'r option" where
  "get_row rid i rows = find (\<lambda>r. rid r = i) rows"

definition upd_row :: "('r \<Rightarrow> uuid) \<Rightarrow> uuid \<Rightarrow> ('r \<Rightarrow> 'r) \<Rightarrow> 'r list \<Rightarrow> 'r list" where
  "upd_row rid i f rows = map (\<lambda>r. if rid r = i then f r else r) rows"

lemma get_row_Some: "get_row rid i rows = Some r \<Longrightarrow> r \<in> set rows \<and> rid r = i"
  by (auto simp: get_row_def find_Some_iff)

lemma get_row_None: "get_row rid i rows = None \<longleftrightarrow> (\<forall>r \<in> set rows. rid r \<noteq> i)"
  by (auto simp: get_row_def find_None_iff)

lemma get_row_distinct:
  assumes "distinct (map rid rows)" and "r \<in> set rows"
  shows "get_row rid (rid r) rows = Some r"
  using assms by (induction rows) (auto simp: get_row_def rev_image_eqI)

lemma upd_row_Nil [simp]: "upd_row rid i f [] = []"
  and upd_row_Cons [simp]:
    "upd_row rid i f (r # rows) = (if rid r = i then f r else r) # upd_row rid i f rows"
  by (simp_all add: upd_row_def)

lemma length_upd_row [simp]: "length (upd_row rid i f rows) = length rows"
  by (simp add: upd_row_def)

lemma map_upd_row:
  assumes "\<And>r. g (f r) = g r"
  shows "map g (upd_row rid i f rows) = map g rows"
  using assms by (induction rows) auto

lemma set_upd_row: "set (upd_row rid i f rows) = (\<lambda>r. if rid r = i then f r else r) ` set rows"
  by (simp add: upd_row_def)

lemma upd_row_notin: "i \<notin> rid ` set rows \<Longrightarrow> upd_row rid i f rows = rows"
  by (induction rows) auto

lemma upd_row_fresh:
  "i \<notin> rid ` set rows \<Longrightarrow> upd_row rid i f (rows @ [r]) = rows @ [if rid r = i then f r else r]"
  by (induction rows) auto

text \<open>
  The one fact every credit total rests on: updating the row with id \<open>i\<close> of a table with
  distinct ids changes a sum over the table by that row's change.
\<close>

lemma sum_list_upd_row:
  fixes g :: "'r \<Rightarrow> int"
  assumes "distinct (map rid rows)" and "r \<in> set rows"
  shows "(\<Sum>x\<leftarrow>upd_row rid (rid r) f rows. g x) = (\<Sum>x\<leftarrow>rows. g x) + g (f r) - g r"
  using assms
proof (induction rows)
  case Nil
  then show ?case by simp
next
  case (Cons x rows)
  show ?case
  proof (cases "x = r")
    case True
    with Cons.prems have "rid r \<notin> rid ` set rows" by auto
    with True show ?thesis by (simp add: upd_row_notin)
  next
    case False
    with Cons.prems have "r \<in> set rows" "rid x \<noteq> rid r" by (auto simp: image_iff)
    with Cons show ?thesis by simp
  qed
qed

lemma sum_list_change_one:
  fixes g g' :: "'r \<Rightarrow> int"
  assumes "distinct (map rid rows)" and "r \<in> set rows" and "\<And>x. rid x \<noteq> rid r \<Longrightarrow> g' x = g x"
  shows "(\<Sum>x\<leftarrow>rows. g' x) = (\<Sum>x\<leftarrow>rows. g x) + g' r - g r"
  using assms(1,2)
proof (induction rows)
  case (Cons x rows)
  show ?case
  proof (cases "x = r")
    case True
    with Cons.prems have "\<forall>y \<in> set rows. rid y \<noteq> rid r" by (auto simp: image_iff)
    then have "(\<Sum>y\<leftarrow>rows. g' y) = (\<Sum>y\<leftarrow>rows. g y)" using assms(3) by (intro arg_cong[where f = sum_list] map_cong) auto
    with True show ?thesis by simp
  next
    case False
    with Cons.prems have "r \<in> set rows" "rid x \<noteq> rid r" by (auto simp: image_iff)
    with Cons assms(3) show ?thesis by simp
  qed
qed simp

lemma sum_list_upd_row_same:
  fixes g :: "'r \<Rightarrow> int"
  assumes "\<And>r. rid r = i \<Longrightarrow> g (f r) = g r"
  shows "(\<Sum>x\<leftarrow>upd_row rid i f rows. g x) = (\<Sum>x\<leftarrow>rows. g x)"
  using assms by (induction rows) auto

text \<open>A sum over the rows that satisfy a filter, written over all rows.\<close>

lemma sum_list_filter_if:
  "(\<Sum>x\<leftarrow>filter P xs. g x) = (\<Sum>x\<leftarrow>xs. if P x then g x else (0::int))"
  by (induction xs) auto

lemma sum_list_nonneg_int: "(\<And>x. x \<in> set xs \<Longrightarrow> (0::int) \<le> g x) \<Longrightarrow> 0 \<le> (\<Sum>x\<leftarrow>xs. g x)"
  by (rule sum_list_nonneg) auto

lemma sum_list_sort_key: "(\<Sum>x\<leftarrow>sort_key f xs. g x) = ((\<Sum>x\<leftarrow>xs. g x) :: int)"
proof -
  have "mset (map g (sort_key f xs)) = mset (map g xs)" by simp
  then show ?thesis by (metis sum_mset_sum_list)
qed

lemma sum_list_member_le:
  fixes g :: "'a \<Rightarrow> int"
  assumes "x \<in> set xs" and "\<And>y. y \<in> set xs \<Longrightarrow> 0 \<le> g y"
  shows "g x \<le> (\<Sum>y\<leftarrow>xs. g y)"
  using assms
proof (induction xs)
  case (Cons a xs)
  have "0 \<le> (\<Sum>y\<leftarrow>xs. g y)" using Cons.prems(2) by (intro sum_list_nonneg_int) auto
  with Cons show ?case by (cases "x = a") force+
qed simp

subsection \<open>Results\<close>

text \<open>
  An operation that may raise returns a sum: \<open>Inl e\<close> is the exception, \<open>Inr r\<close> the
  result. Every public operation of \<open>services.py\<close> is \<open>@transaction.atomic\<close>, so the
  database of a raising call is the one it started from and is not part of \<open>Inl\<close>.
\<close>

definition ok :: "'e + 'a \<Rightarrow> bool" where
  "ok r = (case r of Inl _ \<Rightarrow> False | Inr _ \<Rightarrow> True)"

lemma ok_simps [simp]: "ok (Inr x)" "\<not> ok (Inl e)"
  by (simp_all add: ok_def)

lemma ok_iff: "ok r \<longleftrightarrow> (\<exists>x. r = Inr x)"
  by (cases r) auto

end
