(* ===== verification/Catalog.thy ===== *)
theory Catalog
  imports Prelude
begin

section \<open>The catalogue of credit packages and plans (catalog.py)\<close>

text \<open>
  The catalogue a deployment sells: the dataclasses, the shipped defaults, and the two
  questions every other component asks of a slug, whether it is a plan (\<open>get_plan\<close>) and
  where it sits on the ladder (\<open>plan_rank\<close>, its position in the configured list). The
  configured lists are arguments: the lazy views of the module re-read the configuration on
  every access, so a definition that uses the catalogue takes the list it read.
\<close>

datatype entitlement = Switch bool | Ceiling int

record credit_package =
  cp_slug :: string
  cp_name :: string
  cp_credits :: int
  cp_price_cents :: int
  cp_currency :: string

record plan_entry =
  pe_slug :: string
  pe_name :: string
  pe_price_cents :: int
  pe_monthly :: int
  pe_storage :: int
  pe_desc :: string
  pe_currency :: string
  pe_entitlements :: "(string \<times> entitlement) list"

definition DEFAULT_CREDIT_PACKAGES :: "credit_package list" where
  "DEFAULT_CREDIT_PACKAGES =
    [\<lparr>cp_slug = ''starter'', cp_name = ''Starter'', cp_credits = 500, cp_price_cents = 500,
      cp_currency = ''USD''\<rparr>,
     \<lparr>cp_slug = ''standard'', cp_name = ''Standard'', cp_credits = 2200, cp_price_cents = 2000,
      cp_currency = ''USD''\<rparr>,
     \<lparr>cp_slug = ''bulk'', cp_name = ''Bulk'', cp_credits = 6000, cp_price_cents = 5000,
      cp_currency = ''USD''\<rparr>]"

definition DEFAULT_PLANS :: "plan_entry list" where
  "DEFAULT_PLANS =
    [\<lparr>pe_slug = ''free'', pe_name = ''Free'', pe_price_cents = 0, pe_monthly = 0,
      pe_storage = 5 * 1024 * 1024 * 1024,
      pe_desc = ''5h upload per month, Fast ASR only, community support.'', pe_currency = ''USD'',
      pe_entitlements = [(''workspaces.org'', Switch False), (''workspaces.members.max'', Ceiling 5),
                         (''workspaces.provision_user'', Switch False)]\<rparr>,
     \<lparr>pe_slug = ''pro'', pe_name = ''Pro'', pe_price_cents = 1500, pe_monthly = 300,
      pe_storage = 100 * 1024 * 1024 * 1024,
      pe_desc = ''Unlimited upload, Accurate ASR, 300 credits/mo.'', pe_currency = ''USD'',
      pe_entitlements = [(''workspaces.org'', Switch True), (''workspaces.members.max'', Ceiling 25),
                         (''workspaces.provision_user'', Switch True)]\<rparr>,
     \<lparr>pe_slug = ''team'', pe_name = ''Team'', pe_price_cents = 2500, pe_monthly = 600,
      pe_storage = 500 * 1024 * 1024 * 1024,
      pe_desc = ''Pro plus team roles, 600 credits/mo, SSO.'', pe_currency = ''USD'',
      pe_entitlements = [(''workspaces.org'', Switch True), (''workspaces.members.max'', Ceiling 100),
                         (''workspaces.provision_user'', Switch True)]\<rparr>,
     \<lparr>pe_slug = ''enterprise'', pe_name = ''Enterprise'', pe_price_cents = 0, pe_monthly = 0,
      pe_storage = 10 * 1024 * 1024 * 1024 * 1024,
      pe_desc = ''Custom pricing.'', pe_currency = ''USD'',
      pe_entitlements = [(''workspaces.org'', Switch True), (''workspaces.provision_user'', Switch True)]\<rparr>]"

definition get_plan :: "plan_entry list \<Rightarrow> string \<Rightarrow> plan_entry option" where
  "get_plan plans slug = (if slug = [] then None else find (\<lambda>e. pe_slug e = slug) plans)"

definition plan_slugs :: "plan_entry list \<Rightarrow> string list" where
  "plan_slugs plans = map pe_slug plans"

fun plan_rank_from :: "nat \<Rightarrow> plan_entry list \<Rightarrow> string \<Rightarrow> nat option" where
  "plan_rank_from i [] slug = None"
| "plan_rank_from i (e # es) slug =
     (if pe_slug e = slug then Some i else plan_rank_from (Suc i) es slug)"

definition plan_rank :: "plan_entry list \<Rightarrow> string \<Rightarrow> nat option" where
  "plan_rank plans slug = plan_rank_from 0 plans slug"

definition plan_choices :: "plan_entry list \<Rightarrow> (string \<times> string) list" where
  "plan_choices plans = map (\<lambda>e. (pe_slug e, pe_name e)) plans"

text \<open>
  \<open>_LazyBySlug\<close>: a dict comprehension over the loaded list, so the last entry with a slug
  is the one the mapping holds.
\<close>

definition package_by_slug :: "credit_package list \<Rightarrow> string \<Rightarrow> credit_package option" where
  "package_by_slug pkgs slug = map_of (map (\<lambda>e. (cp_slug e, e)) (rev pkgs)) slug"

subsection \<open>What the lookups promise\<close>

lemma get_plan_slug: "get_plan plans slug = Some e \<Longrightarrow> pe_slug e = slug \<and> e \<in> set plans"
  by (auto simp: get_plan_def find_Some_iff split: if_splits)

lemma get_plan_None: "get_plan plans slug = None \<longleftrightarrow> slug = [] \<or> slug \<notin> set (plan_slugs plans)"
  by (auto simp: get_plan_def plan_slugs_def find_None_iff)

lemma plan_rank_from_Some:
  "plan_rank_from i plans slug = Some k \<longleftrightarrow>
   (\<exists>j. k = i + j \<and> j < length plans \<and> pe_slug (plans ! j) = slug \<and>
        (\<forall>j' < j. pe_slug (plans ! j') \<noteq> slug))"
proof (induction plans arbitrary: i)
  case Nil
  then show ?case by simp
next
  case (Cons e es)
  show ?case
  proof (cases "pe_slug e = slug")
    case True
    then have "(\<forall>j' < j. pe_slug ((e # es) ! j') \<noteq> slug) \<longleftrightarrow> j = 0" for j
      by (cases j) auto
    with True show ?thesis by auto
  next
    case False
    then have "plan_rank_from i (e # es) slug = Some k \<longleftrightarrow> plan_rank_from (Suc i) es slug = Some k"
      by simp
    also have "\<dots> \<longleftrightarrow> (\<exists>j. k = Suc i + j \<and> j < length es \<and> pe_slug (es ! j) = slug \<and>
        (\<forall>j' < j. pe_slug (es ! j') \<noteq> slug))" by (rule Cons.IH)
    also have "\<dots> \<longleftrightarrow> (\<exists>j. k = i + j \<and> j < length (e # es) \<and> pe_slug ((e # es) ! j) = slug \<and>
        (\<forall>j' < j. pe_slug ((e # es) ! j') \<noteq> slug))" (is "?L = ?R")
    proof
      assume ?L
      then obtain j where "k = Suc i + j" "j < length es" "pe_slug (es ! j) = slug"
        "\<forall>j' < j. pe_slug (es ! j') \<noteq> slug" by blast
      with False show ?R
        by (intro exI[of _ "Suc j"]) (auto simp: nth_Cons split: nat.splits)
    next
      assume ?R
      then obtain j where j: "k = i + j" "j < length (e # es)" "pe_slug ((e # es) ! j) = slug"
        "\<forall>j' < j. pe_slug ((e # es) ! j') \<noteq> slug" by blast
      with False obtain j' where "j = Suc j'" by (cases j) auto
      with j have "\<forall>m < j'. pe_slug (es ! m) \<noteq> slug" by (metis Suc_less_eq nth_Cons_Suc)
      with j \<open>j = Suc j'\<close> show ?L by (intro exI[of _ j']) auto
    qed
    finally show ?thesis .
  qed
qed

lemma plan_rank_Some:
  "plan_rank plans slug = Some k \<longleftrightarrow>
   k < length plans \<and> pe_slug (plans ! k) = slug \<and> (\<forall>j < k. pe_slug (plans ! j) \<noteq> slug)"
  by (simp add: plan_rank_def plan_rank_from_Some)

text \<open>
  A non-empty slug is on the ladder exactly when it is a configured plan, and two plans
  share a rank only when they are the same slug: the ladder is a strict order.
\<close>

lemma plan_rank_from_None: "plan_rank_from i plans slug = None \<longleftrightarrow> slug \<notin> set (plan_slugs plans)"
  by (induction plans arbitrary: i) (auto simp: plan_slugs_def)

lemma plan_rank_None: "plan_rank plans slug = None \<longleftrightarrow> slug \<notin> set (plan_slugs plans)"
  by (simp add: plan_rank_def plan_rank_from_None)

lemma plan_rank_inj: "plan_rank plans a = Some k \<Longrightarrow> plan_rank plans b = Some k \<Longrightarrow> a = b"
  by (auto simp: plan_rank_Some)

lemma package_by_slug_slug: "package_by_slug pkgs slug = Some p \<Longrightarrow> cp_slug p = slug \<and> p \<in> set pkgs"
  by (auto simp: package_by_slug_def dest!: map_of_SomeD)

end
