(* ===== verification/Conf.thy ===== *)
theory Conf
  imports Catalog
begin

section \<open>Settings and the internal-account policy (conf.py, internal.py)\<close>

text \<open>
  The settings the library reads, each as the raw value the settings layer resolved (an
  environment variable arrives as text), and the functions that turn a raw value into the
  switch the code tests. The host's user model and its resolver are not code of the
  repository: users are records with the attributes the code reads, the resolver is a
  component of the settings that may raise (\<open>None\<close>).
\<close>

datatype setting = SNone | SBool bool | SInt int | SStr string

datatype forfeit_setting = FNone | FText string | FList "string list"

record user =
  u_id :: uid
  u_email :: string
  u_authenticated :: bool
  u_staff :: bool
  u_superuser :: bool

record settings =
  cf_plans :: "plan_entry list"
  cf_packages :: "credit_package list"
  cf_hold_ttl :: setting
  cf_legacy_lookup :: setting
  cf_strict :: setting
  cf_policy :: setting
  cf_resolver :: "user \<Rightarrow> bool option"
  cf_forfeit :: forfeit_setting
  cf_unknown_keys :: setting
  cf_unknown_plans :: setting
  cf_entitlement_keys :: "string list"
  cf_users :: "user list"

subsection \<open>Text of a setting\<close>

definition lower_char :: "char \<Rightarrow> char" where
  "lower_char c = (let n = of_char c :: nat in if 65 \<le> n \<and> n \<le> 90 then char_of (n + 32) else c)"

definition lower :: "string \<Rightarrow> string" where
  "lower s = map lower_char s"

definition is_space :: "char \<Rightarrow> bool" where
  "is_space c = (let n = of_char c :: nat in (9 \<le> n \<and> n \<le> 13) \<or> (28 \<le> n \<and> n \<le> 32))"

definition strip :: "string \<Rightarrow> string" where
  "strip s = rev (dropWhile is_space (rev (dropWhile is_space s)))"

definition is_digit :: "char \<Rightarrow> bool" where
  "is_digit c = (let n = of_char c :: nat in 48 \<le> n \<and> n \<le> 57)"

text \<open>
  \<open>int(text)\<close>: an optional sign and decimal digits, with single underscores allowed
  between digits; anything else raises.
\<close>

fun digits_value :: "bool \<Rightarrow> int \<Rightarrow> string \<Rightarrow> int option" where
  "digits_value after acc [] = (if after then Some acc else None)"
| "digits_value after acc (c # cs) =
     (if is_digit c then digits_value True (acc * 10 + int (of_char c - 48)) cs
      else if c = CHR ''_'' \<and> after then digits_value False acc cs
      else None)"

definition py_int :: "string \<Rightarrow> int option" where
  "py_int s =
     (case strip s of
        [] \<Rightarrow> None
      | c # cs \<Rightarrow>
          if c = CHR ''-'' then map_option uminus (digits_value False 0 cs)
          else if c = CHR ''+'' then digits_value False 0 cs
          else digits_value False 0 (c # cs))"

subsection \<open>Switches\<close>

definition TRUTHY :: "string list" where
  "TRUTHY = [''1'', ''true'', ''yes'', ''on'']"

definition FALSY :: "string list" where
  "FALSY = [''0'', ''false'', ''no'', ''off'']"

fun bool_of_setting :: "setting \<Rightarrow> bool" where
  "bool_of_setting SNone = False"
| "bool_of_setting (SBool b) = b"
| "bool_of_setting (SInt n) = (n \<noteq> 0)"
| "bool_of_setting (SStr s) = (s \<noteq> [])"

definition opened :: "setting \<Rightarrow> bool" where
  "opened v = (case v of SStr s \<Rightarrow> lower (strip s) \<in> set TRUTHY | _ \<Rightarrow> bool_of_setting v)"

definition closed_unless_denied :: "setting \<Rightarrow> bool" where
  "closed_unless_denied v = (case v of SStr s \<Rightarrow> lower (strip s) \<notin> set FALSY | _ \<Rightarrow> bool_of_setting v)"

definition allow_unknown_entitlement_keys :: "settings \<Rightarrow> bool" where
  "allow_unknown_entitlement_keys cf = opened (cf_unknown_keys cf)"

definition allow_unknown_plan_slugs :: "settings \<Rightarrow> bool" where
  "allow_unknown_plan_slugs cf = opened (cf_unknown_plans cf)"

definition strict_checkout_reconciliation :: "settings \<Rightarrow> bool" where
  "strict_checkout_reconciliation cf = closed_unless_denied (cf_strict cf)"

definition legacy_idempotency_json_lookup :: "settings \<Rightarrow> bool" where
  "legacy_idempotency_json_lookup cf = closed_unless_denied (cf_legacy_lookup cf)"

definition hold_default_ttl_seconds :: "settings \<Rightarrow> int" where
  "hold_default_ttl_seconds cf =
     (case cf_hold_ttl cf of
        SNone \<Rightarrow> 0
      | SBool b \<Rightarrow> max (if b then 1 else 0) 0
      | SInt n \<Rightarrow> max n 0
      | SStr s \<Rightarrow> (case py_int s of None \<Rightarrow> 3600 | Some n \<Rightarrow> max n 0))"

text \<open>\<open>value.split(",")\<close>: the current part is carried reversed.\<close>

fun split_comma :: "string \<Rightarrow> string \<Rightarrow> string list" where
  "split_comma part [] = [rev part]"
| "split_comma part (c # cs) =
     (if c = CHR '','' then rev part # split_comma [] cs else split_comma (c # part) cs)"

definition merge_forfeit_lot_sources :: "settings \<Rightarrow> string list" where
  "merge_forfeit_lot_sources cf =
     (case cf_forfeit cf of
        FNone \<Rightarrow> []
      | FText s \<Rightarrow> filter (\<lambda>p. p \<noteq> []) (map strip (split_comma [] s))
      | FList xs \<Rightarrow> xs)"

subsection \<open>Internal accounts: metered, not charged (internal.py)\<close>

definition POLICY_CHARGE :: string where
  "POLICY_CHARGE = ''charge''"

definition POLICY_METER_ONLY :: string where
  "POLICY_METER_ONLY = ''meter_only''"

definition MARKER :: string where
  "MARKER = ''internal_meter_only''"

definition WAIVED :: string where
  "WAIVED = ''waived_credits''"

definition staff_is_internal :: "user \<Rightarrow> bool option" where
  "staff_is_internal u = Some (u_authenticated u \<and> (u_staff u \<or> u_superuser u))"

text \<open>\<open>str(raw or "")\<close>: a falsy value is the empty text; \<open>str(True)\<close> is \<open>True\<close>.\<close>

definition setting_text :: "setting \<Rightarrow> string" where
  "setting_text v =
     (case v of SStr s \<Rightarrow> s | SBool True \<Rightarrow> ''True'' | SInt n \<Rightarrow> (if n = 0 then [] else int_str n) | _ \<Rightarrow> [])"

definition policy :: "settings \<Rightarrow> string" where
  "policy cf =
     (let value = lower (strip (setting_text (cf_policy cf)))
      in if value = POLICY_CHARGE \<or> value = POLICY_METER_ONLY then value else POLICY_CHARGE)"

definition is_internal :: "settings \<Rightarrow> user option \<Rightarrow> bool" where
  "is_internal cf u =
     (case u of None \<Rightarrow> False
      | Some x \<Rightarrow> (case cf_resolver cf x of None \<Rightarrow> False | Some b \<Rightarrow> b))"

definition meter_only :: "settings \<Rightarrow> user option \<Rightarrow> bool" where
  "meter_only cf u = (policy cf = POLICY_METER_ONLY \<and> is_internal cf u)"

definition mark :: "dict \<Rightarrow> int \<Rightarrow> dict" where
  "mark d credits = dset WAIVED (JInt credits) (dset MARKER (JBool True) d)"

definition was_waived :: "dict \<Rightarrow> bool" where
  "was_waived d = dtruthy d MARKER"

subsection \<open>What the switches promise\<close>

text \<open>
  A spelling nobody recognises leaves a default-off switch off and a default-on gate on.
\<close>

lemma opened_unrecognised:
  "lower (strip s) \<notin> set TRUTHY \<Longrightarrow> \<not> opened (SStr s)"
  by (simp add: opened_def)

lemma closed_unrecognised:
  "lower (strip s) \<notin> set FALSY \<Longrightarrow> closed_unless_denied (SStr s)"
  by (simp add: closed_unless_denied_def)

lemma ttl_nonneg: "0 \<le> hold_default_ttl_seconds cf"
  by (simp add: hold_default_ttl_seconds_def split: setting.splits option.splits)

lemma was_waived_mark [simp]: "was_waived (mark d n)"
  by (simp add: was_waived_def mark_def dtruthy_def MARKER_def WAIVED_def)

lemma dget_mark_WAIVED [simp]: "dget (mark d n) WAIVED = Some (JInt n)"
  by (simp add: mark_def)

lemma policy_cases: "policy cf = POLICY_CHARGE \<or> policy cf = POLICY_METER_ONLY"
  by (auto simp: policy_def Let_def)

lemma meter_only_None [simp]: "\<not> meter_only cf None"
  by (simp add: meter_only_def is_internal_def)

end
