(* ===== verification/Store.thy ===== *)
theory Store
  imports Conf
begin

section \<open>The rows and the database (models.py)\<close>

text \<open>
  One datatype per choices class, one record per model, one list per table. The constructors
  are the members of the classes of models.py; \<open>LOT_ADJUSTMENT\<close> is
  \<open>LotSource.ADJUSTMENT\<close>. A foreign key is the id of the row it points at, an optional
  one for a nullable column. \<open>created_at\<close> is the row's id: rows draw their ids from the one
  counter \<open>next_id\<close>, so id order is creation order and the id tie-break of every
  \<open>order_by("created_at", "id")\<close> is never reached. \<open>auto_now\<close> columns that no code
  path reads (\<open>updated_at\<close>) are not kept.
\<close>

subsection \<open>Choices\<close>

datatype sub_status =
  ACTIVE | TRIALING | PAST_DUE | CANCELLED | INCOMPLETE | INCOMPLETE_EXPIRED | UNPAID | PAUSED

datatype txn_type =
  CREDIT_PURCHASE | TRANSCRIPTION_CHARGE | AI_CHARGE | SUBSCRIPTION_BONUS | REFUND | ADJUSTMENT | EXPIRATION

datatype debt_reason = PARTIAL_DEBIT | CLAWBACK

datatype lot_source = PURCHASE | SUBSCRIPTION | GRANT | LOT_ADJUSTMENT | HOLD_RELEASE

datatype hold_status = HELD | CAPTURED | RELEASED | EXPIRED

fun sub_status_value :: "sub_status \<Rightarrow> string" where
  "sub_status_value ACTIVE = ''active''"
| "sub_status_value TRIALING = ''trialing''"
| "sub_status_value PAST_DUE = ''past_due''"
| "sub_status_value CANCELLED = ''cancelled''"
| "sub_status_value INCOMPLETE = ''incomplete''"
| "sub_status_value INCOMPLETE_EXPIRED = ''incomplete_expired''"
| "sub_status_value UNPAID = ''unpaid''"
| "sub_status_value PAUSED = ''paused''"

fun txn_type_value :: "txn_type \<Rightarrow> string" where
  "txn_type_value CREDIT_PURCHASE = ''credit_purchase''"
| "txn_type_value TRANSCRIPTION_CHARGE = ''transcription_charge''"
| "txn_type_value AI_CHARGE = ''ai_charge''"
| "txn_type_value SUBSCRIPTION_BONUS = ''subscription_bonus''"
| "txn_type_value REFUND = ''refund''"
| "txn_type_value ADJUSTMENT = ''adjustment''"
| "txn_type_value EXPIRATION = ''expiration''"

fun debt_reason_value :: "debt_reason \<Rightarrow> string" where
  "debt_reason_value PARTIAL_DEBIT = ''partial_debit''"
| "debt_reason_value CLAWBACK = ''clawback''"

fun lot_source_value :: "lot_source \<Rightarrow> string" where
  "lot_source_value PURCHASE = ''purchase''"
| "lot_source_value SUBSCRIPTION = ''subscription''"
| "lot_source_value GRANT = ''grant''"
| "lot_source_value LOT_ADJUSTMENT = ''adjustment''"
| "lot_source_value HOLD_RELEASE = ''hold_release''"

fun lot_source_label :: "lot_source \<Rightarrow> string" where
  "lot_source_label PURCHASE = ''Purchase''"
| "lot_source_label SUBSCRIPTION = ''Subscription''"
| "lot_source_label GRANT = ''Grant''"
| "lot_source_label LOT_ADJUSTMENT = ''Adjustment''"
| "lot_source_label HOLD_RELEASE = ''Hold Release''"

fun hold_status_value :: "hold_status \<Rightarrow> string" where
  "hold_status_value HELD = ''held''"
| "hold_status_value CAPTURED = ''captured''"
| "hold_status_value RELEASED = ''released''"
| "hold_status_value EXPIRED = ''expired''"

text \<open>Statuses that entitle the subscriber right now (\<open>Subscription.is_active\<close>).\<close>

definition ENTITLING_SUBSCRIPTION_STATUSES :: "sub_status list" where
  "ENTITLING_SUBSCRIPTION_STATUSES = [ACTIVE, TRIALING]"

definition DEFAULT_PLAN :: string where
  "DEFAULT_PLAN = ''free''"

subsection \<open>Rows\<close>

record wallet =
  w_id :: uuid
  w_user :: "uid option"
  w_pseudonym :: string
  w_merged_into :: "uuid option"
  w_balance :: int
  w_currency :: string

record lot =
  lot_id :: uuid
  lot_wallet :: uuid
  lot_source :: lot_source
  lot_initial :: int
  lot_remaining :: int
  lot_expires :: deadline
  lot_grant :: "uuid option"

record txn =
  txn_id :: uuid
  txn_wallet :: uuid
  txn_lot :: "uuid option"
  txn_type :: txn_type
  txn_amount :: "int option"
  txn_delta :: int
  txn_balance :: int
  txn_desc :: "string option"
  txn_meta :: dict
  txn_key :: string
  txn_created :: time

record hold =
  hold_id :: uuid
  hold_wallet :: uuid
  hold_credits :: int
  hold_type :: txn_type
  hold_desc :: "string option"
  hold_meta :: dict
  hold_key :: string
  hold_status :: hold_status
  hold_expires :: deadline
  hold_resolved :: "time option"

record alloc =
  alloc_id :: uuid
  alloc_hold :: uuid
  alloc_lot :: uuid
  alloc_credits :: int

record debt =
  debt_id :: uuid
  debt_wallet :: uuid
  debt_initial :: int
  debt_outstanding :: int
  debt_reason :: debt_reason
  debt_type :: txn_type
  debt_desc :: "string option"
  debt_meta :: dict
  debt_key :: string
  debt_txn :: "uuid option"
  debt_settled :: "time option"

record subscription =
  sub_id :: uuid
  sub_user :: "uid option"
  sub_pseudonym :: string
  sub_plan :: string
  sub_status :: sub_status
  sub_stripe_id :: "string option"
  sub_customer_id :: "string option"
  sub_last_event :: "time option"
  sub_period_start :: "time option"
  sub_period_end :: "time option"
  sub_cancel_at_end :: bool
  sub_cancelled_at :: "time option"

record provider_grant =
  pg_provider :: string
  pg_scope :: string
  pg_external :: string

record pending_period =
  pp_stripe_id :: string
  pp_customer_id :: string
  pp_status :: string
  pp_start :: "time option"
  pp_end :: "time option"
  pp_event_at :: "time option"

record comp_period =
  comp_id :: uuid
  comp_subscription :: uuid
  comp_plan :: string
  comp_starts :: time
  comp_ends :: time
  comp_reason :: string
  comp_granted_by :: string
  comp_revoked :: "time option"

record webhook_event =
  ev_id :: uuid
  ev_stripe_id :: string
  ev_type :: string
  ev_payload :: dict
  ev_processed :: "time option"
  ev_ignored_stale :: bool
  ev_error :: string
  ev_received :: time

text \<open>An event handed to the transactional outbox (\<open>emit\<close>): topic, payload, key.\<close>

record emitted =
  em_topic :: string
  em_payload :: dict
  em_key :: string

record db =
  wallets :: "wallet list"
  lots :: "lot list"
  txns :: "txn list"
  holds :: "hold list"
  allocs :: "alloc list"
  debts :: "debt list"
  subs :: "subscription list"
  grants :: "provider_grant list"
  pendings :: "pending_period list"
  comps :: "comp_period list"
  events :: "webhook_event list"
  outbox :: "emitted list"
  next_id :: uuid

definition empty_db :: db where
  "empty_db = \<lparr>wallets = [], lots = [], txns = [], holds = [], allocs = [], debts = [], subs = [],
     grants = [], pendings = [], comps = [], events = [], outbox = [], next_id = 0\<rparr>"

subsection \<open>Model properties\<close>

definition is_paid :: "subscription \<Rightarrow> bool" where
  "is_paid s = (sub_plan s \<noteq> DEFAULT_PLAN \<and>
     (case sub_stripe_id s of None \<Rightarrow> False | Some i \<Rightarrow> i \<noteq> []))"

definition is_active :: "time \<Rightarrow> subscription \<Rightarrow> bool" where
  "is_active now s =
     (if sub_status s \<notin> set ENTITLING_SUBSCRIPTION_STATUSES then False
      else (case sub_period_end s of None \<Rightarrow> True | Some e \<Rightarrow> now < e))"

definition comp_is_live :: "time \<Rightarrow> comp_period \<Rightarrow> bool" where
  "comp_is_live now c = (comp_revoked c = None \<and> comp_starts c \<le> now \<and> now < comp_ends c)"

subsection \<open>Exceptions\<close>

datatype error =
    ValueError string
  | KeyError string
  | TypeError string
  | InsufficientCreditsError int int
  | AccountNotFoundError
  | AmbiguousAccountError
  | HoldNotFoundError uuid
  | HoldStateError uuid hold_status
  | HoldChargeMissing uuid
  | HoldKeyResolvedError hold
  | IntegrityError
  | HandlerError string

subsection \<open>Elementary writes\<close>

text \<open>
  \<open>objects.create\<close> for the ledger tables: the row takes the next id and goes to the end of
  its table. \<open>save(update_fields=...)\<close> is \<open>upd_row\<close> on the row's id.
\<close>

definition create_wallet :: "uid \<Rightarrow> string \<Rightarrow> db \<Rightarrow> uuid \<times> db" where
  "create_wallet u cur d =
     (next_id d, d\<lparr>wallets := wallets d @ [\<lparr>w_id = next_id d, w_user = Some u, w_pseudonym = [],
        w_merged_into = None, w_balance = 0, w_currency = cur\<rparr>], next_id := Suc (next_id d)\<rparr>)"

definition create_lot ::
    "uuid \<Rightarrow> lot_source \<Rightarrow> int \<Rightarrow> deadline \<Rightarrow> uuid option \<Rightarrow> db \<Rightarrow> uuid \<times> db" where
  "create_lot w src n exp g d =
     (next_id d, d\<lparr>lots := lots d @ [\<lparr>lot_id = next_id d, lot_wallet = w, lot_source = src,
        lot_initial = n, lot_remaining = n, lot_expires = exp, lot_grant = g\<rparr>],
        next_id := Suc (next_id d)\<rparr>)"

definition new_txn ::
    "uuid \<Rightarrow> uuid \<Rightarrow> uuid option \<Rightarrow> txn_type \<Rightarrow> int option \<Rightarrow> int \<Rightarrow> int \<Rightarrow> string option \<Rightarrow> dict \<Rightarrow> string \<Rightarrow> time \<Rightarrow> txn" where
  "new_txn i w l ty amt delta bal desc meta key now =
     \<lparr>txn_id = i, txn_wallet = w, txn_lot = l, txn_type = ty, txn_amount = amt, txn_delta = delta,
      txn_balance = bal, txn_desc = desc, txn_meta = meta, txn_key = key, txn_created = now\<rparr>"

definition create_txn ::
    "uuid \<Rightarrow> uuid option \<Rightarrow> txn_type \<Rightarrow> int option \<Rightarrow> int \<Rightarrow> int \<Rightarrow> string option \<Rightarrow> dict \<Rightarrow> string \<Rightarrow> time \<Rightarrow> db \<Rightarrow> txn \<times> db" where
  "create_txn w l ty amt delta bal desc meta key now d =
     (let t = new_txn (next_id d) w l ty amt delta bal desc meta key now
      in (t, d\<lparr>txns := txns d @ [t], next_id := Suc (next_id d)\<rparr>))"

definition create_alloc :: "uuid \<Rightarrow> uuid \<Rightarrow> int \<Rightarrow> db \<Rightarrow> db" where
  "create_alloc h l n d =
     d\<lparr>allocs := allocs d @ [\<lparr>alloc_id = next_id d, alloc_hold = h, alloc_lot = l, alloc_credits = n\<rparr>],
       next_id := Suc (next_id d)\<rparr>"

definition upd_wallet :: "uuid \<Rightarrow> (wallet \<Rightarrow> wallet) \<Rightarrow> db \<Rightarrow> db" where
  "upd_wallet i f d = d\<lparr>wallets := upd_row w_id i f (wallets d)\<rparr>"

definition upd_lot :: "uuid \<Rightarrow> (lot \<Rightarrow> lot) \<Rightarrow> db \<Rightarrow> db" where
  "upd_lot i f d = d\<lparr>lots := upd_row lot_id i f (lots d)\<rparr>"

definition upd_txn :: "uuid \<Rightarrow> (txn \<Rightarrow> txn) \<Rightarrow> db \<Rightarrow> db" where
  "upd_txn i f d = d\<lparr>txns := upd_row txn_id i f (txns d)\<rparr>"

definition upd_hold :: "uuid \<Rightarrow> (hold \<Rightarrow> hold) \<Rightarrow> db \<Rightarrow> db" where
  "upd_hold i f d = d\<lparr>holds := upd_row hold_id i f (holds d)\<rparr>"

definition upd_alloc :: "uuid \<Rightarrow> (alloc \<Rightarrow> alloc) \<Rightarrow> db \<Rightarrow> db" where
  "upd_alloc i f d = d\<lparr>allocs := upd_row alloc_id i f (allocs d)\<rparr>"

definition upd_debt :: "uuid \<Rightarrow> (debt \<Rightarrow> debt) \<Rightarrow> db \<Rightarrow> db" where
  "upd_debt i f d = d\<lparr>debts := upd_row debt_id i f (debts d)\<rparr>"

definition upd_sub :: "uuid \<Rightarrow> (subscription \<Rightarrow> subscription) \<Rightarrow> db \<Rightarrow> db" where
  "upd_sub i f d = d\<lparr>subs := upd_row sub_id i f (subs d)\<rparr>"

definition emit :: "string \<Rightarrow> dict \<Rightarrow> string \<Rightarrow> db \<Rightarrow> db" where
  "emit topic payload key d =
     d\<lparr>outbox := outbox d @ [\<lparr>em_topic = topic, em_payload = payload, em_key = key\<rparr>]\<rparr>"

lemmas write_defs = create_wallet_def create_lot_def create_txn_def create_alloc_def upd_wallet_def
  upd_lot_def upd_txn_def upd_hold_def upd_alloc_def upd_debt_def upd_sub_def emit_def Let_def

text \<open>The wallet of a user: \<open>get_or_create_wallet\<close> and \<open>_lock_wallet\<close> differ in the row lock only.\<close>

definition wallet_of_user :: "db \<Rightarrow> uid \<Rightarrow> wallet option" where
  "wallet_of_user d u = find (\<lambda>w. w_user w = Some u) (wallets d)"

definition get_or_create_wallet :: "uid \<Rightarrow> db \<Rightarrow> uuid \<times> db" where
  "get_or_create_wallet u d =
     (case wallet_of_user d u of Some w \<Rightarrow> (w_id w, d) | None \<Rightarrow> create_wallet u ''USD'' d)"

definition lock_wallet :: "uid \<Rightarrow> db \<Rightarrow> uuid \<times> db" where
  "lock_wallet u d = get_or_create_wallet u d"

text \<open>A wallet row up to its cached balance: what a spend may not change.\<close>

definition wallet_static :: "wallet \<Rightarrow> wallet" where
  "wallet_static x = x\<lparr>w_balance := 0\<rparr>"

lemma wallet_static_fields [simp]:
  "w_id (wallet_static x) = w_id x" "w_user (wallet_static x) = w_user x"
  by (simp_all add: wallet_static_def)

lemma static_wallets:
  assumes "map wallet_static xs = map wallet_static ys"
  shows "map w_id xs = map w_id ys" "map w_user xs = map w_user ys"
proof -
  have "map w_id zs = map w_id (map wallet_static zs)" "map w_user zs = map w_user (map wallet_static zs)"
    for zs by simp_all
  then show "map w_id xs = map w_id ys" "map w_user xs = map w_user ys" using assms by metis+
qed

text \<open>So a user keeps the wallet the next call will lock.\<close>

lemma wallet_of_user_static:
  "map_option w_id (wallet_of_user d u) =
    map_option fst (find (\<lambda>p. snd p = Some u) (map (\<lambda>x. (w_id x, w_user x)) (wallets d)))"
proof -
  have "map_option w_id (find (\<lambda>w. w_user w = Some u) ws) =
      map_option fst (find (\<lambda>p. snd p = Some u) (map (\<lambda>x. (w_id x, w_user x)) ws))" for ws
    by (induction ws) auto
  then show ?thesis by (simp add: wallet_of_user_def)
qed

lemma static_wallet_of_user:
  assumes "map wallet_static (wallets d') = map wallet_static (wallets d)"
  shows "map_option w_id (wallet_of_user d' u) = map_option w_id (wallet_of_user d u)"
proof -
  have "map (\<lambda>x. (w_id x, w_user x)) ws = map (\<lambda>x. (w_id x, w_user x)) (map wallet_static ws)" for ws
    by simp
  with assms have "map (\<lambda>x. (w_id x, w_user x)) (wallets d') = map (\<lambda>x. (w_id x, w_user x)) (wallets d)"
    by metis
  then show ?thesis by (simp add: wallet_of_user_static)
qed

lemma lock_wallet_again:
  assumes "map wallet_static (wallets d') = map wallet_static (wallets d)" and "lock_wallet u d = (w, d)"
    and "w \<in> w_id ` set (wallets d)" and "wallet_of_user d u \<noteq> None"
  shows "lock_wallet u d' = (w, d')"
  using static_wallet_of_user[OF assms(1), of u] assms
  by (auto simp: lock_wallet_def get_or_create_wallet_def split: option.splits)

definition wallet_balance :: "db \<Rightarrow> uuid \<Rightarrow> int" where
  "wallet_balance d w = (case get_row w_id w (wallets d) of None \<Rightarrow> 0 | Some x \<Rightarrow> w_balance x)"

end
