(* ===== verification/Lots.thy ===== *)
theory Lots
  imports Store
begin

section \<open>Credit lots: the live filter, the consumption walk, the expiry sweep\<close>

text \<open>
  The part of services.py every operation stands on: which lots are live, the order a spend
  walks them in, the balance cache, the sweep that zeroes what is due, the walk that takes
  credits out, and the lookup of an earlier call by its idempotency key. The wallet row lock
  makes each of these atomic for one wallet, so they are functions from database to
  database. The second half proves what they do to the credit totals of a wallet.
\<close>

subsection \<open>Live lots and the balance cache\<close>

definition live_lot :: "time \<Rightarrow> lot \<Rightarrow> bool" where
  "live_lot now l = (0 < lot_remaining l \<and> At now < lot_expires l)"

definition wallet_lots :: "db \<Rightarrow> uuid \<Rightarrow> lot list" where
  "wallet_lots d w = filter (\<lambda>l. lot_wallet l = w) (lots d)"

text \<open>
  \<open>order_by(F("expires_at").asc(nulls_last=True), "created_at", "id")\<close>: a stable sort of
  the table by deadline.
\<close>

definition live_lots_ordered :: "db \<Rightarrow> uuid \<Rightarrow> time \<Rightarrow> lot list" where
  "live_lots_ordered d w now = sort_key lot_expires (filter (live_lot now) (wallet_lots d w))"

text \<open>\<open>open_holds\<close>: reservations still holding credits, newest first.\<close>

definition open_holds :: "db \<Rightarrow> uuid \<Rightarrow> hold list" where
  "open_holds d w = rev (filter (\<lambda>h. hold_wallet h = w \<and> hold_status h = HELD) (holds d))"

definition live_balance :: "db \<Rightarrow> uuid \<Rightarrow> time \<Rightarrow> int" where
  "live_balance d w now = (\<Sum>l\<leftarrow>filter (live_lot now) (wallet_lots d w). lot_remaining l)"

definition sync_balance :: "uuid \<Rightarrow> time \<Rightarrow> db \<Rightarrow> int \<times> db" where
  "sync_balance w now d =
     (let balance = live_balance d w now
      in if balance \<noteq> wallet_balance d w
         then (balance, upd_wallet w (\<lambda>x. x\<lparr>w_balance := balance\<rparr>) d)
         else (balance, d))"

subsection \<open>The expiry sweep of one wallet\<close>

definition due_lots :: "db \<Rightarrow> uuid \<Rightarrow> time \<Rightarrow> lot list" where
  "due_lots d w now =
     sort_key lot_expires (filter (\<lambda>l. 0 < lot_remaining l \<and> lot_expires l \<le> At now) (wallet_lots d w))"

fun deadline_json :: "deadline \<Rightarrow> json" where
  "deadline_json (At t) = JTime t"
| "deadline_json Never = JNull"

fun expire_walk :: "uuid \<Rightarrow> time \<Rightarrow> lot list \<Rightarrow> int \<Rightarrow> db \<Rightarrow> db" where
  "expire_walk w now [] running d = d"
| "expire_walk w now (l # ls) running d =
     (let amount = lot_remaining l;
          d1 = upd_lot (lot_id l) (\<lambda>x. x\<lparr>lot_remaining := 0\<rparr>) d;
          (t, d2) = create_txn w (Some (lot_id l)) EXPIRATION None (- amount) (running - amount)
            (Some (''Credits expired ('' @ lot_source_label (lot_source l) @ '')''))
            [(''lot_id'', JStr (uuid_str (lot_id l))),
             (''source'', JStr (lot_source_value (lot_source l))),
             (''expires_at'', deadline_json (lot_expires l))]
            [] now d1
      in expire_walk w now ls (running - amount) d2)"

definition expire_due_lots :: "uuid \<Rightarrow> time \<Rightarrow> db \<Rightarrow> int \<times> db" where
  "expire_due_lots w now d =
     (let due = due_lots d w now
      in if due = [] then (0, d)
         else let total = (\<Sum>l\<leftarrow>due. lot_remaining l);
                  running = live_balance d w now + total
              in (total, snd (sync_balance w now (expire_walk w now due running d))))"

subsection \<open>The consumption walk\<close>

fun walk_lots :: "int \<Rightarrow> lot list \<Rightarrow> (lot \<times> int) list" where
  "walk_lots outstanding [] = []"
| "walk_lots outstanding (l # ls) =
     (if outstanding \<le> 0 then []
      else let amount = min outstanding (lot_remaining l)
           in (l, amount) # walk_lots (outstanding - amount) ls)"

definition take_from_lot :: "lot \<times> int \<Rightarrow> db \<Rightarrow> db" where
  "take_from_lot p d = upd_lot (lot_id (fst p)) (\<lambda>x. x\<lparr>lot_remaining := lot_remaining (fst p) - snd p\<rparr>) d"

definition consume_lots :: "uuid \<Rightarrow> int \<Rightarrow> time \<Rightarrow> db \<Rightarrow> error + (lot \<times> int) list \<times> db" where
  "consume_lots w credits now d =
     (let ls = live_lots_ordered d w now;
          available = (\<Sum>l\<leftarrow>ls. lot_remaining l)
      in if available < credits then Inl (InsufficientCreditsError available credits)
         else let taken = walk_lots credits ls in Inr (taken, fold take_from_lot taken d))"

definition consumption_metadata :: "(lot \<times> int) list \<Rightarrow> json" where
  "consumption_metadata taken =
     JArr (map (\<lambda>(l, n). JObj [(''lot_id'', JStr (uuid_str (lot_id l))), (''credits'', JInt n)]) taken)"

definition single_lot :: "(lot \<times> int) list \<Rightarrow> uuid option" where
  "single_lot taken = (case taken of [p] \<Rightarrow> Some (lot_id (fst p)) | _ \<Rightarrow> None)"

text \<open>
  \<open>.first()\<close> on the ledger is the newest matching row: the model's ordering is
  \<open>-created_at\<close>.
\<close>

definition transaction_by_idempotency_key :: "settings \<Rightarrow> db \<Rightarrow> uuid \<Rightarrow> string \<Rightarrow> txn option" where
  "transaction_by_idempotency_key cf d w key =
     (case find (\<lambda>t. txn_wallet t = w \<and> txn_key t = key) (rev (txns d)) of
        Some t \<Rightarrow> Some t
      | None \<Rightarrow>
          if \<not> legacy_idempotency_json_lookup cf then None
          else find (\<lambda>t. txn_wallet t = w \<and> dget (txn_meta t) ''idempotency_key'' = Some (JStr key))
                 (rev (txns d)))"

subsection \<open>Well-formed lot tables and sums over them\<close>

definition lots_ok :: "db \<Rightarrow> bool" where
  "lots_ok d = (distinct (map lot_id (lots d)) \<and>
     (\<forall>l \<in> set (lots d). lot_id l < next_id d \<and> 0 \<le> lot_remaining l \<and> lot_remaining l \<le> lot_initial l))"

text \<open>
  The remaining credits of the lots that satisfy a predicate. A predicate a spend cannot
  change (\<open>lot_pred\<close>) ignores the remaining count and the granting row.
\<close>

definition lot_sum :: "(lot \<Rightarrow> bool) \<Rightarrow> db \<Rightarrow> int" where
  "lot_sum P d = (\<Sum>l\<leftarrow>lots d. if P l then lot_remaining l else 0)"

definition lot_pred :: "(lot \<Rightarrow> bool) \<Rightarrow> bool" where
  "lot_pred P = (\<forall>l n g. P (l\<lparr>lot_remaining := n\<rparr>) = P l \<and> P (l\<lparr>lot_grant := g\<rparr>) = P l)"

definition in_wallet :: "uuid \<Rightarrow> lot \<Rightarrow> bool" where
  "in_wallet w l = (lot_wallet l = w)"

definition spendable :: "uuid \<Rightarrow> time \<Rightarrow> lot \<Rightarrow> bool" where
  "spendable w now l = (lot_wallet l = w \<and> At now < lot_expires l)"

lemma lot_pred_in_wallet [simp]: "lot_pred (in_wallet w)"
  by (simp add: lot_pred_def in_wallet_def)

lemma lot_pred_spendable [simp]: "lot_pred (spendable w now)"
  by (simp add: lot_pred_def spendable_def)

definition lot_total :: "db \<Rightarrow> uuid \<Rightarrow> int" where
  "lot_total d w = lot_sum (in_wallet w) d"

lemma lots_okD:
  assumes "lots_ok d" and "l \<in> set (lots d)"
  shows "lot_id l < next_id d" "0 \<le> lot_remaining l" "lot_remaining l \<le> lot_initial l"
  using assms by (auto simp: lots_ok_def)

lemma lots_ok_distinct: "lots_ok d \<Longrightarrow> distinct (map lot_id (lots d))"
  by (simp add: lots_ok_def)

lemma live_balance_spendable:
  assumes "lots_ok d"
  shows "live_balance d w now = lot_sum (spendable w now) d"
proof -
  have "live_balance d w now = (\<Sum>l\<leftarrow>lots d. if lot_wallet l = w \<and> live_lot now l then lot_remaining l else 0)"
    by (simp add: live_balance_def wallet_lots_def sum_list_filter_if conj_commute)
  also have "\<dots> = lot_sum (spendable w now) d"
    unfolding lot_sum_def
  proof (rule arg_cong[where f = sum_list], rule map_cong[OF refl])
    fix l assume "l \<in> set (lots d)"
    with assms have "0 \<le> lot_remaining l" by (rule lots_okD)
    then show "(if lot_wallet l = w \<and> live_lot now l then lot_remaining l else 0) =
        (if spendable w now l then lot_remaining l else 0)"
      by (auto simp: live_lot_def spendable_def)
  qed
  finally show ?thesis .
qed

lemma live_balance_nonneg: "0 \<le> live_balance d w now"
  unfolding live_balance_def by (rule sum_list_nonneg_int) (auto simp: live_lot_def)

lemma lot_total_nonneg: "lots_ok d \<Longrightarrow> 0 \<le> lot_total d w"
  unfolding lot_total_def lot_sum_def by (rule sum_list_nonneg_int) (auto dest: lots_okD)

lemma live_le_total:
  assumes "lots_ok d"
  shows "live_balance d w now \<le> lot_total d w"
proof -
  have "lot_sum (spendable w now) d \<le> lot_sum (in_wallet w) d"
    unfolding lot_sum_def
    by (rule sum_list_mono) (auto simp: spendable_def in_wallet_def dest: lots_okD[OF assms])
  then show ?thesis by (simp add: live_balance_spendable[OF assms] lot_total_def)
qed

text \<open>Time only takes credits away: with the lots unchanged, a later live balance is no larger.\<close>

lemma live_balance_antimono:
  assumes "lots_ok d" and "t \<le> t'"
  shows "live_balance d w t' \<le> live_balance d w t"
proof -
  have "At t' < e \<Longrightarrow> At t < e" for e using assms(2) by (cases e) auto
  then have "lot_sum (spendable w t') d \<le> lot_sum (spendable w t) d"
    unfolding lot_sum_def
    by (intro sum_list_mono) (auto simp: spendable_def dest: lots_okD[OF assms(1)])
  then show ?thesis by (simp add: live_balance_spendable[OF assms(1)])
qed

lemma live_balance_eq_ordered:
  "(\<Sum>l\<leftarrow>live_lots_ordered d w now. lot_remaining l) = live_balance d w now"
  by (simp add: live_lots_ordered_def live_balance_def sum_list_sort_key)

lemma set_live_lots_ordered:
  "set (live_lots_ordered d w now) = {l \<in> set (lots d). lot_wallet l = w \<and> live_lot now l}"
  by (auto simp: live_lots_ordered_def wallet_lots_def)

lemma distinct_live_lots_ordered:
  assumes "lots_ok d"
  shows "distinct (map lot_id (live_lots_ordered d w now))"
proof -
  have "distinct (map lot_id (filter (live_lot now) (wallet_lots d w)))"
    using lots_ok_distinct[OF assms] by (simp add: wallet_lots_def distinct_map_filter)
  moreover have "mset (map lot_id (live_lots_ordered d w now)) =
      mset (map lot_id (filter (live_lot now) (wallet_lots d w)))"
    by (simp add: live_lots_ordered_def)
  ultimately show ?thesis by (metis mset_eq_imp_distinct_iff)
qed

subsection \<open>The walk takes exactly what was asked, soonest deadline first\<close>

abbreviation taken_sum :: "(lot \<times> int) list \<Rightarrow> int" where
  "taken_sum taken \<equiv> (\<Sum>p\<leftarrow>taken. snd p)"

lemma walk_lots_sum:
  assumes "\<forall>l \<in> set ls. 0 \<le> lot_remaining l" and "0 \<le> n" and "n \<le> (\<Sum>l\<leftarrow>ls. lot_remaining l)"
  shows "taken_sum (walk_lots n ls) = n"
  using assms
proof (induction ls arbitrary: n)
  case (Cons l ls)
  let ?a = "min n (lot_remaining l)"
  have "0 \<le> (\<Sum>l\<leftarrow>ls. lot_remaining l)"
    using Cons.prems(1) by (intro sum_list_nonneg_int) auto
  with Cons.prems have "taken_sum (walk_lots (n - ?a) ls) = n - ?a"
    by (intro Cons.IH) (auto simp: min_def)
  with Cons.prems show ?case by (simp add: Let_def)
qed simp

lemma walk_lots_amounts:
  assumes "\<forall>l \<in> set ls. 0 < lot_remaining l" and "(l, a) \<in> set (walk_lots n ls)"
  shows "l \<in> set ls" "0 < a" "a \<le> lot_remaining l"
  using assms by (induction ls arbitrary: n) (auto simp: Let_def split: if_splits)

lemma walk_lots_prefix: "\<exists>ls'. map fst (walk_lots n ls) @ ls' = ls"
proof (induction ls arbitrary: n)
  case (Cons l ls)
  from Cons[of "n - min n (lot_remaining l)"] obtain ls' where
    "map fst (walk_lots (n - min n (lot_remaining l)) ls) @ ls' = ls" by blast
  then show ?case by (auto simp: Let_def)
qed simp

text \<open>Only the last lot of the walk can be left with credits: every earlier one is emptied.\<close>

lemma walk_lots_butlast_emptied:
  assumes "(l, a) \<in> set (butlast (walk_lots n ls))"
  shows "a = lot_remaining l"
  using assms
proof (induction ls arbitrary: n)
  case (Cons x ls)
  let ?a = "min n (lot_remaining x)"
  let ?rest = "walk_lots (n - ?a) ls"
  show ?case
  proof (cases "n \<le> 0 \<or> ?rest = []")
    case True
    then have "butlast (walk_lots n (x # ls)) = []" by (auto simp: Let_def)
    with Cons.prems show ?thesis by (metis empty_iff list.set(1))
  next
    case False
    then have pos: "0 < n - ?a" by (cases ls) (auto split: if_splits)
    from False Cons.prems have "(l, a) = (x, ?a) \<or> (l, a) \<in> set (butlast ?rest)"
      by (auto simp: Let_def)
    with pos Cons.IH show ?thesis by auto
  qed
qed simp

lemma distinct_walk:
  assumes "distinct (map lot_id ls)"
  shows "distinct (map (lot_id \<circ> fst) (walk_lots n ls))"
proof -
  obtain ls' where "map fst (walk_lots n ls) @ ls' = ls" using walk_lots_prefix by blast
  with assms have "distinct (map lot_id (map fst (walk_lots n ls)))"
    by (metis distinct_append map_append)
  then show ?thesis by (simp add: comp_def)
qed

subsection \<open>Effect of the elementary lot writes on a sum\<close>

lemma lot_sum_upd_remaining:
  assumes "lots_ok d" and "l \<in> set (lots d)" and "lot_pred P"
  shows "lot_sum P (upd_lot (lot_id l) (\<lambda>x. x\<lparr>lot_remaining := n\<rparr>) d) =
    lot_sum P d + (if P l then n - lot_remaining l else 0)"
  using sum_list_upd_row[OF lots_ok_distinct[OF assms(1)] assms(2),
      where f = "\<lambda>x. x\<lparr>lot_remaining := n\<rparr>" and g = "\<lambda>l. if P l then lot_remaining l else 0"] assms(3)
  by (simp add: lot_sum_def upd_lot_def lot_pred_def)

lemma lots_ok_upd_remaining:
  assumes "lots_ok d" and "l \<in> set (lots d)" and "0 \<le> n" and "n \<le> lot_initial l"
  shows "lots_ok (upd_lot (lot_id l) (\<lambda>x. x\<lparr>lot_remaining := n\<rparr>) d)"
proof -
  have same: "lot_initial r = lot_initial l" if "r \<in> set (lots d)" "lot_id r = lot_id l" for r
    using lots_ok_distinct[OF assms(1)] assms(2) that by (metis distinct_map inj_onD)
  have "n \<le> lot_initial r" if "r \<in> set (lots d)" "lot_id r = lot_id l" for r
    using same[OF that] assms(4) by simp
  with assms(1,3) show ?thesis
    by (auto simp: lots_ok_def upd_lot_def map_upd_row set_upd_row)
qed

lemma take_from_lot_member:
  assumes "lots_ok d" and "l' \<in> set (lots d)" and "lot_id l' \<noteq> lot_id (fst p)"
  shows "l' \<in> set (lots (take_from_lot p d))"
  using assms by (auto simp: take_from_lot_def upd_lot_def set_upd_row image_iff intro!: bexI[of _ l'])

definition takes_ok :: "(lot \<times> int) list \<Rightarrow> db \<Rightarrow> bool" where
  "takes_ok taken d = (distinct (map (lot_id \<circ> fst) taken) \<and>
     (\<forall>(l, a) \<in> set taken. l \<in> set (lots d) \<and> 0 \<le> a \<and> a \<le> lot_remaining l))"

lemma takes_ok_step:
  assumes "lots_ok d" and "takes_ok (p # taken) d"
  shows "lots_ok (take_from_lot p d)" and "takes_ok taken (take_from_lot p d)"
proof -
  obtain l a where p: "p = (l, a)" by (cases p)
  from assms(2) p have l: "l \<in> set (lots d)" "0 \<le> a" "a \<le> lot_remaining l"
    by (auto simp: takes_ok_def)
  with assms(1) show "lots_ok (take_from_lot p d)"
    unfolding take_from_lot_def p fst_conv snd_conv
    by (intro lots_ok_upd_remaining) (auto dest: lots_okD)
  have "lot_id l' \<noteq> lot_id l" if "(l', a') \<in> set taken" for l' a'
    using assms(2) p that by (auto simp: takes_ok_def image_iff)
  then show "takes_ok taken (take_from_lot p d)"
    using assms p by (fastforce simp: takes_ok_def intro!: take_from_lot_member)
qed

lemma fold_take_lots_ok: "lots_ok d \<Longrightarrow> takes_ok taken d \<Longrightarrow> lots_ok (fold take_from_lot taken d)"
  by (induction taken arbitrary: d) (auto dest: takes_ok_step)

lemma lot_sum_fold_take:
  assumes "lots_ok d" and "takes_ok taken d" and "lot_pred P"
  shows "lot_sum P (fold take_from_lot taken d) = lot_sum P d - (\<Sum>p\<leftarrow>taken. if P (fst p) then snd p else 0)"
  using assms
proof (induction taken arbitrary: d)
  case (Cons p taken)
  obtain l a where p: "p = (l, a)" by (cases p)
  have "lot_sum P (take_from_lot p d) = lot_sum P d - (if P l then a else 0)"
    using lot_sum_upd_remaining[OF Cons.prems(1) _ Cons.prems(3), of l "lot_remaining l - a"] Cons.prems(2) p
    by (simp add: take_from_lot_def takes_ok_def)
  with Cons takes_ok_step[OF Cons.prems(1,2)] p show ?case by simp
qed simp

text \<open>The spend changes no table but the lots.\<close>

lemma fold_take_frame [frame]:
  "wallets (fold take_from_lot taken d) = wallets d" "txns (fold take_from_lot taken d) = txns d"
  "holds (fold take_from_lot taken d) = holds d" "allocs (fold take_from_lot taken d) = allocs d"
  "debts (fold take_from_lot taken d) = debts d" "next_id (fold take_from_lot taken d) = next_id d"
  "map lot_id (lots (fold take_from_lot taken d)) = map lot_id (lots d)"
  "subs (fold take_from_lot taken d) = subs d" "grants (fold take_from_lot taken d) = grants d"
  "comps (fold take_from_lot taken d) = comps d" "outbox (fold take_from_lot taken d) = outbox d"
  "pendings (fold take_from_lot taken d) = pendings d" "events (fold take_from_lot taken d) = events d"
  by (induction taken arbitrary: d) (simp_all add: take_from_lot_def upd_lot_def map_upd_row)

lemma sync_balance_fst [simp]: "fst (sync_balance w now d) = live_balance d w now"
  by (simp add: sync_balance_def Let_def)

lemma sync_balance_frame [frame]:
  "lots (snd (sync_balance w now d)) = lots d" "txns (snd (sync_balance w now d)) = txns d"
  "holds (snd (sync_balance w now d)) = holds d" "allocs (snd (sync_balance w now d)) = allocs d"
  "debts (snd (sync_balance w now d)) = debts d" "next_id (snd (sync_balance w now d)) = next_id d"
  "subs (snd (sync_balance w now d)) = subs d" "grants (snd (sync_balance w now d)) = grants d"
  "comps (snd (sync_balance w now d)) = comps d" "outbox (snd (sync_balance w now d)) = outbox d"
  "pendings (snd (sync_balance w now d)) = pendings d" "events (snd (sync_balance w now d)) = events d"
  "map w_id (wallets (snd (sync_balance w now d))) = map w_id (wallets d)"
  "map wallet_static (wallets (snd (sync_balance w now d))) = map wallet_static (wallets d)"
  by (simp_all add: sync_balance_def Let_def upd_wallet_def map_upd_row wallet_static_def)

lemma sync_balance_eq:
  "snd (sync_balance w now d) = upd_wallet w (\<lambda>x. x\<lparr>w_balance := live_balance d w now\<rparr>) d \<or>
   snd (sync_balance w now d) = d \<and> wallet_balance d w = live_balance d w now"
  by (simp add: sync_balance_def Let_def)

text \<open>The sums depend on the lots only, so a write to another table keeps them.\<close>

lemma lot_sum_cong: "lots d = lots d' \<Longrightarrow> lot_sum P d = lot_sum P d'"
  by (simp add: lot_sum_def)

lemma live_balance_cong: "lots d = lots d' \<Longrightarrow> live_balance d w now = live_balance d' w now"
  by (simp add: live_balance_def wallet_lots_def)

lemma lots_ok_cong: "lots d = lots d' \<Longrightarrow> next_id d \<le> next_id d' \<Longrightarrow> lots_ok d \<Longrightarrow> lots_ok d'"
  by (fastforce simp: lots_ok_def)

lemma wallet_balance_sync:
  assumes "w \<in> w_id ` set (wallets d)"
  shows "wallet_balance (snd (sync_balance w now d)) w = live_balance d w now"
proof -
  have "get_row w_id w (upd_row w_id w (\<lambda>x. x\<lparr>w_balance := b\<rparr>) ws) =
      map_option (\<lambda>x. x\<lparr>w_balance := b\<rparr>) (get_row w_id w ws)" for b and ws :: "wallet list"
    by (induction ws) (auto simp: get_row_def)
  moreover obtain x where "get_row w_id w (wallets d) = Some x"
    using assms by (cases "get_row w_id w (wallets d)") (auto simp: get_row_None)
  ultimately show ?thesis
    using sync_balance_eq[of w now d] by (auto simp: wallet_balance_def upd_wallet_def)
qed

subsection \<open>The contract of a spend\<close>

text \<open>
  What \<open>debit\<close>, \<open>hold\<close>, \<open>capture\<close> and the debt collection rely on when they
  take credits out of a wallet. The client lemmas below are proved from these three laws
  alone; the interpretation after the locale shows that \<open>consume_lots\<close> keeps them.
\<close>

locale spend_contract =
  fixes good :: "'s \<Rightarrow> bool"
    and available :: "'s \<Rightarrow> int"
    and spend :: "int \<Rightarrow> 's \<Rightarrow> 'e + 't \<times> 's"
    and amount :: "'t \<Rightarrow> int"
  assumes refuse: "available s < n \<Longrightarrow> \<exists>e. spend n s = Inl e"
    and cover: "good s \<Longrightarrow> 0 \<le> n \<Longrightarrow> n \<le> available s \<Longrightarrow>
      \<exists>t s'. spend n s = Inr (t, s') \<and> good s' \<and> amount t = n \<and> available s' = available s - n"
    and solvent: "0 \<le> available s"
begin

lemma spend_iff: "good s \<Longrightarrow> 0 \<le> n \<Longrightarrow> (\<exists>t s'. spend n s = Inr (t, s')) \<longleftrightarrow> n \<le> available s"
  using refuse[of s n] cover[of s n] by (cases "n \<le> available s") auto

lemma spend_result:
  assumes "good s" and "0 \<le> n" and "spend n s = Inr (t, s')"
  shows "n \<le> available s" "good s'" "amount t = n" "available s' = available s - n"
proof -
  show "n \<le> available s" using refuse[of s n] assms(3) by (cases "available s < n") auto
  with cover[OF assms(1,2)] assms(3) show "good s'" "amount t = n" "available s' = available s - n"
    by auto
qed

text \<open>A charge capped at what is there never fails: partial debit and debt collection.\<close>

lemma spend_capped:
  assumes "good s" and "0 \<le> n"
  shows "\<exists>t s'. spend (min n (available s)) s = Inr (t, s') \<and> good s' \<and>
    amount t = min n (available s) \<and> available s' = available s - min n (available s)"
  using cover[OF assms(1), of "min n (available s)"] assms(2) solvent[of s] by simp

text \<open>Two spends in a row succeed together exactly when their sum is covered.\<close>

lemma spend_twice:
  assumes "good s" and "0 \<le> m" and "0 \<le> n" and "m + n \<le> available s"
  shows "\<exists>t s' u s''. spend m s = Inr (t, s') \<and> spend n s' = Inr (u, s'') \<and>
    available s'' = available s - (m + n)"
proof -
  from cover[OF assms(1,2)] assms obtain t s' where
    1: "spend m s = Inr (t, s')" "good s'" "available s' = available s - m" by auto
  moreover from cover[OF 1(2) assms(3)] 1(3) assms obtain u s'' where
    "spend n s' = Inr (u, s'')" "available s'' = available s' - n" by auto
  ultimately show ?thesis by auto
qed

end

lemma walk_takes_ok:
  assumes "lots_ok d"
  shows "takes_ok (walk_lots n (live_lots_ordered d w now)) d"
proof -
  have pos: "\<forall>l \<in> set (live_lots_ordered d w now). 0 < lot_remaining l"
    by (auto simp: set_live_lots_ordered live_lot_def)
  show ?thesis
    using distinct_walk[OF distinct_live_lots_ordered[OF assms]] walk_lots_amounts[OF pos]
    by (fastforce simp: takes_ok_def set_live_lots_ordered)
qed

lemma consume_lots_cases:
  "consume_lots w n now d =
    (if live_balance d w now < n then Inl (InsufficientCreditsError (live_balance d w now) n)
     else Inr (walk_lots n (live_lots_ordered d w now),
               fold take_from_lot (walk_lots n (live_lots_ordered d w now)) d))"
  by (simp add: consume_lots_def Let_def live_balance_eq_ordered)

lemma walk_live_sum:
  assumes "0 \<le> n" and "n \<le> live_balance d w now"
  shows "taken_sum (walk_lots n (live_lots_ordered d w now)) = n"
  using assms by (intro walk_lots_sum) (auto simp: set_live_lots_ordered live_lot_def live_balance_eq_ordered)

text \<open>What one spend does to any sum over the lots: it takes the amounts off the lots it names.\<close>

lemma consume_lots_lot_sum:
  assumes "lots_ok d" and "consume_lots w n now d = Inr (taken, d')" and "lot_pred P"
  shows "lot_sum P d' = lot_sum P d - (\<Sum>p\<leftarrow>taken. if P (fst p) then snd p else 0)"
  using assms lot_sum_fold_take[OF assms(1) walk_takes_ok[OF assms(1)] assms(3)]
  by (auto simp: consume_lots_cases split: if_splits)

lemma consume_lots_ok:
  assumes "lots_ok d" and "consume_lots w n now d = Inr (taken, d')"
  shows "lots_ok d'"
  using assms fold_take_lots_ok[OF assms(1) walk_takes_ok[OF assms(1)]]
  by (auto simp: consume_lots_cases split: if_splits)

lemma consume_lots_taken:
  assumes "consume_lots w n now d = Inr (taken, d')" and "p \<in> set taken"
  shows "fst p \<in> set (lots d)" "lot_wallet (fst p) = w" "live_lot now (fst p)"
    "0 < snd p" "snd p \<le> lot_remaining (fst p)"
proof -
  have pos: "\<forall>l \<in> set (live_lots_ordered d w now). 0 < lot_remaining l"
    by (auto simp: set_live_lots_ordered live_lot_def)
  from assms have "p \<in> set (walk_lots n (live_lots_ordered d w now))"
    by (auto simp: consume_lots_cases split: if_splits)
  with walk_lots_amounts[OF pos, of "fst p" "snd p" n]
  show "fst p \<in> set (lots d)" "lot_wallet (fst p) = w" "live_lot now (fst p)"
    "0 < snd p" "snd p \<le> lot_remaining (fst p)"
    by (auto simp: set_live_lots_ordered)
qed

lemma consume_lots_amount:
  assumes "0 \<le> n" and "consume_lots w n now d = Inr (taken, d')"
  shows "taken_sum taken = n" "n \<le> live_balance d w now"
  using assms walk_live_sum by (auto simp: consume_lots_cases split: if_splits)

text \<open>A spend of one wallet leaves the sums of the others and takes exactly its amount off its own.\<close>

lemma taken_sum_if:
  assumes "\<And>p. p \<in> set taken \<Longrightarrow> P (fst p) = b"
  shows "(\<Sum>p\<leftarrow>taken. if P (fst p) then snd p else 0) = (if b then taken_sum taken else (0::int))"
proof -
  have "(\<Sum>p\<leftarrow>taken. if P (fst p) then snd p else 0) = (\<Sum>p\<leftarrow>taken. if b then snd p else 0)"
    using assms by (intro arg_cong[where f = sum_list] map_cong) auto
  then show ?thesis by (cases b) simp_all
qed

lemma consume_lots_total [measure_simps]:
  assumes "lots_ok d" and "0 \<le> n" and "consume_lots w n now d = Inr (taken, d')"
  shows "lot_total d' w' = lot_total d w' - (if w' = w then n else 0)"
proof -
  have "(\<Sum>p\<leftarrow>taken. if in_wallet w' (fst p) then snd p else 0) = (if w' = w then taken_sum taken else 0)"
    by (rule taken_sum_if) (auto simp: in_wallet_def dest: consume_lots_taken[OF assms(3)])
  with consume_lots_lot_sum[OF assms(1,3), of "in_wallet w'"] consume_lots_amount[OF assms(2,3)]
  show ?thesis by (simp add: lot_total_def)
qed

lemma consume_lots_live [measure_simps]:
  assumes "lots_ok d" and "0 \<le> n" and "consume_lots w n now d = Inr (taken, d')"
  shows "live_balance d' w' now = live_balance d w' now - (if w' = w then n else 0)"
proof -
  have "(\<Sum>p\<leftarrow>taken. if spendable w' now (fst p) then snd p else 0) = (if w' = w then taken_sum taken else 0)"
    by (rule taken_sum_if)
      (auto simp: spendable_def live_lot_def dest: consume_lots_taken[OF assms(3)])
  with consume_lots_lot_sum[OF assms(1,3), of "spendable w' now"] consume_lots_amount[OF assms(2,3)]
  show ?thesis
    by (simp add: live_balance_spendable[OF assms(1)] live_balance_spendable[OF consume_lots_ok[OF assms(1,3)]])
qed

lemma consume_lots_frame [frame]:
  assumes "consume_lots w n now d = Inr (taken, d')"
  shows "wallets d' = wallets d" "txns d' = txns d" "holds d' = holds d" "allocs d' = allocs d"
    "debts d' = debts d" "next_id d' = next_id d" "map lot_id (lots d') = map lot_id (lots d)"
    "subs d' = subs d" "grants d' = grants d" "comps d' = comps d" "outbox d' = outbox d"
    "pendings d' = pendings d" "events d' = events d"
  using assms by (auto simp: consume_lots_cases fold_take_frame split: if_splits)

interpretation lot_spend: spend_contract
  lots_ok "\<lambda>d. live_balance d w now" "\<lambda>n d. consume_lots w n now d" taken_sum
  for w now
proof
  fix s :: db and n :: int
  show "live_balance s w now < n \<Longrightarrow> \<exists>e. consume_lots w n now s = Inl e"
    by (simp add: consume_lots_cases)
  show "0 \<le> live_balance s w now" by (rule live_balance_nonneg)
  assume s: "lots_ok s" and n: "0 \<le> n" "n \<le> live_balance s w now"
  obtain t s' where eq: "consume_lots w n now s = Inr (t, s')"
    using n(2) by (simp add: consume_lots_cases)
  with consume_lots_ok[OF s eq] consume_lots_amount[OF n(1) eq] consume_lots_live[OF s n(1) eq]
  show "\<exists>t s'. consume_lots w n now s = Inr (t, s') \<and> lots_ok s' \<and> taken_sum t = n \<and>
      live_balance s' w now = live_balance s w now - n"
    by auto
qed

end
