(* ===== verification/Ledger.thy ===== *)
theory Ledger
  imports Lots
begin

section \<open>The credit totals of a wallet and the structure of the database\<close>

text \<open>
  The three places a wallet's credits can be: in its lots (\<open>lot_total\<close>), reserved by its
  open holds (\<open>reserved\<close>), and on the ledger (\<open>ledger_total\<close>, the sum of the
  \<open>credits_delta\<close> column). \<open>balanced\<close> says that the first two add up to the third:
  no credit exists that no ledger row granted, and none left without a row saying so.
  \<open>wf_db\<close> is the structure the tables keep: ids, foreign keys, ranges; \<open>holds_ok\<close> ties
  every open hold to its allocations. Each elementary write is shown to keep \<open>wf_db\<close> once
  (collection \<open>wf_intros\<close>), so that an operation keeps it because it is made of them.
\<close>

named_theorems wf_intros "elementary writes keep the structure of the database"

subsection \<open>Totals\<close>

definition ledger_total :: "db \<Rightarrow> uuid \<Rightarrow> int" where
  "ledger_total d w = (\<Sum>t\<leftarrow>txns d. if txn_wallet t = w then txn_delta t else 0)"

definition alloc_total :: "db \<Rightarrow> uuid \<Rightarrow> int" where
  "alloc_total d h = (\<Sum>a\<leftarrow>allocs d. if alloc_hold a = h then alloc_credits a else 0)"

definition held_in :: "uuid \<Rightarrow> hold \<Rightarrow> bool" where
  "held_in w h = (hold_wallet h = w \<and> hold_status h = HELD)"

definition reserved :: "db \<Rightarrow> uuid \<Rightarrow> int" where
  "reserved d w = (\<Sum>h\<leftarrow>holds d. if held_in w h then alloc_total d (hold_id h) else 0)"

definition balanced :: "db \<Rightarrow> uuid \<Rightarrow> bool" where
  "balanced d w = (lot_total d w + reserved d w = ledger_total d w)"

lemma totals_cong:
  "lots d = lots d' \<Longrightarrow> lot_total d w = lot_total d' w"
  "txns d = txns d' \<Longrightarrow> ledger_total d w = ledger_total d' w"
  "allocs d = allocs d' \<Longrightarrow> alloc_total d h = alloc_total d' h"
  "allocs d = allocs d' \<Longrightarrow> holds d = holds d' \<Longrightarrow> reserved d w = reserved d' w"
  by (simp_all add: lot_total_def lot_sum_def ledger_total_def alloc_total_def reserved_def
      cong: if_cong)

subsection \<open>Structure\<close>

definition wallet_ids :: "db \<Rightarrow> uuid set" where
  "wallet_ids d = w_id ` set (wallets d)"

definition wallets_ok :: "db \<Rightarrow> bool" where
  "wallets_ok d = (distinct (map w_id (wallets d)) \<and> (\<forall>i \<in> wallet_ids d. i < next_id d))"

definition txns_ok :: "db \<Rightarrow> bool" where
  "txns_ok d = (distinct (map txn_id (txns d)) \<and>
     (\<forall>t \<in> set (txns d). txn_id t < next_id d \<and> txn_wallet t \<in> wallet_ids d))"

definition lot_refs_ok :: "db \<Rightarrow> bool" where
  "lot_refs_ok d = (\<forall>l \<in> set (lots d). lot_wallet l \<in> wallet_ids d \<and>
     (\<forall>g. lot_grant l = Some g \<longrightarrow> (\<exists>t \<in> set (txns d). txn_id t = g \<and> txn_wallet t = lot_wallet l)))"

definition hold_rows_ok :: "db \<Rightarrow> bool" where
  "hold_rows_ok d = (distinct (map hold_id (holds d)) \<and>
     (\<forall>h \<in> set (holds d). hold_id h < next_id d \<and> hold_wallet h \<in> wallet_ids d))"

definition alloc_rows_ok :: "db \<Rightarrow> bool" where
  "alloc_rows_ok d = (distinct (map alloc_id (allocs d)) \<and>
     (\<forall>a \<in> set (allocs d). alloc_id a < next_id d \<and> 0 \<le> alloc_credits a \<and>
        (\<exists>h \<in> set (holds d). hold_id h = alloc_hold a \<and>
           (\<exists>l \<in> set (lots d). lot_id l = alloc_lot a \<and> lot_wallet l = hold_wallet h))))"

definition debts_ok :: "db \<Rightarrow> bool" where
  "debts_ok d = (distinct (map debt_id (debts d)) \<and>
     (\<forall>x \<in> set (debts d). debt_id x < next_id d \<and> debt_wallet x \<in> wallet_ids d \<and>
        0 \<le> debt_outstanding x \<and> debt_outstanding x \<le> debt_initial x \<and>
        (\<forall>g. debt_txn x = Some g \<longrightarrow> g < next_id d)))"

definition wf_db :: "db \<Rightarrow> bool" where
  "wf_db d = (lots_ok d \<and> wallets_ok d \<and> txns_ok d \<and> lot_refs_ok d \<and> hold_rows_ok d \<and>
     alloc_rows_ok d \<and> debts_ok d)"

text \<open>
  An open hold reserves exactly its allocations, and one recorded as metered only reserves
  nothing.
\<close>

definition holds_ok :: "db \<Rightarrow> bool" where
  "holds_ok d = (\<forall>h \<in> set (holds d). hold_status h = HELD \<longrightarrow>
     0 \<le> hold_credits h \<and> alloc_total d (hold_id h) = hold_credits h \<and>
     (was_waived (hold_meta h) \<longrightarrow> hold_credits h = 0))"

lemma wf_lots_ok [simp]: "wf_db d \<Longrightarrow> lots_ok d"
  by (simp add: wf_db_def)

lemma wf_debts_ok: "wf_db d \<Longrightarrow> debts_ok d"
  by (simp add: wf_db_def)

lemma wf_empty: "wf_db empty_db"
  by (simp add: wf_db_def lots_ok_def wallets_ok_def txns_ok_def lot_refs_ok_def hold_rows_ok_def
      alloc_rows_ok_def debts_ok_def wallet_ids_def empty_db_def)

lemmas table_ok_defs = lots_ok_def wallets_ok_def txns_ok_def lot_refs_ok_def hold_rows_ok_def
  alloc_rows_ok_def debts_ok_def wallet_ids_def

subsection \<open>Lots up to their remaining count\<close>

definition lot_static :: "lot \<Rightarrow> lot" where
  "lot_static l = l\<lparr>lot_remaining := 0\<rparr>"

lemma lot_static_fields [simp]:
  "lot_id (lot_static l) = lot_id l" "lot_wallet (lot_static l) = lot_wallet l"
  "lot_grant (lot_static l) = lot_grant l" "lot_expires (lot_static l) = lot_expires l"
  "lot_source (lot_static l) = lot_source l" "lot_initial (lot_static l) = lot_initial l"
  by (simp_all add: lot_static_def)

text \<open>
  \<open>spends d d'\<close>: from \<open>d\<close> to \<open>d'\<close> the lots are the same rows up to their
  remaining counts, ledger rows of known wallets were appended, wallet rows kept their ids
  and owners, debts stayed in range, and holds and allocations are untouched. It is what the
  sweep, the walk, the balance cache and the debt collection are allowed to do.
\<close>

definition spends :: "db \<Rightarrow> db \<Rightarrow> bool" where
  "spends d d' = (map lot_static (lots d') = map lot_static (lots d) \<and>
     (\<exists>ts. txns d' = txns d @ ts \<and> txns_ok d') \<and> lots_ok d' \<and>
     map wallet_static (wallets d') = map wallet_static (wallets d) \<and>
     holds d' = holds d \<and> allocs d' = allocs d \<and> debts_ok d' \<and> next_id d \<le> next_id d')"

lemma wallet_ids_cong: "map w_id (wallets d) = map w_id (wallets d') \<Longrightarrow> wallet_ids d = wallet_ids d'"
  unfolding wallet_ids_def by (metis list.set_map)

lemma spends_w_id: "spends d d' \<Longrightarrow> map w_id (wallets d') = map w_id (wallets d)"
  unfolding spends_def by (blast intro: static_wallets(1))

lemma spends_wallet_ids: "spends d d' \<Longrightarrow> wallet_ids d' = wallet_ids d"
  by (rule wallet_ids_cong) (rule spends_w_id)

lemma static_image:
  assumes "map lot_static xs = map lot_static ys" and "l \<in> set xs"
  shows "\<exists>l' \<in> set ys. lot_static l' = lot_static l"
proof -
  from assms(2) have "lot_static l \<in> set (map lot_static xs)" by simp
  with assms(1) have "lot_static l \<in> set (map lot_static ys)" by simp
  then show ?thesis by auto
qed

lemma static_fields_eq:
  assumes "lot_static l = lot_static l'"
  shows "lot_id l = lot_id l'" "lot_wallet l = lot_wallet l'" "lot_grant l = lot_grant l'"
    "lot_expires l = lot_expires l'" "lot_source l = lot_source l'"
  by (metis assms lot_static_fields)+

lemma spends_lot:
  assumes "spends d d'" and "l \<in> set (lots d)"
  shows "\<exists>l' \<in> set (lots d'). lot_static l' = lot_static l"
  by (rule static_image[OF _ assms(2)]) (use assms(1) in \<open>simp add: spends_def\<close>)

lemma spends_lot':
  assumes "spends d d'" and "l \<in> set (lots d')"
  shows "\<exists>l' \<in> set (lots d). lot_static l' = lot_static l"
  by (rule static_image[OF _ assms(2)]) (use assms(1) in \<open>simp add: spends_def\<close>)

lemma spends_wf:
  assumes "wf_db d" and "spends d d'"
  shows "wf_db d'"
proof -
  note ids = spends_wallet_ids[OF assms(2)]
  have le: "next_id d \<le> next_id d'" and same: "holds d' = holds d" "allocs d' = allocs d"
    "map w_id (wallets d') = map w_id (wallets d)"
    using assms(2) spends_w_id[OF assms(2)] by (auto simp: spends_def)
  have "lot_refs_ok d'"
    unfolding lot_refs_ok_def
  proof (intro ballI)
    fix l assume "l \<in> set (lots d')"
    with spends_lot'[OF assms(2)] obtain l' where
      l': "l' \<in> set (lots d)" "lot_static l' = lot_static l" by blast
    with assms(1) have "lot_wallet l' \<in> wallet_ids d \<and>
      (\<forall>g. lot_grant l' = Some g \<longrightarrow> (\<exists>t \<in> set (txns d). txn_id t = g \<and> txn_wallet t = lot_wallet l'))"
      by (simp add: wf_db_def lot_refs_ok_def)
    moreover have "set (txns d) \<subseteq> set (txns d')" using assms(2) by (auto simp: spends_def)
    ultimately show "lot_wallet l \<in> wallet_ids d' \<and>
      (\<forall>g. lot_grant l = Some g \<longrightarrow> (\<exists>t \<in> set (txns d'). txn_id t = g \<and> txn_wallet t = lot_wallet l))"
      using static_fields_eq[OF l'(2)] ids by (metis subsetD)
  qed
  moreover have "alloc_rows_ok d'"
    unfolding alloc_rows_ok_def same
  proof (intro conjI ballI)
    show "distinct (map alloc_id (allocs d))" using assms(1) by (simp add: wf_db_def alloc_rows_ok_def)
    fix a assume "a \<in> set (allocs d)"
    with assms(1) obtain h l where hl: "alloc_id a < next_id d" "0 \<le> alloc_credits a"
      "h \<in> set (holds d)" "hold_id h = alloc_hold a"
      "l \<in> set (lots d)" "lot_id l = alloc_lot a" "lot_wallet l = hold_wallet h"
      by (auto simp: wf_db_def alloc_rows_ok_def)
    with spends_lot[OF assms(2)] obtain l' where "l' \<in> set (lots d')" "lot_static l' = lot_static l"
      by blast
    with hl static_fields_eq[OF this(2)] le
    show "alloc_id a < next_id d'" "0 \<le> alloc_credits a" "\<exists>h \<in> set (holds d). hold_id h = alloc_hold a \<and>
       (\<exists>l \<in> set (lots d'). lot_id l = alloc_lot a \<and> lot_wallet l = hold_wallet h)" by auto
  qed
  moreover have "wallets_ok d'" "hold_rows_ok d'"
    using assms(1) ids le same by (fastforce simp: wf_db_def wallets_ok_def hold_rows_ok_def)+
  moreover have "lots_ok d'" "txns_ok d'" "debts_ok d'" using assms(2) by (auto simp: spends_def)
  ultimately show ?thesis by (simp add: wf_db_def)
qed

lemma spends_refl: "wf_db d \<Longrightarrow> spends d d"
  by (simp add: spends_def wf_db_def)

lemma spends_trans: "spends d d' \<Longrightarrow> spends d' d'' \<Longrightarrow> spends d d''"
  by (fastforce simp: spends_def)

lemma spends_reserved: "spends d d' \<Longrightarrow> reserved d' w = reserved d w"
  by (rule totals_cong) (simp_all add: spends_def)

lemma spends_holds_ok: "spends d d' \<Longrightarrow> holds_ok d' = holds_ok d"
  by (simp add: spends_def holds_ok_def alloc_total_def)

subsection \<open>The elementary writes\<close>

lemma map_static_upd [simp]:
  "map lot_static (upd_row lot_id i (\<lambda>x. x\<lparr>lot_remaining := n\<rparr>) ls) = map lot_static ls"
  by (rule map_upd_row) (simp add: lot_static_def)

lemma spends_upd_remaining:
  assumes "wf_db d" and "l \<in> set (lots d)" and "0 \<le> n" and "n \<le> lot_initial l"
  shows "spends d (upd_lot (lot_id l) (\<lambda>x. x\<lparr>lot_remaining := n\<rparr>) d)"
  using assms lots_ok_upd_remaining[OF wf_lots_ok[OF assms(1)] assms(2-4)]
  by (simp add: spends_def upd_lot_def wf_db_def txns_ok_def debts_ok_def wallet_ids_def)

lemma txns_ok_create:
  assumes "txns_ok d" and "w \<in> wallet_ids d"
  shows "txns_ok (snd (create_txn w l ty amt delta bal desc meta key now d))"
proof -
  have "next_id d \<notin> txn_id ` set (txns d)" using assms(1) by (auto simp: txns_ok_def)
  with assms show ?thesis
    by (auto simp: create_txn_def Let_def txns_ok_def wallet_ids_def new_txn_def)
qed

lemma spends_create_txn:
  assumes "wf_db d" and "w \<in> wallet_ids d"
  shows "spends d (snd (create_txn w l ty amt delta bal desc meta key now d))"
proof -
  have "lots_ok (snd (create_txn w l ty amt delta bal desc meta key now d))"
    by (rule lots_ok_cong[of d]) (use assms(1) in \<open>simp_all add: create_txn_def Let_def\<close>)
  moreover have "txns_ok (snd (create_txn w l ty amt delta bal desc meta key now d))"
    using assms by (intro txns_ok_create) (simp_all add: wf_db_def)
  moreover have "debts_ok (snd (create_txn w l ty amt delta bal desc meta key now d))"
    using wf_debts_ok[OF assms(1)] by (auto simp: create_txn_def Let_def debts_ok_def wallet_ids_def less_Suc_eq)
  ultimately show ?thesis
    by (simp add: spends_def create_txn_def Let_def)
qed

lemma spends_sync:
  assumes "wf_db d"
  shows "spends d (snd (sync_balance w now d))"
proof -
  let ?d = "snd (sync_balance w now d)"
  have "wallet_ids ?d = wallet_ids d" by (rule wallet_ids_cong) (rule sync_balance_frame)
  moreover have "lots_ok ?d" by (rule lots_ok_cong[of d]) (use assms in \<open>simp_all add: sync_balance_frame\<close>)
  moreover have "txns_ok d" using assms by (simp add: wf_db_def)
  ultimately show ?thesis
    using wf_debts_ok[OF assms] by (simp add: spends_def sync_balance_frame txns_ok_def debts_ok_def)
qed

lemma spends_consume:
  assumes "wf_db d" and "consume_lots w n now d = Inr (taken, d')"
  shows "spends d d'"
proof -
  have "map lot_static (lots (fold take_from_lot ts x)) = map lot_static (lots x)" for ts x
    by (induction ts arbitrary: x) (simp_all add: take_from_lot_def upd_lot_def)
  then have "map lot_static (lots d') = map lot_static (lots d)"
    using assms(2) by (auto simp: consume_lots_cases split: if_splits)
  with assms consume_lots_frame[OF assms(2)] consume_lots_ok[OF wf_lots_ok[OF assms(1)] assms(2)]
  show ?thesis by (simp add: spends_def wf_db_def txns_ok_def debts_ok_def wallet_ids_def)
qed

lemma ledger_create_txn [measure_simps]:
  "ledger_total (snd (create_txn w l ty amt delta bal desc meta key now d)) w' =
    ledger_total d w' + (if w' = w then delta else 0)"
  by (simp add: create_txn_def Let_def ledger_total_def new_txn_def)

lemma create_txn_frame [frame]:
  "lots (snd (create_txn w l ty amt delta bal desc meta key now d)) = lots d"
  "wallets (snd (create_txn w l ty amt delta bal desc meta key now d)) = wallets d"
  "holds (snd (create_txn w l ty amt delta bal desc meta key now d)) = holds d"
  "allocs (snd (create_txn w l ty amt delta bal desc meta key now d)) = allocs d"
  "debts (snd (create_txn w l ty amt delta bal desc meta key now d)) = debts d"
  "txns (snd (create_txn w l ty amt delta bal desc meta key now d)) =
     txns d @ [fst (create_txn w l ty amt delta bal desc meta key now d)]"
  by (simp_all add: create_txn_def Let_def)

lemma create_txn_row [simp]:
  "fst (create_txn w l ty amt delta bal desc meta key now d) =
     new_txn (next_id d) w l ty amt delta bal desc meta key now"
  by (simp add: create_txn_def Let_def)

lemma new_txn_fields [simp]:
  "txn_id (new_txn i w l ty amt delta bal desc meta key now) = i"
  "txn_wallet (new_txn i w l ty amt delta bal desc meta key now) = w"
  "txn_lot (new_txn i w l ty amt delta bal desc meta key now) = l"
  "txn_type (new_txn i w l ty amt delta bal desc meta key now) = ty"
  "txn_amount (new_txn i w l ty amt delta bal desc meta key now) = amt"
  "txn_delta (new_txn i w l ty amt delta bal desc meta key now) = delta"
  "txn_balance (new_txn i w l ty amt delta bal desc meta key now) = bal"
  "txn_meta (new_txn i w l ty amt delta bal desc meta key now) = meta"
  "txn_key (new_txn i w l ty amt delta bal desc meta key now) = key"
  by (simp_all add: new_txn_def)

lemma sync_totals [measure_simps]:
  "lot_total (snd (sync_balance w now d)) w' = lot_total d w'"
  "ledger_total (snd (sync_balance w now d)) w' = ledger_total d w'"
  "live_balance (snd (sync_balance w now d)) w' t = live_balance d w' t"
  by (rule totals_cong live_balance_cong; simp add: frame)+

subsection \<open>The expiry sweep\<close>

lemma set_due_lots:
  "set (due_lots d w now) =
    {l \<in> set (lots d). lot_wallet l = w \<and> 0 < lot_remaining l \<and> lot_expires l \<le> At now}"
  by (auto simp: due_lots_def wallet_lots_def)

lemma distinct_due_lots:
  assumes "lots_ok d"
  shows "distinct (map lot_id (due_lots d w now))"
proof -
  let ?f = "filter (\<lambda>l. 0 < lot_remaining l \<and> lot_expires l \<le> At now) (wallet_lots d w)"
  have "distinct (map lot_id ?f)"
    using lots_ok_distinct[OF assms] by (simp add: wallet_lots_def distinct_map_filter)
  moreover have "mset (map lot_id (due_lots d w now)) = mset (map lot_id ?f)"
    by (simp add: due_lots_def)
  ultimately show ?thesis by (metis mset_eq_imp_distinct_iff)
qed

text \<open>The sweep zeroes the lots it is given, and nothing else of the lot table.\<close>

lemma expire_walk_lots:
  "lots (expire_walk w now ls running d) =
    map (\<lambda>l. if lot_id l \<in> lot_id ` set ls then l\<lparr>lot_remaining := 0\<rparr> else l) (lots d)"
proof (induction ls arbitrary: running d)
  case (Cons l ls)
  then show ?case
    by (auto simp: Let_def split_beta create_txn_frame upd_lot_def upd_row_def)
qed simp

lemma expire_walk_spends:
  assumes "wf_db d" and "w \<in> wallet_ids d" and "distinct (map lot_id ls)"
    and "\<forall>l \<in> set ls. l \<in> set (lots d)"
  shows "spends d (expire_walk w now ls running d)"
  using assms
proof (induction ls arbitrary: running d)
  case Nil
  then show ?case by (simp add: spends_refl)
next
  case (Cons l ls)
  let ?d1 = "upd_lot (lot_id l) (\<lambda>x. x\<lparr>lot_remaining := 0\<rparr>) d"
  have l: "l \<in> set (lots d)" using Cons.prems by simp
  have s1: "spends d ?d1"
    using Cons.prems l lots_okD[OF wf_lots_ok[OF Cons.prems(1)] l]
    by (intro spends_upd_remaining) auto
  have w1: "w \<in> wallet_ids ?d1" using Cons.prems(2) spends_wallet_ids[OF s1] by simp
  have "l' \<in> set (lots ?d1)" if "l' \<in> set ls" for l'
  proof -
    have "lot_id l' \<noteq> lot_id l" using Cons.prems(3) that by (auto simp: image_iff)
    with that Cons.prems(4) show ?thesis by (auto simp: upd_lot_def set_upd_row image_iff)
  qed
  note in1 = this
  let ?d2 = "\<lambda>l' ty amt delta bal desc meta key. snd (create_txn w l' ty amt delta bal desc meta key now ?d1)"
  have s2: "spends ?d1 (?d2 l' ty amt delta bal desc meta key)" for l' ty amt delta bal desc meta key
    by (rule spends_create_txn[OF spends_wf[OF Cons.prems(1) s1] w1])
  have "spends (?d2 l' ty amt delta bal desc meta key)
      (expire_walk w now ls r (?d2 l' ty amt delta bal desc meta key))"
    for l' ty amt delta bal desc meta key r
    using Cons.prems in1 w1 spends_wallet_ids[OF s2]
    by (intro Cons.IH spends_wf[OF spends_wf[OF Cons.prems(1) s1] s2]) (auto simp: create_txn_frame)
  with s1 s2 show ?case
    by (simp add: Let_def split_beta) (blast intro: spends_trans)
qed

lemma expire_walk_ledger:
  "ledger_total (expire_walk w now ls running d) w' =
    ledger_total d w' - (if w' = w then (\<Sum>l\<leftarrow>ls. lot_remaining l) else 0)"
proof (induction ls arbitrary: running d)
  case (Cons l ls)
  have "ledger_total (upd_lot i f d) w' = ledger_total d w'" for i f
    by (simp add: ledger_total_def upd_lot_def)
  with Cons show ?case by (simp add: Let_def split_beta ledger_create_txn)
qed simp

lemma expire_walk_lot_sum:
  assumes "lots_ok d" and "distinct (map lot_id ls)" and "\<forall>l \<in> set ls. l \<in> set (lots d)" and "lot_pred P"
  shows "lot_sum P (expire_walk w now ls running d) =
    lot_sum P d - (\<Sum>l\<leftarrow>ls. if P l then lot_remaining l else 0)"
  using assms
proof (induction ls arbitrary: running d)
  case (Cons l ls)
  let ?d1 = "upd_lot (lot_id l) (\<lambda>x. x\<lparr>lot_remaining := 0\<rparr>) d"
  have l: "l \<in> set (lots d)" using Cons.prems by simp
  have ok1: "lots_ok ?d1"
    using lots_okD[OF Cons.prems(1) l] by (intro lots_ok_upd_remaining[OF Cons.prems(1) l]) auto
  have "l' \<in> set (lots ?d1)" if "l' \<in> set ls" for l'
  proof -
    have "lot_id l' \<noteq> lot_id l" using Cons.prems(2) that by (auto simp: image_iff)
    with that Cons.prems(3) show ?thesis by (auto simp: upd_lot_def set_upd_row image_iff)
  qed
  note in1 = this
  have "lot_sum P (expire_walk w now ls r (snd (create_txn w l' ty amt delta bal desc meta key now ?d1))) =
      lot_sum P ?d1 - (\<Sum>l\<leftarrow>ls. if P l then lot_remaining l else 0)"
    for l' ty amt delta bal desc meta key r
  proof -
    let ?d2 = "snd (create_txn w l' ty amt delta bal desc meta key now ?d1)"
    have "lots ?d2 = lots ?d1" by (rule create_txn_frame)
    then have "lot_sum P ?d2 = lot_sum P ?d1" by (rule lot_sum_cong)
    moreover have "lots_ok ?d2"
      by (rule lots_ok_cong[OF _ _ ok1]) (simp_all add: create_txn_frame create_txn_def Let_def)
    ultimately show ?thesis
      using Cons.prems in1 by (subst Cons.IH) (auto simp: create_txn_frame)
  qed
  then show ?case
    using lot_sum_upd_remaining[OF Cons.prems(1) l Cons.prems(4), of 0]
    by (simp add: Let_def split_beta)
qed simp

lemma expire_due_lots_snd:
  "snd (expire_due_lots w now d) =
    (if due_lots d w now = [] then d
     else snd (sync_balance w now (expire_walk w now (due_lots d w now)
       (live_balance d w now + (\<Sum>l\<leftarrow>due_lots d w now. lot_remaining l)) d)))"
  by (simp add: expire_due_lots_def Let_def)

lemma expire_due_lots_fst: "fst (expire_due_lots w now d) = (\<Sum>l\<leftarrow>due_lots d w now. lot_remaining l)"
  by (simp add: expire_due_lots_def Let_def)

lemma expire_spends:
  assumes "wf_db d" and "w \<in> wallet_ids d"
  shows "spends d (snd (expire_due_lots w now d))"
proof -
  have "spends d (expire_walk w now (due_lots d w now) r d)" for r
    using assms distinct_due_lots[of d] by (intro expire_walk_spends) (auto simp: set_due_lots)
  then show ?thesis
    using spends_sync spends_wf[OF assms(1)] spends_trans spends_refl[OF assms(1)]
    by (metis expire_due_lots_snd)
qed

lemma expire_lot_sum:
  assumes "lots_ok d" and "lot_pred P"
  shows "lot_sum P (snd (expire_due_lots w now d)) =
    lot_sum P d - (\<Sum>l\<leftarrow>due_lots d w now. if P l then lot_remaining l else 0)"
proof -
  have "lot_sum P (expire_walk w now (due_lots d w now) r d) =
      lot_sum P d - (\<Sum>l\<leftarrow>due_lots d w now. if P l then lot_remaining l else 0)" for r
    using assms distinct_due_lots[OF assms(1)] by (intro expire_walk_lot_sum) (auto simp: set_due_lots)
  moreover have "lot_sum P (snd (sync_balance w now x)) = lot_sum P x" for x
    by (rule lot_sum_cong) (simp add: sync_balance_frame)
  ultimately show ?thesis by (simp add: expire_due_lots_snd)
qed

lemma due_sum_if:
  assumes "\<And>l. l \<in> set (due_lots d w now) \<Longrightarrow> P l = b"
  shows "(\<Sum>l\<leftarrow>due_lots d w now. if P l then lot_remaining l else 0) =
    (if b then (\<Sum>l\<leftarrow>due_lots d w now. lot_remaining l) else 0)"
proof -
  have "(\<Sum>l\<leftarrow>due_lots d w now. if P l then lot_remaining l else 0) =
      (\<Sum>l\<leftarrow>due_lots d w now. if b then lot_remaining l else 0)"
    using assms by (intro arg_cong[where f = sum_list] map_cong) auto
  then show ?thesis by (cases b) simp_all
qed

text \<open>
  The sweep takes the same credits off the lots and off the ledger, and no credit that can
  still be spent.
\<close>

lemma expire_totals [measure_simps]:
  assumes "lots_ok d"
  shows "lot_total (snd (expire_due_lots w now d)) w' =
      lot_total d w' - (if w' = w then fst (expire_due_lots w now d) else 0)"
    and "ledger_total (snd (expire_due_lots w now d)) w' =
      ledger_total d w' - (if w' = w then fst (expire_due_lots w now d) else 0)"
proof -
  have "(\<Sum>l\<leftarrow>due_lots d w now. if in_wallet w' l then lot_remaining l else 0) =
      (if w' = w then (\<Sum>l\<leftarrow>due_lots d w now. lot_remaining l) else 0)"
    by (rule due_sum_if) (auto simp: set_due_lots in_wallet_def)
  with expire_lot_sum[OF assms, of "in_wallet w'"]
  show "lot_total (snd (expire_due_lots w now d)) w' =
      lot_total d w' - (if w' = w then fst (expire_due_lots w now d) else 0)"
    by (simp add: lot_total_def expire_due_lots_fst)
  show "ledger_total (snd (expire_due_lots w now d)) w' =
      ledger_total d w' - (if w' = w then fst (expire_due_lots w now d) else 0)"
    by (simp add: expire_due_lots_snd expire_due_lots_fst sync_totals expire_walk_ledger)
qed

lemma expire_live [measure_simps]:
  assumes "wf_db d" and "w \<in> wallet_ids d"
  shows "live_balance (snd (expire_due_lots w now d)) w' now = live_balance d w' now"
proof -
  have ok': "lots_ok (snd (expire_due_lots w now d))"
    using expire_spends[OF assms] by (simp add: spends_def)
  have "(\<Sum>l\<leftarrow>due_lots d w now. if spendable w' now l then lot_remaining l else 0) = 0"
    by (subst due_sum_if[where b = False]) (auto simp: set_due_lots spendable_def)
  with expire_lot_sum[OF wf_lots_ok[OF assms(1)], of "spendable w' now" w now]
  show ?thesis
    by (simp add: live_balance_spendable[OF ok'] live_balance_spendable[OF wf_lots_ok[OF assms(1)]])
qed

text \<open>After the sweep no credit of the wallet is past its deadline, so a second sweep is idle.\<close>

lemma expire_no_due:
  assumes "l \<in> set (lots (snd (expire_due_lots w now d)))" and "lot_wallet l = w" and "0 < lot_remaining l"
  shows "At now < lot_expires l"
proof (cases "due_lots d w now = []")
  case True
  with assms set_due_lots[of d w now] show ?thesis by (auto simp: expire_due_lots_snd not_le)
next
  case False
  with assms obtain x where x: "x \<in> set (lots d)"
    "l = (if lot_id x \<in> lot_id ` set (due_lots d w now) then x\<lparr>lot_remaining := 0\<rparr> else x)"
    by (auto simp: expire_due_lots_snd sync_balance_frame expire_walk_lots)
  with assms(3) have "l = x" "x \<notin> set (due_lots d w now)" by (auto split: if_splits)
  with x(1) assms show ?thesis by (auto simp: set_due_lots not_le)
qed

lemma expire_idle: "due_lots (snd (expire_due_lots w now d)) w now = []"
proof -
  have "l \<notin> set (due_lots (snd (expire_due_lots w now d)) w now)" for l
    using expire_no_due[of l w now d] by (auto simp: set_due_lots)
  then show ?thesis by (metis last_in_set)
qed

lemma expire_all_live:
  assumes "wf_db d" and "w \<in> wallet_ids d"
  shows "lot_total (snd (expire_due_lots w now d)) w = live_balance (snd (expire_due_lots w now d)) w now"
proof -
  let ?d = "snd (expire_due_lots w now d)"
  have ok': "lots_ok ?d" using expire_spends[OF assms] by (simp add: spends_def)
  have "(if in_wallet w l then lot_remaining l else 0) = (if spendable w now l then lot_remaining l else 0)"
    if "l \<in> set (lots ?d)" for l
    using expire_no_due[OF that] lots_okD[OF ok' that] by (fastforce simp: in_wallet_def spendable_def)
  then show ?thesis
    unfolding live_balance_spendable[OF ok'] lot_total_def lot_sum_def
    by (intro arg_cong[where f = sum_list] map_cong) auto
qed

lemma expire_balanced:
  assumes "wf_db d" and "w \<in> wallet_ids d"
  shows "balanced (snd (expire_due_lots w now d)) w' = balanced d w'"
  using expire_totals[OF wf_lots_ok[OF assms(1)]] spends_reserved[OF expire_spends[OF assms]]
  by (auto simp: balanced_def)

subsection \<open>The invariant of the database\<close>

text \<open>
  Structure, open holds, and the balance of every wallet. An operation inside \<open>spends\<close> keeps
  it as soon as it takes the same credits off the lots and off the ledger.
\<close>

definition inv :: "db \<Rightarrow> bool" where
  "inv d = (wf_db d \<and> holds_ok d \<and> (\<forall>w. balanced d w))"

lemma inv_empty: "inv empty_db"
  using wf_empty
  by (simp add: inv_def holds_ok_def balanced_def lot_total_def lot_sum_def reserved_def ledger_total_def)
    (simp add: empty_db_def)

lemma inv_wf [simp]: "inv d \<Longrightarrow> wf_db d"
  by (simp add: inv_def)

lemma inv_spends:
  assumes "inv d" and "spends d d'"
    and "\<And>w. lot_total d' w - ledger_total d' w = lot_total d w - ledger_total d w"
  shows "inv d'"
proof -
  have "balanced d' w" for w
  proof -
    have "balanced d w" using assms(1) by (simp add: inv_def)
    then show ?thesis using assms(3)[of w] spends_reserved[OF assms(2), of w] by (simp add: balanced_def)
  qed
  then show ?thesis
    using assms(1) spends_wf[OF _ assms(2)] spends_holds_ok[OF assms(2)] by (simp add: inv_def)
qed

lemma inv_expire:
  assumes "inv d" and "w \<in> wallet_ids d"
  shows "inv (snd (expire_due_lots w now d))"
  using assms by (intro inv_spends[OF assms(1) expire_spends]) (simp_all add: expire_totals)

lemma inv_sync: "inv d \<Longrightarrow> inv (snd (sync_balance w now d))"
  by (rule inv_spends[OF _ spends_sync]) (simp_all add: sync_totals)

subsection \<open>New lots and new wallets\<close>

lemma create_lot_frame [frame]:
  "wallets (snd (create_lot w src n exp g d)) = wallets d" "txns (snd (create_lot w src n exp g d)) = txns d"
  "holds (snd (create_lot w src n exp g d)) = holds d" "allocs (snd (create_lot w src n exp g d)) = allocs d"
  "debts (snd (create_lot w src n exp g d)) = debts d" "fst (create_lot w src n exp g d) = next_id d"
  "next_id (snd (create_lot w src n exp g d)) = Suc (next_id d)"
  by (simp_all add: create_lot_def)

lemma lots_ok_create:
  assumes "lots_ok d" and "0 \<le> n"
  shows "lots_ok (snd (create_lot w src n exp g d))"
  using assms by (auto simp: lots_ok_def create_lot_def less_Suc_eq)

lemma wf_create_lot [wf_intros]:
  assumes "wf_db d" and "w \<in> wallet_ids d" and "0 \<le> n"
    and "\<And>i. g = Some i \<Longrightarrow> \<exists>t \<in> set (txns d). txn_id t = i \<and> txn_wallet t = w"
  shows "wf_db (snd (create_lot w src n exp g d))"
proof -
  let ?d = "snd (create_lot w src n exp g d)"
  have ids: "wallet_ids ?d = wallet_ids d" by (simp add: wallet_ids_def create_lot_frame)
  have "lot_refs_ok ?d"
    using assms by (auto simp: wf_db_def lot_refs_ok_def create_lot_def wallet_ids_def)
  moreover have "alloc_rows_ok ?d"
    using assms(1) by (fastforce simp: wf_db_def alloc_rows_ok_def create_lot_def)
  moreover have "wallets_ok ?d" "txns_ok ?d" "hold_rows_ok ?d" "debts_ok ?d"
    using wf_db_def[THEN iffD1, OF assms(1)] ids
    by (simp_all add: wallets_ok_def txns_ok_def hold_rows_ok_def debts_ok_def create_lot_frame less_Suc_eq)
  ultimately show ?thesis
    using lots_ok_create[OF wf_lots_ok[OF assms(1)] assms(3)] by (simp add: wf_db_def)
qed

lemma create_lot_sum [measure_simps]:
  "lot_total (snd (create_lot w src n exp g d)) w' = lot_total d w' + (if w' = w then n else 0)"
  "ledger_total (snd (create_lot w src n exp g d)) w' = ledger_total d w'"
  "reserved (snd (create_lot w src n exp g d)) w' = reserved d w'"
  by (simp_all add: lot_total_def lot_sum_def create_lot_def in_wallet_def ledger_total_def reserved_def
      alloc_total_def cong: if_cong)

lemma create_lot_live [measure_simps]:
  assumes "lots_ok d" and "0 \<le> n"
  shows "live_balance (snd (create_lot w src n exp g d)) w' now =
    live_balance d w' now + (if w' = w \<and> At now < exp then n else 0)"
  unfolding live_balance_spendable[OF lots_ok_create[OF assms]] live_balance_spendable[OF assms(1)]
  by (simp add: lot_sum_def create_lot_def spendable_def)

lemma upd_grant_frame [frame]:
  "wallets (upd_lot i f d) = wallets d" "txns (upd_lot i f d) = txns d" "holds (upd_lot i f d) = holds d"
  "allocs (upd_lot i f d) = allocs d" "debts (upd_lot i f d) = debts d" "next_id (upd_lot i f d) = next_id d"
  by (simp_all add: upd_lot_def)

lemma wf_upd_grant [wf_intros]:
  assumes "wf_db d"
    and "\<And>l. l \<in> set (lots d) \<Longrightarrow> lot_id l = i \<Longrightarrow> \<exists>t \<in> set (txns d). txn_id t = g \<and> txn_wallet t = lot_wallet l"
  shows "wf_db (upd_lot i (\<lambda>x. x\<lparr>lot_grant := Some g\<rparr>) d)"
proof -
  let ?d = "upd_lot i (\<lambda>x. x\<lparr>lot_grant := Some g\<rparr>) d"
  have ids: "wallet_ids ?d = wallet_ids d" by (simp add: wallet_ids_def upd_grant_frame)
  have "lots_ok ?d"
    using wf_lots_ok[OF assms(1)] by (auto simp: lots_ok_def upd_lot_def map_upd_row set_upd_row)
  moreover have "lot_refs_ok ?d"
    using assms by (auto simp: wf_db_def lot_refs_ok_def upd_lot_def set_upd_row wallet_ids_def)
  moreover have "alloc_rows_ok ?d"
    unfolding alloc_rows_ok_def upd_grant_frame
  proof (intro conjI ballI)
    show "distinct (map alloc_id (allocs d))" using assms(1) by (simp add: wf_db_def alloc_rows_ok_def)
    fix a assume "a \<in> set (allocs d)"
    with assms(1) obtain h l where hl: "alloc_id a < next_id d" "0 \<le> alloc_credits a"
      "h \<in> set (holds d)" "hold_id h = alloc_hold a"
      "l \<in> set (lots d)" "lot_id l = alloc_lot a" "lot_wallet l = hold_wallet h"
      by (auto simp: wf_db_def alloc_rows_ok_def)
    let ?l = "if lot_id l = i then l\<lparr>lot_grant := Some g\<rparr> else l"
    have "?l \<in> set (lots ?d)" using hl(5) by (auto simp: upd_lot_def set_upd_row)
    moreover have "lot_id ?l = alloc_lot a" "lot_wallet ?l = hold_wallet h" using hl by auto
    ultimately show "alloc_id a < next_id d" "0 \<le> alloc_credits a" "\<exists>h \<in> set (holds d). hold_id h = alloc_hold a \<and>
       (\<exists>l \<in> set (lots ?d). lot_id l = alloc_lot a \<and> lot_wallet l = hold_wallet h)"
      using hl by blast+
  qed
  moreover have "wallets_ok ?d" "txns_ok ?d" "hold_rows_ok ?d" "debts_ok ?d"
    using assms(1) ids
    by (simp_all add: wf_db_def wallets_ok_def txns_ok_def hold_rows_ok_def debts_ok_def upd_grant_frame)
  ultimately show ?thesis by (simp add: wf_db_def)
qed

lemma upd_grant_totals [measure_simps]:
  "lot_total (upd_lot i (\<lambda>x. x\<lparr>lot_grant := Some g\<rparr>) d) w = lot_total d w"
  "ledger_total (upd_lot i (\<lambda>x. x\<lparr>lot_grant := Some g\<rparr>) d) w = ledger_total d w"
  "reserved (upd_lot i (\<lambda>x. x\<lparr>lot_grant := Some g\<rparr>) d) w = reserved d w"
  by (simp_all add: lot_total_def lot_sum_def upd_lot_def ledger_total_def reserved_def alloc_total_def
      in_wallet_def sum_list_upd_row_same cong: if_cong)

lemma upd_grant_live [measure_simps]:
  assumes "lots_ok d"
  shows "live_balance (upd_lot i (\<lambda>x. x\<lparr>lot_grant := Some g\<rparr>) d) w now = live_balance d w now"
proof -
  have "lots_ok (upd_lot i (\<lambda>x. x\<lparr>lot_grant := Some g\<rparr>) d)"
    using assms by (auto simp: lots_ok_def upd_lot_def map_upd_row set_upd_row)
  then show ?thesis
    using assms by (simp add: live_balance_spendable lot_sum_def upd_lot_def spendable_def sum_list_upd_row_same)
qed

lemma get_or_create_cases:
  obtains x where "x \<in> set (wallets d)" "w_user x = Some u" "get_or_create_wallet u d = (w_id x, d)"
  | "\<forall>x \<in> set (wallets d). w_user x \<noteq> Some u" "get_or_create_wallet u d = create_wallet u ''USD'' d"
proof (cases "wallet_of_user d u")
  case None
  then have "\<forall>x \<in> set (wallets d). w_user x \<noteq> Some u"
    unfolding wallet_of_user_def find_None_iff by blast
  with None show ?thesis by (intro that(2)) (simp_all add: get_or_create_wallet_def)
next
  case (Some x)
  then have "x \<in> set (wallets d)" "w_user x = Some u"
    unfolding wallet_of_user_def find_Some_iff by auto
  with Some show ?thesis by (intro that(1)) (simp_all add: get_or_create_wallet_def)
qed

lemma inv_create_wallet:
  assumes "inv d"
  shows "inv (snd (create_wallet u cur d))"
proof -
  let ?d = "snd (create_wallet u cur d)"
  have "next_id d \<notin> wallet_ids d" using assms by (auto simp: inv_def wf_db_def wallets_ok_def)
  then have "wallets_ok ?d" using assms
    by (auto simp: inv_def wf_db_def wallets_ok_def create_wallet_def wallet_ids_def less_Suc_eq)
  moreover have "wf_db d" using assms by simp
  then have "lots_ok ?d" "txns_ok ?d" "lot_refs_ok ?d" "hold_rows_ok ?d" "alloc_rows_ok ?d" "debts_ok ?d"
    by (fastforce simp: wf_db_def create_wallet_def table_ok_defs)+
  ultimately have "wf_db ?d" by (simp add: wf_db_def)
  with assms show ?thesis
    by (simp add: inv_def holds_ok_def create_wallet_def balanced_def lot_total_def lot_sum_def
        reserved_def ledger_total_def alloc_total_def cong: if_cong)
qed

lemma lock_wallet_facts:
  assumes "inv d" and "lock_wallet u d = (w, d0)"
  shows "inv d0" "w \<in> wallet_ids d0" "lots d0 = lots d" "txns d0 = txns d" "holds d0 = holds d"
    "allocs d0 = allocs d" "debts d0 = debts d"
proof -
  have "inv d0 \<and> w \<in> wallet_ids d0 \<and> lots d0 = lots d \<and> txns d0 = txns d \<and> holds d0 = holds d \<and>
    allocs d0 = allocs d \<and> debts d0 = debts d"
  proof (cases u d rule: get_or_create_cases)
    case (1 x)
    with assms show ?thesis by (auto simp: lock_wallet_def wallet_ids_def)
  next
    case 2
    with assms inv_create_wallet[OF assms(1), of u "''USD''"] show ?thesis
      by (auto simp: lock_wallet_def create_wallet_def wallet_ids_def)
  qed
  then show "inv d0" "w \<in> wallet_ids d0" "lots d0 = lots d" "txns d0 = txns d" "holds d0 = holds d"
    "allocs d0 = allocs d" "debts d0 = debts d" by auto
qed

subsection \<open>The balance cache\<close>

text \<open>The cached balance of a wallet is current when it is the live balance of this instant.\<close>

definition synced :: "db \<Rightarrow> uuid \<Rightarrow> time \<Rightarrow> bool" where
  "synced d w now = (wallet_balance d w = live_balance d w now)"

lemma synced_sync: "w \<in> wallet_ids d \<Longrightarrow> synced (snd (sync_balance w now d)) w now"
  by (simp add: synced_def wallet_balance_sync wallet_ids_def sync_totals)

lemma synced_cong:
  assumes "wallets d' = wallets d" and "live_balance d' w now = live_balance d w now"
  shows "synced d' w now = synced d w now"
  using assms by (simp add: synced_def wallet_balance_def)

lemma sync_result: "sync_balance w now d = (live_balance d w now, snd (sync_balance w now d))"
  by (metis prod.collapse sync_balance_fst)

text \<open>A synchronised cache is not exceeded by what is live later on, if the lots stay as they are.\<close>

lemma synced_later:
  assumes "lots_ok d" and "synced d w now" and "now \<le> t"
  shows "live_balance d w t \<le> wallet_balance d w"
  using live_balance_antimono[OF assms(1,3), of w] assms(2) by (simp add: synced_def)

end
