(* ===== verification/Debts.thy ===== *)
theory Debts
  imports Ledger
begin

section \<open>Debts: credits owed, and their collection (services.py)\<close>

text \<open>
  The uncollected debts of a wallet in collection order, the row a shortfall opens, and
  \<open>_settle_debts\<close>, which collects them oldest first out of the live lots inside the
  credit that brought the lots. Collection is a spend, so it rests on the contract
  \<open>spend_contract\<close>: an amount capped at what is live is never refused.
\<close>

definition open_debts :: "db \<Rightarrow> uuid \<Rightarrow> debt list" where
  "open_debts d w =
     filter (\<lambda>x. debt_wallet x = w \<and> debt_settled x = None \<and> 0 < debt_outstanding x) (debts d)"

definition outstanding_debt :: "db \<Rightarrow> uuid \<Rightarrow> int" where
  "outstanding_debt d w = (\<Sum>x\<leftarrow>open_debts d w. debt_outstanding x)"

definition clean_metadata :: "dict \<Rightarrow> dict" where
  "clean_metadata m = filter (\<lambda>(k, v). k \<noteq> ''idempotency_key'') m"

text \<open>\<open>text or default\<close>: the default stands in for \<open>None\<close> and for the empty text.\<close>

definition or_text :: "string option \<Rightarrow> string \<Rightarrow> string option" where
  "or_text s def = (case s of None \<Rightarrow> Some def | Some t \<Rightarrow> if t = [] then Some def else Some t)"

definition open_debt ::
    "uuid \<Rightarrow> int \<Rightarrow> debt_reason \<Rightarrow> txn_type \<Rightarrow> string option \<Rightarrow> dict \<Rightarrow> string \<Rightarrow> db \<Rightarrow> debt \<times> db" where
  "open_debt w credits reason ty desc meta key d =
     (let x = \<lparr>debt_id = next_id d, debt_wallet = w, debt_initial = credits, debt_outstanding = credits,
               debt_reason = reason, debt_type = ty, debt_desc = desc, debt_meta = clean_metadata meta,
               debt_key = key, debt_txn = None, debt_settled = None\<rparr>
      in (x, d\<lparr>debts := debts d @ [x], next_id := Suc (next_id d)\<rparr>))"

text \<open>
  A debt together with the ledger row of the operation that left it, tied in both directions:
  the debt names the row, the row's metadata names the debt.
\<close>

definition book_debt ::
    "uuid \<Rightarrow> int \<Rightarrow> debt_reason \<Rightarrow> txn_type \<Rightarrow> string option \<Rightarrow> string \<Rightarrow> txn \<Rightarrow> db \<Rightarrow> (txn \<times> debt) \<times> db" where
  "book_debt w credits reason ty desc key t d =
     (let (x, d1) = open_debt w credits reason ty desc (txn_meta t) key d;
          d2 = upd_debt (debt_id x) (\<lambda>y. y\<lparr>debt_txn := Some (txn_id t)\<rparr>) d1;
          m = dset ''debt_id'' (JStr (uuid_str (debt_id x))) (txn_meta t)
      in ((t\<lparr>txn_meta := m\<rparr>, x\<lparr>debt_txn := Some (txn_id t)\<rparr>),
          upd_txn (txn_id t) (\<lambda>y. y\<lparr>txn_meta := m\<rparr>) d2))"

definition collect_from :: "int \<Rightarrow> time \<Rightarrow> debt \<Rightarrow> debt" where
  "collect_from amount now x =
     (let left = debt_outstanding x - amount
      in if left \<le> 0 then x\<lparr>debt_outstanding := left, debt_settled := Some now\<rparr>
         else x\<lparr>debt_outstanding := left\<rparr>)"

definition settlement_meta :: "debt \<Rightarrow> (lot \<times> int) list \<Rightarrow> dict" where
  "settlement_meta x taken =
     dset ''lots'' (consumption_metadata taken)
       (dset ''debt_reason'' (JStr (debt_reason_value (debt_reason x)))
         (dset ''debt_settlement'' (JBool True)
           (dset ''debt_id'' (JStr (uuid_str (debt_id x))) (clean_metadata (debt_meta x)))))"

text \<open>The loop over the debts read at the start; \<open>collected\<close> is the running total.\<close>

fun settle_walk :: "uuid \<Rightarrow> time \<Rightarrow> debt list \<Rightarrow> int \<Rightarrow> db \<Rightarrow> error + int \<times> db" where
  "settle_walk w now [] collected d = Inr (collected, d)"
| "settle_walk w now (x # xs) collected d =
     (let avail = live_balance d w now
      in if avail \<le> 0 then Inr (collected, d)
         else let amount = min (debt_outstanding x) avail
              in case consume_lots w amount now d of
                   Inl e \<Rightarrow> Inl e
                 | Inr (taken, d1) \<Rightarrow>
                     let (balance, d2) = sync_balance w now d1;
                         d3 = upd_debt (debt_id x) (collect_from amount now) d2;
                         (t, d4) = create_txn w (single_lot taken) (debt_type x) None (- amount) balance
                           (or_text (debt_desc x)
                             (''Debt settlement ('' @ debt_reason_value (debt_reason x) @ '')''))
                           (settlement_meta x taken) [] now d3
                     in settle_walk w now xs (collected + amount) d4)"

definition settle_debts :: "uuid \<Rightarrow> time \<Rightarrow> db \<Rightarrow> error + int \<times> db" where
  "settle_debts w now d =
     (let ds = open_debts d w in if ds = [] then Inr (0, d) else settle_walk w now ds 0 d)"

subsection \<open>Collection keeps the structure and moves the same credits off the lots and the ledger\<close>

lemma clean_metadata_key [simp]: "dget (clean_metadata m) ''idempotency_key'' = None"
  by (auto simp: clean_metadata_def dget_def map_of_eq_None_iff)

lemma clean_metadata_other:
  assumes "k \<noteq> ''idempotency_key''"
  shows "dget (clean_metadata m) k = dget m k"
  using assms unfolding clean_metadata_def dget_def by (induction m) auto

lemma upd_debt_frame [frame]:
  "lots (upd_debt i f d) = lots d" "wallets (upd_debt i f d) = wallets d" "txns (upd_debt i f d) = txns d"
  "holds (upd_debt i f d) = holds d" "allocs (upd_debt i f d) = allocs d"
  "next_id (upd_debt i f d) = next_id d"
  by (simp_all add: upd_debt_def)

text \<open>The row of a shortfall and its debt name each other.\<close>

lemma book_debt_facts:
  assumes "wf_db d" and "w \<in> wallet_ids d" and "0 \<le> s"
    and "create_txn w l ty amt delta bal desc meta key now d = (t, d1)"
    and "book_debt w s reason dty ddesc dkey t d1 = ((t', x), d2)"
  shows "spends d d2" "lots d2 = lots d" "wallets d2 = wallets d"
    "txns d2 = txns d @ [t']" "debts d2 = debts d @ [x]"
    "txn_id t' = next_id d" "txn_delta t' = delta" "txn_wallet t' = w" "txn_key t' = key" "txn_balance t' = bal"
    "txn_meta t' = dset ''debt_id'' (JStr (uuid_str (debt_id x))) meta"
    "debt_wallet x = w" "debt_initial x = s" "debt_outstanding x = s" "debt_settled x = None"
    "debt_txn x = Some (txn_id t')" "debt_reason x = reason" "debt_id x = Suc (next_id d)"
proof -
  let ?n = "next_id d"
  have t: "t = new_txn ?n w l ty amt delta bal desc meta key now"
    and d1: "d1 = d\<lparr>txns := txns d @ [t], next_id := Suc ?n\<rparr>"
    using assms(4) by (auto simp: create_txn_def Let_def)
  have nt: "?n \<notin> txn_id ` set (txns d)" and nd: "Suc ?n \<notin> debt_id ` set (debts d)"
    using assms(1) by (auto simp: wf_db_def txns_ok_def debts_ok_def)
  have d2: "txns d2 = txns d @ [t']" "debts d2 = debts d @ [x]" "lots d2 = lots d" "wallets d2 = wallets d"
    "holds d2 = holds d" "allocs d2 = allocs d" "next_id d2 = Suc (Suc ?n)"
    and x: "x = \<lparr>debt_id = Suc ?n, debt_wallet = w, debt_initial = s, debt_outstanding = s,
      debt_reason = reason, debt_type = dty, debt_desc = ddesc,
      debt_meta = clean_metadata meta, debt_key = dkey, debt_txn = Some ?n, debt_settled = None\<rparr>"
    and t': "t' = t\<lparr>txn_meta := dset ''debt_id'' (JStr (uuid_str (Suc ?n))) meta\<rparr>"
    using assms(5) nt nd
    by (auto simp: book_debt_def open_debt_def Let_def d1 t upd_debt_def upd_txn_def upd_row_fresh
        new_txn_def)
  then show "lots d2 = lots d" "wallets d2 = wallets d" "txns d2 = txns d @ [t']" "debts d2 = debts d @ [x]"
    "txn_id t' = ?n" "txn_delta t' = delta" "txn_wallet t' = w" "txn_key t' = key" "txn_balance t' = bal"
    "txn_meta t' = dset ''debt_id'' (JStr (uuid_str (debt_id x))) meta"
    "debt_wallet x = w" "debt_initial x = s" "debt_outstanding x = s" "debt_settled x = None"
    "debt_txn x = Some (txn_id t')" "debt_reason x = reason" "debt_id x = Suc ?n"
    by (simp_all add: t new_txn_def)
  have "lots_ok d2" by (rule lots_ok_cong[of d]) (use d2 assms(1) in simp_all)
  moreover have "txns_ok d2" "debts_ok d2"
    using assms(1-3) nt nd
    by (auto simp: wf_db_def txns_ok_def debts_ok_def wallet_ids_def d2 x t' t new_txn_def less_Suc_eq)
  ultimately show "spends d d2" by (simp add: spends_def d2)
qed

lemma debts_ok_collect:
  assumes "debts_ok d" and "x \<in> set (debts d)" and "0 \<le> amount" and "amount \<le> debt_outstanding x"
  shows "debts_ok (upd_debt (debt_id x) (collect_from amount now) d)"
proof -
  have same: "y = x" if "y \<in> set (debts d)" "debt_id y = debt_id x" for y
    using assms(1,2) that by (metis debts_ok_def distinct_map inj_onD)
  have "map debt_id (upd_row debt_id (debt_id x) (collect_from amount now) (debts d)) = map debt_id (debts d)"
    by (rule map_upd_row) (simp add: collect_from_def Let_def)
  moreover have "debt_id z < next_id d \<and> debt_wallet z \<in> wallet_ids d \<and>
      0 \<le> debt_outstanding z \<and> debt_outstanding z \<le> debt_initial z \<and>
      (\<forall>g. debt_txn z = Some g \<longrightarrow> g < next_id d)"
    if "z \<in> set (upd_row debt_id (debt_id x) (collect_from amount now) (debts d))" for z
  proof -
    from that obtain y where y: "y \<in> set (debts d)"
      "z = (if debt_id y = debt_id x then collect_from amount now y else y)" by (auto simp: set_upd_row)
    with assms(1) have "debt_id y < next_id d" "debt_wallet y \<in> wallet_ids d"
      "0 \<le> debt_outstanding y" "debt_outstanding y \<le> debt_initial y"
      "\<forall>g. debt_txn y = Some g \<longrightarrow> g < next_id d" by (auto simp: debts_ok_def)
    with y same[OF y(1)] assms(3,4) show ?thesis by (auto simp: collect_from_def Let_def)
  qed
  ultimately show ?thesis
    using assms(1) by (simp add: debts_ok_def upd_debt_def wallet_ids_def)
qed

lemma spends_collect:
  assumes "wf_db d" and "x \<in> set (debts d)" and "0 \<le> amount" and "amount \<le> debt_outstanding x"
  shows "spends d (upd_debt (debt_id x) (collect_from amount now) d)"
  using assms debts_ok_collect[OF wf_debts_ok[OF assms(1)] assms(2-4)]
    lots_ok_cong[of d "upd_debt (debt_id x) (collect_from amount now) d"]
  by (simp add: spends_def upd_debt_frame wf_db_def txns_ok_def wallet_ids_def)

text \<open>
  One step of the loop, with the facts every proof about the loop needs of it.
\<close>

definition settle_step :: "uuid \<Rightarrow> time \<Rightarrow> debt \<Rightarrow> int \<Rightarrow> (lot \<times> int) list \<Rightarrow> db \<Rightarrow> db" where
  "settle_step w now x amount taken d1 =
     snd (create_txn w (single_lot taken) (debt_type x) None (- amount) (live_balance d1 w now)
       (or_text (debt_desc x) (''Debt settlement ('' @ debt_reason_value (debt_reason x) @ '')''))
       (settlement_meta x taken) [] now
       (upd_debt (debt_id x) (collect_from amount now) (snd (sync_balance w now d1))))"

lemma settle_walk_Cons:
  "settle_walk w now (x # xs) c d =
    (if live_balance d w now \<le> 0 then Inr (c, d)
     else case consume_lots w (min (debt_outstanding x) (live_balance d w now)) now d of
            Inl e \<Rightarrow> Inl e
          | Inr (taken, d1) \<Rightarrow>
              settle_walk w now xs (c + min (debt_outstanding x) (live_balance d w now))
                (settle_step w now x (min (debt_outstanding x) (live_balance d w now)) taken d1))"
  by (simp add: Let_def split_beta settle_step_def sync_balance_def split: sum.splits)

declare settle_walk.simps(2) [simp del]

lemma settle_step_facts:
  assumes wf: "wf_db d" and w: "w \<in> wallet_ids d" and x: "x \<in> set (debts d)"
    and amt: "0 \<le> amount" "amount \<le> debt_outstanding x"
    and eq: "consume_lots w amount now d = Inr (taken, d1)"
  shows "spends d (settle_step w now x amount taken d1)"
    and "lot_total (settle_step w now x amount taken d1) w' = lot_total d w' - (if w' = w then amount else 0)"
    and "ledger_total (settle_step w now x amount taken d1) w' =
      ledger_total d w' - (if w' = w then amount else 0)"
    and "live_balance (settle_step w now x amount taken d1) w' now =
      live_balance d w' now - (if w' = w then amount else 0)"
    and "debts (settle_step w now x amount taken d1) =
      upd_row debt_id (debt_id x) (collect_from amount now) (debts d)"
proof -
  let ?d2 = "snd (sync_balance w now d1)"
  let ?d3 = "upd_debt (debt_id x) (collect_from amount now) ?d2"
  let ?d4 = "settle_step w now x amount taken d1"
  have s1: "spends d d1" by (rule spends_consume[OF wf eq])
  have s2: "spends d1 ?d2" by (rule spends_sync[OF spends_wf[OF wf s1]])
  note wf2 = spends_wf[OF spends_wf[OF wf s1] s2]
  have x2: "x \<in> set (debts ?d2)" using x by (simp add: sync_balance_frame consume_lots_frame[OF eq])
  have s3: "spends ?d2 ?d3" by (rule spends_collect[OF wf2 x2 amt])
  have "w \<in> wallet_ids ?d3"
    using w spends_wallet_ids[OF s1] spends_wallet_ids[OF s2] spends_wallet_ids[OF s3] by simp
  then have s4: "spends ?d3 ?d4"
    unfolding settle_step_def by (rule spends_create_txn[OF spends_wf[OF wf2 s3]])
  from s1 s2 s3 s4 show "spends d ?d4" by (blast intro: spends_trans)
  have lots4: "lots ?d4 = lots d1" by (simp add: settle_step_def create_txn_frame upd_debt_frame sync_balance_frame)
  then have "lot_total ?d4 w' = lot_total d1 w'" "live_balance ?d4 w' now = live_balance d1 w' now"
    by (rule totals_cong live_balance_cong)+
  with consume_lots_total[OF wf_lots_ok[OF wf] amt(1) eq] consume_lots_live[OF wf_lots_ok[OF wf] amt(1) eq]
  show "lot_total ?d4 w' = lot_total d w' - (if w' = w then amount else 0)"
    "live_balance ?d4 w' now = live_balance d w' now - (if w' = w then amount else 0)" by simp_all
  have "ledger_total ?d3 w' = ledger_total d w'"
    by (rule totals_cong(2)) (simp add: upd_debt_frame sync_balance_frame consume_lots_frame[OF eq])
  then show "ledger_total ?d4 w' = ledger_total d w' - (if w' = w then amount else 0)"
    by (simp add: settle_step_def ledger_create_txn)
  show "debts ?d4 = upd_row debt_id (debt_id x) (collect_from amount now) (debts d)"
    by (simp add: settle_step_def create_txn_frame sync_balance_frame upd_debt_def consume_lots_frame[OF eq])
qed

text \<open>
  The loop never raises: an amount capped at the live balance is covered
  (\<open>lot_spend.spend_capped\<close>). It collects what it takes, and the lots and the ledger of the
  wallet go down by the same number.
\<close>

lemma settle_walk_result:
  assumes "wf_db d" and "w \<in> wallet_ids d" and "distinct (map debt_id xs)"
    and "\<forall>x \<in> set xs. x \<in> set (debts d)"
  shows "\<exists>n d'. settle_walk w now xs c d = Inr (c + n, d') \<and> 0 \<le> n \<and> spends d d' \<and>
    lot_total d' w' = lot_total d w' - (if w' = w then n else 0) \<and>
    ledger_total d' w' = ledger_total d w' - (if w' = w then n else 0) \<and>
    live_balance d' w' now = live_balance d w' now - (if w' = w then n else 0)"
  using assms
proof (induction xs arbitrary: c d)
  case Nil
  then show ?case by (auto simp: spends_refl)
next
  case (Cons x xs)
  let ?av = "live_balance d w now"
  let ?amt = "min (debt_outstanding x) ?av"
  show ?case
  proof (cases "?av \<le> 0")
    case True
    with Cons.prems(1) show ?thesis by (auto simp: settle_walk_Cons spends_refl intro!: exI[of _ 0])
  next
    case False
    have x: "x \<in> set (debts d)" "0 \<le> debt_outstanding x"
      using Cons.prems(4) wf_debts_ok[OF Cons.prems(1)] by (auto simp: debts_ok_def)
    with False have amt: "0 \<le> ?amt" "?amt \<le> debt_outstanding x" by auto
    from lot_spend.spend_capped[OF wf_lots_ok[OF Cons.prems(1)] x(2), of w now]
    obtain taken d1 where eq: "consume_lots w ?amt now d = Inr (taken, d1)" by blast
    let ?d4 = "settle_step w now x ?amt taken d1"
    note f = settle_step_facts[OF Cons.prems(1,2) x(1) amt eq]
    have "y \<in> set (debts ?d4)" if "y \<in> set xs" for y
    proof -
      have "debt_id y \<noteq> debt_id x" using Cons.prems(3) that by (auto simp: image_iff)
      with that Cons.prems(4) show ?thesis by (auto simp: f(5) set_upd_row image_iff)
    qed
    moreover have "w \<in> wallet_ids ?d4" using Cons.prems(2) spends_wallet_ids[OF f(1)] by simp
    ultimately obtain n d' where ih: "settle_walk w now xs (c + ?amt) ?d4 = Inr (c + ?amt + n, d')"
      "0 \<le> n" "spends ?d4 d'" "lot_total d' w' = lot_total ?d4 w' - (if w' = w then n else 0)"
      "ledger_total d' w' = ledger_total ?d4 w' - (if w' = w then n else 0)"
      "live_balance d' w' now = live_balance ?d4 w' now - (if w' = w then n else 0)"
      using Cons.IH[OF spends_wf[OF Cons.prems(1) f(1)], of "c + ?amt"] Cons.prems(3) by auto
    have "settle_walk w now (x # xs) c d = Inr (c + (?amt + n), d')"
      using False eq ih(1) by (simp add: settle_walk_Cons add.assoc)
    with ih f amt show ?thesis
      by (intro exI[of _ "?amt + n"] exI[of _ d']) (auto intro: spends_trans)
  qed
qed

lemma settle_debts_result:
  assumes "wf_db d" and "w \<in> wallet_ids d"
  shows "\<exists>n d'. settle_debts w now d = Inr (n, d') \<and> 0 \<le> n \<and> spends d d' \<and>
    lot_total d' w' = lot_total d w' - (if w' = w then n else 0) \<and>
    ledger_total d' w' = ledger_total d w' - (if w' = w then n else 0) \<and>
    live_balance d' w' now = live_balance d w' now - (if w' = w then n else 0)"
proof (cases "open_debts d w = []")
  case True
  with assms(1) show ?thesis by (auto simp: settle_debts_def spends_refl)
next
  case False
  have "distinct (map debt_id (open_debts d w))"
    using wf_debts_ok[OF assms(1)] by (simp add: open_debts_def debts_ok_def distinct_map_filter)
  moreover have "\<forall>x \<in> set (open_debts d w). x \<in> set (debts d)" by (simp add: open_debts_def)
  ultimately show ?thesis
    using False settle_walk_result[OF assms, of "open_debts d w" now 0 w'] by (simp add: settle_debts_def)
qed

lemma settle_debts_facts:
  assumes "wf_db d" and "w \<in> wallet_ids d" and "settle_debts w now d = Inr (n, d')"
  shows "0 \<le> n" "spends d d'" "lot_total d' w' = lot_total d w' - (if w' = w then n else 0)"
    "ledger_total d' w' = ledger_total d w' - (if w' = w then n else 0)"
    "live_balance d' w' now = live_balance d w' now - (if w' = w then n else 0)"
  using settle_debts_result[OF assms(1,2), of now w'] assms(3) by auto

lemma settle_balanced:
  assumes "wf_db d" and "w \<in> wallet_ids d" and "settle_debts w now d = Inr (n, d')"
  shows "balanced d' w' = balanced d w'"
  using settle_debts_facts[OF assms] spends_reserved[OF settle_debts_facts(2)[OF assms]]
  by (auto simp: balanced_def)

subsection \<open>How much is collected\<close>

text \<open>
  Collection takes what is owed, capped at what is live, and the debt of the wallet goes down
  by exactly that; other wallets' debts are untouched.
\<close>

lemma outstanding_sum:
  "outstanding_debt d w = (\<Sum>x\<leftarrow>debts d. if debt_wallet x = w \<and> debt_settled x = None \<and> 0 < debt_outstanding x
     then debt_outstanding x else 0)"
  by (simp add: outstanding_debt_def open_debts_def sum_list_filter_if)

lemma outstanding_cong: "debts d = debts d' \<Longrightarrow> outstanding_debt d w = outstanding_debt d' w"
  by (simp add: outstanding_debt_def open_debts_def)

lemma outstanding_nonneg: "0 \<le> outstanding_debt d w"
  unfolding outstanding_debt_def by (rule sum_list_nonneg_int) (simp add: open_debts_def)

lemma outstanding_collect:
  assumes "distinct (map debt_id (debts d))" and "x \<in> set (open_debts d w)"
    and "debts d' = upd_row debt_id (debt_id x) (collect_from amount now) (debts d)"
    and "0 \<le> amount" and "amount \<le> debt_outstanding x"
  shows "outstanding_debt d' w' = outstanding_debt d w' - (if w' = w then amount else 0)"
proof -
  let ?g = "\<lambda>x. if debt_wallet x = w' \<and> debt_settled x = None \<and> 0 < debt_outstanding x
     then debt_outstanding x else 0"
  have x: "x \<in> set (debts d)" "debt_wallet x = w" "debt_settled x = None" "0 < debt_outstanding x"
    using assms(2) by (auto simp: open_debts_def)
  have "outstanding_debt d' w' = outstanding_debt d w' + ?g (collect_from amount now x) - ?g x"
    unfolding outstanding_sum assms(3) by (rule sum_list_upd_row[OF assms(1) x(1)])
  moreover have "?g (collect_from amount now x) - ?g x = - (if w' = w then amount else 0)"
    using x assms(4,5) by (auto simp: collect_from_def Let_def)
  ultimately show ?thesis by simp
qed

lemma settle_walk_amount:
  assumes "wf_db d" and "w \<in> wallet_ids d" and "distinct (map debt_id xs)"
    and "\<forall>x \<in> set xs. x \<in> set (open_debts d w)" and "settle_walk w now xs c d = Inr (n, d')"
  shows "n = c + min (\<Sum>x\<leftarrow>xs. debt_outstanding x) (live_balance d w now)"
    and "outstanding_debt d' w' = outstanding_debt d w' - (if w' = w then n - c else 0)"
proof -
  have "n = c + min (\<Sum>x\<leftarrow>xs. debt_outstanding x) (live_balance d w now) \<and>
    outstanding_debt d' w' = outstanding_debt d w' - (if w' = w then n - c else 0)"
    using assms
  proof (induction xs arbitrary: c d)
    case Nil
    then show ?case using live_balance_nonneg[of d w now] by simp
  next
    case (Cons x xs)
    let ?av = "live_balance d w now"
    let ?amt = "min (debt_outstanding x) ?av"
    have pos: "0 \<le> (\<Sum>x\<leftarrow>xs. debt_outstanding x)"
      using Cons.prems(4) by (intro sum_list_nonneg_int) (auto simp: open_debts_def)
    have xo: "x \<in> set (open_debts d w)" and x: "x \<in> set (debts d)" "0 < debt_outstanding x"
      using Cons.prems(4) by (auto simp: open_debts_def)
    show ?case
    proof (cases "?av \<le> 0")
      case True
      with live_balance_nonneg[of d w now] have "?av = 0" by simp
      with True Cons.prems(5) pos x(2) show ?thesis by (auto simp: settle_walk_Cons)
    next
      case False
      with x(2) have amt: "0 \<le> ?amt" "?amt \<le> debt_outstanding x" by auto
      from lot_spend.spend_capped[OF wf_lots_ok[OF Cons.prems(1)], of "debt_outstanding x" w now] x(2)
      obtain taken d1 where eq: "consume_lots w ?amt now d = Inr (taken, d1)" by auto
      let ?d4 = "settle_step w now x ?amt taken d1"
      note f = settle_step_facts[OF Cons.prems(1,2) x(1) amt eq]
      have dist: "distinct (map debt_id (debts d))"
        using wf_debts_ok[OF Cons.prems(1)] by (simp add: debts_ok_def)
      have out: "outstanding_debt ?d4 w' = outstanding_debt d w' - (if w' = w then ?amt else 0)"
        by (rule outstanding_collect[OF dist xo f(5) amt])
      have "y \<in> set (open_debts ?d4 w)" if "y \<in> set xs" for y
      proof -
        have "debt_id y \<noteq> debt_id x" using Cons.prems(3) that by (auto simp: image_iff)
        with that Cons.prems(4) show ?thesis
          by (auto simp: open_debts_def f(5) set_upd_row image_iff)
      qed
      moreover have "w \<in> wallet_ids ?d4" using Cons.prems(2) spends_wallet_ids[OF f(1)] by simp
      moreover have "settle_walk w now xs (c + ?amt) ?d4 = Inr (n, d')"
        using Cons.prems(5) False eq by (simp add: settle_walk_Cons)
      ultimately have "n = c + ?amt + min (\<Sum>x\<leftarrow>xs. debt_outstanding x) (live_balance ?d4 w now)"
        "outstanding_debt d' w' = outstanding_debt ?d4 w' - (if w' = w then n - (c + ?amt) else 0)"
        using Cons.IH[OF spends_wf[OF Cons.prems(1) f(1)]] Cons.prems(3) by auto
      with out f(4)[of w] pos False show ?thesis by (auto simp: min_def split: if_splits)
    qed
  qed
  then show "n = c + min (\<Sum>x\<leftarrow>xs. debt_outstanding x) (live_balance d w now)"
    "outstanding_debt d' w' = outstanding_debt d w' - (if w' = w then n - c else 0)" by blast+
qed

lemma settle_debts_amount:
  assumes "wf_db d" and "w \<in> wallet_ids d" and "settle_debts w now d = Inr (n, d')"
  shows "n = min (outstanding_debt d w) (live_balance d w now)"
    and "outstanding_debt d' w' = outstanding_debt d w' - (if w' = w then n else 0)"
proof -
  have "n = min (outstanding_debt d w) (live_balance d w now) \<and>
    outstanding_debt d' w' = outstanding_debt d w' - (if w' = w then n else 0)"
  proof (cases "open_debts d w = []")
    case True
    with assms(3) live_balance_nonneg[of d w now] show ?thesis
      by (simp add: settle_debts_def outstanding_debt_def)
  next
    case False
    have "distinct (map debt_id (open_debts d w))"
      using wf_debts_ok[OF assms(1)] by (simp add: open_debts_def debts_ok_def distinct_map_filter)
    moreover have "settle_walk w now (open_debts d w) 0 d = Inr (n, d')"
      using assms(3) False by (simp add: settle_debts_def)
    ultimately show ?thesis
      using settle_walk_amount(1)[OF assms(1,2), of "open_debts d w" now 0 n d']
        settle_walk_amount(2)[OF assms(1,2), of "open_debts d w" now 0 n d' w']
      by (simp add: outstanding_debt_def)
  qed
  then show "n = min (outstanding_debt d w) (live_balance d w now)"
    "outstanding_debt d' w' = outstanding_debt d w' - (if w' = w then n else 0)" by blast+
qed

lemma settle_inv:
  assumes "inv d" and "w \<in> wallet_ids d" and "settle_debts w now d = Inr (n, d')"
  shows "inv d'"
  using settle_debts_facts[OF inv_wf[OF assms(1)] assms(2,3)]
  by (intro inv_spends[OF assms(1)]) auto

text \<open>Every step of the collection writes the cache, so it is current when the loop stops.\<close>

lemma settle_step_synced:
  assumes "w \<in> wallet_ids d" and "consume_lots w amount now d = Inr (taken, d1)"
  shows "synced (settle_step w now x amount taken d1) w now"
proof -
  let ?d2 = "snd (sync_balance w now d1)"
  have "w \<in> wallet_ids d1" using assms by (simp add: wallet_ids_def consume_lots_frame)
  then have "synced ?d2 w now" by (rule synced_sync)
  moreover have "wallets (settle_step w now x amount taken d1) = wallets ?d2"
    and "lots (settle_step w now x amount taken d1) = lots ?d2"
    by (simp_all add: settle_step_def create_txn_frame upd_debt_frame)
  ultimately show ?thesis using synced_cong live_balance_cong by metis
qed

lemma settle_walk_synced:
  assumes "wf_db d" and "w \<in> wallet_ids d" and "distinct (map debt_id xs)"
    and "\<forall>x \<in> set xs. x \<in> set (debts d)" and "settle_walk w now xs c d = Inr (n, d')" and "synced d w now"
  shows "synced d' w now"
  using assms
proof (induction xs arbitrary: c d)
  case (Cons x xs)
  let ?av = "live_balance d w now"
  let ?amt = "min (debt_outstanding x) ?av"
  show ?case
  proof (cases "?av \<le> 0")
    case True
    with Cons.prems(5,6) show ?thesis by (simp add: settle_walk_Cons)
  next
    case False
    have x: "x \<in> set (debts d)" "0 \<le> debt_outstanding x"
      using Cons.prems(4) wf_debts_ok[OF Cons.prems(1)] by (auto simp: debts_ok_def)
    with False have amt: "0 \<le> ?amt" "?amt \<le> debt_outstanding x" by auto
    from lot_spend.spend_capped[OF wf_lots_ok[OF Cons.prems(1)] x(2), of w now]
    obtain taken d1 where eq: "consume_lots w ?amt now d = Inr (taken, d1)" by blast
    let ?d4 = "settle_step w now x ?amt taken d1"
    note f = settle_step_facts[OF Cons.prems(1,2) x(1) amt eq]
    have "y \<in> set (debts ?d4)" if "y \<in> set xs" for y
    proof -
      have "debt_id y \<noteq> debt_id x" using Cons.prems(3) that by (auto simp: image_iff)
      with that Cons.prems(4) show ?thesis by (auto simp: f(5) set_upd_row image_iff)
    qed
    moreover have "w \<in> wallet_ids ?d4" using Cons.prems(2) spends_wallet_ids[OF f(1)] by simp
    moreover have "settle_walk w now xs (c + ?amt) ?d4 = Inr (n, d')"
      using Cons.prems(5) False eq by (simp add: settle_walk_Cons)
    ultimately show ?thesis
      using Cons.IH[OF spends_wf[OF Cons.prems(1) f(1)]] Cons.prems(3)
        settle_step_synced[OF Cons.prems(2) eq] by auto
  qed
qed simp

lemma settle_debts_synced:
  assumes "wf_db d" and "w \<in> wallet_ids d" and "settle_debts w now d = Inr (n, d')" and "synced d w now"
  shows "synced d' w now"
proof (cases "open_debts d w = []")
  case True
  with assms(3,4) show ?thesis by (simp add: settle_debts_def)
next
  case False
  have "distinct (map debt_id (open_debts d w))"
    using wf_debts_ok[OF assms(1)] by (simp add: open_debts_def debts_ok_def distinct_map_filter)
  moreover have "\<forall>x \<in> set (open_debts d w). x \<in> set (debts d)" by (simp add: open_debts_def)
  moreover have "settle_walk w now (open_debts d w) 0 d = Inr (n, d')"
    using assms(3) False by (simp add: settle_debts_def)
  ultimately show ?thesis using settle_walk_synced[OF assms(1,2)] assms(4) by blast
qed

text \<open>The rows of a collection carry no idempotency key.\<close>

lemma settle_step_txns:
  assumes "consume_lots w amount now d = Inr (taken, d1)"
  shows "\<exists>t. txns (settle_step w now x amount taken d1) = txns d @ [t] \<and> txn_key t = []"
  by (simp add: settle_step_def create_txn_frame upd_debt_frame sync_balance_frame consume_lots_frame[OF assms])

lemma settle_walk_keys:
  assumes "settle_walk w now xs c d = Inr (n, d')"
  shows "\<exists>ts. txns d' = txns d @ ts \<and> (\<forall>t \<in> set ts. txn_key t = [])"
  using assms
proof (induction xs arbitrary: c d)
  case (Cons x xs)
  let ?amt = "min (debt_outstanding x) (live_balance d w now)"
  show ?case
  proof (cases "live_balance d w now \<le> 0")
    case True
    with Cons.prems show ?thesis by (simp add: settle_walk_Cons)
  next
    case False
    with Cons.prems obtain taken d1 where eq: "consume_lots w ?amt now d = Inr (taken, d1)"
      and rest: "settle_walk w now xs (c + ?amt) (settle_step w now x ?amt taken d1) = Inr (n, d')"
      by (auto simp: settle_walk_Cons split: sum.splits)
    obtain t where t: "txns (settle_step w now x ?amt taken d1) = txns d @ [t]" "txn_key t = []"
      using settle_step_txns[OF eq] by blast
    obtain ts where "txns d' = txns (settle_step w now x ?amt taken d1) @ ts" "\<forall>t \<in> set ts. txn_key t = []"
      using Cons.IH[OF rest] by blast
    with t show ?thesis by (intro exI[of _ "t # ts"]) simp
  qed
qed simp

lemma settle_debts_keys:
  assumes "settle_debts w now d = Inr (n, d')"
  shows "\<exists>ts. txns d' = txns d @ ts \<and> (\<forall>t \<in> set ts. txn_key t = [])"
proof (cases "open_debts d w = []")
  case True
  with assms show ?thesis by (auto simp: settle_debts_def)
next
  case False
  with assms have "settle_walk w now (open_debts d w) 0 d = Inr (n, d')" by (simp add: settle_debts_def)
  then show ?thesis by (rule settle_walk_keys)
qed

end
