(* ===== verification/Account.thy ===== *)
theory Account
  imports Debts
begin

section \<open>The account: what the wallet operations promise\<close>

text \<open>
  The abstract state of a wallet at an instant: the credits it can spend, the debt it owes,
  the credits its open holds reserve. The specifications of the public operations are
  functions on it (\<open>spec_credit\<close>, \<open>spec_debit\<close>, \<open>spec_hold\<close>, \<open>spec_settle\<close>);
  the component theories prove that the code's lot walk, sweep and rows implement them. The
  account of a user with no wallet yet is empty, as the wallet \<open>get_or_create\<close> makes is.
\<close>

record account =
  ac_live :: int
  ac_owed :: int
  ac_held :: int

definition empty_account :: account where
  "empty_account = \<lparr>ac_live = 0, ac_owed = 0, ac_held = 0\<rparr>"

definition account_of :: "db \<Rightarrow> uuid \<Rightarrow> time \<Rightarrow> account" where
  "account_of d w now = \<lparr>ac_live = live_balance d w now, ac_owed = outstanding_debt d w, ac_held = reserved d w\<rparr>"

definition user_account :: "db \<Rightarrow> uid \<Rightarrow> time \<Rightarrow> account" where
  "user_account d u now =
     (case wallet_of_user d u of None \<Rightarrow> empty_account | Some x \<Rightarrow> account_of d (w_id x) now)"

subsection \<open>Specifications\<close>

definition spec_settle :: "account \<Rightarrow> account" where
  "spec_settle a =
     (let paid = min (ac_owed a) (ac_live a)
      in a\<lparr>ac_live := ac_live a - paid, ac_owed := ac_owed a - paid\<rparr>)"

definition spec_credit :: "int \<Rightarrow> bool \<Rightarrow> account \<Rightarrow> account" where
  "spec_credit n settle a =
     (let b = a\<lparr>ac_live := ac_live a + n\<rparr> in if settle then spec_settle b else b)"

definition spec_debit :: "int \<Rightarrow> bool \<Rightarrow> account \<Rightarrow> account option" where
  "spec_debit n allow_partial a =
     (if n \<le> ac_live a then Some (a\<lparr>ac_live := ac_live a - n\<rparr>)
      else if allow_partial then Some (a\<lparr>ac_live := 0, ac_owed := ac_owed a + (n - ac_live a)\<rparr>)
      else None)"

definition spec_hold :: "int \<Rightarrow> account \<Rightarrow> account option" where
  "spec_hold n a =
     (if n \<le> ac_live a then Some (a\<lparr>ac_live := ac_live a - n, ac_held := ac_held a + n\<rparr>) else None)"

text \<open>Credits and debt do not stand side by side after a settlement.\<close>

lemma spec_settle_clears:
  "0 \<le> ac_live a \<Longrightarrow> 0 \<le> ac_owed a \<Longrightarrow> ac_live (spec_settle a) = 0 \<or> ac_owed (spec_settle a) = 0"
  by (auto simp: spec_settle_def Let_def min_def)

text \<open>Net worth (credits less debt) moves by what was asked for, whole or partial.\<close>

lemma spec_credit_net: "ac_live (spec_credit n s a) - ac_owed (spec_credit n s a) = ac_live a - ac_owed a + n"
  by (simp add: spec_credit_def spec_settle_def Let_def)

lemma spec_debit_net:
  "spec_debit n p a = Some b \<Longrightarrow> ac_live b - ac_owed b = ac_live a - ac_owed a - n"
  by (auto simp: spec_debit_def split: if_splits)

subsection \<open>The account and the database\<close>

lemma account_fields [simp]:
  "ac_live (account_of d w now) = live_balance d w now"
  "ac_owed (account_of d w now) = outstanding_debt d w"
  "ac_held (account_of d w now) = reserved d w"
  by (simp_all add: account_of_def)

lemma account_eqI:
  "live_balance d' w now = ac_live a \<Longrightarrow> outstanding_debt d' w = ac_owed a \<Longrightarrow> reserved d' w = ac_held a \<Longrightarrow>
    account_of d' w now = a"
  by (simp add: account_of_def)

lemma account_cong:
  assumes "lots d' = lots d" and "debts d' = debts d" and "holds d' = holds d" and "allocs d' = allocs d"
  shows "account_of d' w now = account_of d w now"
  using assms by (intro account_eqI) (simp_all add: live_balance_cong[of d' d] outstanding_cong[of d' d] totals_cong[of d' d])

text \<open>A wallet id no row carries has the empty account.\<close>

lemma account_fresh:
  assumes "wf_db d" and "w \<notin> wallet_ids d"
  shows "account_of d w now = empty_account"
proof -
  have "lot_wallet l \<noteq> w" if "l \<in> set (lots d)" for l
    using assms that by (auto simp: wf_db_def lot_refs_ok_def)
  then have "filter (live_lot now) (wallet_lots d w) = []"
    by (auto simp: wallet_lots_def filter_empty_conv)
  moreover have "debt_wallet x \<noteq> w" if "x \<in> set (debts d)" for x
    using assms that by (auto simp: wf_db_def debts_ok_def)
  then have "open_debts d w = []" by (auto simp: open_debts_def filter_empty_conv)
  moreover have "\<not> held_in w h" if "h \<in> set (holds d)" for h
    using assms that by (auto simp: wf_db_def hold_rows_ok_def held_in_def)
  then have "(\<Sum>h\<leftarrow>holds d. if held_in w h then alloc_total d (hold_id h) else 0) = (\<Sum>h\<leftarrow>holds d. 0)"
    by (intro arg_cong[where f = sum_list] map_cong) auto
  ultimately show ?thesis
    by (simp add: account_of_def empty_account_def live_balance_def outstanding_debt_def reserved_def)
qed

text \<open>Locking the wallet is where every operation starts: the account does not move.\<close>

lemma wallet_of_user_Some:
  "wallet_of_user d u = Some x \<Longrightarrow> x \<in> set (wallets d) \<and> w_user x = Some u"
  by (auto simp: wallet_of_user_def find_Some_iff)

lemma lock_wallet_user:
  assumes "lock_wallet u d = (w, d0)"
  shows "\<exists>x. wallet_of_user d0 u = Some x \<and> w_id x = w"
proof (cases "wallet_of_user d u")
  case None
  then have "find (\<lambda>x. w_user x = Some u) (wallets d) = None" by (simp add: wallet_of_user_def)
  then have "find (\<lambda>x. w_user x = Some u) (wallets d @ [y]) = Some y" if "w_user y = Some u" for y
    using that by (induction "wallets d") (auto simp: find_None_iff find_Some_iff nth_append intro!: exI[of _ "length (wallets d)"])
  with None assms show ?thesis
    by (auto simp: lock_wallet_def get_or_create_wallet_def create_wallet_def wallet_of_user_def)
next
  case (Some x)
  with assms show ?thesis by (auto simp: lock_wallet_def get_or_create_wallet_def)
qed

lemma lock_wallet_account:
  assumes "inv d" and "lock_wallet u d = (w, d0)"
  shows "user_account d u now = account_of d0 w now"
proof (cases "wallet_of_user d u")
  case None
  then have d0: "(w, d0) = create_wallet u ''USD'' d"
    using assms(2) by (simp add: lock_wallet_def get_or_create_wallet_def)
  then have "w \<notin> wallet_ids d"
    using assms(1) by (auto simp: inv_def wf_db_def wallets_ok_def create_wallet_def)
  with account_fresh[OF inv_wf[OF assms(1)]] have "account_of d w now = empty_account" by blast
  moreover have "account_of d0 w now = account_of d w now"
    by (rule account_cong) (use d0 in \<open>simp_all add: create_wallet_def\<close>)
  ultimately show ?thesis using None by (simp add: user_account_def)
next
  case (Some x)
  with assms(2) show ?thesis by (simp add: user_account_def lock_wallet_def get_or_create_wallet_def)
qed

text \<open>After it, the account of the user stays that of the locked wallet.\<close>

lemma user_account_after:
  assumes "lock_wallet u d = (w, d0)" and "map wallet_static (wallets d') = map wallet_static (wallets d0)"
  shows "user_account d' u now = account_of d' w now"
proof -
  from lock_wallet_user[OF assms(1)] obtain x where "wallet_of_user d0 u = Some x" "w_id x = w" by blast
  with static_wallet_of_user[OF assms(2), of u] obtain y where "wallet_of_user d' u = Some y" "w_id y = w"
    by auto
  then show ?thesis by (simp add: user_account_def)
qed

lemma user_account_spends:
  assumes "lock_wallet u d = (w, d0)" and "spends d0 d'"
  shows "user_account d' u now = account_of d' w now"
  by (rule user_account_after[OF assms(1)]) (use assms(2) in \<open>simp add: spends_def\<close>)

text \<open>A second call of the same user locks the same wallet and creates nothing.\<close>

lemma lock_wallet_after:
  assumes "lock_wallet u d = (w, d0)" and "map wallet_static (wallets d') = map wallet_static (wallets d0)"
  shows "lock_wallet u d' = (w, d')"
proof -
  from lock_wallet_user[OF assms(1)] obtain x where "wallet_of_user d0 u = Some x" "w_id x = w" by blast
  with static_wallet_of_user[OF assms(2), of u] obtain y where "wallet_of_user d' u = Some y" "w_id y = w"
    by auto
  then show ?thesis by (simp add: lock_wallet_def get_or_create_wallet_def)
qed

subsection \<open>Settlement implements its specification\<close>

lemma settle_account:
  assumes "wf_db d" and "w \<in> wallet_ids d" and "settle_debts w now d = Inr (n, d')"
  shows "account_of d' w now = spec_settle (account_of d w now)"
    and "w' \<noteq> w \<Longrightarrow> account_of d' w' now = account_of d w' now"
  using settle_debts_amount[OF assms] settle_debts_facts[OF assms] spends_reserved[OF settle_debts_facts(2)[OF assms]]
  by (auto simp: account_of_def spec_settle_def Let_def)

text \<open>The sweep moves no account.\<close>

lemma expire_walk_debts: "debts (expire_walk w now ls running d) = debts d"
  by (induction ls arbitrary: running d) (simp_all add: Let_def split_beta create_txn_frame upd_lot_def)

lemma expire_debts: "debts (snd (expire_due_lots w now d)) = debts d"
  by (simp add: expire_due_lots_snd sync_balance_frame expire_walk_debts)

lemma expire_account:
  assumes "wf_db d" and "w \<in> wallet_ids d"
  shows "account_of (snd (expire_due_lots w now d)) w' now = account_of d w' now"
  using expire_live[OF assms] spends_reserved[OF expire_spends[OF assms]] outstanding_cong[OF expire_debts]
  by (intro account_eqI) simp_all

end
