(* ===== verification/Provider_Grants.thy ===== *)
theory Provider_Grants
  imports Account
begin

section \<open>Claims on provider objects (services.py, claim\_provider\_object)\<close>

text \<open>
  A \<open>ProviderGrant\<close> row is the claim that one provider object (a checkout session, an
  invoice, an event, a plan period) has been acted on. The table's unique constraint makes
  the claim of a taken object fail, so at-least-once delivery acts once. What the handlers
  rely on is the contract \<open>claim_once\<close>; the interpretation shows the table keeps it.
\<close>

subsection \<open>The contract\<close>

locale claim_once =
  fixes claim :: "'k \<Rightarrow> 's \<Rightarrow> bool \<times> 's" and taken :: "'s \<Rightarrow> 'k \<Rightarrow> bool"
  assumes won: "claim k s = (True, s') \<Longrightarrow> \<not> taken s k \<and> taken s' k"
    and lost: "taken s k \<Longrightarrow> claim k s = (False, s)"
    and refused: "claim k s = (False, s') \<Longrightarrow> s' = s"
    and others: "claim k s = (b, s') \<Longrightarrow> k' \<noteq> k \<Longrightarrow> taken s' k' = taken s k'"
begin

lemma second_loses: "claim k s = (True, s') \<Longrightarrow> claim k s' = (False, s')"
  using won lost by blast

lemma stays_taken: "taken s k \<Longrightarrow> claim k' s = (b, s') \<Longrightarrow> taken s' k"
  using lost others by (cases "k' = k") auto

text \<open>However often, and mixed with whatever other claims, one object is won at most once.\<close>

fun run :: "'k list \<Rightarrow> 's \<Rightarrow> bool list \<times> 's" where
  "run [] s = ([], s)"
| "run (k # ks) s = (let (b, s') = claim k s; (bs, s'') = run ks s' in (b # bs, s''))"

lemma run_taken: "taken s k \<Longrightarrow> taken (snd (run ks s)) k"
  by (induction ks arbitrary: s) (auto simp: split_beta Let_def intro: stays_taken[OF _ prod.collapse[symmetric]])

lemma wins_when_taken: "taken s k \<Longrightarrow> length (filter (\<lambda>p. fst p = k \<and> snd p) (zip ks (fst (run ks s)))) = 0"
proof (induction ks arbitrary: s)
  case (Cons x ks)
  obtain b s' where c: "claim x s = (b, s')" by (metis surj_pair)
  have "taken s' k" by (rule stays_taken[OF Cons.prems c])
  moreover have "\<not> (x = k \<and> b)" using lost[OF Cons.prems] c by auto
  ultimately show ?case using Cons.IH c by (simp add: split_beta Let_def)
qed simp

lemma at_most_one_win: "length (filter (\<lambda>p. fst p = k \<and> snd p) (zip ks (fst (run ks s)))) \<le> 1"
proof (induction ks arbitrary: s)
  case (Cons x ks)
  obtain b s' where c: "claim x s = (b, s')" by (metis surj_pair)
  show ?case
  proof (cases "x = k \<and> b")
    case True
    with c won[of x s s'] have "taken s' k" by simp
    with wins_when_taken[OF this] c True show ?thesis by (simp add: split_beta Let_def)
  next
    case False
    with Cons.IH[of s'] c show ?thesis by (auto simp: split_beta Let_def)
  qed
qed simp

end

subsection \<open>The table\<close>

definition SCOPE_CHECKOUT_SESSION :: string where "SCOPE_CHECKOUT_SESSION = ''checkout_session''"
definition SCOPE_INVOICE :: string where "SCOPE_INVOICE = ''invoice''"
definition SCOPE_CLAWBACK :: string where "SCOPE_CLAWBACK = ''clawback''"
definition SCOPE_PLAN_BUNDLE :: string where "SCOPE_PLAN_BUNDLE = ''plan_bundle''"
definition SCOPE_NOTIFY_PAYMENT :: string where "SCOPE_NOTIFY_PAYMENT = ''notify_payment''"
definition SCOPE_NOTIFY_PAYMENT_FAILED :: string where "SCOPE_NOTIFY_PAYMENT_FAILED = ''notify_payment_failed''"
definition SCOPE_NOTIFY_SUBSCRIPTION_ENDING :: string where "SCOPE_NOTIFY_SUBSCRIPTION_ENDING = ''notify_subscription_ending''"

definition granted :: "db \<Rightarrow> provider_grant \<Rightarrow> bool" where
  "granted d g = (g \<in> set (grants d))"

definition claim_grant :: "provider_grant \<Rightarrow> db \<Rightarrow> bool \<times> db" where
  "claim_grant g d = (if granted d g then (False, d) else (True, d\<lparr>grants := grants d @ [g]\<rparr>))"

text \<open>An object with no identity is refused: a repeat delivery of it could not be told apart.\<close>

definition claim_provider_object :: "string \<Rightarrow> string option \<Rightarrow> string \<Rightarrow> db \<Rightarrow> bool \<times> db" where
  "claim_provider_object scope external provider d =
     (case external of
        None \<Rightarrow> (False, d)
      | Some i \<Rightarrow> if i = [] then (False, d)
                  else claim_grant \<lparr>pg_provider = provider, pg_scope = scope, pg_external = i\<rparr> d)"

interpretation provider_claim: claim_once claim_grant granted
  by unfold_locales (auto simp: claim_grant_def granted_def split: if_splits)

lemma claim_grant_frame: "snd (claim_grant g d) = d \<or> snd (claim_grant g d) = d\<lparr>grants := grants d @ [g]\<rparr>"
  by (simp add: claim_grant_def)

lemma claim_frame [frame]:
  assumes "claim_provider_object scope ext prov d = (b, d')"
  shows "d' = d \<or> (\<exists>g. d' = d\<lparr>grants := grants d @ [g]\<rparr>)"
proof (cases ext)
  case (Some i)
  let ?g = "\<lparr>pg_provider = prov, pg_scope = scope, pg_external = i\<rparr>"
  have "d' = d \<or> d' = snd (claim_grant ?g d)"
    using assms Some by (simp add: claim_provider_object_def split: if_splits)
  with claim_grant_frame[of ?g d] show ?thesis by metis
qed (use assms in \<open>simp add: claim_provider_object_def\<close>)

lemma claim_refused [simp]:
  assumes "claim_provider_object scope ext prov d = (False, d')"
  shows "d' = d"
  using assms provider_claim.refused
  by (simp add: claim_provider_object_def split: option.splits if_splits)

lemma claim_won:
  assumes "claim_provider_object scope ext prov d = (True, d')"
  obtains i where "ext = Some i" "i \<noteq> []"
    "claim_grant \<lparr>pg_provider = prov, pg_scope = scope, pg_external = i\<rparr> d = (True, d')"
proof (cases ext)
  case None
  with assms show ?thesis by (simp add: claim_provider_object_def)
next
  case (Some i)
  with assms have "i \<noteq> []" by (cases i) (simp_all add: claim_provider_object_def)
  with Some assms show ?thesis by (intro that[of i]) (simp_all add: claim_provider_object_def)
qed

lemma claim_twice:
  assumes "claim_provider_object scope ext prov d = (True, d')" and "set (grants d') \<subseteq> set (grants d'')"
  shows "claim_provider_object scope ext prov d'' = (False, d'')"
proof -
  from assms(1) obtain i where i: "ext = Some i" "i \<noteq> []"
    and c: "claim_grant \<lparr>pg_provider = prov, pg_scope = scope, pg_external = i\<rparr> d = (True, d')"
    by (rule claim_won)
  from provider_claim.won[OF c] assms(2)
  have "granted d'' \<lparr>pg_provider = prov, pg_scope = scope, pg_external = i\<rparr>"
    unfolding granted_def by blast
  from provider_claim.lost[OF this] i show ?thesis by (simp add: claim_provider_object_def)
qed

text \<open>The claim touches no table the account is read from, and keeps the invariant.\<close>

lemma grants_only_inv:
  assumes "d' = d\<lparr>grants := g\<rparr>"
  shows "inv d' = inv d" "account_of d' w now = account_of d w now" "wallet_ids d' = wallet_ids d"
proof -
  have t: "lots d' = lots d" "txns d' = txns d" "debts d' = debts d" "holds d' = holds d" "allocs d' = allocs d"
    "wallets d' = wallets d" "next_id d' = next_id d" by (simp_all add: assms)
  show ids: "wallet_ids d' = wallet_ids d" by (simp add: wallet_ids_def t)
  show "account_of d' w now = account_of d w now" by (rule account_cong) (simp_all add: t)
  have "wf_db d' = wf_db d"
    by (simp add: wf_db_def lots_ok_def wallets_ok_def txns_ok_def lot_refs_ok_def hold_rows_ok_def
        alloc_rows_ok_def debts_ok_def ids t)
  moreover have "holds_ok d' = holds_ok d" by (simp add: holds_ok_def t alloc_total_def)
  moreover have "balanced d' v = balanced d v" for v
    unfolding balanced_def using totals_cong[of d' d] by (simp add: t)
  ultimately show "inv d' = inv d" by (simp add: inv_def)
qed

lemma claim_inv:
  assumes "claim_provider_object scope ext prov d = (b, d')"
  shows "inv d' = inv d"
  using claim_frame[OF assms]
proof
  assume "\<exists>g. d' = d\<lparr>grants := grants d @ [g]\<rparr>"
  then show ?thesis using grants_only_inv(1) by blast
qed simp

end
