(* ===== verification/Wallet_Ops.thy ===== *)
theory Wallet_Ops
  imports Account
begin

section \<open>Credit, manual grant, debit, affordability (services.py)\<close>

text \<open>
  The operations that put credits into a wallet and charge them. The keyword arguments of a
  call are a record; an idempotency key of \<open>[]\<close> is "none given". A call runs under the
  wallet's row lock and inside one transaction, so it is a function of the database that
  returns the exception or the result with the new database; \<open>now\<close> is the instant the
  call read from the clock. \<open>credit\<close> and \<open>debit\<close> are split where the code splits:
  the idempotency short-circuit, then the body (\<open>credit_new\<close>, \<open>debit_new\<close>).
\<close>

record credit_req =
  cr_user :: user
  cr_credits :: int
  cr_type :: txn_type
  cr_source :: lot_source
  cr_desc :: "string option"
  cr_amount :: "int option"
  cr_meta :: dict
  cr_expires :: deadline
  cr_key :: string
  cr_settle :: bool

definition with_key :: "string \<Rightarrow> dict \<Rightarrow> dict" where
  "with_key key m = (if key = [] then m else dset ''idempotency_key'' (JStr key) m)"

definition existing_call :: "settings \<Rightarrow> db \<Rightarrow> uuid \<Rightarrow> string \<Rightarrow> txn option" where
  "existing_call cf d w key = (if key = [] then None else transaction_by_idempotency_key cf d w key)"

definition credit_new :: "time \<Rightarrow> credit_req \<Rightarrow> uuid \<Rightarrow> db \<Rightarrow> error + txn \<times> db" where
  "credit_new now r w d =
     (let d1 = snd (expire_due_lots w now d);
          (l, d2) = create_lot w (cr_source r) (cr_credits r) (cr_expires r) None d1;
          (balance, d3) = sync_balance w now d2;
          (t, d4) = create_txn w (Some l) (cr_type r) (cr_amount r) (cr_credits r) balance (cr_desc r)
            (with_key (cr_key r) (cr_meta r)) (cr_key r) now d3;
          d5 = upd_lot l (\<lambda>x. x\<lparr>lot_grant := Some (txn_id t)\<rparr>) d4
      in if cr_settle r
         then (case settle_debts w now d5 of Inl e \<Rightarrow> Inl e | Inr (n, d6) \<Rightarrow> Inr (t, d6))
         else Inr (t, d5))"

definition credit :: "settings \<Rightarrow> time \<Rightarrow> credit_req \<Rightarrow> db \<Rightarrow> error + txn \<times> db" where
  "credit cf now r d =
     (if cr_credits r \<le> 0 then Inl (ValueError ''credits must be positive'')
      else if cr_expires r \<le> At now then Inl (ValueError ''expires_at must be in the future'')
      else let (w, d0) = lock_wallet (u_id (cr_user r)) d
           in case existing_call cf d0 w (cr_key r) of
                Some t \<Rightarrow> Inr (t, d0)
              | None \<Rightarrow> credit_new now r w d0)"

subsection \<open>The manual grant and the account it lands on\<close>

definition resolve_account :: "settings \<Rightarrow> string \<Rightarrow> error + user" where
  "resolve_account cf reference =
     (let ref = strip reference
      in if ref = [] then Inl AccountNotFoundError
         else case find (\<lambda>u. u_id u = ref) (cf_users cf) of
                Some u \<Rightarrow> Inr u
              | None \<Rightarrow>
                  (case filter (\<lambda>u. lower (u_email u) = lower ref) (cf_users cf) of
                     [] \<Rightarrow> Inl AccountNotFoundError
                   | [u] \<Rightarrow> Inr u
                   | _ \<Rightarrow> Inl AmbiguousAccountError))"

definition grant_metadata :: "dict \<Rightarrow> string \<Rightarrow> string \<Rightarrow> dict" where
  "grant_metadata m explanation who =
     dmerge m [(''manual_grant'', JBool True), (''admin_grant'', JBool True),
               (''reason'', JStr explanation), (''actor'', JStr who), (''granted_by'', JStr who)]"

definition grant_credits ::
    "settings \<Rightarrow> time \<Rightarrow> user option \<Rightarrow> int \<Rightarrow> string \<Rightarrow> string \<Rightarrow> string \<Rightarrow> deadline \<Rightarrow> dict \<Rightarrow> db \<Rightarrow> error + txn \<times> db" where
  "grant_credits cf now user amount reason actor key expires m d =
     (case user of
        None \<Rightarrow> Inl AccountNotFoundError
      | Some u \<Rightarrow>
          if amount \<le> 0 then Inl (ValueError ''credits must be positive'')
          else let explanation = strip reason; who = strip actor
               in if explanation = [] then Inl (ValueError ''reason is required'')
                  else if who = [] then Inl (ValueError ''actor is required'')
                  else credit cf now
                    \<lparr>cr_user = u, cr_credits = amount, cr_type = ADJUSTMENT, cr_source = LOT_ADJUSTMENT,
                     cr_desc = Some (take 255 (''Manual grant by '' @ who @ '': '' @ explanation)),
                     cr_amount = None, cr_meta = grant_metadata m explanation who,
                     cr_expires = expires, cr_key = key, cr_settle = True\<rparr> d)"

subsection \<open>Debit\<close>

record debit_req =
  de_user :: user
  de_credits :: int
  de_type :: txn_type
  de_desc :: "string option"
  de_meta :: dict
  de_key :: string
  de_partial :: bool

record debit_result =
  dr_txn :: txn
  dr_requested :: int
  dr_debited :: int
  dr_shortfall :: int
  dr_balance :: int
  dr_debt :: "debt option"

text \<open>\<open>debit\<close> answers a \<open>Transaction\<close>, or a \<open>DebitResult\<close> to a caller that allows a partial charge.\<close>

datatype debit_answer = Whole txn | Result debit_result

definition dr_complete :: "debit_result \<Rightarrow> bool" where
  "dr_complete r = (dr_shortfall r = 0)"

definition answer_for :: "bool \<Rightarrow> debit_result \<Rightarrow> debit_answer" where
  "answer_for allow_partial r = (if allow_partial then Result r else Whole (dr_txn r))"

definition meter_only_debit :: "time \<Rightarrow> debit_req \<Rightarrow> uuid \<Rightarrow> db \<Rightarrow> debit_answer \<times> db" where
  "meter_only_debit now r w d =
     (let balance = live_balance d w now;
          m = dset ''lots'' (JArr []) (with_key (de_key r) (mark (de_meta r) (de_credits r)));
          (t, d1) = create_txn w None (de_type r) None 0 balance (de_desc r) m (de_key r) now d
      in (answer_for (de_partial r)
            \<lparr>dr_txn = t, dr_requested = de_credits r, dr_debited = 0, dr_shortfall = 0,
             dr_balance = balance, dr_debt = None\<rparr>, d1))"

definition replay_debit :: "db \<Rightarrow> txn \<Rightarrow> int \<Rightarrow> debit_result" where
  "replay_debit d t requested =
     (let debited = - txn_delta t; m = txn_meta t
      in if was_waived m
         then \<lparr>dr_txn = t, dr_requested = (case dint m WAIVED of Some n \<Rightarrow> n | None \<Rightarrow> requested),
               dr_debited = 0, dr_shortfall = 0, dr_balance = txn_balance t, dr_debt = None\<rparr>
         else let original = (case dint m ''requested_credits'' of Some n \<Rightarrow> n | None \<Rightarrow> requested)
              in \<lparr>dr_txn = t, dr_requested = original, dr_debited = debited,
                  dr_shortfall = max (original - debited) 0, dr_balance = txn_balance t,
                  dr_debt = find (\<lambda>x. debt_txn x = Some (txn_id t)) (debts d)\<rparr>)"

definition debit_meta :: "debit_req \<Rightarrow> (lot \<times> int) list \<Rightarrow> int \<Rightarrow> dict" where
  "debit_meta r taken shortfall =
     (let m = dset ''lots'' (consumption_metadata taken) (with_key (de_key r) (de_meta r))
      in if shortfall = 0 then m
         else dset ''shortfall'' (JInt shortfall)
                (dset ''requested_credits'' (JInt (de_credits r)) (dset ''partial'' (JBool True) m)))"

text \<open>What \<open>allow_partial\<close> leaves of the request to charge, given the live balance.\<close>

definition chargeable :: "debit_req \<Rightarrow> int \<Rightarrow> int" where
  "chargeable r avail = (if de_partial r then min (de_credits r) avail else de_credits r)"

definition debit_shortfall :: "debit_req \<Rightarrow> uuid \<Rightarrow> int \<Rightarrow> txn \<Rightarrow> db \<Rightarrow> (txn \<times> debt) \<times> db" where
  "debit_shortfall r w shortfall t d = book_debt w shortfall PARTIAL_DEBIT (de_type r) (de_desc r) (de_key r) t d"

definition debit_new :: "settings \<Rightarrow> time \<Rightarrow> debit_req \<Rightarrow> uuid \<Rightarrow> db \<Rightarrow> error + debit_answer \<times> db" where
  "debit_new cf now r w d =
     (let d1 = snd (expire_due_lots w now d)
      in if meter_only cf (Some (de_user r)) then Inr (meter_only_debit now r w d1)
         else let charge = chargeable r (live_balance d1 w now)
              in case (if charge = 0 then Inr ([], d1) else consume_lots w charge now d1) of
                   Inl e \<Rightarrow> Inl e
                 | Inr (taken, d2) \<Rightarrow>
                     let (balance, d3) = sync_balance w now d2;
                         shortfall = de_credits r - charge;
                         (t, d4) = create_txn w (single_lot taken) (de_type r) None (- charge) balance
                           (de_desc r) (debit_meta r taken shortfall) (de_key r) now d3
                     in if shortfall = 0
                        then Inr (answer_for (de_partial r)
                               \<lparr>dr_txn = t, dr_requested = de_credits r, dr_debited = charge,
                                dr_shortfall = 0, dr_balance = balance, dr_debt = None\<rparr>, d4)
                        else let ((t', x), d5) = debit_shortfall r w shortfall t d4
                             in Inr (answer_for (de_partial r)
                               \<lparr>dr_txn = t', dr_requested = de_credits r, dr_debited = charge,
                                dr_shortfall = shortfall, dr_balance = balance, dr_debt = Some x\<rparr>, d5))"

definition debit :: "settings \<Rightarrow> time \<Rightarrow> debit_req \<Rightarrow> db \<Rightarrow> error + debit_answer \<times> db" where
  "debit cf now r d =
     (if de_credits r \<le> 0 then Inl (ValueError ''credits must be positive'')
      else let (w, d0) = lock_wallet (u_id (de_user r)) d
           in case existing_call cf d0 w (de_key r) of
                Some t \<Rightarrow> Inr (if de_partial r then Result (replay_debit d0 t (de_credits r)) else Whole t, d0)
              | None \<Rightarrow> debit_new cf now r w d0)"

subsection \<open>The read-only pre-flight\<close>

record affordability =
  af_affordable :: bool
  af_balance :: int
  af_requested :: int
  af_shortfall :: int

definition find_user :: "settings \<Rightarrow> uid \<Rightarrow> user option" where
  "find_user cf u = find (\<lambda>x. u_id x = u) (cf_users cf)"

definition can_afford ::
    "settings \<Rightarrow> time \<Rightarrow> user option \<Rightarrow> wallet option \<Rightarrow> int \<Rightarrow> db \<Rightarrow> error + affordability" where
  "can_afford cf now user wal credits d =
     (if credits \<le> 0 then Inl (ValueError ''credits must be positive'')
      else if wal = None \<and> user = None then Inl (ValueError ''can_afford needs either user or wallet'')
      else let w = (case wal of Some x \<Rightarrow> Some x
                    | None \<Rightarrow> (case user of Some u \<Rightarrow> wallet_of_user d (u_id u) | None \<Rightarrow> None));
               balance = (case w of Some x \<Rightarrow> live_balance d (w_id x) now | None \<Rightarrow> 0);
               subject = (case user of Some u \<Rightarrow> Some u
                          | None \<Rightarrow> (case w of Some x \<Rightarrow> Option.bind (w_user x) (find_user cf) | None \<Rightarrow> None))
           in if meter_only cf subject
              then Inr \<lparr>af_affordable = True, af_balance = balance, af_requested = credits, af_shortfall = 0\<rparr>
              else Inr \<lparr>af_affordable = (credits \<le> balance), af_balance = balance,
                        af_requested = credits, af_shortfall = max (credits - balance) 0\<rparr>)"

subsection \<open>Debit: what is charged, what is refused, what becomes a debt\<close>

text \<open>The walk of a charge, which a charge of nothing skips.\<close>

lemma charge_step:
  assumes "wf_db d" and "0 \<le> n" and "n \<le> live_balance d w now"
  shows "\<exists>taken d'. (if n = 0 then Inr ([], d) else consume_lots w n now d) = Inr (taken, d') \<and>
    spends d d' \<and> txns d' = txns d \<and> debts d' = debts d \<and> wallets d' = wallets d \<and> next_id d' = next_id d \<and>
    (\<forall>w'. lot_total d' w' = lot_total d w' - (if w' = w then n else 0)) \<and>
    (\<forall>w'. live_balance d' w' now = live_balance d w' now - (if w' = w then n else 0))"
proof (cases "n = 0")
  case True
  with assms(1) show ?thesis by (simp add: spends_refl)
next
  case False
  from lot_spend.cover[OF wf_lots_ok[OF assms(1)] assms(2,3)] obtain taken d' where
    eq: "consume_lots w n now d = Inr (taken, d')" by blast
  from False spends_consume[OF assms(1) eq] consume_lots_frame[OF eq]
    consume_lots_total[OF wf_lots_ok[OF assms(1)] assms(2) eq]
    consume_lots_live[OF wf_lots_ok[OF assms(1)] assms(2) eq]
  show ?thesis by (intro exI[of _ taken] exI[of _ d']) (simp add: eq)
qed

text \<open>The body of \<open>debit\<close> where the walk is covered: one row, and one debt for a shortfall.\<close>

lemma debit_new_refused:
  assumes "inv d" and "w \<in> wallet_ids d" and "\<not> meter_only cf (Some (de_user r))"
    and "0 < de_credits r" and "\<not> de_partial r" and "live_balance d w now < de_credits r"
  shows "debit_new cf now r w d = Inl (InsufficientCreditsError (live_balance d w now) (de_credits r))"
  using assms expire_live[OF inv_wf[OF assms(1)] assms(2), of now w]
  by (simp add: debit_new_def Let_def consume_lots_cases chargeable_def)

lemma debit_new_done:
  assumes inv: "inv d" and w: "w \<in> wallet_ids d" and charged: "\<not> meter_only cf (Some (de_user r))"
    and pos: "0 < de_credits r"
    and n: "n = chargeable r (live_balance d w now)" "n \<le> live_balance d w now"
  obtains t ox d' taken where
    "debit_new cf now r w d = Inr (answer_for (de_partial r)
      \<lparr>dr_txn = t, dr_requested = de_credits r, dr_debited = n, dr_shortfall = de_credits r - n,
       dr_balance = live_balance d w now - n, dr_debt = ox\<rparr>, d')"
    "spends d d'" "inv d'" "synced d' w now"
    "\<And>w'. live_balance d' w' now = live_balance d w' now - (if w' = w then n else 0)"
    "txns d' = txns (snd (expire_due_lots w now d)) @ [t]"
    "debts d' = debts (snd (expire_due_lots w now d)) @ (case ox of None \<Rightarrow> [] | Some x \<Rightarrow> [x])"
    "txn_wallet t = w" "txn_delta t = - n" "txn_balance t = live_balance d w now - n" "txn_key t = de_key r"
    "next_id d \<le> txn_id t"
    "if n = de_credits r then ox = None \<and> txn_meta t = debit_meta r taken 0
     else (\<exists>x. ox = Some x \<and> debt_wallet x = w \<and> debt_initial x = de_credits r - n \<and>
       debt_outstanding x = de_credits r - n \<and> debt_settled x = None \<and> debt_txn x = Some (txn_id t) \<and>
       txn_meta t = dset ''debt_id'' (JStr (uuid_str (debt_id x))) (debit_meta r taken (de_credits r - n)))"
proof -
  let ?d1 = "snd (expire_due_lots w now d)" and ?s = "de_credits r - n"
  note wf = inv_wf[OF inv]
  have s1: "spends d ?d1" by (rule expire_spends[OF wf w])
  note wf1 = spends_wf[OF wf s1]
  have live1: "live_balance ?d1 w' now = live_balance d w' now" for w' by (rule expire_live[OF wf w])
  have n0: "0 \<le> n" "n \<le> de_credits r" using pos n(1) live_balance_nonneg[of d w now] by (auto simp: chargeable_def)
  from charge_step[OF wf1 n0(1), of w now] n(2) live1 obtain taken d2 where
    c: "(if n = 0 then Inr ([], ?d1) else consume_lots w n now ?d1) = Inr (taken, d2)"
    and s2: "spends ?d1 d2" and same: "txns d2 = txns ?d1" "debts d2 = debts ?d1"
    and lt: "\<And>w'. lot_total d2 w' = lot_total ?d1 w' - (if w' = w then n else 0)"
    and lv: "\<And>w'. live_balance d2 w' now = live_balance d w' now - (if w' = w then n else 0)"
    by auto
  let ?d3 = "snd (sync_balance w now d2)"
  have s3: "spends d2 ?d3" by (rule spends_sync[OF spends_wf[OF wf1 s2]])
  note wf3 = spends_wf[OF spends_wf[OF wf1 s2] s3]
  have w2: "w \<in> wallet_ids d2" "w \<in> wallet_ids ?d3"
    using w spends_wallet_ids[OF s1] spends_wallet_ids[OF s2] spends_wallet_ids[OF s3] by simp_all
  let ?bal = "live_balance d2 w now"
  obtain t0 d4 where ct: "create_txn w (single_lot taken) (de_type r) None (- n) ?bal (de_desc r)
      (debit_meta r taken ?s) (de_key r) now ?d3 = (t0, d4)"
    by (metis surj_pair)
  have t0: "t0 = new_txn (next_id ?d3) w (single_lot taken) (de_type r) None (- n) ?bal (de_desc r)
      (debit_meta r taken ?s) (de_key r) now" and d4: "snd (create_txn w (single_lot taken) (de_type r) None
      (- n) ?bal (de_desc r) (debit_meta r taken ?s) (de_key r) now ?d3) = d4"
    using ct by (auto simp: create_txn_def Let_def)
  have s4: "spends ?d3 d4" using spends_create_txn[OF wf3 w2(2)] d4 by metis
  have d4f: "lots d4 = lots ?d3" "wallets d4 = wallets ?d3" "txns d4 = txns ?d3 @ [t0]" "debts d4 = debts ?d3"
    using create_txn_frame[of w "single_lot taken" "de_type r" None "- n" ?bal "de_desc r" "debit_meta r taken ?s"
      "de_key r" now ?d3] ct by simp_all
  have body: "debit_new cf now r w d = (if ?s = 0
      then Inr (answer_for (de_partial r)
        \<lparr>dr_txn = t0, dr_requested = de_credits r, dr_debited = n, dr_shortfall = 0,
         dr_balance = ?bal, dr_debt = None\<rparr>, d4)
      else let ((t', x), d5) = debit_shortfall r w ?s t0 d4
           in Inr (answer_for (de_partial r)
             \<lparr>dr_txn = t', dr_requested = de_credits r, dr_debited = n,
              dr_shortfall = ?s, dr_balance = ?bal, dr_debt = Some x\<rparr>, d5))"
  proof -
    have ch: "chargeable r (live_balance ?d1 w now) = n" using n(1) live1 by simp
    obtain d3 where "sync_balance w now d2 = (?bal, d3)" using sync_result by blast
    with charged ct show ?thesis unfolding debit_new_def Let_def ch c by simp
  qed
  have bal: "?bal = live_balance d w now - n" using lv by simp
  have ids: "next_id d \<le> next_id ?d3"
    using spends_trans[OF s1 spends_trans[OF s2 s3]] by (simp add: spends_def)
  have sy: "synced ?d3 w now" using w2(1) by (rule synced_sync)
  have fin: "inv d'" "spends d d'" "synced d' w now"
    "live_balance d' w' now = live_balance d w' now - (if w' = w then n else 0)"
    if s: "spends ?d3 d'" and l: "lots d' = lots ?d3" and wl: "wallets d' = wallets ?d3"
      and tx: "txns d' = txns ?d3 @ [t]" "txn_delta t = - n" "txn_wallet t = w" for d' t w'
  proof -
    show sp: "spends d d'" using s1 s2 s3 s by (blast intro: spends_trans)
    have lots: "lots d' = lots d2" using l by (simp add: sync_balance_frame)
    then have live: "live_balance d' v now = live_balance d2 v now" for v by (rule live_balance_cong)
    then show "live_balance d' w' now = live_balance d w' now - (if w' = w then n else 0)" using lv by simp
    show "synced d' w now" using sy synced_cong[OF wl] live by (simp add: sync_totals)
    have "lot_total d' v = lot_total d2 v" for v using lots by (rule totals_cong)
    moreover have "ledger_total d' v = ledger_total ?d1 v - (if v = w then n else 0)" for v
      using tx same by (simp add: ledger_total_def sync_balance_frame)
    ultimately show "inv d'"
      using lt expire_totals[OF wf_lots_ok[OF wf], of w now]
      by (intro inv_spends[OF inv sp]) simp
  qed
  show ?thesis
  proof (cases "?s = 0")
    case True
    have "debts d4 = debts ?d1" "txns d4 = txns ?d1 @ [t0]"
      using same by (simp_all add: d4f sync_balance_frame)
    with True body bal fin[OF s4 d4f(1,2,3)] show ?thesis
      by (intro that[of t0 None d4 taken]) (simp_all add: t0 ids)
  next
    case False
    obtain t' x d5 where ds: "debit_shortfall r w ?s t0 d4 = ((t', x), d5)" by (metis surj_pair)
    have s0: "0 \<le> ?s" using n0 by simp
    note f = book_debt_facts[OF wf3 w2(2) s0 ct ds[unfolded debit_shortfall_def]]
    have "debts d5 = debts ?d1 @ [x]" "txns d5 = txns ?d1 @ [t']"
      using same by (simp_all add: f(4,5) sync_balance_frame)
    with False body bal ds f fin[OF f(1,2,3,4,7,8)] show ?thesis
      by (intro that[of t' "Some x" d5 taken]) (simp_all add: ids)
  qed
qed

subsection \<open>The metered charge\<close>

lemma meter_only_debit_facts:
  assumes "inv d" and "w \<in> wallet_ids d" and "meter_only_debit now r w d = (a, d')"
  shows "spends d d'" "inv d'" "lots d' = lots d" "debts d' = debts d" "wallets d' = wallets d"
    "\<exists>t. txns d' = txns d @ [t] \<and> txn_wallet t = w \<and> txn_delta t = 0 \<and> txn_key t = de_key r \<and>
      was_waived (txn_meta t) \<and> dint (txn_meta t) WAIVED = Some (de_credits r) \<and> txn_balance t = live_balance d w now \<and>
      a = answer_for (de_partial r) \<lparr>dr_txn = t, dr_requested = de_credits r, dr_debited = 0,
        dr_shortfall = 0, dr_balance = live_balance d w now, dr_debt = None\<rparr>"
proof -
  let ?m = "dset ''lots'' (JArr []) (with_key (de_key r) (mark (de_meta r) (de_credits r)))"
  let ?c = "create_txn w None (de_type r) None 0 (live_balance d w now) (de_desc r) ?m (de_key r) now d"
  have d': "d' = snd ?c" and a: "a = answer_for (de_partial r) \<lparr>dr_txn = fst ?c, dr_requested = de_credits r,
      dr_debited = 0, dr_shortfall = 0, dr_balance = live_balance d w now, dr_debt = None\<rparr>"
    using assms(3) by (simp_all add: meter_only_debit_def Let_def split_beta)
  show s: "spends d d'" unfolding d' by (rule spends_create_txn[OF inv_wf[OF assms(1)] assms(2)])
  show l: "lots d' = lots d" "debts d' = debts d" "wallets d' = wallets d"
    unfolding d' by (rule create_txn_frame)+
  show "inv d'"
    using totals_cong(1)[OF l(1)] by (intro inv_spends[OF assms(1) s]) (simp add: d' ledger_create_txn)
  have "dget ?m MARKER = Some (JBool True)" "dget ?m WAIVED = Some (JInt (de_credits r))"
    by (simp_all add: with_key_def mark_def MARKER_def WAIVED_def)
  then show "\<exists>t. txns d' = txns d @ [t] \<and> txn_wallet t = w \<and> txn_delta t = 0 \<and> txn_key t = de_key r \<and>
      was_waived (txn_meta t) \<and> dint (txn_meta t) WAIVED = Some (de_credits r) \<and> txn_balance t = live_balance d w now \<and>
      a = answer_for (de_partial r) \<lparr>dr_txn = t, dr_requested = de_credits r, dr_debited = 0,
        dr_shortfall = 0, dr_balance = live_balance d w now, dr_debt = None\<rparr>"
    by (intro exI[of _ "fst ?c"]) (simp add: a d' create_txn_frame was_waived_def dtruthy_def dint_def)
qed

lemma debit_new_metered:
  assumes "inv d" and "w \<in> wallet_ids d" and "meter_only cf (Some (de_user r))"
  obtains a d' where "debit_new cf now r w d = Inr (a, d')"
    "meter_only_debit now r w (snd (expire_due_lots w now d)) = (a, d')" "inv d'" "spends d d'"
    "\<And>w'. account_of d' w' now = account_of d w' now"
proof -
  let ?d1 = "snd (expire_due_lots w now d)"
  obtain a d' where m: "meter_only_debit now r w ?d1 = (a, d')" by (metis surj_pair)
  note wf = inv_wf[OF assms(1)]
  have s1: "spends d ?d1" by (rule expire_spends[OF wf assms(2)])
  have w1: "w \<in> wallet_ids ?d1" using assms(2) spends_wallet_ids[OF s1] by simp
  note f = meter_only_debit_facts[OF inv_expire[OF assms(1,2)] w1 m]
  have "account_of d' w' now = account_of ?d1 w' now" for w'
    using f(1) by (intro account_cong f(3,4)) (simp_all add: spends_def)
  moreover have "account_of ?d1 w' now = account_of d w' now" for w'
    by (rule expire_account[OF wf assms(2)])
  ultimately show ?thesis
    using assms(3) m f(2) spends_trans[OF s1 f(1)] by (intro that[of a d']) (simp_all add: debit_new_def)
qed

subsection \<open>Debit implements its specification\<close>

lemma debit_unkeyed:
  assumes "lock_wallet (u_id (de_user r)) d = (w, d0)" and "0 < de_credits r"
    and "existing_call cf d0 w (de_key r) = None"
  shows "debit cf now r d = debit_new cf now r w d0"
  using assms by (simp add: debit_def)

lemma debit_new_account:
  assumes inv: "inv d" and w: "w \<in> wallet_ids d" and charged: "\<not> meter_only cf (Some (de_user r))"
    and pos: "0 < de_credits r"
  shows "case debit_new cf now r w d of
      Inl e \<Rightarrow> spec_debit (de_credits r) (de_partial r) (account_of d w now) = None \<and>
        e = InsufficientCreditsError (live_balance d w now) (de_credits r)
    | Inr (a, d') \<Rightarrow>
        spec_debit (de_credits r) (de_partial r) (account_of d w now) = Some (account_of d' w now) \<and>
        (\<forall>w'. w' \<noteq> w \<longrightarrow> account_of d' w' now = account_of d w' now) \<and>
        inv d' \<and> spends d d' \<and> synced d' w now"
proof (cases "chargeable r (live_balance d w now) \<le> live_balance d w now")
  case False
  then have "\<not> de_partial r" "live_balance d w now < de_credits r" by (auto simp: chargeable_def split: if_splits)
  with debit_new_refused[OF inv w charged pos] show ?thesis by (simp add: spec_debit_def)
next
  case True
  let ?n = "chargeable r (live_balance d w now)"
  obtain t ox d' taken where b: "debit_new cf now r w d = Inr (answer_for (de_partial r)
      \<lparr>dr_txn = t, dr_requested = de_credits r, dr_debited = ?n, dr_shortfall = de_credits r - ?n,
       dr_balance = live_balance d w now - ?n, dr_debt = ox\<rparr>, d')"
    and s: "spends d d'" and i: "inv d'" and sy: "synced d' w now"
    and l: "\<And>w'. live_balance d' w' now = live_balance d w' now - (if w' = w then ?n else 0)"
    and db: "debts d' = debts (snd (expire_due_lots w now d)) @ (case ox of None \<Rightarrow> [] | Some x \<Rightarrow> [x])"
    and ox: "if ?n = de_credits r then ox = None \<and> txn_meta t = debit_meta r taken 0
     else (\<exists>x. ox = Some x \<and> debt_wallet x = w \<and> debt_initial x = de_credits r - ?n \<and>
       debt_outstanding x = de_credits r - ?n \<and> debt_settled x = None \<and> debt_txn x = Some (txn_id t) \<and>
       txn_meta t = dset ''debt_id'' (JStr (uuid_str (debt_id x))) (debit_meta r taken (de_credits r - ?n)))"
    by (rule debit_new_done[OF inv w charged pos refl True]) blast
  have le: "?n \<le> de_credits r" by (simp add: chargeable_def)
  have "outstanding_debt (snd (expire_due_lots w now d)) w' = outstanding_debt d w'" for w'
    using expire_account[OF inv_wf[OF inv] w, of now w'] by (simp add: account_of_def)
  then have owed: "outstanding_debt d' w' = outstanding_debt d w' +
      (if w' = w then de_credits r - ?n else 0)" for w'
    using ox le by (auto simp: outstanding_sum db split: if_splits)
  have "spec_debit (de_credits r) (de_partial r) (account_of d w now) = Some (account_of d' w now)"
    using True l[of w] owed[of w] spends_reserved[OF s, of w]
    by (auto simp: spec_debit_def account_of_def chargeable_def min_def split: if_splits)
  moreover have "account_of d' w' now = account_of d w' now" if "w' \<noteq> w" for w'
    using l[of w'] owed[of w'] spends_reserved[OF s, of w'] that by (simp add: account_of_def)
  ultimately show ?thesis using b s i sy by simp
qed

subsection \<open>Replays\<close>

lemma existing_call_last:
  assumes "key \<noteq> []" and "txns d = ts @ [t]" and "txn_wallet t = w" and "txn_key t = key"
  shows "existing_call cf d w key = Some t"
  using assms by (simp add: existing_call_def transaction_by_idempotency_key_def)

lemma existing_call_cong: "txns d = txns d' \<Longrightarrow> existing_call cf d w key = existing_call cf d' w key"
  by (simp add: existing_call_def transaction_by_idempotency_key_def cong: option.case_cong)

text \<open>
  Metadata that does not carry the keys the library itself writes on a charge. A caller that
  sends them can make a replay read its own row wrongly.
\<close>

definition plain_meta :: "dict \<Rightarrow> bool" where
  "plain_meta m = (\<not> was_waived m \<and> dint m ''requested_credits'' = None)"

lemma debit_meta_reads:
  assumes "plain_meta (de_meta r)"
  shows "\<not> was_waived (debit_meta r taken s)" "\<not> was_waived (dset ''debt_id'' v (debit_meta r taken s))"
    "dint (debit_meta r taken s) ''requested_credits'' = (if s = 0 then None else Some (de_credits r))"
    "dint (dset ''debt_id'' v (debit_meta r taken s)) ''requested_credits'' = (if s = 0 then None else Some (de_credits r))"
  using assms
  by (auto simp: plain_meta_def debit_meta_def with_key_def was_waived_def dtruthy_def MARKER_def dint_def Let_def)

lemma find_debt_last:
  assumes "debts d = xs @ (case ox of None \<Rightarrow> [] | Some x \<Rightarrow> [x])"
    and "\<And>y. y \<in> set xs \<Longrightarrow> debt_txn y \<noteq> Some i" and "\<And>x. ox = Some x \<Longrightarrow> debt_txn x = Some i"
  shows "find (\<lambda>x. debt_txn x = Some i) (debts d) = ox"
  using assms(2)
proof (simp only: assms(1), induction xs)
  case Nil
  then show ?case using assms(3) by (cases ox) auto
qed auto

lemma debit_new_replay:
  assumes inv: "inv d" and w: "w \<in> wallet_ids d" and pos: "0 < de_credits r"
    and plain: "plain_meta (de_meta r)" and b: "debit_new cf now r w d = Inr (a, d')"
  shows "\<exists>t ts. txns d' = ts @ [t] \<and> txn_wallet t = w \<and> txn_key t = de_key r \<and>
    a = answer_for (de_partial r) (replay_debit d' t (de_credits r))"
proof (cases "meter_only cf (Some (de_user r))")
  case True
  let ?d1 = "snd (expire_due_lots w now d)"
  note wf = inv_wf[OF inv]
  have w1: "w \<in> wallet_ids ?d1" using w spends_wallet_ids[OF expire_spends[OF wf w]] by simp
  from True b have "meter_only_debit now r w ?d1 = (a, d')" by (simp add: debit_new_def)
  from meter_only_debit_facts(6)[OF inv_expire[OF inv w] w1 this] obtain t where
    "txns d' = txns ?d1 @ [t]" "txn_wallet t = w" "txn_delta t = 0" "txn_key t = de_key r"
    "was_waived (txn_meta t)" "dint (txn_meta t) WAIVED = Some (de_credits r)"
    "txn_balance t = live_balance ?d1 w now"
    "a = answer_for (de_partial r) \<lparr>dr_txn = t, dr_requested = de_credits r, dr_debited = 0,
        dr_shortfall = 0, dr_balance = live_balance ?d1 w now, dr_debt = None\<rparr>" by blast
  then show ?thesis by (auto simp: replay_debit_def Let_def)
next
  case False
  let ?n = "chargeable r (live_balance d w now)"
  have le: "?n \<le> live_balance d w now"
  proof (rule ccontr)
    assume "\<not> ?n \<le> live_balance d w now"
    then have "\<not> de_partial r" "live_balance d w now < de_credits r"
      by (auto simp: chargeable_def split: if_splits)
    with debit_new_refused[OF inv w False pos] b show False by simp
  qed
  obtain t ox d'' taken where b': "debit_new cf now r w d = Inr (answer_for (de_partial r)
      \<lparr>dr_txn = t, dr_requested = de_credits r, dr_debited = ?n, dr_shortfall = de_credits r - ?n,
       dr_balance = live_balance d w now - ?n, dr_debt = ox\<rparr>, d'')"
    and tx: "txns d'' = txns (snd (expire_due_lots w now d)) @ [t]"
    and db: "debts d'' = debts (snd (expire_due_lots w now d)) @ (case ox of None \<Rightarrow> [] | Some x \<Rightarrow> [x])"
    and t: "txn_wallet t = w" "txn_delta t = - ?n" "txn_balance t = live_balance d w now - ?n" "txn_key t = de_key r"
      "next_id d \<le> txn_id t"
    and ox: "if ?n = de_credits r then ox = None \<and> txn_meta t = debit_meta r taken 0
     else (\<exists>x. ox = Some x \<and> debt_wallet x = w \<and> debt_initial x = de_credits r - ?n \<and>
       debt_outstanding x = de_credits r - ?n \<and> debt_settled x = None \<and> debt_txn x = Some (txn_id t) \<and>
       txn_meta t = dset ''debt_id'' (JStr (uuid_str (debt_id x))) (debit_meta r taken (de_credits r - ?n)))"
    by (rule debit_new_done[OF inv w False pos refl le]) blast
  have "find (\<lambda>x. debt_txn x = Some (txn_id t)) (debts d'') = ox"
  proof (rule find_debt_last[OF db])
    fix y assume "y \<in> set (debts (snd (expire_due_lots w now d)))"
    then have "y \<in> set (debts d)" by (simp add: expire_debts)
    then show "debt_txn y \<noteq> Some (txn_id t)"
      using wf_debts_ok[OF inv_wf[OF inv]] t(5) by (auto simp: debts_ok_def)
  qed (use ox in \<open>auto split: if_splits\<close>)
  moreover have "?n \<le> de_credits r" by (simp add: chargeable_def)
  ultimately have "replay_debit d'' t (de_credits r) =
      \<lparr>dr_txn = t, dr_requested = de_credits r, dr_debited = ?n, dr_shortfall = de_credits r - ?n,
       dr_balance = live_balance d w now - ?n, dr_debt = ox\<rparr>"
    using ox t debit_meta_reads[OF plain] by (auto simp: replay_debit_def Let_def split: if_splits)
  with b b' tx t show ?thesis by auto
qed

subsection \<open>Credit implements its specification\<close>

lemma credit_new_done:
  assumes inv: "inv d" and w: "w \<in> wallet_ids d" and pos: "0 < cr_credits r" and fut: "At now < cr_expires r"
  obtains t d' us where
    "credit_new now r w d = Inr (t, d')" "inv d'" "synced d' w now"
    "account_of d' w now = spec_credit (cr_credits r) (cr_settle r) (account_of d w now)"
    "\<And>w'. w' \<noteq> w \<Longrightarrow> account_of d' w' now = account_of d w' now"
    "map wallet_static (wallets d') = map wallet_static (wallets d)"
    "txns d' = txns (snd (expire_due_lots w now d)) @ t # us" "\<forall>x \<in> set us. txn_key x = []"
    "txn_wallet t = w" "txn_delta t = cr_credits r" "txn_key t = cr_key r" "txn_type t = cr_type r"
    "txn_balance t = live_balance d w now + cr_credits r"
    "\<exists>l \<in> set (lots d'). lot_wallet l = w \<and> lot_initial l = cr_credits r \<and> lot_source l = cr_source r \<and>
       lot_expires l = cr_expires r \<and> lot_grant l = Some (txn_id t) \<and> txn_lot t = Some (lot_id l)"
    "holds d' = holds d"
proof -
  let ?d1 = "snd (expire_due_lots w now d)"
  note wf = inv_wf[OF inv]
  have s1: "spends d ?d1" by (rule expire_spends[OF wf w])
  note i1 = inv_expire[OF inv w]
  note wf1 = inv_wf[OF i1]
  have w1: "w \<in> wallet_ids ?d1" using w spends_wallet_ids[OF s1] by simp
  let ?l = "next_id ?d1"
  let ?d2 = "snd (create_lot w (cr_source r) (cr_credits r) (cr_expires r) None ?d1)"
  have wf2: "wf_db ?d2" using pos by (intro wf_create_lot[OF wf1 w1]) simp_all
  let ?d3 = "snd (sync_balance w now ?d2)"
  have s3: "spends ?d2 ?d3" by (rule spends_sync[OF wf2])
  have w2: "w \<in> wallet_ids ?d2" using w1 by (simp add: wallet_ids_def create_lot_frame)
  have w3: "w \<in> wallet_ids ?d3" using w2 spends_wallet_ids[OF s3] by simp
  let ?bal = "live_balance ?d2 w now"
  let ?c = "create_txn w (Some ?l) (cr_type r) (cr_amount r) (cr_credits r) ?bal (cr_desc r)
            (with_key (cr_key r) (cr_meta r)) (cr_key r) now ?d3"
  let ?t = "fst ?c" and ?d4 = "snd ?c"
  note wf4 = spends_wf[OF spends_wf[OF wf2 s3] spends_create_txn[OF spends_wf[OF wf2 s3] w3]]
  let ?d5 = "upd_lot ?l (\<lambda>x. x\<lparr>lot_grant := Some (txn_id ?t)\<rparr>) ?d4"
  have lots4: "lots ?d4 = lots ?d1 @ [\<lparr>lot_id = ?l, lot_wallet = w, lot_source = cr_source r,
        lot_initial = cr_credits r, lot_remaining = cr_credits r, lot_expires = cr_expires r, lot_grant = None\<rparr>]"
    by (simp add: create_txn_frame sync_balance_frame create_lot_def)
  have fresh: "?l \<notin> lot_id ` set (lots ?d1)" using lots_okD(1)[OF wf_lots_ok[OF wf1]] by fastforce
  have t: "?t \<in> set (txns ?d4)" "txn_wallet ?t = w" by (simp_all add: create_txn_frame)
  have wf5: "wf_db ?d5"
  proof (rule wf_upd_grant[OF wf4])
    fix l assume l: "l \<in> set (lots ?d4)" "lot_id l = ?l"
    then have "l \<notin> set (lots ?d1)" using fresh by (metis imageI)
    with l(1) have "lot_wallet l = w" by (simp add: lots4)
    with t show "\<exists>x \<in> set (txns ?d4). txn_id x = txn_id ?t \<and> txn_wallet x = lot_wallet l" by metis
  qed
  have live: "live_balance ?d5 v now = live_balance d v now + (if v = w then cr_credits r else 0)" for v
  proof -
    have "live_balance ?d5 v now = live_balance ?d4 v now" by (rule upd_grant_live[OF wf_lots_ok[OF wf4]])
    also have "\<dots> = live_balance ?d2 v now"
      by (rule live_balance_cong) (simp add: create_txn_frame sync_balance_frame)
    also have "\<dots> = live_balance ?d1 v now + (if v = w then cr_credits r else 0)"
      using pos fut by (subst create_lot_live[OF wf_lots_ok[OF wf1]]) simp_all
    finally show ?thesis using expire_live[OF wf w] by simp
  qed
  have same5: "holds ?d5 = holds ?d1" "allocs ?d5 = allocs ?d1" "debts ?d5 = debts ?d1"
    "wallets ?d5 = wallets ?d3" "txns ?d5 = txns ?d1 @ [?t]"
    by (simp_all add: upd_grant_frame create_txn_frame sync_balance_frame create_lot_frame)
  have acc5: "account_of ?d5 v now = (if v = w then spec_credit (cr_credits r) False (account_of d w now) else account_of d v now)" for v
    using live[of v] expire_account[OF wf w, of now v] outstanding_cong[OF same5(3), of v]
      totals_cong(4)[OF same5(2,1), of v]
    by (simp add: account_of_def spec_credit_def)
  have inv5: "inv ?d5"
  proof -
    have "holds_ok ?d5" using i1 same5(1) totals_cong(3)[OF same5(2)] by (simp add: inv_def holds_ok_def)
    moreover have "balanced ?d5 v" for v
    proof -
      have "lot_total ?d5 v = lot_total ?d1 v + (if v = w then cr_credits r else 0)"
        unfolding upd_grant_totals(1)
        using totals_cong(1)[of ?d4 ?d2 v] by (simp add: create_txn_frame sync_balance_frame create_lot_sum)
      moreover have "ledger_total ?d5 v = ledger_total ?d1 v + (if v = w then cr_credits r else 0)"
        unfolding ledger_total_def same5(5) by simp
      moreover have "reserved ?d5 v = reserved ?d1 v" by (rule totals_cong(4)[OF same5(2,1)])
      ultimately show ?thesis using i1 by (simp add: inv_def balanced_def)
    qed
    ultimately show ?thesis using wf5 by (simp add: inv_def)
  qed
  have sy5: "synced ?d5 w now"
  proof -
    have "live_balance ?d5 w now = live_balance ?d3 w now"
      using live[of w] expire_live[OF wf w, of now w] pos fut create_lot_live[OF wf_lots_ok[OF wf1], of "cr_credits r" w]
      by (simp add: sync_totals)
    then show ?thesis using synced_sync[OF w2, of now] synced_cong[OF same5(4)] by simp
  qed
  have st5: "map wallet_static (wallets ?d5) = map wallet_static (wallets d)"
    unfolding same5(4) using s1 by (simp add: sync_balance_frame create_lot_frame spends_def)
  have bal: "?bal = live_balance d w now + cr_credits r"
    using pos fut expire_live[OF wf w] by (subst create_lot_live[OF wf_lots_ok[OF wf1]]) simp_all
  have lot5: "\<exists>l \<in> set (lots ?d5). lot_wallet l = w \<and> lot_initial l = cr_credits r \<and> lot_source l = cr_source r \<and>
       lot_expires l = cr_expires r \<and> lot_grant l = Some (txn_id ?t) \<and> txn_lot ?t = Some (lot_id l)"
    unfolding upd_lot_def by (simp add: lots4 upd_row_fresh[OF fresh])
  have hold5: "holds ?d5 = holds d"
    unfolding same5(1) using s1 by (simp add: spends_def)
  have body: "credit_new now r w d = (if cr_settle r
      then (case settle_debts w now ?d5 of Inl e \<Rightarrow> Inl e | Inr (n, d6) \<Rightarrow> Inr (?t, d6)) else Inr (?t, ?d5))"
  proof -
    show ?thesis
      unfolding credit_new_def Let_def split_beta create_lot_frame(6) sync_balance_fst
      by (cases "settle_debts w now ?d5") (simp_all add: split_beta)
  qed
  show ?thesis
  proof (cases "cr_settle r")
    case False
    with body inv5 sy5 acc5[of w] acc5 st5 same5(5) lot5 bal hold5 show ?thesis
      by (intro that[of ?t ?d5 "[]"]) simp_all
  next
    case True
    have w5: "w \<in> wallet_ids ?d5" using w3 same5(4) by (simp add: wallet_ids_def)
    from settle_debts_result[OF wf5 w5, of now] obtain n d6 where
      st: "settle_debts w now ?d5 = Inr (n, d6)" and s6: "spends ?d5 d6" by blast
    from settle_debts_keys[OF st] obtain us where us: "txns d6 = txns ?d5 @ us" "\<forall>x \<in> set us. txn_key x = []"
      by blast
    have "account_of d6 w now = spec_credit (cr_credits r) True (account_of d w now)"
      using settle_account(1)[OF wf5 w5 st] acc5[of w] by (simp add: spec_credit_def Let_def)
    moreover have "\<exists>l \<in> set (lots d6). lot_wallet l = w \<and> lot_initial l = cr_credits r \<and> lot_source l = cr_source r \<and>
       lot_expires l = cr_expires r \<and> lot_grant l = Some (txn_id ?t) \<and> txn_lot ?t = Some (lot_id l)"
    proof -
      from lot5 obtain l where l: "l \<in> set (lots ?d5)" "lot_wallet l = w" "lot_initial l = cr_credits r"
        "lot_source l = cr_source r" "lot_expires l = cr_expires r" "lot_grant l = Some (txn_id ?t)"
        "txn_lot ?t = Some (lot_id l)" by blast
      from spends_lot[OF s6 l(1)] obtain l' where l': "l' \<in> set (lots d6)" "lot_static l' = lot_static l" by blast
      then have "lot_initial l' = lot_initial l" by (metis lot_static_fields(6))
      with l l' static_fields_eq[OF l'(2)] show ?thesis by (intro bexI[of _ l']) simp_all
    qed
    moreover have "map wallet_static (wallets d6) = map wallet_static (wallets d)"
      using s6 st5 by (simp add: spends_def)
    moreover have "holds d6 = holds d" using s6 hold5 by (simp add: spends_def)
    ultimately show ?thesis
      using True body st us settle_inv[OF inv5 w5 st] settle_debts_synced[OF wf5 w5 st sy5]
        settle_account(2)[OF wf5 w5 st] acc5 same5(5) bal
      by (intro that[of ?t d6 us]) simp_all
  qed
qed

subsection \<open>The public calls\<close>

text \<open>\<open>credit\<close>: refused on its arguments, replayed on its key, else done as specified.\<close>

lemma credit_arguments:
  assumes "credit cf now r d = Inr (t, d')"
  shows "0 < cr_credits r" "At now < cr_expires r"
  using assms by (auto simp: credit_def split: if_splits)

lemma credit_cases:
  assumes "inv d" and "credit cf now r d = Inr (t, d')" and "lock_wallet (u_id (cr_user r)) d = (w, d0)"
  shows "existing_call cf d0 w (cr_key r) = Some t \<and> d' = d0 \<or>
    existing_call cf d0 w (cr_key r) = None \<and> credit_new now r w d0 = Inr (t, d')"
  using assms by (auto simp: credit_def split: if_splits option.splits)

lemma credit_inv:
  assumes "inv d" and "credit cf now r d = Inr (t, d')"
  shows "inv d'"
proof -
  obtain w d0 where lk: "lock_wallet (u_id (cr_user r)) d = (w, d0)" by (metis surj_pair)
  note f = lock_wallet_facts[OF assms(1) lk]
  from credit_cases[OF assms lk] show ?thesis
  proof
    assume "existing_call cf d0 w (cr_key r) = None \<and> credit_new now r w d0 = Inr (t, d')"
    with credit_new_done[OF f(1,2) credit_arguments[OF assms(2)]] show ?thesis by (metis Pair_inject sum.inject(2))
  qed (use f in simp)
qed

lemma credit_total:
  assumes "inv d" and "0 < cr_credits r" and "At now < cr_expires r"
  shows "\<exists>t d'. credit cf now r d = Inr (t, d')"
proof -
  obtain w d0 where lk: "lock_wallet (u_id (cr_user r)) d = (w, d0)" by (metis surj_pair)
  note f = lock_wallet_facts[OF assms(1) lk]
  obtain t d' where "credit_new now r w d0 = Inr (t, d')" by (rule credit_new_done[OF f(1,2) assms(2,3)])
  with lk assms show ?thesis by (cases "existing_call cf d0 w (cr_key r)") (auto simp: credit_def)
qed

lemma credit_static:
  assumes "inv d" and "credit cf now r d = Inr (t, d')" and "lock_wallet (u_id (cr_user r)) d = (w, d0)"
  shows "map wallet_static (wallets d') = map wallet_static (wallets d0)"
proof -
  note f = lock_wallet_facts[OF assms(1,3)]
  from credit_cases[OF assms] show ?thesis
  proof
    assume "existing_call cf d0 w (cr_key r) = None \<and> credit_new now r w d0 = Inr (t, d')"
    with credit_new_done[OF f(1,2) credit_arguments[OF assms(2)]] show ?thesis by (metis Pair_inject sum.inject(2))
  qed simp
qed

lemma debit_inv:
  assumes "inv d" and "debit cf now r d = Inr (a, d')"
  shows "inv d'"
proof -
  obtain w d0 where lk: "lock_wallet (u_id (de_user r)) d = (w, d0)" by (metis surj_pair)
  note f = lock_wallet_facts[OF assms(1) lk]
  from assms(2) lk have pos: "0 < de_credits r"
    and c: "d' = d0 \<or> debit_new cf now r w d0 = Inr (a, d')"
    by (auto simp: debit_def split: if_splits option.splits)
  show ?thesis
  proof (cases "d' = d0")
    case False
    with c have b: "debit_new cf now r w d0 = Inr (a, d')" by blast
    show ?thesis
    proof (cases "meter_only cf (Some (de_user r))")
      case True
      from debit_new_metered[OF f(1,2) True] b show ?thesis by (metis Pair_inject sum.inject(2))
    next
      case False
      from debit_new_account[OF f(1,2) False pos, of now] b show ?thesis by simp
    qed
  qed (use f in simp)
qed

lemma debit_new_static:
  assumes "inv d" and "w \<in> wallet_ids d" and "0 < de_credits r" and "debit_new cf now r w d = Inr (a, d')"
  shows "map wallet_static (wallets d') = map wallet_static (wallets d)"
proof (cases "meter_only cf (Some (de_user r))")
  case True
  from debit_new_metered[OF assms(1,2) True] assms(4) have "spends d d'" by (metis Pair_inject sum.inject(2))
  then show ?thesis by (simp add: spends_def)
next
  case False
  from debit_new_account[OF assms(1,2) False assms(3), of now] assms(4) have "spends d d'" by simp
  then show ?thesis by (simp add: spends_def)
qed

text \<open>The manual grant is a credit: its checks first, then \<open>credit\<close> of a permanent or expiring lot.\<close>

lemma grant_is_credit:
  assumes "grant_credits cf now user n reason actor key expires m d = Inr (t, d')"
  obtains u r where "user = Some u" "0 < n" "strip reason \<noteq> []" "strip actor \<noteq> []"
    "credit cf now r d = Inr (t, d')" "cr_user r = u" "cr_credits r = n" "cr_settle r" "cr_type r = ADJUSTMENT"
    "cr_source r = LOT_ADJUSTMENT" "cr_key r = key" "cr_expires r = expires"
    "cr_meta r = grant_metadata m (strip reason) (strip actor)"
  using assms by (auto simp: grant_credits_def Let_def split: option.splits if_splits)

lemma grant_inv:
  assumes "inv d" and "grant_credits cf now user n reason actor key expires m d = Inr (t, d')"
  shows "inv d'"
  using grant_is_credit[OF assms(2)] credit_inv[OF assms(1)] by metis

text \<open>Neither call touches a hold.\<close>

lemma credit_holds:
  assumes "inv d" and "credit cf now r d = Inr (t, d')"
  shows "holds d' = holds d"
proof -
  obtain w d0 where lk: "lock_wallet (u_id (cr_user r)) d = (w, d0)" by (metis surj_pair)
  note f = lock_wallet_facts[OF assms(1) lk]
  from credit_cases[OF assms lk] show ?thesis
  proof
    assume "existing_call cf d0 w (cr_key r) = None \<and> credit_new now r w d0 = Inr (t, d')"
    with credit_new_done[OF f(1,2) credit_arguments[OF assms(2)]] f(5) show ?thesis
      by (metis Pair_inject sum.inject(2))
  qed (use f in simp)
qed

lemma debit_holds:
  assumes "inv d" and "debit cf now r d = Inr (a, d')"
  shows "holds d' = holds d"
proof -
  obtain w d0 where lk: "lock_wallet (u_id (de_user r)) d = (w, d0)" by (metis surj_pair)
  note f = lock_wallet_facts[OF assms(1) lk]
  from assms(2) lk have pos: "0 < de_credits r"
    and c: "d' = d0 \<or> debit_new cf now r w d0 = Inr (a, d')"
    by (auto simp: debit_def split: if_splits option.splits)
  have "spends d0 d'" if b: "debit_new cf now r w d0 = Inr (a, d')"
  proof (cases "meter_only cf (Some (de_user r))")
    case True
    from debit_new_metered[OF f(1,2) True] b show ?thesis by (metis Pair_inject sum.inject(2))
  next
    case False
    from debit_new_account[OF f(1,2) False pos, of now] b show ?thesis by simp
  qed
  with c f(5) show ?thesis by (auto simp: spends_def)
qed

end
