(* ===== verification/Holds.thy ===== *)
theory Holds
  imports Wallet_Ops
begin

section \<open>Reservations: hold, capture, release, and the sweep of abandoned holds\<close>

text \<open>
  A hold takes its credits out of the lots at once and records in allocation rows which lot
  gave how much. Capturing writes the charge and hands back what was not used, releasing
  hands everything back; what comes back is a new \<open>HOLD_RELEASE\<close> lot with the deadline and
  the granting row of the lot it came from, never the old lot topped up. The row of a
  released or expired hold is re-armed in place by the next call with its key.
\<close>

record hold_req =
  ho_user :: user
  ho_credits :: int
  ho_type :: txn_type
  ho_key :: string
  ho_desc :: "string option"
  ho_meta :: dict
  ho_expires :: "time option"

definition existing_hold :: "db \<Rightarrow> uuid \<Rightarrow> string \<Rightarrow> hold option" where
  "existing_hold d w key = find (\<lambda>h. hold_wallet h = w \<and> hold_key h = key) (rev (holds d))"

text \<open>The deadline of a hold: the caller's, else the configured time to live, else none.\<close>

definition hold_deadline :: "settings \<Rightarrow> time \<Rightarrow> time option \<Rightarrow> deadline" where
  "hold_deadline cf now expires =
     (case expires of
        Some t \<Rightarrow> At t
      | None \<Rightarrow> let ttl = hold_default_ttl_seconds cf
                in if ttl = 0 then Never else At (now + ttl * 1000000))"

definition allocate :: "uuid \<Rightarrow> (lot \<times> int) list \<Rightarrow> db \<Rightarrow> db" where
  "allocate h taken d = fold (\<lambda>(l, n). create_alloc h (lot_id l) n) taken d"

definition create_hold :: "hold \<Rightarrow> db \<Rightarrow> db" where
  "create_hold h d = d\<lparr>holds := holds d @ [h], next_id := Suc (next_id d)\<rparr>"

definition delete_allocs :: "uuid \<Rightarrow> db \<Rightarrow> db" where
  "delete_allocs h d = d\<lparr>allocs := filter (\<lambda>a. alloc_hold a \<noteq> h) (allocs d)\<rparr>"

text \<open>The row of a reservation, as created or as re-armed: only its id and key come from elsewhere.\<close>

definition held_row :: "hold_req \<Rightarrow> uuid \<Rightarrow> uuid \<Rightarrow> int \<Rightarrow> dict \<Rightarrow> deadline \<Rightarrow> hold" where
  "held_row r i w credits m expires =
     \<lparr>hold_id = i, hold_wallet = w, hold_credits = credits, hold_type = ho_type r, hold_desc = ho_desc r,
      hold_meta = m, hold_key = ho_key r, hold_status = HELD, hold_expires = expires, hold_resolved = None\<rparr>"

definition rearm :: "hold_req \<Rightarrow> int \<Rightarrow> dict \<Rightarrow> deadline \<Rightarrow> hold \<Rightarrow> hold" where
  "rearm r credits m expires h =
     h\<lparr>hold_credits := credits, hold_type := ho_type r, hold_desc := ho_desc r, hold_meta := m,
       hold_status := HELD, hold_expires := expires, hold_resolved := None\<rparr>"

definition place_hold :: "hold_req \<Rightarrow> uuid \<Rightarrow> hold option \<Rightarrow> int \<Rightarrow> dict \<Rightarrow> deadline \<Rightarrow> db \<Rightarrow> hold \<times> db" where
  "place_hold r w existing credits m expires d =
     (case existing of
        Some h \<Rightarrow> (rearm r credits m expires h,
                   upd_hold (hold_id h) (rearm r credits m expires) (delete_allocs (hold_id h) d))
      | None \<Rightarrow> let h = held_row r (next_id d) w credits m expires in (h, create_hold h d))"

text \<open>Everything after the short-circuit of \<open>hold\<close>.\<close>

definition hold_new :: "settings \<Rightarrow> time \<Rightarrow> hold_req \<Rightarrow> uuid \<Rightarrow> hold option \<Rightarrow> db \<Rightarrow> error + hold \<times> db" where
  "hold_new cf now r w existing d =
     (let expires = hold_deadline cf now (ho_expires r);
          d1 = snd (expire_due_lots w now d);
          waived = meter_only cf (Some (ho_user r));
          m = (if waived then mark (ho_meta r) (ho_credits r) else ho_meta r);
          credits = (if waived then 0 else ho_credits r)
      in case (if credits = 0 then Inr ([], d1) else consume_lots w credits now d1) of
           Inl e \<Rightarrow> Inl e
         | Inr (taken, d2) \<Rightarrow>
             let (h, d3) = place_hold r w existing credits m expires d2;
                 d4 = allocate (hold_id h) taken d3
             in Inr (h, snd (sync_balance w now d4)))"

definition hold :: "settings \<Rightarrow> time \<Rightarrow> hold_req \<Rightarrow> db \<Rightarrow> error + hold \<times> db" where
  "hold cf now r d =
     (if ho_credits r \<le> 0 then Inl (ValueError ''credits must be positive'')
      else if ho_key r = [] then Inl (ValueError ''idempotency_key is required'')
      else let (w, d0) = lock_wallet (u_id (ho_user r)) d
           in case existing_hold d0 w (ho_key r) of
                None \<Rightarrow> hold_new cf now r w None d0
              | Some h \<Rightarrow>
                  (if hold_status h = CAPTURED then Inl (HoldKeyResolvedError h)
                   else if hold_status h = HELD then Inr (h, d0)
                   else hold_new cf now r w (Some h) d0))"

subsection \<open>Handing credits back\<close>

text \<open>\<open>alloc.lot.expires_at\<close> and \<open>alloc.lot.granting_transaction_id\<close>; the foreign key is never dangling.\<close>

definition source_of :: "db \<Rightarrow> alloc \<Rightarrow> deadline \<times> uuid option" where
  "source_of d a =
     (case get_row lot_id (alloc_lot a) (lots d) of
        Some l \<Rightarrow> (lot_expires l, lot_grant l) | None \<Rightarrow> (Never, None))"

fun refund_walk :: "uuid \<Rightarrow> alloc list \<Rightarrow> int \<Rightarrow> db \<Rightarrow> int \<times> db" where
  "refund_walk w [] outstanding d = (outstanding, d)"
| "refund_walk w (a # as) outstanding d =
     (if outstanding \<le> 0 then (outstanding, d)
      else let amount = min outstanding (alloc_credits a)
           in if amount \<le> 0 then refund_walk w as outstanding d
              else let (expires, grant) = source_of d a;
                       (l, d1) = create_lot w HOLD_RELEASE amount expires grant d;
                       d2 = upd_alloc (alloc_id a) (\<lambda>x. x\<lparr>alloc_credits := alloc_credits a - amount\<rparr>) d1
                   in refund_walk w as (outstanding - amount) d2)"

definition hold_allocs :: "db \<Rightarrow> uuid \<Rightarrow> alloc list" where
  "hold_allocs d h = filter (\<lambda>a. alloc_hold a = h) (allocs d)"

definition refund_allocations :: "hold \<Rightarrow> int \<Rightarrow> db \<Rightarrow> int \<times> db" where
  "refund_allocations h credits d =
     (let (outstanding, d') = refund_walk (hold_wallet h) (rev (hold_allocs d (hold_id h))) credits d
      in (credits - outstanding, d'))"

subsection \<open>Capture and release\<close>

definition load_hold_for_update :: "uuid \<Rightarrow> db \<Rightarrow> error + hold \<times> uuid" where
  "load_hold_for_update i d =
     (case get_row hold_id i (holds d) of
        None \<Rightarrow> Inl (HoldNotFoundError i) | Some h \<Rightarrow> Inr (h, hold_wallet h))"

definition settle :: "uuid \<Rightarrow> hold_status \<Rightarrow> time \<Rightarrow> db \<Rightarrow> db" where
  "settle i status now d = upd_hold i (\<lambda>h. h\<lparr>hold_status := status, hold_resolved := Some now\<rparr>) d"

definition or_desc :: "string option \<Rightarrow> string option \<Rightarrow> string option" where
  "or_desc s t = (case s of None \<Rightarrow> t | Some x \<Rightarrow> if x = [] then t else s)"

definition capture_meta :: "hold \<Rightarrow> dict \<Rightarrow> json \<Rightarrow> dict" where
  "capture_meta h m taken =
     dset ''lots'' taken (dset ''hold_id'' (JStr (uuid_str (hold_id h))) (dmerge (hold_meta h) m))"

definition meter_only_capture ::
    "hold \<Rightarrow> uuid \<Rightarrow> int \<Rightarrow> string option \<Rightarrow> dict \<Rightarrow> time \<Rightarrow> db \<Rightarrow> txn \<times> db" where
  "meter_only_capture h w actual desc m now d =
     (let (balance, d1) = sync_balance w now d;
          (t, d2) = create_txn w None (hold_type h) None 0 balance (or_desc desc (hold_desc h))
            (mark (capture_meta h m (JArr [])) actual) [] now d1
      in (t, settle (hold_id h) CAPTURED now d2))"

definition captured_charge :: "db \<Rightarrow> hold \<Rightarrow> txn option" where
  "captured_charge d h =
     find (\<lambda>t. txn_wallet t = hold_wallet h \<and>
               dget (txn_meta t) ''hold_id'' = Some (JStr (uuid_str (hold_id h)))) (rev (txns d))"

text \<open>The lots a hold still draws from, with the amounts: what the capture bills.\<close>

definition billed_lots :: "db \<Rightarrow> uuid \<Rightarrow> (lot \<times> int) list" where
  "billed_lots d h =
     concat (map (\<lambda>a. case get_row lot_id (alloc_lot a) (lots d) of Some l \<Rightarrow> [(l, alloc_credits a)] | None \<Rightarrow> [])
       (filter (\<lambda>a. 0 < alloc_credits a) (hold_allocs d h)))"

text \<open>The adjustment of the reservation to the actual cost: a larger one is taken out of the live lots.\<close>

definition adjust_to :: "hold \<Rightarrow> uuid \<Rightarrow> int \<Rightarrow> time \<Rightarrow> db \<Rightarrow> error + db" where
  "adjust_to h w actual now d =
     (if hold_credits h < actual
      then (case consume_lots w (actual - hold_credits h) now d of
              Inl e \<Rightarrow> Inl e | Inr (taken, d1) \<Rightarrow> Inr (allocate (hold_id h) taken d1))
      else if actual < hold_credits h
      then Inr (snd (expire_due_lots w now (snd (refund_allocations h (hold_credits h - actual) d))))
      else Inr d)"

definition capture_held ::
    "hold \<Rightarrow> uuid \<Rightarrow> int \<Rightarrow> string option \<Rightarrow> dict \<Rightarrow> time \<Rightarrow> db \<Rightarrow> error + txn \<times> db" where
  "capture_held h w actual desc m now d =
     (case adjust_to h w actual now (snd (expire_due_lots w now d)) of
        Inl e \<Rightarrow> Inl e
      | Inr d1 \<Rightarrow>
          let (balance, d2) = sync_balance w now d1;
              charged = billed_lots d2 (hold_id h);
              (t, d3) = create_txn w (single_lot charged) (hold_type h) None (- actual) balance
                (or_desc desc (hold_desc h)) (capture_meta h m (consumption_metadata charged)) [] now d2
          in Inr (t, settle (hold_id h) CAPTURED now d3))"

definition capture :: "time \<Rightarrow> uuid \<Rightarrow> int option \<Rightarrow> string option \<Rightarrow> dict \<Rightarrow> db \<Rightarrow> error + txn \<times> db" where
  "capture now i actual_credits desc m d =
     (case load_hold_for_update i d of
        Inl e \<Rightarrow> Inl e
      | Inr (h, w) \<Rightarrow>
          if hold_status h = CAPTURED
          then (case captured_charge d h of Some t \<Rightarrow> Inr (t, d) | None \<Rightarrow> Inl (HoldChargeMissing i))
          else if hold_status h \<noteq> HELD then Inl (HoldStateError i (hold_status h))
          else let actual = (case actual_credits of None \<Rightarrow> hold_credits h | Some n \<Rightarrow> n)
               in if actual < 0 then Inl (ValueError ''actual_credits must not be negative'')
                  else if was_waived (hold_meta h) then Inr (meter_only_capture h w actual desc m now d)
                  else capture_held h w actual desc m now d)"

definition release_held :: "hold \<Rightarrow> uuid \<Rightarrow> bool \<Rightarrow> time \<Rightarrow> db \<Rightarrow> db" where
  "release_held h w expired now d =
     (let d1 = snd (expire_due_lots w now d);
          outstanding = (\<Sum>a\<leftarrow>hold_allocs d1 (hold_id h). alloc_credits a);
          d2 = snd (refund_allocations h outstanding d1);
          d3 = snd (expire_due_lots w now d2);
          d4 = snd (sync_balance w now d3)
      in settle (hold_id h) (if expired then EXPIRED else RELEASED) now d4)"

definition release :: "time \<Rightarrow> uuid \<Rightarrow> bool \<Rightarrow> db \<Rightarrow> error + hold \<times> db" where
  "release now i expired d =
     (case load_hold_for_update i d of
        Inl e \<Rightarrow> Inl e
      | Inr (h, w) \<Rightarrow>
          if hold_status h \<noteq> HELD then Inr (h, d)
          else Inr (h\<lparr>hold_status := (if expired then EXPIRED else RELEASED), hold_resolved := Some now\<rparr>,
                    release_held h w expired now d))"

subsection \<open>The sweeps over all wallets and holds (tasks.py)\<close>

definition due_wallets :: "time \<Rightarrow> db \<Rightarrow> uuid list" where
  "due_wallets now d =
     remdups (map lot_wallet (filter (\<lambda>l. 0 < lot_remaining l \<and> lot_expires l \<le> At now) (lots d)))"

definition sweep_wallet :: "time \<Rightarrow> uuid \<Rightarrow> int \<times> db \<Rightarrow> int \<times> db" where
  "sweep_wallet now w p =
     (case get_row w_id w (wallets (snd p)) of
        None \<Rightarrow> p
      | Some x \<Rightarrow> let (n, d') = expire_due_lots w now (snd p) in (fst p + n, d'))"

definition expire_credit_lots :: "time \<Rightarrow> db \<Rightarrow> int \<times> db" where
  "expire_credit_lots now d = fold (sweep_wallet now) (due_wallets now d) (0, d)"

definition stale_holds :: "time \<Rightarrow> db \<Rightarrow> uuid list" where
  "stale_holds now d =
     map hold_id (rev (filter (\<lambda>h. hold_status h = HELD \<and> hold_expires h \<le> At now) (holds d)))"

fun release_all :: "time \<Rightarrow> uuid list \<Rightarrow> db \<Rightarrow> error + db" where
  "release_all now [] d = Inr d"
| "release_all now (i # is) d =
     (case release now i True d of Inl e \<Rightarrow> Inl e | Inr (h, d') \<Rightarrow> release_all now is d')"

definition expire_holds :: "time \<Rightarrow> db \<Rightarrow> error + nat \<times> db" where
  "expire_holds now d =
     (let stale = stale_holds now d
      in case release_all now stale d of Inl e \<Rightarrow> Inl e | Inr d' \<Rightarrow> Inr (length stale, d'))"

subsection \<open>Writes to the hold and allocation tables\<close>

lemma wf_holds_allocs:
  assumes "wf_db d" and "lots d' = lots d" and "txns d' = txns d" and "debts d' = debts d"
    and "wallets d' = wallets d" and "next_id d \<le> next_id d'" and "hold_rows_ok d'" and "alloc_rows_ok d'"
  shows "wf_db d'"
proof -
  have ids: "wallet_ids d' = wallet_ids d" by (simp add: wallet_ids_def assms(5))
  have "lots_ok d'" by (rule lots_ok_cong[of d]) (use assms in simp_all)
  moreover have "wallets_ok d'" "txns_ok d'" "lot_refs_ok d'" "debts_ok d'"
    using wf_db_def[THEN iffD1, OF assms(1)] assms(2-6) ids
    by (simp_all add: wallets_ok_def txns_ok_def lot_refs_ok_def debts_ok_def) (meson order_less_le_trans)+
  ultimately show ?thesis using assms(7,8) by (simp add: wf_db_def)
qed

lemma create_alloc_frame [frame]:
  "lots (create_alloc h l n d) = lots d" "txns (create_alloc h l n d) = txns d"
  "debts (create_alloc h l n d) = debts d" "wallets (create_alloc h l n d) = wallets d"
  "holds (create_alloc h l n d) = holds d" "next_id (create_alloc h l n d) = Suc (next_id d)"
  by (simp_all add: create_alloc_def)

lemma wf_create_alloc [wf_intros]:
  assumes "wf_db d" and "h \<in> set (holds d)" and "l \<in> set (lots d)" and "lot_wallet l = hold_wallet h" and "0 \<le> n"
  shows "wf_db (create_alloc (hold_id h) (lot_id l) n d)"
proof -
  let ?d = "create_alloc (hold_id h) (lot_id l) n d"
  have "hold_rows_ok ?d"
    using assms(1) by (fastforce simp: wf_db_def hold_rows_ok_def create_alloc_def wallet_ids_def)
  moreover have "alloc_rows_ok ?d"
    using assms by (fastforce simp: wf_db_def alloc_rows_ok_def create_alloc_def)
  ultimately show ?thesis by (intro wf_holds_allocs[OF assms(1)]) (simp_all add: create_alloc_frame)
qed

lemma allocate_Cons: "allocate h (p # taken) d = allocate h taken (create_alloc h (lot_id (fst p)) (snd p) d)"
  by (simp add: allocate_def split_beta)

lemma allocate_Nil [simp]: "allocate h [] d = d"
  by (simp add: allocate_def)

lemma allocate_frame [frame]:
  "lots (allocate h taken d) = lots d" "txns (allocate h taken d) = txns d"
  "debts (allocate h taken d) = debts d" "wallets (allocate h taken d) = wallets d"
  "holds (allocate h taken d) = holds d" "next_id d \<le> next_id (allocate h taken d)"
  by (induction taken arbitrary: d)
    (simp_all add: allocate_Cons create_alloc_frame, metis Suc_leD create_alloc_frame(6))

lemma wf_allocate [wf_intros]:
  assumes "wf_db d" and "h \<in> set (holds d)"
    and "\<And>p. p \<in> set taken \<Longrightarrow> 0 \<le> snd p \<and> (\<exists>l \<in> set (lots d). lot_id l = lot_id (fst p) \<and> lot_wallet l = hold_wallet h)"
  shows "wf_db (allocate (hold_id h) taken d)"
  using assms
proof (induction taken arbitrary: d)
  case (Cons p taken)
  from Cons.prems(3)[of p] obtain l where l: "l \<in> set (lots d)" "lot_id l = lot_id (fst p)"
    "lot_wallet l = hold_wallet h" "0 \<le> snd p" by auto
  from wf_create_alloc[OF Cons.prems(1,2) l(1,3,4)] l(2) Cons show ?case
    by (simp add: allocate_Cons create_alloc_frame)
qed simp

lemma alloc_total_allocate [measure_simps]:
  "alloc_total (allocate h taken d) i = alloc_total d i + (if i = h then taken_sum taken else 0)"
  by (induction taken arbitrary: d) (simp_all add: allocate_Cons, simp add: alloc_total_def create_alloc_def)

lemma wf_upd_hold [wf_intros]:
  assumes "wf_db d" and "\<And>h. hold_id (f h) = hold_id h" and "\<And>h. hold_wallet (f h) = hold_wallet h"
  shows "wf_db (upd_hold i f d)"
proof -
  let ?d = "upd_hold i f d"
  have "map hold_id (holds ?d) = map hold_id (holds d)"
    unfolding upd_hold_def using assms(2) by (simp add: map_upd_row)
  then have "hold_rows_ok ?d"
    using assms by (auto simp: wf_db_def hold_rows_ok_def upd_hold_def wallet_ids_def set_upd_row)
  moreover have "\<exists>h' \<in> set (holds ?d). hold_id h' = hold_id h \<and> hold_wallet h' = hold_wallet h" if "h \<in> set (holds d)" for h
    using that assms(2,3) by (intro bexI[of _ "if hold_id h = i then f h else h"]) (auto simp: upd_hold_def set_upd_row)
  then have "alloc_rows_ok ?d"
    using assms(1) unfolding wf_db_def alloc_rows_ok_def upd_hold_def by simp metis
  ultimately show ?thesis by (intro wf_holds_allocs[OF assms(1)]) (simp_all add: upd_hold_def)
qed

lemma wf_create_hold [wf_intros]:
  assumes "wf_db d" and "hold_id h = next_id d" and "hold_wallet h \<in> wallet_ids d"
  shows "wf_db (create_hold h d)"
proof -
  have "hold_rows_ok (create_hold h d)"
    using assms by (fastforce simp: wf_db_def hold_rows_ok_def create_hold_def wallet_ids_def)
  moreover have "alloc_rows_ok (create_hold h d)"
    using assms(1) by (fastforce simp: wf_db_def alloc_rows_ok_def create_hold_def)
  ultimately show ?thesis by (intro wf_holds_allocs[OF assms(1)]) (simp_all add: create_hold_def)
qed

lemma wf_delete_allocs [wf_intros]:
  assumes "wf_db d"
  shows "wf_db (delete_allocs i d)"
proof -
  have "alloc_rows_ok (delete_allocs i d)"
    using assms by (auto simp: wf_db_def alloc_rows_ok_def delete_allocs_def distinct_map_filter)
  moreover have "hold_rows_ok (delete_allocs i d)"
    using assms by (auto simp: wf_db_def hold_rows_ok_def delete_allocs_def wallet_ids_def)
  ultimately show ?thesis by (intro wf_holds_allocs[OF assms]) (simp_all add: delete_allocs_def)
qed

lemma wf_upd_alloc [wf_intros]:
  assumes "wf_db d" and "0 \<le> n"
  shows "wf_db (upd_alloc i (\<lambda>x. x\<lparr>alloc_credits := n\<rparr>) d)"
proof -
  let ?d = "upd_alloc i (\<lambda>x. x\<lparr>alloc_credits := n\<rparr>) d"
  have "hold_rows_ok ?d" using assms(1) by (auto simp: wf_db_def hold_rows_ok_def upd_alloc_def wallet_ids_def)
  moreover have "alloc_rows_ok ?d"
    using assms by (auto simp: wf_db_def alloc_rows_ok_def upd_alloc_def map_upd_row set_upd_row)
  ultimately show ?thesis by (intro wf_holds_allocs[OF assms(1)]) (simp_all add: upd_alloc_def)
qed

lemma alloc_total_upd [measure_simps]:
  assumes "distinct (map alloc_id (allocs d))" and "a \<in> set (allocs d)"
  shows "alloc_total (upd_alloc (alloc_id a) (\<lambda>x. x\<lparr>alloc_credits := n\<rparr>) d) i =
    alloc_total d i + (if alloc_hold a = i then n - alloc_credits a else 0)"
  unfolding alloc_total_def upd_alloc_def
  using sum_list_upd_row[OF assms, of "\<lambda>a. if alloc_hold a = i then alloc_credits a else 0"]
  by simp

lemma alloc_total_delete [measure_simps]:
  "alloc_total (delete_allocs h d) i = (if i = h then 0 else alloc_total d i)"
proof -
  have "(\<Sum>a\<leftarrow>filter (\<lambda>a. alloc_hold a \<noteq> h) as. if alloc_hold a = i then alloc_credits a else 0) =
      (if i = h then 0 else (\<Sum>a\<leftarrow>as. if alloc_hold a = i then alloc_credits a else 0))" for as
    by (induction as) auto
  from this[of "allocs d"] show ?thesis by (simp add: alloc_total_def delete_allocs_def)
qed

lemma alloc_total_hold_allocs: "alloc_total d i = (\<Sum>a\<leftarrow>hold_allocs d i. alloc_credits a)"
  by (simp add: alloc_total_def hold_allocs_def sum_list_filter_if)

lemma alloc_total_none: "\<forall>a \<in> set (allocs d). alloc_hold a \<noteq> i \<Longrightarrow> alloc_total d i = 0"
proof -
  assume "\<forall>a \<in> set (allocs d). alloc_hold a \<noteq> i"
  then have "hold_allocs d i = []" by (simp add: hold_allocs_def filter_empty_conv)
  then show ?thesis by (simp add: alloc_total_hold_allocs)
qed

lemma alloc_total_fresh:
  assumes "wf_db d"
  shows "alloc_total d (next_id d) = 0"
proof (rule alloc_total_none, rule ballI)
  fix a assume "a \<in> set (allocs d)"
  with assms obtain h where "h \<in> set (holds d)" "hold_id h = alloc_hold a"
    by (auto simp: wf_db_def alloc_rows_ok_def)
  with assms show "alloc_hold a \<noteq> next_id d" by (auto simp: wf_db_def hold_rows_ok_def)
qed

lemma alloc_nonneg: "wf_db d \<Longrightarrow> a \<in> set (allocs d) \<Longrightarrow> 0 \<le> alloc_credits a"
  by (simp add: wf_db_def alloc_rows_ok_def)

subsection \<open>The reserved total when one hold changes\<close>

text \<open>
  A change of one hold row, and of that hold's allocations, changes the reserved total of a
  wallet by that hold's share.
\<close>

lemma reserved_change:
  assumes "distinct (map hold_id (holds d))" and "h \<in> set (holds d)"
    and "holds d' = upd_row hold_id (hold_id h) f (holds d)" and "hold_id (f h) = hold_id h"
    and "\<And>j. j \<noteq> hold_id h \<Longrightarrow> alloc_total d' j = alloc_total d j"
  shows "reserved d' w = reserved d w + (if held_in w (f h) then alloc_total d' (hold_id h) else 0) -
    (if held_in w h then alloc_total d (hold_id h) else 0)"
proof -
  let ?g = "\<lambda>d h. if held_in w h then alloc_total d (hold_id h) else 0"
  have "reserved d' w = (\<Sum>x\<leftarrow>holds d. ?g d' x) + ?g d' (f h) - ?g d' h"
    unfolding reserved_def assms(3) by (rule sum_list_upd_row[OF assms(1,2)])
  moreover have "(\<Sum>x\<leftarrow>holds d. ?g d' x) = (\<Sum>x\<leftarrow>holds d. ?g d x) + ?g d' h - ?g d h"
    by (rule sum_list_change_one[OF assms(1,2)]) (use assms(5) in simp)
  ultimately show ?thesis using assms(4) by (simp add: reserved_def)
qed

lemma reserved_allocs:
  assumes "distinct (map hold_id (holds d))" and "h \<in> set (holds d)" and "holds d' = holds d"
    and "\<And>j. j \<noteq> hold_id h \<Longrightarrow> alloc_total d' j = alloc_total d j"
  shows "reserved d' w = reserved d w + (if held_in w h then alloc_total d' (hold_id h) - alloc_total d (hold_id h) else 0)"
proof -
  have "upd_row hold_id (hold_id h) (\<lambda>x. x) (holds d) = holds d" by (simp add: upd_row_def)
  with reserved_change[OF assms(1,2), of d' "\<lambda>x. x" w] assms(3,4) show ?thesis by simp
qed

lemma reserved_create_hold [measure_simps]:
  "reserved (create_hold h d) w = reserved d w + (if held_in w h then alloc_total d (hold_id h) else 0)"
  by (simp add: reserved_def create_hold_def alloc_total_def cong: if_cong)

lemma holds_distinct: "wf_db d \<Longrightarrow> distinct (map hold_id (holds d))"
  by (simp add: wf_db_def hold_rows_ok_def)

lemma allocs_distinct: "wf_db d \<Longrightarrow> distinct (map alloc_id (allocs d))"
  by (simp add: wf_db_def alloc_rows_ok_def)

lemma same_hold: "wf_db d \<Longrightarrow> h \<in> set (holds d) \<Longrightarrow> h' \<in> set (holds d) \<Longrightarrow> hold_id h = hold_id h' \<Longrightarrow> h = h'"
  using holds_distinct[of d] by (metis distinct_map inj_onD)

subsection \<open>Placing a hold\<close>

text \<open>The deadlines, the lots and the row of a fresh or re-armed hold.\<close>

lemma place_hold_facts:
  assumes "wf_db d" and "w \<in> wallet_ids d"
    and "\<forall>h. existing = Some h \<longrightarrow> h \<in> set (holds d) \<and> hold_wallet h = w \<and> hold_key h = ho_key r \<and> hold_status h \<noteq> HELD"
    and "place_hold r w existing n m e d = (h, d')"
  shows "wf_db d'" "h \<in> set (holds d')" "hold_wallet h = w" "hold_credits h = n" "hold_meta h = m"
    "hold_status h = HELD" "hold_key h = ho_key r" "hold_expires h = e" "hold_type h = ho_type r"
    "lots d' = lots d" "txns d' = txns d" "debts d' = debts d" "wallets d' = wallets d"
    "alloc_total d' (hold_id h) = 0" "reserved d' w' = reserved d w'"
    "\<And>x. x \<in> set (holds d') \<Longrightarrow> hold_id x \<noteq> hold_id h \<Longrightarrow> x \<in> set (holds d) \<and> alloc_total d' (hold_id x) = alloc_total d (hold_id x)"
    "hold_id h = (case existing of None \<Rightarrow> next_id d | Some x \<Rightarrow> hold_id x)"
    "holds d' = (case existing of None \<Rightarrow> holds d @ [h] | Some x \<Rightarrow> upd_row hold_id (hold_id x) (rearm r n m e) (holds d))"
proof -
  have main: "wf_db d' \<and> h \<in> set (holds d') \<and> hold_wallet h = w \<and> hold_credits h = n \<and> hold_meta h = m \<and>
    hold_status h = HELD \<and> hold_key h = ho_key r \<and> hold_expires h = e \<and> hold_type h = ho_type r \<and>
    lots d' = lots d \<and> txns d' = txns d \<and> debts d' = debts d \<and> wallets d' = wallets d \<and>
    alloc_total d' (hold_id h) = 0 \<and> reserved d' w' = reserved d w' \<and>
    (\<forall>x. x \<in> set (holds d') \<longrightarrow> hold_id x \<noteq> hold_id h \<longrightarrow> x \<in> set (holds d) \<and> alloc_total d' (hold_id x) = alloc_total d (hold_id x)) \<and>
    hold_id h = (case existing of None \<Rightarrow> next_id d | Some x \<Rightarrow> hold_id x) \<and>
    holds d' = (case existing of None \<Rightarrow> holds d @ [h] | Some x \<Rightarrow> upd_row hold_id (hold_id x) (rearm r n m e) (holds d))"
  proof (cases existing)
  case None
  then have h: "h = held_row r (next_id d) w n m e" and d': "d' = create_hold h d"
    using assms(4) by (auto simp: place_hold_def Let_def)
  have "wf_db d'" unfolding d' by (rule wf_create_hold) (use assms(1,2) in \<open>simp_all add: h held_row_def\<close>)
  then show ?thesis
    using None alloc_total_fresh[OF assms(1)] totals_cong(3)[of d' d]
    unfolding d' reserved_create_hold by (auto simp: h held_row_def create_hold_def alloc_total_def)
next
  case (Some x)
  note x = assms(3)[rule_format, OF Some]
  then have h: "h = rearm r n m e x" and d': "d' = upd_hold (hold_id x) (rearm r n m e) (delete_allocs (hold_id x) d)"
    using assms(4) Some by (auto simp: place_hold_def)
  have id: "hold_id h = hold_id x" by (simp add: h rearm_def)
  have wf': "wf_db d'" unfolding d'
    by (intro wf_upd_hold wf_delete_allocs assms(1)) (simp_all add: rearm_def)
  have hs: "holds d' = upd_row hold_id (hold_id x) (rearm r n m e) (holds d)"
    by (simp add: d' upd_hold_def delete_allocs_def)
  have tot: "alloc_total d' i = (if i = hold_id x then 0 else alloc_total d i)" for i
    using alloc_total_delete[of "hold_id x" d i] by (simp add: d' upd_hold_def alloc_total_def)
  have res: "reserved d' w' = reserved d w'"
  proof -
    have f: "hold_id (rearm r n m e x) = hold_id x" by (simp add: rearm_def)
    have "\<not> held_in w' x" using x by (simp add: held_in_def)
    with reserved_change[OF holds_distinct[OF assms(1)] conjunct1[OF x] hs f, of w'] tot show ?thesis by simp
  qed
  have mem: "h \<in> set (holds d')" using x by (auto simp: hs h set_upd_row)
  have others: "y \<in> set (holds d) \<and> alloc_total d' (hold_id y) = alloc_total d (hold_id y)"
    if "y \<in> set (holds d')" "hold_id y \<noteq> hold_id h" for y
    using that by (auto simp: hs set_upd_row tot id rearm_def split: if_splits)
  have rest: "lots d' = lots d" "txns d' = txns d" "debts d' = debts d" "wallets d' = wallets d"
    by (simp_all add: d' upd_hold_def delete_allocs_def)
  from wf' mem res others rest tot x Some hs show ?thesis
    by (simp add: h rearm_def)
  qed
  then show "wf_db d'" "h \<in> set (holds d')" "hold_wallet h = w" "hold_credits h = n" "hold_meta h = m"
    "hold_status h = HELD" "hold_key h = ho_key r" "hold_expires h = e" "hold_type h = ho_type r"
    "lots d' = lots d" "txns d' = txns d" "debts d' = debts d" "wallets d' = wallets d"
    "alloc_total d' (hold_id h) = 0" "reserved d' w' = reserved d w'"
    "\<And>x. x \<in> set (holds d') \<Longrightarrow> hold_id x \<noteq> hold_id h \<Longrightarrow> x \<in> set (holds d) \<and> alloc_total d' (hold_id x) = alloc_total d (hold_id x)"
    "hold_id h = (case existing of None \<Rightarrow> next_id d | Some x \<Rightarrow> hold_id x)"
    "holds d' = (case existing of None \<Rightarrow> holds d @ [h] | Some x \<Rightarrow> upd_row hold_id (hold_id x) (rearm r n m e) (holds d))"
    by blast+
qed

text \<open>
  The body of \<open>hold\<close> when the credits are there (or nothing is to be reserved): the wallet's
  live credits become reserved ones and the database stays in its invariant.
\<close>

lemma hold_new_done:
  assumes inv: "inv d" and w: "w \<in> wallet_ids d" and pos: "0 < ho_credits r"
    and ex: "\<forall>h. existing = Some h \<longrightarrow> h \<in> set (holds d) \<and> hold_wallet h = w \<and> hold_key h = ho_key r \<and> hold_status h \<noteq> HELD"
    and n: "n = (if meter_only cf (Some (ho_user r)) then 0 else ho_credits r)" "n \<le> live_balance d w now"
    and plain: "\<not> was_waived (ho_meta r)"
  obtains h d' where "hold_new cf now r w existing d = Inr (h, d')" "inv d'" "synced d' w now"
    "\<And>w'. account_of d' w' now = (if w' = w
       then account_of d w now\<lparr>ac_live := live_balance d w now - n, ac_held := reserved d w + n\<rparr>
       else account_of d w' now)"
    "map wallet_static (wallets d') = map wallet_static (wallets d)"
    "h \<in> set (holds d')" "hold_status h = HELD" "hold_credits h = n" "hold_key h = ho_key r" "hold_wallet h = w"
    "hold_expires h = hold_deadline cf now (ho_expires r)"
    "hold_id h = (case existing of None \<Rightarrow> hold_id h | Some x \<Rightarrow> hold_id x)"
    "existing = None \<Longrightarrow> \<forall>x \<in> set (holds d). hold_id x \<noteq> hold_id h"
    "ledger_total d' w = ledger_total (snd (expire_due_lots w now d)) w"
    "\<And>x. x \<in> set (holds d') \<Longrightarrow> hold_id x \<noteq> hold_id h \<Longrightarrow> x \<in> set (holds d)"
proof -
  let ?d1 = "snd (expire_due_lots w now d)"
  let ?m = "if meter_only cf (Some (ho_user r)) then mark (ho_meta r) (ho_credits r) else ho_meta r"
  let ?e = "hold_deadline cf now (ho_expires r)"
  note wf = inv_wf[OF inv]
  have s1: "spends d ?d1" by (rule expire_spends[OF wf w])
  note wf1 = spends_wf[OF wf s1]
  have live1: "live_balance ?d1 v now = live_balance d v now" for v by (rule expire_live[OF wf w])
  have n0: "0 \<le> n" using pos n(1) by simp
  from charge_step[OF wf1 n0, of w now] n(2) live1 obtain taken d2 where
    c: "(if n = 0 then Inr ([], ?d1) else consume_lots w n now ?d1) = Inr (taken, d2)"
    and s2: "spends ?d1 d2" and same: "txns d2 = txns ?d1" "debts d2 = debts ?d1"
    and lt: "\<And>v. lot_total d2 v = lot_total ?d1 v - (if v = w then n else 0)"
    and lv: "\<And>v. live_balance d2 v now = live_balance d v now - (if v = w then n else 0)" by auto
  note s12 = spends_trans[OF s1 s2]
  note wf2 = spends_wf[OF wf s12]
  have w2: "w \<in> wallet_ids d2" using w spends_wallet_ids[OF s12] by simp
  have holds2: "holds d2 = holds d" using s12 by (simp add: spends_def)
  obtain h d3 where ph: "place_hold r w existing n ?m ?e d2 = (h, d3)" by (metis surj_pair)
  note p = place_hold_facts[OF wf2 w2 ex[folded holds2] ph]
  let ?d4 = "allocate (hold_id h) taken d3" and ?d5 = "snd (sync_balance w now (allocate (hold_id h) taken d3))"
  have sum: "taken_sum taken = n"
    using c n0 by (auto dest: consume_lots_amount split: if_splits)
  have tk: "0 \<le> snd q \<and> (\<exists>l \<in> set (lots d3). lot_id l = lot_id (fst q) \<and> lot_wallet l = hold_wallet h)"
    if "q \<in> set taken" for q
  proof -
    have cc: "consume_lots w n now ?d1 = Inr (taken, d2)" using c that by (auto split: if_splits)
    note q = consume_lots_taken[OF cc that]
    from spends_lot[OF s2 q(1)] obtain l where "l \<in> set (lots d2)" "lot_static l = lot_static (fst q)" by blast
    with q static_fields_eq[OF this(2)] p(3,10) show ?thesis by (intro conjI bexI[of _ l]) auto
  qed
  have wf4: "wf_db ?d4" by (rule wf_allocate[OF p(1,2) tk])
  have s5: "spends ?d4 ?d5" by (rule spends_sync[OF wf4])
  have lots5: "lots ?d5 = lots d2" and txns5: "txns ?d5 = txns ?d1" and debts5: "debts ?d5 = debts d"
    and holds5: "holds ?d5 = holds d3" and allocs5: "allocs ?d5 = allocs ?d4"
    by (simp_all add: sync_balance_frame allocate_frame p same expire_debts)
  have at5: "alloc_total ?d5 i = alloc_total d3 i + (if i = hold_id h then n else 0)" for i
    using totals_cong(3)[OF allocs5] by (simp add: alloc_total_allocate sum)
  have res5: "reserved ?d5 v = reserved d v + (if v = w then n else 0)" for v
    using reserved_allocs[OF holds_distinct[OF p(1)] p(2) holds5, of v] at5 p(3,6) p(15)[of v]
      spends_reserved[OF s12, of v] by (simp add: held_in_def)
  have live5: "live_balance ?d5 v now = live_balance d v now - (if v = w then n else 0)" for v
    using live_balance_cong[OF lots5] lv by simp
  have wal: "map wallet_static (wallets ?d5) = map wallet_static (wallets d)"
    using s12 by (simp add: sync_balance_frame allocate_frame p(13) spends_def)
  have "holds_ok ?d5"
    unfolding holds_ok_def holds5
  proof (intro ballI impI)
    fix x assume x: "x \<in> set (holds d3)" "hold_status x = HELD"
    show "0 \<le> hold_credits x \<and> alloc_total ?d5 (hold_id x) = hold_credits x \<and>
        (was_waived (hold_meta x) \<longrightarrow> hold_credits x = 0)"
    proof (cases "hold_id x = hold_id h")
      case True
      then have "x = h" using same_hold[OF p(1) x(1) p(2)] by simp
      with n0 n(1) plain at5 p(4,5,14) show ?thesis by simp
    next
      case False
      with p(16)[OF x(1)] have "x \<in> set (holds d)" "alloc_total d3 (hold_id x) = alloc_total d2 (hold_id x)"
        by (auto simp: holds2)
      moreover have "alloc_total d2 (hold_id x) = alloc_total d (hold_id x)"
        by (rule totals_cong) (use s12 in \<open>simp add: spends_def\<close>)
      ultimately show ?thesis using inv x(2) False at5 by (simp add: inv_def holds_ok_def)
    qed
  qed
  moreover have "balanced ?d5 v" for v
  proof -
    have "lot_total ?d5 v = lot_total ?d1 v - (if v = w then n else 0)"
      using totals_cong(1)[OF lots5] lt by simp
    moreover have "ledger_total ?d5 v = ledger_total ?d1 v" by (rule totals_cong(2)[OF txns5])
    moreover have "balanced ?d1 v" using inv expire_balanced[OF wf w] by (simp add: inv_def)
    ultimately show ?thesis using res5[of v] spends_reserved[OF s1, of v] by (simp add: balanced_def)
  qed
  ultimately have inv5: "inv ?d5" using spends_wf[OF wf4 s5] by (simp add: inv_def)
  have "w \<in> wallet_ids ?d4" using w2 by (simp add: wallet_ids_def allocate_frame p(13))
  then have sy: "synced ?d5 w now" by (rule synced_sync)
  have acc: "account_of ?d5 v now = (if v = w
       then account_of d w now\<lparr>ac_live := live_balance d w now - n, ac_held := reserved d w + n\<rparr>
       else account_of d v now)" for v
    using live5[of v] res5[of v] outstanding_cong[OF debts5, of v] by (simp add: account_of_def)
  have body: "hold_new cf now r w existing d = Inr (h, ?d5)"
  proof -
    have "(if meter_only cf (Some (ho_user r)) then 0 else ho_credits r) = n" using n(1) by simp
    then show ?thesis unfolding hold_new_def Let_def by (simp only: c ph sum.case prod.case)
  qed
  have fresh: "\<forall>x \<in> set (holds d). hold_id x \<noteq> hold_id h" if "existing = None"
    using p(17) that wf2 by (auto simp: wf_db_def hold_rows_ok_def holds2)
  have ids: "hold_id h = (case existing of None \<Rightarrow> hold_id h | Some x \<Rightarrow> hold_id x)"
    using p(17) by (cases existing) simp_all
  show ?thesis
    by (rule that[OF body inv5 sy acc wal]) (use p fresh ids totals_cong(2)[OF txns5] in \<open>simp_all add: holds5 holds2\<close>)
qed

subsection \<open>What the refund walk gives back\<close>

text \<open>Which allocation gives back how much: the pure shape of the refund walk.\<close>

fun refunds :: "alloc list \<Rightarrow> int \<Rightarrow> (alloc \<times> int) list" where
  "refunds [] n = []"
| "refunds (a # as) n =
     (if n \<le> 0 then []
      else if min n (alloc_credits a) \<le> 0 then refunds as n
      else (a, min n (alloc_credits a)) # refunds as (n - min n (alloc_credits a)))"

definition alive_refund :: "db \<Rightarrow> time \<Rightarrow> (alloc \<times> int) list \<Rightarrow> int" where
  "alive_refund d now ps = (\<Sum>p\<leftarrow>ps. if At now < fst (source_of d (fst p)) then snd p else 0)"

definition refund_step :: "uuid \<Rightarrow> alloc \<Rightarrow> int \<Rightarrow> db \<Rightarrow> db" where
  "refund_step w a n d =
     upd_alloc (alloc_id a) (\<lambda>x. x\<lparr>alloc_credits := alloc_credits a - n\<rparr>)
       (snd (create_lot w HOLD_RELEASE n (fst (source_of d a)) (snd (source_of d a)) d))"

lemma refund_walk_Cons:
  "refund_walk w (a # as) n d =
    (if n \<le> 0 then (n, d)
     else if min n (alloc_credits a) \<le> 0 then refund_walk w as n d
     else refund_walk w as (n - min n (alloc_credits a)) (refund_step w a (min n (alloc_credits a)) d))"
  unfolding refund_walk.simps(2) Let_def split_beta refund_step_def by (rule refl)

declare refund_walk.simps(2) [simp del]

lemma source_of_lot:
  assumes "wf_db d" and "a \<in> set (allocs d)"
  obtains l where "get_row lot_id (alloc_lot a) (lots d) = Some l" "l \<in> set (lots d)" "lot_id l = alloc_lot a"
    "source_of d a = (lot_expires l, lot_grant l)"
proof -
  from assms obtain l where l: "l \<in> set (lots d)" "lot_id l = alloc_lot a"
    by (auto simp: wf_db_def alloc_rows_ok_def)
  with get_row_distinct[OF lots_ok_distinct[OF wf_lots_ok[OF assms(1)]] l(1)]
  have "get_row lot_id (alloc_lot a) (lots d) = Some l" by simp
  with l show ?thesis by (intro that) (simp_all add: source_of_def)
qed

lemma refund_step_facts:
  assumes wf: "wf_db d" and a: "a \<in> set (allocs d)" and h: "h \<in> set (holds d)" "hold_id h = alloc_hold a"
    and w: "w = hold_wallet h" and n: "0 < n" "n \<le> alloc_credits a"
  shows "wf_db (refund_step w a n d)"
    "lots (refund_step w a n d) = lots d @ [\<lparr>lot_id = next_id d, lot_wallet = w, lot_source = HOLD_RELEASE,
        lot_initial = n, lot_remaining = n, lot_expires = fst (source_of d a), lot_grant = snd (source_of d a)\<rparr>]"
    "txns (refund_step w a n d) = txns d" "debts (refund_step w a n d) = debts d"
    "wallets (refund_step w a n d) = wallets d" "holds (refund_step w a n d) = holds d"
    "allocs (refund_step w a n d) = upd_row alloc_id (alloc_id a) (\<lambda>x. x\<lparr>alloc_credits := alloc_credits a - n\<rparr>) (allocs d)"
    "alloc_total (refund_step w a n d) j = alloc_total d j - (if j = alloc_hold a then n else 0)"
    "lot_total (refund_step w a n d) v = lot_total d v + (if v = w then n else 0)"
    "live_balance (refund_step w a n d) v now =
      live_balance d v now + (if v = w \<and> At now < fst (source_of d a) then n else 0)"
proof -
  let ?d1 = "snd (create_lot w HOLD_RELEASE n (fst (source_of d a)) (snd (source_of d a)) d)"
  obtain l where l: "l \<in> set (lots d)" "lot_id l = alloc_lot a" "source_of d a = (lot_expires l, lot_grant l)"
    by (rule source_of_lot[OF wf a])
  from wf a obtain h' l' where hl: "h' \<in> set (holds d)" "hold_id h' = alloc_hold a"
    "l' \<in> set (lots d)" "lot_id l' = alloc_lot a" "lot_wallet l' = hold_wallet h'"
    by (auto simp: wf_db_def alloc_rows_ok_def)
  have "h' = h" using same_hold[OF wf hl(1) h(1)] hl(2) h(2) by simp
  moreover have "l' = l" using hl(3,4) l(1,2) lots_ok_distinct[OF wf_lots_ok[OF wf]] by (metis distinct_map inj_onD)
  ultimately have lw: "lot_wallet l = w" using hl(5) w by simp
  have gr: "\<exists>t \<in> set (txns d). txn_id t = g \<and> txn_wallet t = w" if "snd (source_of d a) = Some g" for g
    using wf l(1,3) lw that unfolding wf_db_def lot_refs_ok_def by auto
  have ww: "w \<in> wallet_ids d" using wf h(1) w by (auto simp: wf_db_def hold_rows_ok_def)
  have wf1: "wf_db ?d1" using n(1) gr by (intro wf_create_lot[OF wf ww]) simp_all
  have a1: "a \<in> set (allocs ?d1)" using a by (simp add: create_lot_frame)
  show "wf_db (refund_step w a n d)" unfolding refund_step_def using n(2) by (intro wf_upd_alloc[OF wf1]) simp
  show "lots (refund_step w a n d) = lots d @ [\<lparr>lot_id = next_id d, lot_wallet = w, lot_source = HOLD_RELEASE,
        lot_initial = n, lot_remaining = n, lot_expires = fst (source_of d a), lot_grant = snd (source_of d a)\<rparr>]"
    "txns (refund_step w a n d) = txns d" "debts (refund_step w a n d) = debts d"
    "wallets (refund_step w a n d) = wallets d" "holds (refund_step w a n d) = holds d"
    "allocs (refund_step w a n d) = upd_row alloc_id (alloc_id a) (\<lambda>x. x\<lparr>alloc_credits := alloc_credits a - n\<rparr>) (allocs d)"
    by (simp_all add: refund_step_def upd_alloc_def create_lot_def)
  show "alloc_total (refund_step w a n d) j = alloc_total d j - (if j = alloc_hold a then n else 0)"
    unfolding refund_step_def using alloc_total_upd[OF allocs_distinct[OF wf1] a1] totals_cong(3)[of ?d1 d j]
    by (auto simp: create_lot_frame)
  have "lots (refund_step w a n d) = lots ?d1" by (simp add: refund_step_def upd_alloc_def)
  from totals_cong(1)[OF this, of v] live_balance_cong[OF this, of v now]
  show "lot_total (refund_step w a n d) v = lot_total d v + (if v = w then n else 0)"
    "live_balance (refund_step w a n d) v now =
      live_balance d v now + (if v = w \<and> At now < fst (source_of d a) then n else 0)"
    using n(1) by (simp_all add: create_lot_sum create_lot_live[OF wf_lots_ok[OF wf]])
qed

lemma source_of_step:
  assumes "wf_db d" and "a \<in> set (allocs d)" and "h \<in> set (holds d)" and "hold_id h = alloc_hold a"
    and "0 < n" and "n \<le> alloc_credits a" and "b \<in> set (allocs d)"
  shows "source_of (refund_step (hold_wallet h) a n d) b = source_of d b"
proof -
  have ext: "get_row lot_id i (ls @ [x]) = Some l" if "get_row lot_id i ls = Some l" for i ls x l
    using that unfolding get_row_def by (induction ls) (auto split: if_splits)
  obtain l where l: "get_row lot_id (alloc_lot b) (lots d) = Some l"
    by (rule source_of_lot[OF assms(1,7)])
  then have "get_row lot_id (alloc_lot b) (lots (refund_step (hold_wallet h) a n d)) = Some l"
    unfolding refund_step_facts(2)[OF assms(1-4) refl assms(5,6)] by (rule ext)
  with l show ?thesis by (simp add: source_of_def)
qed

text \<open>The whole walk: exactly what was asked comes back, out of this hold's allocations.\<close>

definition refund_list :: "alloc list \<Rightarrow> uuid \<Rightarrow> db \<Rightarrow> bool" where
  "refund_list as h d = (distinct (map alloc_id as) \<and> (\<forall>a \<in> set as. a \<in> set (allocs d) \<and> alloc_hold a = h))"

lemma refund_list_step:
  assumes "refund_list (a # as) i d" and "wf_db d" and "h \<in> set (holds d)" and "hold_id h = i"
    and "0 < n" and "n \<le> alloc_credits a"
  shows "refund_list as i (refund_step (hold_wallet h) a n d)"
proof -
  have a: "a \<in> set (allocs d)" "hold_id h = alloc_hold a" using assms(1,4) by (auto simp: refund_list_def)
  have "b \<in> set (allocs (refund_step (hold_wallet h) a n d))" if "b \<in> set as" for b
  proof -
    have "b \<in> set (allocs d)" "alloc_id b \<noteq> alloc_id a" using assms(1) that by (auto simp: refund_list_def image_iff)
    then show ?thesis
      unfolding refund_step_facts(7)[OF assms(2) a(1) assms(3) a(2) refl assms(5,6)]
      by (auto simp: set_upd_row image_iff)
  qed
  with assms(1) show ?thesis by (auto simp: refund_list_def)
qed

lemma refund_walk_facts:
  assumes "wf_db d" and "h \<in> set (holds d)" and "refund_list as (hold_id h) d"
    and "0 \<le> n" and "n \<le> (\<Sum>a\<leftarrow>as. alloc_credits a)"
    and "refund_walk (hold_wallet h) as n d = (out, d')"
  shows "out = 0 \<and> wf_db d' \<and> txns d' = txns d \<and> debts d' = debts d \<and> wallets d' = wallets d \<and> holds d' = holds d \<and>
    alloc_total d' j = alloc_total d j - (if j = hold_id h then n else 0) \<and>
    lot_total d' v = lot_total d v + (if v = hold_wallet h then n else 0) \<and>
    live_balance d' v now = live_balance d v now + (if v = hold_wallet h then alive_refund d now (refunds as n) else 0)"
  using assms
proof (induction as arbitrary: n d)
  case Nil
  then show ?case by (simp add: alive_refund_def)
next
  case (Cons a as)
  have a: "a \<in> set (allocs d)" "hold_id h = alloc_hold a" using Cons.prems(3) by (auto simp: refund_list_def)
  have as: "refund_list as (hold_id h) d" using Cons.prems(3) by (simp add: refund_list_def)
  note a0 = alloc_nonneg[OF Cons.prems(1) a(1)]
  let ?m = "min n (alloc_credits a)"
  consider "n \<le> 0" | "0 < n" "?m \<le> 0" | "0 < n" "0 < ?m" by linarith
  then show ?case
  proof cases
    case 1
    with Cons.prems show ?thesis by (simp add: refund_walk_Cons alive_refund_def)
  next
    case 2
    with a0 have z: "alloc_credits a = 0" by simp
    with 2 Cons.prems have "n \<le> (\<Sum>a\<leftarrow>as. alloc_credits a)" "refund_walk (hold_wallet h) as n d = (out, d')"
      by (simp_all add: refund_walk_Cons)
    from Cons.IH[OF Cons.prems(1,2) as Cons.prems(4) this] 2 z show ?thesis by simp
  next
    case 3
    have m: "0 < ?m" "?m \<le> alloc_credits a" using 3 by auto
    let ?d = "refund_step (hold_wallet h) a ?m d"
    note f = refund_step_facts[OF Cons.prems(1) a(1) Cons.prems(2) a(2) refl m]
    have h': "h \<in> set (holds ?d)" using Cons.prems(2) by (simp add: f(6))
    have as': "refund_list as (hold_id h) ?d" by (rule refund_list_step[OF Cons.prems(3,1,2) refl m])
    have rest: "refund_walk (hold_wallet h) as (n - ?m) ?d = (out, d')"
      using Cons.prems(6) 3 by (simp add: refund_walk_Cons)
    have nonneg: "0 \<le> (\<Sum>a\<leftarrow>as. alloc_credits a)"
      using as alloc_nonneg[OF Cons.prems(1)] by (intro sum_list_nonneg_int) (auto simp: refund_list_def)
    have le: "0 \<le> n - ?m" "n - ?m \<le> (\<Sum>a\<leftarrow>as. alloc_credits a)" using Cons.prems(5) nonneg by (auto simp: min_def)
    have src: "source_of ?d b = source_of d b" if "b \<in> set as" for b
      using source_of_step[OF Cons.prems(1) a(1) Cons.prems(2) a(2) m, of b] as that by (auto simp: refund_list_def)
    have sub: "fst p \<in> set as" if "p \<in> set (refunds as k)" for p k
      using that by (induction as arbitrary: k) (auto split: if_splits)
    have "alive_refund ?d now (refunds as (n - ?m)) = alive_refund d now (refunds as (n - ?m))"
      unfolding alive_refund_def using src sub by (intro arg_cong[where f = sum_list] map_cong) auto
    moreover have "refunds (a # as) n = (a, ?m) # refunds as (n - ?m)"
    proof -
      have "\<not> n \<le> 0" "\<not> ?m \<le> 0" using 3 by linarith+
      then show ?thesis by (simp only: refunds.simps if_False)
    qed
    then have "alive_refund d now (refunds (a # as) n) =
        (if At now < fst (source_of d a) then ?m else 0) + alive_refund d now (refunds as (n - ?m))"
      by (simp only: alive_refund_def list.map sum_list.Cons fst_conv snd_conv)
    ultimately show ?thesis
      using Cons.IH[OF f(1) h' as' le rest] f(3-6) f(8)[of j] f(9)[of v] f(10)[of v now] a(2) by auto
  qed
qed

lemma refund_allocations_facts:
  assumes "wf_db d" and "h \<in> set (holds d)" and "0 \<le> n" and "n \<le> alloc_total d (hold_id h)"
    and "refund_allocations h n d = (m, d')"
  shows "m = n" "wf_db d'" "txns d' = txns d" "debts d' = debts d" "wallets d' = wallets d" "holds d' = holds d"
    "alloc_total d' j = alloc_total d j - (if j = hold_id h then n else 0)"
    "lot_total d' v = lot_total d v + (if v = hold_wallet h then n else 0)"
    "live_balance d' v now = live_balance d v now +
      (if v = hold_wallet h then alive_refund d now (refunds (rev (hold_allocs d (hold_id h))) n) else 0)"
proof -
  let ?as = "rev (hold_allocs d (hold_id h))"
  obtain out where r: "refund_walk (hold_wallet h) ?as n d = (out, d')" and m: "m = n - out"
    using assms(5) by (auto simp: refund_allocations_def split: prod.splits)
  have "refund_list ?as (hold_id h) d"
    using allocs_distinct[OF assms(1)]
    by (auto simp: refund_list_def hold_allocs_def distinct_map_filter rev_map[symmetric])
  moreover have "n \<le> (\<Sum>a\<leftarrow>?as. alloc_credits a)"
    using assms(4) by (simp add: alloc_total_hold_allocs rev_map[symmetric] sum_list_rev)
  note w = refund_walk_facts[OF assms(1,2) calculation assms(3) this r]
  from w m show "m = n" "wf_db d'" "txns d' = txns d" "debts d' = debts d" "wallets d' = wallets d" "holds d' = holds d"
    "alloc_total d' j = alloc_total d j - (if j = hold_id h then n else 0)"
    "lot_total d' v = lot_total d v + (if v = hold_wallet h then n else 0)"
    "live_balance d' v now = live_balance d v now +
      (if v = hold_wallet h then alive_refund d now (refunds ?as n) else 0)" by simp_all
qed

subsection \<open>Resolving a hold\<close>

text \<open>Holds other than the one at work stay accounted for as long as their rows and allocations do.\<close>

definition holds_ok_but :: "uuid \<Rightarrow> db \<Rightarrow> bool" where
  "holds_ok_but i d = (\<forall>h \<in> set (holds d). hold_status h = HELD \<and> hold_id h \<noteq> i \<longrightarrow>
     0 \<le> hold_credits h \<and> alloc_total d (hold_id h) = hold_credits h \<and>
     (was_waived (hold_meta h) \<longrightarrow> hold_credits h = 0))"

lemma holds_ok_butI: "holds_ok d \<Longrightarrow> holds_ok_but i d"
  by (simp add: holds_ok_def holds_ok_but_def)

lemma holds_ok_but_cong:
  assumes "holds d' = holds d" and "\<And>j. j \<noteq> i \<Longrightarrow> alloc_total d' j = alloc_total d j" and "holds_ok_but i d"
  shows "holds_ok_but i d'"
  using assms by (simp add: holds_ok_but_def)

lemma settle_frame [frame]:
  "lots (settle i s now d) = lots d" "txns (settle i s now d) = txns d" "debts (settle i s now d) = debts d"
  "wallets (settle i s now d) = wallets d" "allocs (settle i s now d) = allocs d"
  "next_id (settle i s now d) = next_id d"
  by (simp_all add: settle_def upd_hold_def)

lemma settle_holds_facts:
  assumes "wf_db d" and "h \<in> set (holds d)" and "hold_status h = HELD" and "s \<noteq> HELD" and "holds_ok_but (hold_id h) d"
  shows "wf_db (settle (hold_id h) s now d)" "holds_ok (settle (hold_id h) s now d)"
    "reserved (settle (hold_id h) s now d) v = reserved d v - (if v = hold_wallet h then alloc_total d (hold_id h) else 0)"
    "h\<lparr>hold_status := s, hold_resolved := Some now\<rparr> \<in> set (holds (settle (hold_id h) s now d))"
proof -
  let ?f = "\<lambda>h. h\<lparr>hold_status := s, hold_resolved := Some now\<rparr>"
  let ?d = "settle (hold_id h) s now d"
  show "wf_db ?d" unfolding settle_def by (rule wf_upd_hold[OF assms(1)]) simp_all
  have hs: "holds ?d = upd_row hold_id (hold_id h) ?f (holds d)" by (simp add: settle_def upd_hold_def)
  show "?f h \<in> set (holds ?d)" using assms(2) by (auto simp: hs set_upd_row)
  have tot: "alloc_total ?d j = alloc_total d j" for j by (rule totals_cong) (rule settle_frame)
  have f: "hold_id (?f h) = hold_id h" by simp
  show "reserved ?d v = reserved d v - (if v = hold_wallet h then alloc_total d (hold_id h) else 0)"
    using reserved_change[OF holds_distinct[OF assms(1)] assms(2) hs f, of v] assms(3,4) tot
    by (auto simp: held_in_def)
  show "holds_ok ?d"
    unfolding holds_ok_def
  proof (intro ballI impI)
    fix x assume "x \<in> set (holds ?d)" "hold_status x = HELD"
    with assms(4) have "x \<in> set (holds d)" "hold_id x \<noteq> hold_id h" by (auto simp: hs set_upd_row split: if_splits)
    with assms(5) \<open>hold_status x = HELD\<close> tot
    show "0 \<le> hold_credits x \<and> alloc_total ?d (hold_id x) = hold_credits x \<and>
        (was_waived (hold_meta x) \<longrightarrow> hold_credits x = 0)" by (simp add: holds_ok_but_def)
  qed
qed

lemma hold_wallet_known: "wf_db d \<Longrightarrow> h \<in> set (holds d) \<Longrightarrow> hold_wallet h \<in> wallet_ids d"
  by (simp add: wf_db_def hold_rows_ok_def)

lemma held_allocated:
  assumes "inv d" and "h \<in> set (holds d)" and "hold_status h = HELD"
  shows "alloc_total d (hold_id h) = hold_credits h" "0 \<le> hold_credits h" "was_waived (hold_meta h) \<Longrightarrow> hold_credits h = 0"
  using assms by (auto simp: inv_def holds_ok_def)

text \<open>Refund, then the sweep that turns what came back dead into expiration rows.\<close>

lemma refund_and_sweep:
  assumes "wf_db d" and "h \<in> set (holds d)" and "0 \<le> n" and "n \<le> alloc_total d (hold_id h)"
    and "d' = snd (expire_due_lots (hold_wallet h) now (snd (refund_allocations h n d)))"
  shows "wf_db d'" "holds d' = holds d" "debts d' = debts d" "map wallet_static (wallets d') = map wallet_static (wallets d)"
    "alloc_total d' j = alloc_total d j - (if j = hold_id h then n else 0)"
    "lot_total d' v - ledger_total d' v = lot_total d v - ledger_total d v + (if v = hold_wallet h then n else 0)"
    "live_balance d' v now = live_balance d v now +
      (if v = hold_wallet h then alive_refund d now (refunds (rev (hold_allocs d (hold_id h))) n) else 0)"
proof -
  obtain m d1 where r: "refund_allocations h n d = (m, d1)" by (metis surj_pair)
  note f = refund_allocations_facts[OF assms(1-4) r]
  have w1: "hold_wallet h \<in> wallet_ids d1" using hold_wallet_known[OF assms(1,2)] by (simp add: wallet_ids_def f(5))
  have d': "d' = snd (expire_due_lots (hold_wallet h) now d1)" using assms(5) r by simp
  have s: "spends d1 d'" unfolding d' by (rule expire_spends[OF f(2) w1])
  show "wf_db d'" by (rule spends_wf[OF f(2) s])
  show "holds d' = holds d" "map wallet_static (wallets d') = map wallet_static (wallets d)"
    using s f by (simp_all add: spends_def)
  show "debts d' = debts d" by (simp add: d' expire_debts f(4))
  show "alloc_total d' j = alloc_total d j - (if j = hold_id h then n else 0)"
    using totals_cong(3)[of d' d1 j] s f(7)[of j] by (simp add: spends_def)
  show "lot_total d' v - ledger_total d' v = lot_total d v - ledger_total d v + (if v = hold_wallet h then n else 0)"
    using expire_totals[OF wf_lots_ok[OF f(2)], of "hold_wallet h" now v] f(8)[of v] totals_cong(2)[OF f(3), of v]
    by (simp add: d')
  show "live_balance d' v now = live_balance d v now +
      (if v = hold_wallet h then alive_refund d now (refunds (rev (hold_allocs d (hold_id h))) n) else 0)"
    using expire_live[OF f(2) w1, of now v] f(9)[of v now] by (simp add: d')
qed

text \<open>The sweep changes no deadline and no allocation, so the refund can be read off the state before it.\<close>

lemma source_of_spends:
  assumes "wf_db d" and "spends d d'" and "a \<in> set (allocs d)"
  shows "source_of d' a = source_of d a"
proof -
  have a': "a \<in> set (allocs d')" using assms(2,3) by (simp add: spends_def)
  obtain l where l: "l \<in> set (lots d)" "lot_id l = alloc_lot a" "source_of d a = (lot_expires l, lot_grant l)"
    by (rule source_of_lot[OF assms(1,3)])
  obtain l' where l': "l' \<in> set (lots d')" "lot_id l' = alloc_lot a" "source_of d' a = (lot_expires l', lot_grant l')"
    by (rule source_of_lot[OF spends_wf[OF assms(1,2)] a'])
  from spends_lot'[OF assms(2) l'(1)] obtain x where x: "x \<in> set (lots d)" "lot_static x = lot_static l'" by blast
  have "x = l" using x static_fields_eq(1)[OF x(2)] l(1,2) l'(2) lots_ok_distinct[OF wf_lots_ok[OF assms(1)]]
    by (metis distinct_map inj_onD)
  with static_fields_eq[OF x(2)] l(3) l'(3) show ?thesis by simp
qed

lemma refunds_sub: "p \<in> set (refunds as n) \<Longrightarrow> fst p \<in> set as"
  by (induction as arbitrary: n) (auto split: if_splits)

lemma alive_refund_spends:
  assumes "wf_db d" and "spends d d'"
  shows "alive_refund d' now (refunds (rev (hold_allocs d' i)) n) = alive_refund d now (refunds (rev (hold_allocs d i)) n)"
proof -
  have h: "hold_allocs d' i = hold_allocs d i" using assms(2) by (simp add: hold_allocs_def spends_def)
  have "source_of d' (fst p) = source_of d (fst p)" if "p \<in> set (refunds (rev (hold_allocs d i)) n)" for p
    using refunds_sub[OF that] by (intro source_of_spends[OF assms]) (simp add: hold_allocs_def)
  then show ?thesis unfolding alive_refund_def h by (intro arg_cong[where f = sum_list] map_cong) auto
qed

text \<open>Everything a hold drew, and the part of it that can still be spent.\<close>

definition alive_part :: "db \<Rightarrow> time \<Rightarrow> uuid \<Rightarrow> int" where
  "alive_part d now i = (\<Sum>a\<leftarrow>hold_allocs d i. if At now < fst (source_of d a) then alloc_credits a else 0)"

lemma refunds_all:
  assumes "\<forall>a \<in> set as. 0 \<le> alloc_credits a"
  shows "alive_refund d now (refunds as (\<Sum>a\<leftarrow>as. alloc_credits a)) =
    (\<Sum>a\<leftarrow>as. if At now < fst (source_of d a) then alloc_credits a else 0)"
  using assms
proof (induction as)
  case (Cons a as)
  let ?s = "\<Sum>a\<leftarrow>as. alloc_credits a"
  have s: "0 \<le> ?s" using Cons.prems by (intro sum_list_nonneg_int) auto
  have a: "0 \<le> alloc_credits a" using Cons.prems by simp
  show ?case
  proof (cases "alloc_credits a = 0")
    case True
    show ?thesis
    proof (cases "?s = 0")
      case zero: True
      have "(\<Sum>x\<leftarrow>as. if At now < fst (source_of d x) then alloc_credits x else 0) = 0"
        using Cons zero True by (cases as) (auto simp: alive_refund_def)
      with True zero show ?thesis by (simp add: alive_refund_def)
    next
      case False
      with s True Cons show ?thesis by simp
    qed
  next
    case False
    with a s have "refunds (a # as) (alloc_credits a + ?s) = (a, alloc_credits a) # refunds as ?s" by simp
    with Cons show ?thesis by (simp add: alive_refund_def)
  qed
qed (simp add: alive_refund_def)

lemma alive_refund_all:
  assumes "wf_db d"
  shows "alive_refund d now (refunds (rev (hold_allocs d i)) (alloc_total d i)) = alive_part d now i"
proof -
  have "\<forall>a \<in> set (rev (hold_allocs d i)). 0 \<le> alloc_credits a"
    using alloc_nonneg[OF assms] by (auto simp: hold_allocs_def)
  from refunds_all[OF this, of d now] show ?thesis
    by (simp add: alive_part_def alloc_total_hold_allocs rev_map[symmetric] sum_list_rev)
qed

subsection \<open>Release: the credits come back, the dead ones excepted\<close>

lemma release_held_facts:
  assumes inv: "inv d" and h: "h \<in> set (holds d)" "hold_status h = HELD"
    and def': "d' = release_held h (hold_wallet h) ex now d"
  shows "inv d'" "synced d' (hold_wallet h) now" "map wallet_static (wallets d') = map wallet_static (wallets d)"
    "account_of d' v now = (if v = hold_wallet h
       then account_of d v now\<lparr>ac_live := live_balance d v now + alive_part d now (hold_id h),
                               ac_held := reserved d v - hold_credits h\<rparr>
       else account_of d v now)"
    "holds d' = upd_row hold_id (hold_id h) (\<lambda>x. x\<lparr>hold_status := (if ex then EXPIRED else RELEASED), hold_resolved := Some now\<rparr>) (holds d)"
proof -
  let ?w = "hold_wallet h" and ?i = "hold_id h"
  let ?d1 = "snd (expire_due_lots ?w now d)"
  note wf = inv_wf[OF inv]
  note w = hold_wallet_known[OF wf h(1)]
  have s1: "spends d ?d1" by (rule expire_spends[OF wf w])
  note wf1 = spends_wf[OF wf s1]
  have h1: "h \<in> set (holds ?d1)" using s1 h(1) by (simp add: spends_def)
  have al1: "alloc_total ?d1 j = alloc_total d j" for j by (rule totals_cong) (use s1 in \<open>simp add: spends_def\<close>)
  let ?out = "\<Sum>a\<leftarrow>hold_allocs ?d1 ?i. alloc_credits a"
  have out: "?out = alloc_total ?d1 ?i" by (simp add: alloc_total_hold_allocs)
  note cr = held_allocated[OF inv h]
  have out0: "0 \<le> ?out" "?out \<le> alloc_total ?d1 ?i" using out al1 cr by simp_all
  define d3 where "d3 = snd (expire_due_lots ?w now (snd (refund_allocations h ?out ?d1)))"
  note r = refund_and_sweep[OF wf1 h1 out0 d3_def]
  define d4 where "d4 = snd (sync_balance ?w now d3)"
  have s4: "spends d3 d4" unfolding d4_def by (rule spends_sync[OF r(1)])
  note wf4 = spends_wf[OF r(1) s4]
  have h4: "h \<in> set (holds d4)" using h1 r(2) s4 by (simp add: spends_def)
  have al4: "alloc_total d4 j = (if j = ?i then 0 else alloc_total d j)" for j
    using r(5)[of j] out al1 totals_cong(3)[of d4 d3 j] s4 by (simp add: spends_def)
  have "holds d4 = holds d" using s1 r(2) s4 by (simp add: spends_def)
  then have but: "holds_ok_but ?i d4" using al4 inv by (simp add: inv_def holds_ok_def holds_ok_but_def)
  have d': "d' = settle ?i (if ex then EXPIRED else RELEASED) now d4"
    by (simp add: def' release_held_def Let_def d3_def d4_def)
  have ne: "(if ex then EXPIRED else RELEASED) \<noteq> HELD" by simp
  note f = settle_holds_facts[OF wf4 h4 h(2) ne but, of now]
  have res4: "reserved d4 v = reserved d v - (if v = ?w then hold_credits h else 0)" for v
    using reserved_allocs[OF holds_distinct[OF wf] h(1) \<open>holds d4 = holds d\<close>, of v] al4 cr(1) h(2)
    by (auto simp: held_in_def)
  have res: "reserved d' v = reserved d v - (if v = ?w then hold_credits h else 0)" for v
    using f(3)[of v] res4[of v] al4 by (simp add: d')
  have lots': "lots d' = lots d3" "wallets d' = wallets d4" "txns d' = txns d3" "debts d' = debts d3"
    by (simp_all add: d' settle_frame d4_def sync_balance_frame)
  have bal: "balanced d' v" for v
  proof -
    have "lot_total d' v - ledger_total d' v = lot_total d v - ledger_total d v + (if v = ?w then hold_credits h else 0)"
      using r(6)[of v] expire_totals[OF wf_lots_ok[OF wf], of ?w now v] out al1 cr(1)
        totals_cong(1)[OF lots'(1), of v] totals_cong(2)[OF lots'(3), of v] by simp
    moreover have "balanced d v" using inv by (simp add: inv_def)
    ultimately show ?thesis using res[of v] by (simp add: balanced_def split: if_splits)
  qed
  show "inv d'" using f(1,2) bal unfolding inv_def d' by blast
  have "?w \<in> wallet_ids d3" using w spends_wallet_ids[OF s1] r(4) static_wallets(1)[OF r(4)]
    by (metis wallet_ids_cong)
  then have "synced d4 ?w now" unfolding d4_def by (rule synced_sync)
  then show "synced d' ?w now"
    using synced_cong[OF lots'(2)] live_balance_cong[of d' d4] by (simp add: d' settle_frame)
  show "map wallet_static (wallets d') = map wallet_static (wallets d)"
    using s1 r(4) s4 by (simp add: lots'(2) spends_def)
  have "alive_refund ?d1 now (refunds (rev (hold_allocs ?d1 ?i)) ?out) = alive_part d now ?i"
    using alive_refund_all[OF wf, of now ?i] alive_refund_spends[OF wf s1, of now ?i] out al1 by simp
  then have "live_balance d' v now = live_balance d v now + (if v = ?w then alive_part d now ?i else 0)"
    using r(7)[of v] expire_live[OF wf w, of now v] live_balance_cong[OF lots'(1), of v now] by simp
  moreover have "outstanding_debt d' v = outstanding_debt d v"
    by (rule outstanding_cong) (simp add: lots'(4) r(3) expire_debts)
  ultimately show "account_of d' v now = (if v = ?w
       then account_of d v now\<lparr>ac_live := live_balance d v now + alive_part d now ?i,
                               ac_held := reserved d v - hold_credits h\<rparr>
       else account_of d v now)"
    using res[of v] by (simp add: account_of_def)
  show "holds d' = upd_row hold_id ?i (\<lambda>x. x\<lparr>hold_status := (if ex then EXPIRED else RELEASED), hold_resolved := Some now\<rparr>) (holds d)"
    by (simp add: d' settle_def upd_hold_def \<open>holds d4 = holds d\<close>)
qed

subsection \<open>Capture: the charge is the actual cost\<close>

text \<open>The live credits a capture moves: out for what exceeds the hold, in for what was not used.\<close>

definition capture_delta :: "db \<Rightarrow> time \<Rightarrow> hold \<Rightarrow> int \<Rightarrow> int" where
  "capture_delta d now h actual =
     (if hold_credits h < actual then hold_credits h - actual
      else alive_refund d now (refunds (rev (hold_allocs d (hold_id h))) (hold_credits h - actual)))"

lemma adjust_refused:
  assumes "live_balance d w now < actual - hold_credits h" and "hold_credits h < actual"
  shows "adjust_to h w actual now d = Inl (InsufficientCreditsError (live_balance d w now) (actual - hold_credits h))"
  using assms by (simp add: adjust_to_def consume_lots_cases)

lemma adjust_facts:
  assumes inv: "inv d" and h: "h \<in> set (holds d)" "hold_status h = HELD" and a0: "0 \<le> actual"
    and fit: "actual - hold_credits h \<le> live_balance d (hold_wallet h) now"
  obtains d' where "adjust_to h (hold_wallet h) actual now d = Inr d'" "wf_db d'" "holds d' = holds d" "debts d' = debts d"
    "map wallet_static (wallets d') = map wallet_static (wallets d)"
    "\<And>j. alloc_total d' j = (if j = hold_id h then actual else alloc_total d j)"
    "\<And>v. lot_total d' v - ledger_total d' v =
       lot_total d v - ledger_total d v + (if v = hold_wallet h then hold_credits h - actual else 0)"
    "\<And>v. live_balance d' v now = live_balance d v now + (if v = hold_wallet h then capture_delta d now h actual else 0)"
proof -
  let ?w = "hold_wallet h" and ?i = "hold_id h"
  note wf = inv_wf[OF inv]
  note cr = held_allocated[OF inv h]
  consider "hold_credits h < actual" | "actual < hold_credits h" | "actual = hold_credits h" by linarith
  then show ?thesis
  proof cases
    case 1
    let ?n = "actual - hold_credits h"
    have n0: "0 \<le> ?n" using 1 by simp
    obtain taken d1 where eq: "consume_lots ?w ?n now d = Inr (taken, d1)"
      using lot_spend.cover[OF wf_lots_ok[OF wf] n0 fit] by blast
    have s1: "spends d d1" by (rule spends_consume[OF wf eq])
    have h1: "h \<in> set (holds d1)" using s1 h(1) by (simp add: spends_def)
    have tk: "0 \<le> snd q \<and> (\<exists>l \<in> set (lots d1). lot_id l = lot_id (fst q) \<and> lot_wallet l = hold_wallet h)"
      if "q \<in> set taken" for q
    proof -
      note q = consume_lots_taken[OF eq that]
      from spends_lot[OF s1 q(1)] obtain l where "l \<in> set (lots d1)" "lot_static l = lot_static (fst q)" by blast
      with q static_fields_eq[OF this(2)] show ?thesis by (intro conjI bexI[of _ l]) auto
    qed
    let ?d = "allocate ?i taken d1"
    have "lot_total ?d v = lot_total d1 v" "ledger_total ?d v = ledger_total d v" "live_balance ?d v now = live_balance d1 v now" for v
      by (rule totals_cong live_balance_cong; simp add: allocate_frame consume_lots_frame[OF eq])+
    moreover have "alloc_total d1 j = alloc_total d j" for j by (rule totals_cong) (rule consume_lots_frame[OF eq])
    ultimately show ?thesis
      using 1 eq wf_allocate[OF spends_wf[OF wf s1] h1 tk] consume_lots_frame[OF eq] cr(1) consume_lots_amount(1)[OF n0 eq]
        consume_lots_total[OF wf_lots_ok[OF wf] n0 eq] consume_lots_live[OF wf_lots_ok[OF wf] n0 eq]
      by (intro that[of ?d]) (simp_all add: adjust_to_def allocate_frame alloc_total_allocate capture_delta_def)
  next
    case 2
    let ?n = "hold_credits h - actual"
    have n: "0 \<le> ?n" "?n \<le> alloc_total d ?i" using 2 a0 cr(1) by simp_all
    define d' where "d' = snd (expire_due_lots ?w now (snd (refund_allocations h ?n d)))"
    note r = refund_and_sweep[OF wf h(1) n d'_def]
    have eq: "adjust_to h ?w actual now d = Inr d'" using 2 by (simp add: adjust_to_def d'_def)
    show ?thesis
      by (rule that[OF eq r(1,2,3,4)]) (use r(5,6,7) 2 cr(1) in \<open>simp_all add: capture_delta_def\<close>)
  next
    case 3
    have "capture_delta d now h actual = 0"
    proof -
      have "refunds as 0 = []" for as by (cases as) simp_all
      then show ?thesis using 3 by (simp add: capture_delta_def alive_refund_def)
    qed
    with 3 wf cr(1) show ?thesis by (intro that[of d]) (simp_all add: adjust_to_def)
  qed
qed

lemma capture_delta_spends:
  assumes "wf_db d" and "spends d d'"
  shows "capture_delta d' now h actual = capture_delta d now h actual"
  using alive_refund_spends[OF assms] by (simp add: capture_delta_def)

lemma capture_held_refused:
  assumes "inv d" and "h \<in> set (holds d)" and "hold_credits h < actual"
    and "live_balance d (hold_wallet h) now < actual - hold_credits h"
  shows "capture_held h (hold_wallet h) actual desc m now d =
    Inl (InsufficientCreditsError (live_balance d (hold_wallet h) now) (actual - hold_credits h))"
  using assms expire_live[OF inv_wf[OF assms(1)] hold_wallet_known[OF inv_wf[OF assms(1)] assms(2)], of now "hold_wallet h"]
  by (simp add: capture_held_def adjust_refused)

lemma capture_held_done:
  assumes inv: "inv d" and h: "h \<in> set (holds d)" "hold_status h = HELD" and a0: "0 \<le> actual"
    and fit: "actual - hold_credits h \<le> live_balance d (hold_wallet h) now"
  obtains t d' where "capture_held h (hold_wallet h) actual desc m now d = Inr (t, d')" "inv d'"
    "synced d' (hold_wallet h) now" "map wallet_static (wallets d') = map wallet_static (wallets d)"
    "\<And>v. account_of d' v now = (if v = hold_wallet h
       then account_of d v now\<lparr>ac_live := live_balance d v now + capture_delta d now h actual,
                               ac_held := reserved d v - hold_credits h\<rparr>
       else account_of d v now)"
    "\<exists>ts. txns d' = ts @ [t]" "txn_wallet t = hold_wallet h" "txn_delta t = - actual" "txn_type t = hold_type h"
    "txn_balance t = live_balance d' (hold_wallet h) now"
    "dget (txn_meta t) ''hold_id'' = Some (JStr (uuid_str (hold_id h)))"
    "holds d' = upd_row hold_id (hold_id h) (\<lambda>x. x\<lparr>hold_status := CAPTURED, hold_resolved := Some now\<rparr>) (holds d)"
proof -
  let ?w = "hold_wallet h" and ?i = "hold_id h"
  let ?d1 = "snd (expire_due_lots ?w now d)"
  note wf = inv_wf[OF inv]
  note w = hold_wallet_known[OF wf h(1)]
  have s1: "spends d ?d1" by (rule expire_spends[OF wf w])
  have h1: "h \<in> set (holds ?d1)" using s1 h(1) by (simp add: spends_def)
  have fit1: "actual - hold_credits h \<le> live_balance ?d1 ?w now" using fit expire_live[OF wf w] by simp
  obtain d2 where eq: "adjust_to h ?w actual now ?d1 = Inr d2" and wf2: "wf_db d2" and hs2: "holds d2 = holds ?d1"
    and db2: "debts d2 = debts ?d1" and wal2: "map wallet_static (wallets d2) = map wallet_static (wallets ?d1)"
    and al2: "\<And>j. alloc_total d2 j = (if j = ?i then actual else alloc_total ?d1 j)"
    and lt2: "\<And>v. lot_total d2 v - ledger_total d2 v =
       lot_total ?d1 v - ledger_total ?d1 v + (if v = ?w then hold_credits h - actual else 0)"
    and lv2: "\<And>v. live_balance d2 v now = live_balance ?d1 v now + (if v = ?w then capture_delta ?d1 now h actual else 0)"
    by (rule adjust_facts[OF inv_expire[OF inv w] h1 h(2) a0 fit1]) blast
  define d3 where "d3 = snd (sync_balance ?w now d2)"
  have s3: "spends d2 d3" unfolding d3_def by (rule spends_sync[OF wf2])
  note wf3 = spends_wf[OF wf2 s3]
  define charged where "charged = billed_lots d3 ?i"
  define meta where "meta = capture_meta h m (consumption_metadata charged)"
  define c where "c = create_txn ?w (single_lot charged) (hold_type h) None (- actual) (live_balance d2 ?w now)
      (or_desc desc (hold_desc h)) meta [] now d3"
  let ?t = "fst c" and ?d4 = "snd c"
  have w2: "?w \<in> wallet_ids d2" using w spends_wallet_ids[OF s1] static_wallets(1)[OF wal2] by (metis wallet_ids_cong)
  have w3: "?w \<in> wallet_ids d3" using w2 spends_wallet_ids[OF s3] by simp
  have s4: "spends d3 ?d4" unfolding c_def by (rule spends_create_txn[OF wf3 w3])
  note wf4 = spends_wf[OF wf3 s4]
  have hs4: "holds ?d4 = holds d" using s1 hs2 s3 s4 by (simp add: spends_def)
  have al4: "alloc_total ?d4 j = (if j = ?i then actual else alloc_total d j)" for j
    using al2[of j] totals_cong(3)[of ?d4 d2 j] totals_cong(3)[of ?d1 d j] s1 s3 s4 by (simp add: spends_def)
  have h4: "h \<in> set (holds ?d4)" using h(1) hs4 by simp
  have but: "holds_ok_but ?i ?d4" using inv al4 hs4 by (simp add: inv_def holds_ok_def holds_ok_but_def)
  note f = settle_holds_facts[OF wf4 h4 h(2) _ but, of CAPTURED now, simplified]
  define d5 where "d5 = settle ?i CAPTURED now ?d4"
  have body: "capture_held h ?w actual desc m now d = Inr (?t, d5)"
  proof -
    have "sync_balance ?w now d2 = (live_balance d2 ?w now, d3)" unfolding d3_def by (rule sync_result)
    then show ?thesis
      unfolding capture_held_def eq Let_def sum.case by (simp add: d5_def c_def meta_def charged_def split_beta)
  qed
  have t: "txn_wallet ?t = ?w" "txn_delta ?t = - actual" "txn_type ?t = hold_type h"
    "txn_balance ?t = live_balance d2 ?w now" "txn_meta ?t = meta" by (simp_all add: c_def)
  have tx: "txns d5 = txns d3 @ [?t]" "lots d5 = lots d2" "debts d5 = debts d2" "wallets d5 = wallets d3"
    by (simp_all add: d5_def settle_frame c_def create_txn_frame) (simp_all add: d3_def sync_balance_frame)
  note cr = held_allocated[OF inv h]
  have res: "reserved d5 v = reserved d v - (if v = ?w then hold_credits h else 0)" for v
    using f(3)[of v] reserved_allocs[OF holds_distinct[OF wf] h(1) hs4, of v] al4 cr(1) h(2)
    by (auto simp: held_in_def d5_def)
  have bal: "balanced d5 v" for v
  proof -
    have "ledger_total d5 v = ledger_total d2 v - (if v = ?w then actual else 0)"
      using t(1,2) totals_cong(2)[of d3 d2 v] unfolding ledger_total_def tx(1)
      by (simp add: d3_def sync_balance_frame)
    then have "lot_total d5 v - ledger_total d5 v = lot_total d v - ledger_total d v + (if v = ?w then hold_credits h else 0)"
      using lt2[of v] expire_totals[OF wf_lots_ok[OF wf], of ?w now v] totals_cong(1)[OF tx(2), of v]
      by (cases "v = ?w") simp_all
    moreover have "balanced d v" using inv by (simp add: inv_def)
    ultimately show ?thesis using res[of v] by (simp add: balanced_def split: if_splits)
  qed
  have inv5: "inv d5" using f(1,2) bal unfolding inv_def d5_def by blast
  have sy: "synced d5 ?w now"
    using synced_sync[OF w2, of now] synced_cong[of d5 d3 ?w now] live_balance_cong[OF tx(2), of ?w now]
    by (simp add: tx(4) d3_def sync_totals)
  have wal: "map wallet_static (wallets d5) = map wallet_static (wallets d)"
    using s1 wal2 s3 by (simp add: tx(4) spends_def)
  have live5: "live_balance d5 v now = live_balance d v now + (if v = ?w then capture_delta d now h actual else 0)" for v
    using lv2[of v] expire_live[OF wf w, of now v] live_balance_cong[OF tx(2), of v now] capture_delta_spends[OF wf s1]
    by simp
  have acc: "account_of d5 v now = (if v = ?w
       then account_of d v now\<lparr>ac_live := live_balance d v now + capture_delta d now h actual,
                               ac_held := reserved d v - hold_credits h\<rparr>
       else account_of d v now)" for v
    using live5[of v] res[of v] outstanding_cong[of d5 d v] by (simp add: account_of_def tx(3) db2 expire_debts)
  have hs5: "holds d5 = upd_row hold_id ?i (\<lambda>x. x\<lparr>hold_status := CAPTURED, hold_resolved := Some now\<rparr>) (holds d)"
    by (simp add: d5_def settle_def upd_hold_def hs4)
  have meta: "dget meta ''hold_id'' = Some (JStr (uuid_str ?i))" by (simp add: meta_def capture_meta_def)
  show ?thesis
    by (rule that[OF body inv5 sy wal acc])
      (use tx t hs5 meta live_balance_cong[OF tx(2), of ?w now] in simp_all)
qed

subsection \<open>The public calls on holds\<close>

lemma meter_only_capture_facts:
  assumes inv: "inv d" and h: "h \<in> set (holds d)" "hold_status h = HELD" "was_waived (hold_meta h)"
    and eq: "meter_only_capture h (hold_wallet h) actual desc m now d = (t, d')"
  shows "inv d'" "lots d' = lots d" "debts d' = debts d" "\<exists>ts. txns d' = ts @ [t]" "txn_delta t = 0" "txn_wallet t = hold_wallet h"
    "dget (txn_meta t) ''hold_id'' = Some (JStr (uuid_str (hold_id h)))" "synced d' (hold_wallet h) now"
    "map wallet_static (wallets d') = map wallet_static (wallets d)" "account_of d' v now = account_of d v now"
    "holds d' = upd_row hold_id (hold_id h) (\<lambda>x. x\<lparr>hold_status := CAPTURED, hold_resolved := Some now\<rparr>) (holds d)"
proof -
  let ?w = "hold_wallet h" and ?i = "hold_id h"
  define d1 where "d1 = snd (sync_balance ?w now d)"
  define meta where "meta = mark (capture_meta h m (JArr [])) actual"
  define c where "c = create_txn ?w None (hold_type h) None 0 (live_balance d ?w now) (or_desc desc (hold_desc h)) meta [] now d1"
  note wf = inv_wf[OF inv]
  note w = hold_wallet_known[OF wf h(1)]
  have s1: "spends d d1" unfolding d1_def by (rule spends_sync[OF wf])
  have w1: "?w \<in> wallet_ids d1" using w spends_wallet_ids[OF s1] by simp
  have s2: "spends d1 (snd c)" unfolding c_def by (rule spends_create_txn[OF spends_wf[OF wf s1] w1])
  note s = spends_trans[OF s1 s2]
  have t: "t = fst c" and d': "d' = settle ?i CAPTURED now (snd c)"
    using eq sync_result[of ?w now d] by (auto simp: meter_only_capture_def Let_def split_beta c_def meta_def d1_def)
  have hs: "holds (snd c) = holds d" using s by (simp add: spends_def)
  have al: "alloc_total (snd c) j = alloc_total d j" for j by (rule totals_cong) (use s in \<open>simp add: spends_def\<close>)
  have but: "holds_ok_but ?i (snd c)" using inv al hs by (simp add: inv_def holds_ok_def holds_ok_but_def)
  have h2: "h \<in> set (holds (snd c))" using h(1) hs by simp
  note f = settle_holds_facts[OF spends_wf[OF wf s] h2 h(2) _ but, of CAPTURED now, simplified]
  have z: "alloc_total (snd c) ?i = 0" using held_allocated[OF inv h(1,2)] h(3) al by simp
  show lots: "lots d' = lots d" and debts: "debts d' = debts d"
    by (simp_all add: d' settle_frame c_def create_txn_frame d1_def sync_balance_frame)
  have tx: "txns d' = txns d @ [t]"
    by (simp add: d' t settle_frame c_def create_txn_frame d1_def sync_balance_frame)
  then show "\<exists>ts. txns d' = ts @ [t]" by blast
  show t0: "txn_delta t = 0" "txn_wallet t = ?w" by (simp_all add: t c_def)
  show "dget (txn_meta t) ''hold_id'' = Some (JStr (uuid_str ?i))"
    by (simp add: t c_def meta_def mark_def capture_meta_def MARKER_def WAIVED_def)
  have res: "reserved d' v = reserved d v" for v
    using f(3)[of v] z spends_reserved[OF s, of v] by (simp add: d')
  have "ledger_total d' v = ledger_total d v" for v using t0 by (simp add: ledger_total_def tx)
  then have "balanced d' v" for v
    using inv res[of v] totals_cong(1)[OF lots, of v] by (simp add: inv_def balanced_def)
  then show "inv d'" using f(1,2) unfolding inv_def d' by blast
  have wal: "wallets d' = wallets d1" by (simp add: d' settle_frame c_def create_txn_frame)
  show "synced d' ?w now"
    using synced_sync[OF w, of now] synced_cong[OF wal] live_balance_cong[OF lots, of ?w now]
    by (simp add: d1_def sync_totals)
  show "map wallet_static (wallets d') = map wallet_static (wallets d)" using s1 by (simp add: wal spends_def)
  show "account_of d' v now = account_of d v now"
    using res[of v] live_balance_cong[OF lots] outstanding_cong[OF debts] by (simp add: account_of_def)
  show "holds d' = upd_row hold_id ?i (\<lambda>x. x\<lparr>hold_status := CAPTURED, hold_resolved := Some now\<rparr>) (holds d)"
    by (simp add: d' settle_def upd_hold_def hs)
qed

lemma load_hold:
  assumes "load_hold_for_update i d = Inr (h, w)"
  shows "h \<in> set (holds d)" "hold_id h = i" "w = hold_wallet h"
  using assms by (auto simp: load_hold_for_update_def get_row_Some split: option.splits)

text \<open>\<open>capture\<close> of an open hold is one of the two bodies; of a captured one, the old charge.\<close>

lemma capture_cases:
  assumes "capture now i ac desc m d = Inr (t, d')"
  obtains (replayed) h where "h \<in> set (holds d)" "hold_id h = i" "hold_status h = CAPTURED" "captured_charge d h = Some t" "d' = d"
  | (metered) h actual where "h \<in> set (holds d)" "hold_id h = i" "hold_status h = HELD" "was_waived (hold_meta h)"
      "0 \<le> actual" "meter_only_capture h (hold_wallet h) actual desc m now d = (t, d')"
      "actual = (case ac of None \<Rightarrow> hold_credits h | Some n \<Rightarrow> n)"
  | (billed) h actual where "h \<in> set (holds d)" "hold_id h = i" "hold_status h = HELD" "\<not> was_waived (hold_meta h)"
      "0 \<le> actual" "capture_held h (hold_wallet h) actual desc m now d = Inr (t, d')"
      "actual = (case ac of None \<Rightarrow> hold_credits h | Some n \<Rightarrow> n)"
proof -
  from assms obtain h w where l: "load_hold_for_update i d = Inr (h, w)"
    by (auto simp: capture_def split: sum.splits)
  note f = load_hold[OF l]
  let ?a = "case ac of None \<Rightarrow> hold_credits h | Some n \<Rightarrow> n"
  show ?thesis
  proof (cases "hold_status h = CAPTURED")
    case True
    with assms l f show ?thesis by (intro replayed[of h]) (auto simp: capture_def split: option.splits)
  next
    case False
    with assms l f have held: "hold_status h = HELD" "0 \<le> ?a"
      by (auto simp: capture_def Let_def split: if_splits)
    show ?thesis
    proof (cases "was_waived (hold_meta h)")
      case True
      with assms l f held False show ?thesis by (intro metered[of h ?a]) (auto simp: capture_def Let_def)
    next
      case False
      with assms l f held show ?thesis by (intro billed[of h ?a]) (auto simp: capture_def Let_def)
    qed
  qed
qed

lemma capture_held_fits:
  assumes "inv d" and "h \<in> set (holds d)" and "capture_held h (hold_wallet h) actual desc m now d = Inr (t, d')"
  shows "actual - hold_credits h \<le> live_balance d (hold_wallet h) now"
proof (rule ccontr)
  assume "\<not> actual - hold_credits h \<le> live_balance d (hold_wallet h) now"
  moreover from this have "hold_credits h < actual" using live_balance_nonneg[of d "hold_wallet h" now] by linarith
  ultimately show False using capture_held_refused[OF assms(1,2)] assms(3) by (metis Inl_Inr_False not_le)
qed

lemma capture_inv:
  assumes "inv d" and "capture now i ac desc m d = Inr (t, d')"
  shows "inv d'"
  using assms(2)
proof (cases rule: capture_cases)
  case (replayed h)
  with assms(1) show ?thesis by simp
next
  case (metered h actual)
  with meter_only_capture_facts(1)[OF assms(1)] show ?thesis by blast
next
  case (billed h actual)
  from capture_held_done[OF assms(1) billed(1,3,5) capture_held_fits[OF assms(1) billed(1,6)]] billed(6)
  show ?thesis by (metis Pair_inject sum.inject(2))
qed

lemma release_cases:
  assumes "release now i ex d = Inr (h', d')"
  obtains (idle) h where "h \<in> set (holds d)" "hold_id h = i" "hold_status h \<noteq> HELD" "h' = h" "d' = d"
  | (full) h where "h \<in> set (holds d)" "hold_id h = i" "hold_status h = HELD" "d' = release_held h (hold_wallet h) ex now d"
      "h' = h\<lparr>hold_status := (if ex then EXPIRED else RELEASED), hold_resolved := Some now\<rparr>"
proof -
  from assms obtain h w where l: "load_hold_for_update i d = Inr (h, w)"
    by (auto simp: release_def split: sum.splits)
  note f = load_hold[OF l]
  show ?thesis
  proof (cases "hold_status h = HELD")
    case True
    with assms l f show ?thesis by (intro full[of h]) (auto simp: release_def)
  next
    case False
    with assms l f show ?thesis by (intro idle[of h]) (auto simp: release_def)
  qed
qed

lemma release_inv:
  assumes "inv d" and "release now i ex d = Inr (h, d')"
  shows "inv d'"
  using assms(2) by (cases rule: release_cases) (use assms(1) release_held_facts(1) in blast)+

lemma existing_hold_row:
  "existing_hold d w key = Some h \<Longrightarrow> h \<in> set (holds d) \<and> hold_wallet h = w \<and> hold_key h = key"
  unfolding existing_hold_def find_Some_iff by (auto simp: rev_nth)

text \<open>\<open>hold\<close> either answers the open hold of its key or runs its body.\<close>

lemma hold_cases:
  assumes "hold cf now r d = Inr (h, d')" and "lock_wallet (u_id (ho_user r)) d = (w, d0)"
  obtains (short) "existing_hold d0 w (ho_key r) = Some h" "hold_status h = HELD" "d' = d0"
  | (new) existing where "existing = existing_hold d0 w (ho_key r)" "hold_new cf now r w existing d0 = Inr (h, d')"
      "\<forall>x. existing = Some x \<longrightarrow> x \<in> set (holds d0) \<and> hold_wallet x = w \<and> hold_key x = ho_key r \<and> hold_status x \<noteq> HELD"
      "0 < ho_credits r"
proof (cases "existing_hold d0 w (ho_key r)")
  case None
  with assms show ?thesis by (intro new[of None]) (auto simp: hold_def split: if_splits)
next
  case (Some x)
  show ?thesis
  proof (cases "hold_status x = HELD")
    case True
    with Some assms show ?thesis by (intro short) (auto simp: hold_def split: if_splits)
  next
    case False
    with Some assms existing_hold_row[OF Some] show ?thesis
      by (intro new[of "Some x"]) (auto simp: hold_def split: if_splits)
  qed
qed

lemma hold_new_fits:
  assumes "inv d" and "w \<in> wallet_ids d" and "0 < ho_credits r" and "hold_new cf now r w existing d = Inr (h, d')"
  shows "(if meter_only cf (Some (ho_user r)) then 0 else ho_credits r) \<le> live_balance d w now"
proof (cases "meter_only cf (Some (ho_user r))")
  case True
  then show ?thesis by (simp add: live_balance_nonneg)
next
  case False
  let ?d1 = "snd (expire_due_lots w now d)"
  from False assms(3,4) obtain taken d2 where "consume_lots w (ho_credits r) now ?d1 = Inr (taken, d2)"
    by (auto simp: hold_new_def Let_def split: sum.splits)
  with consume_lots_amount(2)[of "ho_credits r" w now ?d1] assms(3) False
    expire_live[OF inv_wf[OF assms(1)] assms(2), of now w] show ?thesis by simp
qed

lemma hold_inv:
  assumes "inv d" and "hold cf now r d = Inr (h, d')" and "\<not> was_waived (ho_meta r)"
  shows "inv d'"
proof -
  obtain w d0 where lk: "lock_wallet (u_id (ho_user r)) d = (w, d0)" by (metis surj_pair)
  note f = lock_wallet_facts[OF assms(1) lk]
  from assms(2) lk show ?thesis
  proof (cases rule: hold_cases)
    case short
    with f show ?thesis by simp
  next
    case (new existing)
    from hold_new_done[OF f(1,2) new(4,3) refl hold_new_fits[OF f(1,2) new(4,2)] assms(3)] new(2)
    show ?thesis by (metis Pair_inject sum.inject(2))
  qed
qed

end
