(* ===== verification/Hold_Life.thy ===== *)
theory Hold_Life
  imports Holds
begin

section \<open>The life of a hold and the sweeps\<close>

text \<open>
  The state machine of a hold's status and the proof that every operation on holds moves it
  only along its transitions; then the two workers of tasks.py, which sweep the due lots and
  the abandoned holds of the whole database, one locked wallet at a time.
\<close>

subsection \<open>The life of a hold\<close>

text \<open>
  The transitions the status column may take. \<open>CAPTURED\<close> is final; a released or expired
  hold can be held again (the next call with its key re-arms the row).
\<close>

inductive hold_move :: "hold_status \<Rightarrow> hold_status \<Rightarrow> bool" where
  bill: "hold_move HELD CAPTURED"
| give_back: "hold_move HELD RELEASED"
| time_out: "hold_move HELD EXPIRED"
| re_arm: "s = RELEASED \<or> s = EXPIRED \<Longrightarrow> hold_move s HELD"

inductive_simps hold_move_simps [simp]:
  "hold_move CAPTURED s" "hold_move HELD s" "hold_move RELEASED s" "hold_move EXPIRED s"

definition hold_status_of :: "db \<Rightarrow> uuid \<Rightarrow> hold_status option" where
  "hold_status_of d i = map_option hold_status (get_row hold_id i (holds d))"

text \<open>What one operation may do to the holds of the database: each keeps its status or makes one move.\<close>

definition holds_move :: "db \<Rightarrow> db \<Rightarrow> bool" where
  "holds_move d d' = (\<forall>i s. hold_status_of d i = Some s \<longrightarrow>
     (\<exists>s'. hold_status_of d' i = Some s' \<and> (s' = s \<or> hold_move s s')))"

lemma get_row_upd:
  assumes "\<And>r. rid (f r) = rid r"
  shows "get_row rid i (upd_row rid j f rows) = map_option (\<lambda>r. if rid r = j then f r else r) (get_row rid i rows)"
  using assms by (induction rows) (auto simp: get_row_def)

lemma get_row_append: "get_row rid i (xs @ ys) = (case get_row rid i xs of None \<Rightarrow> get_row rid i ys | Some r \<Rightarrow> Some r)"
  by (induction xs) (auto simp: get_row_def)

lemma holds_move_refl: "holds d' = holds d \<Longrightarrow> holds_move d d'"
  by (auto simp: holds_move_def hold_status_of_def)

lemma holds_move_append: "holds d' = holds d @ hs \<Longrightarrow> holds_move d d'"
  by (auto simp: holds_move_def hold_status_of_def get_row_append)

lemma holds_move_upd:
  assumes "wf_db d" and "h \<in> set (holds d)" and "holds d' = upd_row hold_id (hold_id h) f (holds d)"
    and "\<And>x. hold_id (f x) = hold_id x" and "\<And>x. hold_status (f x) = s" and "hold_move (hold_status h) s"
  shows "holds_move d d'"
proof -
  have g: "get_row hold_id i (upd_row hold_id (hold_id h) f (holds d)) =
      map_option (\<lambda>r. if hold_id r = hold_id h then f r else r) (get_row hold_id i (holds d))" for i
    by (rule get_row_upd) (rule assms(4))
  show ?thesis
    unfolding holds_move_def hold_status_of_def assms(3) g
  proof (intro allI impI)
  fix i s0 assume "map_option hold_status (get_row hold_id i (holds d)) = Some s0"
  then obtain x where x: "get_row hold_id i (holds d) = Some x" "hold_status x = s0" by auto
  have "x = h" if "hold_id x = hold_id h"
    using get_row_Some[OF x(1)] same_hold[OF assms(1) _ assms(2) that] by blast
  with x assms(5,6) show "\<exists>s'. map_option hold_status (map_option (\<lambda>r. if hold_id r = hold_id h then f r else r)
      (get_row hold_id i (holds d))) = Some s' \<and> (s' = s0 \<or> hold_move s0 s')" by auto
  qed
qed

lemma capture_moves:
  assumes "inv d" and "capture now i ac desc m d = Inr (t, d')"
  shows "holds_move d d'"
  using assms(2)
proof (cases rule: capture_cases)
  case (replayed h)
  then show ?thesis by (simp add: holds_move_refl)
next
  case (metered h actual)
  show ?thesis
    by (rule holds_move_upd[OF inv_wf[OF assms(1)] metered(1) meter_only_capture_facts(11)[OF assms(1) metered(1,3,4,6)],
          where s = CAPTURED]) (simp_all add: metered(3))
next
  case (billed h actual)
  have "holds d' = upd_row hold_id (hold_id h) (\<lambda>x. x\<lparr>hold_status := CAPTURED, hold_resolved := Some now\<rparr>) (holds d)"
    using capture_held_done[OF assms(1) billed(1,3,5) capture_held_fits[OF assms(1) billed(1,6)]] billed(6)
    by (metis Pair_inject sum.inject(2))
  from holds_move_upd[OF inv_wf[OF assms(1)] billed(1) this, of CAPTURED] show ?thesis by (simp add: billed(3))
qed

lemma release_moves:
  assumes "inv d" and "release now i ex d = Inr (h, d')"
  shows "holds_move d d'"
  using assms(2)
proof (cases rule: release_cases)
  case (idle x)
  then show ?thesis by (simp add: holds_move_refl)
next
  case (full x)
  show ?thesis
    by (rule holds_move_upd[OF inv_wf[OF assms(1)] full(1) release_held_facts(5)[OF assms(1) full(1,3,4)],
          where s = "if ex then EXPIRED else RELEASED"]) (simp_all add: full(3))
qed

lemma hold_new_holds:
  assumes "inv d" and "w \<in> wallet_ids d" and "hold_new cf now r w existing d = Inr (h, d')"
  shows "holds d' = (case existing of None \<Rightarrow> holds d @ [h]
    | Some x \<Rightarrow> upd_row hold_id (hold_id x) (rearm r (hold_credits h) (hold_meta h) (hold_expires h)) (holds d))"
proof -
  let ?d1 = "snd (expire_due_lots w now d)"
  have "holds ?d1 = holds d" using expire_spends[OF inv_wf[OF assms(1)] assms(2), of now] by (simp add: spends_def)
  moreover from assms(3) obtain n taken d2 m e d3 where
    c: "(if n = 0 then Inr ([], ?d1) else consume_lots w n now ?d1) = Inr (taken, d2)"
    and p: "place_hold r w existing n m e d2 = (h, d3)"
    and d': "d' = snd (sync_balance w now (allocate (hold_id h) taken d3))"
    unfolding hold_new_def Let_def by (auto split: sum.splits prod.splits)
  moreover from c have "holds d2 = holds ?d1" by (auto simp: consume_lots_frame split: if_splits)
  ultimately show ?thesis
    by (cases existing)
      (auto simp: place_hold_def Let_def held_row_def rearm_def create_hold_def upd_hold_def delete_allocs_def
        sync_balance_frame allocate_frame)
qed

lemma hold_moves:
  assumes "inv d" and "hold cf now r d = Inr (h, d')"
  shows "holds_move d d'"
proof -
  obtain w d0 where lk: "lock_wallet (u_id (ho_user r)) d = (w, d0)" by (metis surj_pair)
  note f = lock_wallet_facts[OF assms(1) lk]
  have "holds_move d0 d'"
    using assms(2) lk
  proof (cases rule: hold_cases)
    case short
    then show ?thesis by (simp add: holds_move_refl)
  next
    case (new existing)
    note hs = hold_new_holds[OF f(1,2) new(2)]
    show ?thesis
    proof (cases existing)
      case None
      with hs show ?thesis by (simp add: holds_move_append)
    next
      case (Some x)
      with new(3) have x: "x \<in> set (holds d0)" "hold_status x \<noteq> HELD" by simp_all
      have "existing_hold d0 w (ho_key r) = Some x" using new(1) Some by simp
      then have "hold_status x \<noteq> CAPTURED"
        using assms(2) lk by (auto simp: hold_def split: if_splits)
      with x(2) have "hold_move (hold_status x) HELD" by (cases "hold_status x") auto
      moreover from hs Some have hs': "holds d' = upd_row hold_id (hold_id x)
          (rearm r (hold_credits h) (hold_meta h) (hold_expires h)) (holds d0)" by simp
      ultimately show ?thesis
        by (intro holds_move_upd[OF inv_wf[OF f(1)] x(1) hs', of HELD]) (simp_all add: rearm_def)
    qed
  qed
  then show ?thesis using f(5) by (simp add: holds_move_def hold_status_of_def)
qed

subsection \<open>The sweeps\<close>

lemma release_ok:
  assumes "i \<in> hold_id ` set (holds d)"
  shows "\<exists>h d'. release now i ex d = Inr (h, d')"
proof -
  obtain h where "get_row hold_id i (holds d) = Some h"
    using assms by (cases "get_row hold_id i (holds d)") (auto simp: get_row_None)
  then show ?thesis by (simp add: release_def load_hold_for_update_def)
qed

lemma release_hold_ids:
  assumes "inv d" and "release now i ex d = Inr (h, d')"
  shows "map hold_id (holds d') = map hold_id (holds d)"
  using assms(2)
proof (cases rule: release_cases)
  case (full x)
  from release_held_facts(5)[OF assms(1) full(1,3,4)] show ?thesis by (simp add: map_upd_row)
qed simp

text \<open>A release ends the hold it is given and touches the status of no other.\<close>

lemma release_status:
  assumes "inv d" and "release now i ex d = Inr (h, d')"
  shows "hold_status_of d' i \<noteq> Some HELD" "j \<noteq> i \<Longrightarrow> get_row hold_id j (holds d') = get_row hold_id j (holds d)"
proof -
  have "hold_status_of d' i \<noteq> Some HELD \<and> (j \<noteq> i \<longrightarrow> get_row hold_id j (holds d') = get_row hold_id j (holds d))"
    using assms(2)
  proof (cases rule: release_cases)
    case (idle x)
    with get_row_distinct[OF holds_distinct[OF inv_wf[OF assms(1)]] idle(1)] show ?thesis
      by (simp add: hold_status_of_def)
  next
    case (full x)
    let ?f = "\<lambda>x. x\<lparr>hold_status := (if ex then EXPIRED else RELEASED), hold_resolved := Some now\<rparr>"
    have hs: "holds d' = upd_row hold_id (hold_id x) ?f (holds d)"
      by (rule release_held_facts(5)[OF assms(1) full(1,3,4)])
    have g: "get_row hold_id k (upd_row hold_id (hold_id x) ?f (holds d)) =
        map_option (\<lambda>r. if hold_id r = hold_id x then ?f r else r) (get_row hold_id k (holds d))" for k
      by (rule get_row_upd) simp
    have "get_row hold_id i (holds d) = Some x"
      using get_row_distinct[OF holds_distinct[OF inv_wf[OF assms(1)]] full(1)] full(2) by simp
    moreover have "map_option (\<lambda>r. if hold_id r = hold_id x then ?f r else r) (get_row hold_id j (holds d)) =
        get_row hold_id j (holds d)" if "j \<noteq> i"
      using that full(2) by (cases "get_row hold_id j (holds d)") (auto dest: get_row_Some)
    ultimately show ?thesis using full(2) unfolding hold_status_of_def hs g by simp
  qed
  then show "hold_status_of d' i \<noteq> Some HELD" "j \<noteq> i \<Longrightarrow> get_row hold_id j (holds d') = get_row hold_id j (holds d)"
    by blast+
qed

lemma release_all_facts:
  assumes "inv d" and "\<forall>i \<in> set is. i \<in> hold_id ` set (holds d)"
  shows "\<exists>d'. release_all now is d = Inr d' \<and> inv d' \<and> map hold_id (holds d') = map hold_id (holds d) \<and>
    (\<forall>i \<in> set is. hold_status_of d' i \<noteq> Some HELD) \<and>
    (\<forall>j. j \<notin> set is \<longrightarrow> get_row hold_id j (holds d') = get_row hold_id j (holds d))"
  using assms
proof (induction "is" arbitrary: d)
  case Nil
  then show ?case by simp
next
  case (Cons i "is")
  from release_ok[of i d now True] Cons.prems(2) obtain h d1 where r: "release now i True d = Inr (h, d1)" by auto
  note i1 = release_inv[OF Cons.prems(1) r] and ids = release_hold_ids[OF Cons.prems(1) r]
  have "hold_id ` set (holds d1) = hold_id ` set (holds d)" using ids by (metis list.set_map)
  with Cons.IH[OF i1] Cons.prems(2) obtain d' where d': "release_all now is d1 = Inr d'" "inv d'"
    "map hold_id (holds d') = map hold_id (holds d1)" "\<forall>i \<in> set is. hold_status_of d' i \<noteq> Some HELD"
    "\<forall>j. j \<notin> set is \<longrightarrow> get_row hold_id j (holds d') = get_row hold_id j (holds d1)" by auto
  have "hold_status_of d' i \<noteq> Some HELD"
    using d'(4,5) release_status(1)[OF Cons.prems(1) r] by (cases "i \<in> set is") (simp_all add: hold_status_of_def)
  moreover have "get_row hold_id j (holds d') = get_row hold_id j (holds d)" if "j \<notin> set (i # is)" for j
    using that d'(5) release_status(2)[OF Cons.prems(1) r] by simp
  ultimately show ?case using d' r ids by auto
qed

lemma expire_holds_facts:
  assumes "inv d"
  shows "\<exists>d'. expire_holds now d = Inr (length (stale_holds now d), d') \<and> inv d' \<and> stale_holds now d' = []"
proof -
  have mem: "\<forall>i \<in> set (stale_holds now d). i \<in> hold_id ` set (holds d)" by (auto simp: stale_holds_def)
  from release_all_facts[OF assms mem, of now] obtain d' where d': "release_all now (stale_holds now d) d = Inr d'"
    "inv d'" "map hold_id (holds d') = map hold_id (holds d)"
    "\<forall>i \<in> set (stale_holds now d). hold_status_of d' i \<noteq> Some HELD"
    "\<forall>j. j \<notin> set (stale_holds now d) \<longrightarrow> get_row hold_id j (holds d') = get_row hold_id j (holds d)" by blast
  have False if h: "h \<in> set (holds d')" "hold_status h = HELD" "hold_expires h \<le> At now" for h
  proof -
    have g: "get_row hold_id (hold_id h) (holds d') = Some h"
      by (rule get_row_distinct[OF holds_distinct[OF inv_wf[OF d'(2)]] h(1)])
    then have "hold_id h \<notin> set (stale_holds now d)" using d'(4) h(2) by (auto simp: hold_status_of_def)
    with d'(5) g have "get_row hold_id (hold_id h) (holds d) = Some h" by simp
    then have "h \<in> set (holds d)" by (simp add: get_row_Some)
    with h(2,3) have "hold_id h \<in> set (stale_holds now d)" by (simp add: stale_holds_def)
    with \<open>hold_id h \<notin> set (stale_holds now d)\<close> show False by simp
  qed
  then have "stale_holds now d' = []" by (auto simp: stale_holds_def filter_empty_conv)
  with d' show ?thesis by (simp add: expire_holds_def Let_def)
qed

text \<open>The lot sweep over every wallet with something due.\<close>

lemma sweep_wallet_inv: "inv (snd p) \<Longrightarrow> inv (snd (sweep_wallet now w p))"
  using inv_expire[of "snd p" w now]
  by (auto simp: sweep_wallet_def wallet_ids_def split: option.splits prod.splits dest!: get_row_Some)

lemma expire_credit_lots_inv:
  assumes "inv d"
  shows "inv (snd (expire_credit_lots now d))"
proof -
  have "inv (snd (fold (sweep_wallet now) ws p))" if "inv (snd p)" for ws p
    using that by (induction ws arbitrary: p) (simp_all add: sweep_wallet_inv)
  with assms show ?thesis by (simp add: expire_credit_lots_def)
qed

subsection \<open>A fresh hold draws on live lots only\<close>

lemma alive_part_full:
  assumes "\<And>a. a \<in> set (hold_allocs d i) \<Longrightarrow> At now < fst (source_of d a)"
  shows "alive_part d now i = alloc_total d i"
  unfolding alive_part_def alloc_total_hold_allocs
  using assms by (intro arg_cong[where f = sum_list] map_cong) auto

lemma allocate_allocs:
  assumes "a \<in> set (allocs (allocate i taken d))"
  shows "a \<in> set (allocs d) \<or> (alloc_hold a = i \<and> (\<exists>p \<in> set taken. alloc_lot a = lot_id (fst p)))"
  using assms
proof (induction taken arbitrary: d)
  case (Cons p taken)
  from Cons.IH[of "create_alloc i (lot_id (fst p)) (snd p) d"] Cons.prems show ?case
    by (auto simp: allocate_Cons create_alloc_def)
qed simp

lemma hold_new_alive:
  assumes inv: "inv d" and w: "w \<in> wallet_ids d" and eq: "hold_new cf now r w existing d = Inr (h, d')" and inv': "inv d'"
  shows "alive_part d' now (hold_id h) = alloc_total d' (hold_id h)"
proof (rule alive_part_full)
  fix a assume "a \<in> set (hold_allocs d' (hold_id h))"
  then have a: "a \<in> set (allocs d')" "alloc_hold a = hold_id h" by (simp_all add: hold_allocs_def)
  let ?d1 = "snd (expire_due_lots w now d)"
  have s1: "spends d ?d1" by (rule expire_spends[OF inv_wf[OF inv] w])
  from eq obtain n taken d2 m e d3 where
    c: "(if n = 0 then Inr ([], ?d1) else consume_lots w n now ?d1) = Inr (taken, d2)"
    and p: "place_hold r w existing n m e d2 = (h, d3)"
    and d': "d' = snd (sync_balance w now (allocate (hold_id h) taken d3))"
    unfolding hold_new_def Let_def by (auto split: sum.splits prod.splits)
  have s2: "spends ?d1 d2"
    using c spends_consume[OF spends_wf[OF inv_wf[OF inv] s1]] spends_refl[OF spends_wf[OF inv_wf[OF inv] s1]]
    by (auto split: if_splits)
  have lots': "lots d' = lots d2"
    using p by (auto simp: d' sync_balance_frame allocate_frame place_hold_def Let_def create_hold_def upd_hold_def
        delete_allocs_def split: option.splits)
  have old: "alloc_hold x \<noteq> hold_id h" if "x \<in> set (allocs d3)" for x
  proof (cases existing)
    case None
    then have i: "hold_id h = next_id d2" and al: "allocs d3 = allocs d2"
      using p by (auto simp: place_hold_def Let_def held_row_def create_hold_def)
    have wf2: "wf_db d2" using spends_wf[OF spends_wf[OF inv_wf[OF inv] s1] s2] .
    with that al have "\<exists>y \<in> set (holds d2). hold_id y = alloc_hold x"
      by (auto simp: wf_db_def alloc_rows_ok_def)
    moreover have "hold_id y < next_id d2" if "y \<in> set (holds d2)" for y
      using wf2 that by (simp add: wf_db_def hold_rows_ok_def)
    ultimately have "alloc_hold x < next_id d2" by metis
    with i show ?thesis by simp
  next
    case (Some y)
    with p that show ?thesis
      by (auto simp: place_hold_def rearm_def upd_hold_def delete_allocs_def)
  qed
  from a(1) have "a \<in> set (allocs (allocate (hold_id h) taken d3))" by (simp add: d' sync_balance_frame)
  from allocate_allocs[OF this] old a(2) obtain q where q: "q \<in> set taken" "alloc_lot a = lot_id (fst q)" by auto
  from q(1) c have cc: "consume_lots w n now ?d1 = Inr (taken, d2)" by (auto split: if_splits)
  note tk = consume_lots_taken[OF cc q(1)]
  from spends_lot[OF s2 tk(1)] obtain l where l: "l \<in> set (lots d2)" "lot_static l = lot_static (fst q)" by blast
  obtain l' where l': "l' \<in> set (lots d')" "lot_id l' = alloc_lot a" "source_of d' a = (lot_expires l', lot_grant l')"
    by (rule source_of_lot[OF inv_wf[OF inv'] a(1)])
  have "l' = l"
    using l l' q(2) static_fields_eq(1)[OF l(2)] lots_ok_distinct[OF wf_lots_ok[OF inv_wf[OF inv']]] lots'
    by (metis distinct_map inj_onD)
  with l'(3) static_fields_eq(4)[OF l(2)] tk(3) show "At now < fst (source_of d' a)" by (simp add: live_lot_def)
qed

end
