(* ===== verification/Clawback.thy ===== *)
theory Clawback
  imports Provider_Grants Hold_Life
begin

section \<open>Money back: clawback of a grant, and its reversal (services.py)\<close>

text \<open>
  A refund, a dispute or a credit note names a payment; the grants that recorded it are taken
  back out of their own lots. What is no longer there is split into what expired unspent
  (forgiven) and what was spent (owed). Provider payloads are dictionaries whose
  \<open>data.object\<close> is an object, as the provider documents its event envelope.
\<close>

text \<open>\<open>event["data"]["object"] or {}\<close>.\<close>

definition event_object :: "dict \<Rightarrow> dict" where
  "event_object event = dobj (dobj event ''data'') ''object''"

definition opt_json :: "string option \<Rightarrow> json" where
  "opt_json s = (case s of None \<Rightarrow> JNull | Some t \<Rightarrow> JStr t)"

definition get_json :: "dict \<Rightarrow> string \<Rightarrow> json" where
  "get_json d k = (case dget d k of None \<Rightarrow> JNull | Some v \<Rightarrow> v)"

text \<open>\<open>int(value or 0)\<close>: \<open>None\<close> is the raise.\<close>

fun int_or_zero :: "json option \<Rightarrow> int option" where
  "int_or_zero None = Some 0"
| "int_or_zero (Some JNull) = Some 0"
| "int_or_zero (Some (JBool b)) = Some (if b then 1 else 0)"
| "int_or_zero (Some (JInt n)) = Some n"
| "int_or_zero (Some (JStr s)) = (if s = [] then Some 0 else py_int s)"
| "int_or_zero (Some (JTime t)) = None"
| "int_or_zero (Some (JArr xs)) = (if xs = [] then Some 0 else None)"
| "int_or_zero (Some (JObj d)) = (if d = [] then Some 0 else None)"

text \<open>\<open>round(num / den)\<close> for a positive denominator: ties go to the even neighbour.\<close>

definition round_half_even :: "int \<Rightarrow> int \<Rightarrow> int" where
  "round_half_even num den =
     (let q = num div den; r = num mod den
      in if 2 * r < den then q else if den < 2 * r then q + 1 else if even q then q else q + 1)"

subsection \<open>Which grants, and how much of them\<close>

definition clawback_lookups :: "dict \<Rightarrow> (string \<times> string) list" where
  "clawback_lookups obj =
     concat (map (\<lambda>(key, field). case dstr obj key of Some v \<Rightarrow> if v = [] then [] else [(field, v)] | None \<Rightarrow> [])
       [(''invoice'', ''stripe_invoice_id''), (''payment_intent'', ''stripe_payment_intent''),
        (''charge'', ''stripe_charge_id'')])"

definition grant_transactions :: "dict \<Rightarrow> db \<Rightarrow> txn list" where
  "grant_transactions obj d =
     (let ls = clawback_lookups obj
      in if ls = [] then []
         else filter (\<lambda>t. 0 < txn_delta t \<and> (\<exists>(f, v) \<in> set ls. dget (txn_meta t) f = Some (JStr v))) (txns d))"

definition clawback_credits :: "dict \<Rightarrow> txn \<Rightarrow> int" where
  "clawback_credits obj t =
     (let granted = txn_delta t
      in case (dint obj ''amount_refunded'', dint obj ''amount'') of
           (Some refunded, Some whole) \<Rightarrow>
             if 0 < whole \<and> 0 < refunded \<and> refunded < whole
             then max 1 (min granted (round_half_even (granted * refunded) whole)) else granted
         | _ \<Rightarrow> granted)"

subsection \<open>The clawback of one grant\<close>

record clawback_result =
  cl_txn :: txn
  cl_requested :: int
  cl_reclaimed :: int
  cl_forgiven :: int
  cl_outstanding :: int
  cl_debt :: "debt option"

fun claw_lots :: "int \<Rightarrow> lot list \<Rightarrow> (lot \<times> int) list" where
  "claw_lots outstanding [] = []"
| "claw_lots outstanding (l # ls) =
     (if outstanding \<le> 0 then []
      else let amount = min outstanding (lot_remaining l)
           in if amount \<le> 0 then claw_lots outstanding ls
              else (l, amount) # claw_lots (outstanding - amount) ls)"

definition granted_lots :: "db \<Rightarrow> uuid \<Rightarrow> lot list" where
  "granted_lots d t = filter (\<lambda>l. lot_grant l = Some t) (lots d)"

definition expired_of :: "db \<Rightarrow> lot list \<Rightarrow> int" where
  "expired_of d ls =
     (\<Sum>t\<leftarrow>filter (\<lambda>t. txn_type t = EXPIRATION \<and> (\<exists>l \<in> set ls. txn_lot t = Some (lot_id l))) (txns d). txn_delta t)"

definition clawback_meta :: "dict \<Rightarrow> txn \<Rightarrow> int \<Rightarrow> int \<Rightarrow> int \<Rightarrow> int \<Rightarrow> (lot \<times> int) list \<Rightarrow> dict" where
  "clawback_meta m t requested reclaimed forgiven outstanding taken =
     dmerge (clean_metadata m)
       [(''clawback_of'', JStr (uuid_str (txn_id t))), (''requested'', JInt requested),
        (''reclaimed'', JInt reclaimed), (''forgiven'', JInt forgiven), (''outstanding'', JInt outstanding),
        (''lots'', consumption_metadata taken)]"

definition claw_back_grant :: "time \<Rightarrow> txn \<Rightarrow> int option \<Rightarrow> string option \<Rightarrow> dict \<Rightarrow> db \<Rightarrow> clawback_result \<times> db" where
  "claw_back_grant now t credits desc m d =
     (let requested = (case credits of Some n \<Rightarrow> n | None \<Rightarrow> txn_delta t);
          w = txn_wallet t;
          d1 = snd (expire_due_lots w now d);
          ls = granted_lots d1 (txn_id t);
          taken = claw_lots requested ls;
          reclaimed = taken_sum taken;
          unmet = requested - reclaimed;
          d2 = fold take_from_lot taken d1;
          forgiven = (if 0 < unmet \<and> ls \<noteq> [] then min unmet (- expired_of d2 ls) else 0);
          outstanding = unmet - forgiven;
          (balance, d3) = sync_balance w now d2;
          text = or_text desc (''Clawback of '' @ txn_type_value (txn_type t));
          (row, d4) = create_txn w (single_lot taken) REFUND None (- reclaimed) balance text
            (clawback_meta m t requested reclaimed forgiven outstanding taken) [] now d3
      in if 0 < outstanding
         then let ((row', x), d5) = book_debt w outstanding CLAWBACK REFUND text [] row d4
              in (\<lparr>cl_txn = row', cl_requested = requested, cl_reclaimed = reclaimed, cl_forgiven = forgiven,
                   cl_outstanding = outstanding, cl_debt = Some x\<rparr>, d5)
         else (\<lparr>cl_txn = row, cl_requested = requested, cl_reclaimed = reclaimed, cl_forgiven = forgiven,
                cl_outstanding = outstanding, cl_debt = None\<rparr>, d4))"

text \<open>What earlier clawbacks of a grant asked for, net of reversals; rows that do not parse are skipped.\<close>

definition clawed_row :: "txn \<Rightarrow> txn \<Rightarrow> int" where
  "clawed_row t r =
     (if txn_type r = REFUND \<and> dget (txn_meta r) ''clawback_of'' = Some (JStr (uuid_str (txn_id t)))
      then (case (int_or_zero (dget (txn_meta r) ''requested''), int_or_zero (dget (txn_meta r) ''reversed'')) of
              (Some a, Some b) \<Rightarrow> a - b | _ \<Rightarrow> 0)
      else 0)"

definition already_clawed_back :: "db \<Rightarrow> txn \<Rightarrow> int" where
  "already_clawed_back d t = max (\<Sum>r\<leftarrow>txns d. clawed_row t r) 0"

definition claw_back_remaining :: "time \<Rightarrow> dict \<Rightarrow> string \<Rightarrow> string option \<Rightarrow> txn \<Rightarrow> db \<Rightarrow> db" where
  "claw_back_remaining now obj label event_id t d =
     (let target = min (clawback_credits obj t) (txn_delta t);
          credits = target - already_clawed_back d t
      in if credits \<le> 0 then d
         else snd (claw_back_grant now t (Some credits)
                (Some (label @ '': '' @ (case txn_desc t of Some s \<Rightarrow> if s = [] then txn_type_value (txn_type t) else s
                                         | None \<Rightarrow> txn_type_value (txn_type t))))
                [(''clawback_reason'', JStr label), (''stripe_event_id'', opt_json event_id),
                 (''stripe_object_id'', get_json obj ''id'')] d))"

definition handle_clawback :: "time \<Rightarrow> dict \<Rightarrow> string \<Rightarrow> db \<Rightarrow> db" where
  "handle_clawback now event label d =
     (let obj = event_object event; event_id = dstr event ''id'';
          gs = grant_transactions obj d
      in if gs = [] then d
         else let (won, d1) = claim_provider_object SCOPE_CLAWBACK event_id ''stripe'' d
              in if \<not> won then d1 else fold (claw_back_remaining now obj label event_id) gs d1)"

definition handle_charge_refunded :: "time \<Rightarrow> dict \<Rightarrow> db \<Rightarrow> db" where
  "handle_charge_refunded now event d = handle_clawback now event ''refund'' d"

definition handle_dispute_created :: "time \<Rightarrow> dict \<Rightarrow> db \<Rightarrow> db" where
  "handle_dispute_created now event d = handle_clawback now event ''dispute'' d"

definition handle_credit_note_created :: "time \<Rightarrow> dict \<Rightarrow> db \<Rightarrow> db" where
  "handle_credit_note_created now event d = handle_clawback now event ''credit_note'' d"

subsection \<open>The reversal of a dispute that was won\<close>

definition cancel_debt :: "time \<Rightarrow> string option \<Rightarrow> debt \<Rightarrow> debt" where
  "cancel_debt now event_id x =
     (if 0 < debt_outstanding x
      then x\<lparr>debt_outstanding := 0, debt_settled := Some now,
             debt_meta := dset ''cancelled_by'' (opt_json event_id) (debt_meta x)\<rparr>
      else x)"

definition by_uuid :: "('r \<Rightarrow> uuid) \<Rightarrow> json \<Rightarrow> 'r list \<Rightarrow> 'r option" where
  "by_uuid rid v rows = find (\<lambda>r. JStr (uuid_str (rid r)) = v) rows"

definition restore_lot :: "uuid \<Rightarrow> int \<Rightarrow> txn option \<Rightarrow> db \<Rightarrow> uuid \<times> db" where
  "restore_lot w n grant d =
     (case (case grant of Some g \<Rightarrow> find (\<lambda>l. lot_grant l = Some (txn_id g)) (lots d) | None \<Rightarrow> None) of
        Some l \<Rightarrow> create_lot w (lot_source l) n (lot_expires l) (map_option txn_id grant) d
      | None \<Rightarrow> create_lot w LOT_ADJUSTMENT n Never (map_option txn_id grant) d)"

definition give_back :: "time \<Rightarrow> uuid \<Rightarrow> int \<Rightarrow> txn option \<Rightarrow> txn \<Rightarrow> string option \<Rightarrow> db \<Rightarrow> db" where
  "give_back now w n grant row event_id d =
     (let (l, d1) = restore_lot w n grant d;
          d2 = snd (expire_due_lots w now d1);
          (balance, d3) = sync_balance w now d2
      in snd (create_txn w (Some l) ADJUSTMENT None n balance (Some ''Dispute won: credits restored'')
           [(''dispute_won'', JBool True), (''reverses'', JStr (uuid_str (txn_id row))),
            (''stripe_event_id'', opt_json event_id)] [] now d3))"

definition reverse_clawback :: "time \<Rightarrow> string option \<Rightarrow> txn \<Rightarrow> db \<Rightarrow> error + int \<times> db" where
  "reverse_clawback now event_id row0 d =
     (case get_row txn_id (txn_id row0) (txns d) of
        None \<Rightarrow> Inl (HandlerError ''Transaction.DoesNotExist'')
      | Some row \<Rightarrow>
          let meta = txn_meta row; w = txn_wallet row
          in if dtruthy meta ''reversed'' then Inr (0, d)
             else (case (int_or_zero (dget meta ''reclaimed''), int_or_zero (dget meta ''requested'')) of
                (Some reclaimed, Some requested) \<Rightarrow>
                  let grant = by_uuid txn_id (get_json meta ''clawback_of'') (txns d);
                      debt = (if dtruthy meta ''debt_id'' then by_uuid debt_id (get_json meta ''debt_id'') (debts d) else None);
                      collected = (case debt of Some x \<Rightarrow> max (debt_initial x - debt_outstanding x) 0 | None \<Rightarrow> 0);
                      d1 = (case debt of Some x \<Rightarrow> upd_debt (debt_id x) (cancel_debt now event_id) d | None \<Rightarrow> d);
                      given = reclaimed + collected;
                      d2 = (if 0 < given then give_back now w given grant row event_id d1 else d1);
                      meta' = dset ''reversed_by'' (opt_json event_id) (dset ''reversed'' (JInt requested) meta);
                      d3 = upd_txn (txn_id row) (\<lambda>y. y\<lparr>txn_meta := meta'\<rparr>) d2
                  in if 0 < given
                     then (case settle_debts w now d3 of Inl e \<Rightarrow> Inl e | Inr (n, d4) \<Rightarrow> Inr (given, d4))
                     else Inr (given, d3)
              | _ \<Rightarrow> Inl (ValueError ''invalid literal for int()'')))"

fun reverse_all :: "time \<Rightarrow> string option \<Rightarrow> txn list \<Rightarrow> db \<Rightarrow> error + db" where
  "reverse_all now event_id [] d = Inr d"
| "reverse_all now event_id (r # rs) d =
     (case reverse_clawback now event_id r d of Inl e \<Rightarrow> Inl e | Inr (n, d') \<Rightarrow> reverse_all now event_id rs d')"

definition dispute_rows :: "json \<Rightarrow> db \<Rightarrow> txn list" where
  "dispute_rows dispute_id d =
     filter (\<lambda>t. txn_type t = REFUND \<and> dget (txn_meta t) ''clawback_reason'' = Some (JStr ''dispute'') \<and>
                 dget (txn_meta t) ''stripe_object_id'' = Some dispute_id) (txns d)"

definition handle_dispute_closed :: "time \<Rightarrow> dict \<Rightarrow> db \<Rightarrow> error + db" where
  "handle_dispute_closed now event d =
     (let obj = event_object event; event_id = dstr event ''id''
      in if dget obj ''status'' \<noteq> Some (JStr ''won'') \<or> \<not> dtruthy obj ''id'' then Inr d
         else let rows = dispute_rows (get_json obj ''id'') d
              in if rows = [] then Inr d
                 else let (won, d1) = claim_provider_object SCOPE_CLAWBACK event_id ''stripe'' d
                      in if \<not> won then Inr d1 else reverse_all now event_id rows d1)"

subsection \<open>What the grant's lots give back\<close>

lemma claw_lots_mem:
  assumes "p \<in> set (claw_lots n ls)"
  shows "fst p \<in> set ls" "0 < snd p" "snd p \<le> lot_remaining (fst p)"
  using assms by (induction ls arbitrary: n) (auto simp: Let_def split: if_splits)

lemma claw_lots_distinct: "distinct (map lot_id ls) \<Longrightarrow> distinct (map (lot_id \<circ> fst) (claw_lots n ls))"
proof (induction ls arbitrary: n)
  case (Cons l ls)
  have "lot_id l \<notin> (lot_id \<circ> fst) ` set (claw_lots k ls)" for k
    using Cons.prems claw_lots_mem(1) by fastforce
  with Cons show ?case by (simp add: Let_def)
qed simp

lemma claw_lots_sum: "0 \<le> taken_sum (claw_lots n ls) \<and> (0 \<le> n \<longrightarrow> taken_sum (claw_lots n ls) \<le> n)"
proof (induction ls arbitrary: n)
  case (Cons l ls)
  from Cons[of n] Cons[of "n - min n (lot_remaining l)"] show ?case by (auto simp: Let_def)
qed simp

text \<open>The walk stops short of the request only when the grant's lots are empty.\<close>

lemma claw_lots_all:
  assumes "0 \<le> n" and "\<forall>l \<in> set ls. 0 \<le> lot_remaining l"
  shows "taken_sum (claw_lots n ls) = min n (\<Sum>l\<leftarrow>ls. lot_remaining l)"
  using assms
proof (induction ls arbitrary: n)
  case (Cons l ls)
  have s: "0 \<le> (\<Sum>l\<leftarrow>ls. lot_remaining l)" using Cons.prems(2) by (intro sum_list_nonneg_int) auto
  have l: "0 \<le> lot_remaining l" using Cons.prems(2) by simp
  show ?case
  proof (cases "n \<le> 0 \<or> min n (lot_remaining l) \<le> 0")
    case True
    with Cons.prems l s Cons.IH[of n] show ?thesis by (auto simp: Let_def)
  next
    case False
    then have "taken_sum (claw_lots n (l # ls)) = min n (lot_remaining l) + taken_sum (claw_lots (n - min n (lot_remaining l)) ls)"
      by (simp add: Let_def)
    with Cons.IH[of "n - min n (lot_remaining l)"] Cons.prems s l show ?thesis by (auto simp: min_def)
  qed
qed simp

lemma spends_fold_take:
  assumes "wf_db d" and "takes_ok taken d"
  shows "spends d (fold take_from_lot taken d)"
proof -
  have "map lot_static (lots (fold take_from_lot ts x)) = map lot_static (lots x)" for ts x
    by (induction ts arbitrary: x) (simp_all add: take_from_lot_def upd_lot_def)
  with fold_take_lots_ok[OF wf_lots_ok[OF assms(1)] assms(2)] assms(1) show ?thesis
    by (simp add: spends_def fold_take_frame wf_db_def txns_ok_def debts_ok_def wallet_ids_def)
qed

lemma granted_lots_wallet:
  assumes "wf_db d" and "t \<in> set (txns d)" and "l \<in> set (granted_lots d (txn_id t))"
  shows "l \<in> set (lots d)" "lot_wallet l = txn_wallet t"
proof -
  from assms(3) have l: "l \<in> set (lots d)" "lot_grant l = Some (txn_id t)" by (auto simp: granted_lots_def)
  then show "l \<in> set (lots d)" by simp
  from assms(1) l obtain g where "g \<in> set (txns d)" "txn_id g = txn_id t" "txn_wallet g = lot_wallet l"
    by (auto simp: wf_db_def lot_refs_ok_def)
  moreover have "g = t" if "txn_id g = txn_id t" "g \<in> set (txns d)"
    using assms(1,2) that by (metis wf_db_def txns_ok_def distinct_map inj_onD)
  ultimately show "lot_wallet l = txn_wallet t" by auto
qed

lemma claw_takes_ok:
  assumes "wf_db d"
  shows "takes_ok (claw_lots n (granted_lots d g)) d"
proof -
  have "distinct (map lot_id (granted_lots d g))"
    using lots_ok_distinct[OF wf_lots_ok[OF assms]] by (simp add: granted_lots_def distinct_map_filter)
  from claw_lots_distinct[OF this] claw_lots_mem show ?thesis
    by (fastforce simp: takes_ok_def granted_lots_def)
qed

lemma expired_of_nonpos:
  assumes "\<forall>t \<in> set (txns d). txn_type t = EXPIRATION \<longrightarrow> txn_delta t \<le> 0"
  shows "expired_of d ls \<le> 0"
proof -
  have "0 \<le> (\<Sum>t\<leftarrow>filter (\<lambda>t. txn_type t = EXPIRATION \<and> (\<exists>l \<in> set ls. txn_lot t = Some (lot_id l))) (txns d). - txn_delta t)"
    using assms by (intro sum_list_nonneg_int) auto
  also have "\<dots> = - expired_of d ls" by (simp add: expired_of_def uminus_sum_list_map comp_def)
  finally show ?thesis by simp
qed

subsection \<open>The clawback of one grant\<close>

text \<open>
  The request is split without remainder, the live credits go down by what was reclaimed, the
  debt goes up by what is outstanding, and no lot of another grant is touched.
\<close>

lemma claw_back_grant_facts:
  assumes inv: "inv d" and t: "t \<in> set (txns d)" and eq: "claw_back_grant now t credits desc m d = (c, d')"
  shows "inv d'" "spends d d'" "synced d' (txn_wallet t) now"
    "cl_requested c = (case credits of Some n \<Rightarrow> n | None \<Rightarrow> txn_delta t)"
    "cl_requested c = cl_reclaimed c + cl_forgiven c + cl_outstanding c"
    "0 \<le> cl_reclaimed c"
    "account_of d' v now = (if v = txn_wallet t
      then account_of d v now\<lparr>ac_live := live_balance d v now - cl_reclaimed c,
                              ac_owed := outstanding_debt d v + max 0 (cl_outstanding c)\<rparr>
      else account_of d v now)"
    "txns d' = txns (snd (expire_due_lots (txn_wallet t) now d)) @ [cl_txn c]"
    "txn_type (cl_txn c) = REFUND" "txn_delta (cl_txn c) = - cl_reclaimed c"
    "\<And>k. k \<noteq> ''debt_id'' \<Longrightarrow> dget (txn_meta (cl_txn c)) k =
      dget (clawback_meta m t (cl_requested c) (cl_reclaimed c) (cl_forgiven c) (cl_outstanding c)
        (claw_lots (cl_requested c) (granted_lots (snd (expire_due_lots (txn_wallet t) now d)) (txn_id t)))) k"
    "lots d' = lots (fold take_from_lot (claw_lots (cl_requested c)
        (granted_lots (snd (expire_due_lots (txn_wallet t) now d)) (txn_id t))) (snd (expire_due_lots (txn_wallet t) now d)))"
    "txn_wallet (cl_txn c) = txn_wallet t"
    "(if 0 < cl_outstanding c
     then \<exists>x \<in> set (debts d'). debt_wallet x = txn_wallet t \<and> debt_initial x = cl_outstanding c \<and> debt_settled x = None \<and>
       dget (txn_meta (cl_txn c)) ''debt_id'' = Some (JStr (uuid_str (debt_id x)))
     else txn_meta (cl_txn c) = clawback_meta m t (cl_requested c) (cl_reclaimed c) (cl_forgiven c) (cl_outstanding c)
        (claw_lots (cl_requested c) (granted_lots (snd (expire_due_lots (txn_wallet t) now d)) (txn_id t))))"
proof -
  let ?w = "txn_wallet t"
  let ?d1 = "snd (expire_due_lots ?w now d)"
  define n where "n = (case credits of Some n \<Rightarrow> n | None \<Rightarrow> txn_delta t)"
  define ls where "ls = granted_lots ?d1 (txn_id t)"
  define taken where "taken = claw_lots n ls"
  define rec where "rec = taken_sum taken"
  define d2 where "d2 = fold take_from_lot taken ?d1"
  define forgiven where "forgiven = (if 0 < n - rec \<and> ls \<noteq> [] then min (n - rec) (- expired_of d2 ls) else 0)"
  define out where "out = n - rec - forgiven"
  define d3 where "d3 = snd (sync_balance ?w now d2)"
  define wording where "wording = or_text desc (''Clawback of '' @ txn_type_value (txn_type t))"
  define meta where "meta = clawback_meta m t n rec forgiven out taken"
  note wf = inv_wf[OF inv]
  have w: "?w \<in> wallet_ids d" using wf t by (simp add: wf_db_def txns_ok_def)
  have s1: "spends d ?d1" by (rule expire_spends[OF wf w])
  note wf1 = spends_wf[OF wf s1]
  have t1: "t \<in> set (txns ?d1)" using s1 t by (auto simp: spends_def)
  have tk: "takes_ok taken ?d1" unfolding taken_def ls_def by (rule claw_takes_ok[OF wf1])
  have s2: "spends ?d1 d2" unfolding d2_def by (rule spends_fold_take[OF wf1 tk])
  note wf2 = spends_wf[OF wf1 s2]
  have s3: "spends d2 d3" unfolding d3_def by (rule spends_sync[OF wf2])
  note wf3 = spends_wf[OF wf2 s3]
  have w3: "?w \<in> wallet_ids d3" using w spends_wallet_ids[OF s1] spends_wallet_ids[OF s2] spends_wallet_ids[OF s3] by simp
  have w2: "?w \<in> wallet_ids d2" using w spends_wallet_ids[OF s1] spends_wallet_ids[OF s2] by simp
  obtain row d4 where ct: "create_txn ?w (single_lot taken) REFUND None (- rec) (live_balance d2 ?w now) wording meta [] now d3 = (row, d4)"
    by (metis surj_pair)
  have row: "row = new_txn (next_id d3) ?w (single_lot taken) REFUND None (- rec) (live_balance d2 ?w now) wording meta [] now"
    and d4: "snd (create_txn ?w (single_lot taken) REFUND None (- rec) (live_balance d2 ?w now) wording meta [] now d3) = d4"
    using ct by (auto simp: create_txn_def Let_def)
  have s4: "spends d3 d4" using spends_create_txn[OF wf3 w3] d4 by metis
  have d4f: "lots d4 = lots d3" "wallets d4 = wallets d3" "txns d4 = txns d3 @ [row]" "debts d4 = debts d3"
    using create_txn_frame[of ?w "single_lot taken" REFUND None "- rec" "live_balance d2 ?w now" wording meta "[]" now d3] ct by simp_all
  have mem: "fst p \<in> set (lots ?d1) \<and> lot_wallet (fst p) = ?w \<and> At now < lot_expires (fst p)" if "p \<in> set taken" for p
  proof -
    note m = claw_lots_mem[OF that[unfolded taken_def]]
    note g = granted_lots_wallet[OF wf1 t1 m(1)[unfolded ls_def]]
    have "0 < lot_remaining (fst p)" using m(2,3) by linarith
    with g expire_no_due[OF g(1,2)] show ?thesis by simp
  qed
  have "(\<Sum>p\<leftarrow>taken. if spendable v now (fst p) then snd p else 0) = (if v = ?w then rec else 0)"
    "(\<Sum>p\<leftarrow>taken. if in_wallet v (fst p) then snd p else 0) = (if v = ?w then rec else 0)" for v
    unfolding rec_def by (rule taken_sum_if; use mem in \<open>auto simp: spendable_def in_wallet_def\<close>)+
  with lot_sum_fold_take[OF wf_lots_ok[OF wf1] tk, folded d2_def]
  have live2: "live_balance d2 v now = live_balance d v now - (if v = ?w then rec else 0)"
    and lot2: "lot_total d2 v = lot_total ?d1 v - (if v = ?w then rec else 0)" for v
    using expire_live[OF wf w, of now v]
    by (simp_all add: live_balance_spendable[OF wf_lots_ok[OF wf1]] live_balance_spendable[OF wf_lots_ok[OF wf2]] lot_total_def)
  have base: "inv d'" "spends d d'" "synced d' ?w now" "live_balance d' v now = live_balance d v now - (if v = ?w then rec else 0)"
    if s: "spends d3 d'" and l: "lots d' = lots d3" and wl: "wallets d' = wallets d3"
      and tx: "txns d' = txns d3 @ [r]" "txn_delta r = - rec" "txn_wallet r = ?w" for d' r v
  proof -
    show sp: "spends d d'" using s1 s2 s3 s by (blast intro: spends_trans)
    have lots: "lots d' = lots d2" using l by (simp add: d3_def sync_balance_frame)
    then have live: "live_balance d' u now = live_balance d2 u now" for u by (rule live_balance_cong)
    then show "live_balance d' v now = live_balance d v now - (if v = ?w then rec else 0)" using live2 by simp
    show "synced d' ?w now"
      using synced_sync[OF w2, of now] synced_cong[OF wl, of ?w now] live by (simp add: d3_def sync_totals)
    have "lot_total d' u = lot_total d2 u" for u using lots by (rule totals_cong)
    moreover have "ledger_total d' u = ledger_total ?d1 u - (if u = ?w then rec else 0)" for u
      using tx by (simp add: ledger_total_def d3_def sync_balance_frame d2_def fold_take_frame)
    ultimately show "inv d'"
      using lot2 expire_totals[OF wf_lots_ok[OF wf], of ?w now] by (intro inv_spends[OF inv sp]) simp
  qed
  have owed3: "outstanding_debt d3 v = outstanding_debt d v" for v
    by (rule outstanding_cong) (simp add: d3_def sync_balance_frame d2_def fold_take_frame expire_debts)
  have body: "claw_back_grant now t credits desc m d =
     (if 0 < out then let ((row', x), d5) = book_debt ?w out CLAWBACK REFUND wording [] row d4
              in (\<lparr>cl_txn = row', cl_requested = n, cl_reclaimed = rec, cl_forgiven = forgiven,
                   cl_outstanding = out, cl_debt = Some x\<rparr>, d5)
         else (\<lparr>cl_txn = row, cl_requested = n, cl_reclaimed = rec, cl_forgiven = forgiven,
                cl_outstanding = out, cl_debt = None\<rparr>, d4))"
  proof -
    obtain D where D: "sync_balance ?w now d2 = (live_balance d2 ?w now, D)" using sync_result by blast
    then have "D = d3" by (simp add: d3_def)
    with D have "sync_balance ?w now d2 = (live_balance d2 ?w now, d3)" by simp
    with ct show ?thesis
      unfolding claw_back_grant_def Let_def n_def[symmetric] ls_def[symmetric] taken_def[symmetric]
        rec_def[symmetric] d2_def[symmetric] forgiven_def[symmetric] out_def[symmetric] wording_def[symmetric]
        meta_def[symmetric] by simp
  qed
  have nonneg: "0 \<le> rec" unfolding rec_def taken_def using claw_lots_sum by blast
  have txd3: "txns d3 = txns ?d1" by (simp add: d3_def sync_balance_frame d2_def fold_take_frame)
  have lotsd3: "lots d3 = lots (fold take_from_lot (claw_lots n (granted_lots ?d1 (txn_id t))) ?d1)"
    by (simp add: d3_def sync_balance_frame d2_def taken_def ls_def)
  have split: "n = rec + forgiven + out" by (simp add: out_def)
  have main: "inv d' \<and> spends d d' \<and> synced d' ?w now \<and> cl_requested c = n \<and>
    cl_requested c = cl_reclaimed c + cl_forgiven c + cl_outstanding c \<and> 0 \<le> cl_reclaimed c \<and>
    account_of d' v now = (if v = ?w
      then account_of d v now\<lparr>ac_live := live_balance d v now - cl_reclaimed c,
                              ac_owed := outstanding_debt d v + max 0 (cl_outstanding c)\<rparr>
      else account_of d v now) \<and>
    txns d' = txns ?d1 @ [cl_txn c] \<and> txn_type (cl_txn c) = REFUND \<and> txn_delta (cl_txn c) = - cl_reclaimed c \<and>
    (\<forall>k. k \<noteq> ''debt_id'' \<longrightarrow> dget (txn_meta (cl_txn c)) k =
      dget (clawback_meta m t (cl_requested c) (cl_reclaimed c) (cl_forgiven c) (cl_outstanding c)
        (claw_lots (cl_requested c) (granted_lots ?d1 (txn_id t)))) k) \<and>
    lots d' = lots (fold take_from_lot (claw_lots (cl_requested c) (granted_lots ?d1 (txn_id t))) ?d1) \<and>
    txn_wallet (cl_txn c) = ?w \<and>
    (if 0 < cl_outstanding c
     then \<exists>x \<in> set (debts d'). debt_wallet x = ?w \<and> debt_initial x = cl_outstanding c \<and> debt_settled x = None \<and>
       dget (txn_meta (cl_txn c)) ''debt_id'' = Some (JStr (uuid_str (debt_id x)))
     else txn_meta (cl_txn c) = clawback_meta m t (cl_requested c) (cl_reclaimed c) (cl_forgiven c) (cl_outstanding c)
        (claw_lots (cl_requested c) (granted_lots ?d1 (txn_id t))))" for v
  proof (cases "0 < out")
    case True
    obtain row' x d5 where bd: "book_debt ?w out CLAWBACK REFUND wording [] row d4 = ((row', x), d5)" by (metis surj_pair)
    from True have o0: "0 \<le> out" by simp
    note f = book_debt_facts[OF wf3 w3 o0 ct bd]
    have c: "c = \<lparr>cl_txn = row', cl_requested = n, cl_reclaimed = rec, cl_forgiven = forgiven,
        cl_outstanding = out, cl_debt = Some x\<rparr>" and d': "d' = d5"
      using eq body True bd by simp_all
    have ty: "txn_type row' = REFUND" using bd by (auto simp: book_debt_def Let_def open_debt_def row new_txn_def)
    have "outstanding_debt d5 v = outstanding_debt d3 v + (if v = ?w then out else 0)"
      using True f(12,14,15) by (simp add: outstanding_sum f(5))
    with owed3[of v] base[OF f(1,2,3,4,7,8)] spends_reserved[OF base(2)[OF f(1,2,3,4,7,8)], of v] f(2,4,5,7,8,11-15)
      ty nonneg split True txd3 lotsd3
    show ?thesis by (simp add: c d' account_of_def meta_def taken_def ls_def)
  next
    case False
    have c: "c = \<lparr>cl_txn = row, cl_requested = n, cl_reclaimed = rec, cl_forgiven = forgiven,
        cl_outstanding = out, cl_debt = None\<rparr>" and d': "d' = d4"
      using eq body False by simp_all
    have rd: "txn_delta row = - rec" "txn_wallet row = ?w" "txn_type row = REFUND" "txn_meta row = meta" by (simp_all add: row)
    have "outstanding_debt d4 v = outstanding_debt d3 v" by (rule outstanding_cong) (rule d4f)
    with owed3[of v] base[OF s4 d4f(1,2,3) rd(1,2)] spends_reserved[OF base(2)[OF s4 d4f(1,2,3) rd(1,2)], of v]
      d4f rd nonneg split False txd3 lotsd3
    show ?thesis by (simp add: c d' account_of_def meta_def taken_def ls_def)
  qed
  from main[of v] n_def show "inv d'" "spends d d'" "synced d' ?w now" "0 \<le> cl_reclaimed c"
    "cl_requested c = (case credits of Some n \<Rightarrow> n | None \<Rightarrow> txn_delta t)"
    "cl_requested c = cl_reclaimed c + cl_forgiven c + cl_outstanding c"
    "account_of d' v now = (if v = ?w
      then account_of d v now\<lparr>ac_live := live_balance d v now - cl_reclaimed c,
                              ac_owed := outstanding_debt d v + max 0 (cl_outstanding c)\<rparr>
      else account_of d v now)"
    "txns d' = txns ?d1 @ [cl_txn c]" "txn_type (cl_txn c) = REFUND" "txn_delta (cl_txn c) = - cl_reclaimed c"
    "\<And>k. k \<noteq> ''debt_id'' \<Longrightarrow> dget (txn_meta (cl_txn c)) k =
      dget (clawback_meta m t (cl_requested c) (cl_reclaimed c) (cl_forgiven c) (cl_outstanding c)
        (claw_lots (cl_requested c) (granted_lots ?d1 (txn_id t)))) k"
    "lots d' = lots (fold take_from_lot (claw_lots (cl_requested c) (granted_lots ?d1 (txn_id t))) ?d1)"
    "txn_wallet (cl_txn c) = ?w"
    "(if 0 < cl_outstanding c
     then \<exists>x \<in> set (debts d'). debt_wallet x = ?w \<and> debt_initial x = cl_outstanding c \<and> debt_settled x = None \<and>
       dget (txn_meta (cl_txn c)) ''debt_id'' = Some (JStr (uuid_str (debt_id x)))
     else txn_meta (cl_txn c) = clawback_meta m t (cl_requested c) (cl_reclaimed c) (cl_forgiven c) (cl_outstanding c)
        (claw_lots (cl_requested c) (granted_lots ?d1 (txn_id t))))"
    by blast+
qed

subsection \<open>Refunds are cumulative: a grant is never clawed back past its size\<close>

lemma expire_walk_txns:
  "\<exists>ts. txns (expire_walk w now ls running d) = txns d @ ts \<and> (\<forall>t \<in> set ts. txn_type t = EXPIRATION)"
proof (induction ls arbitrary: running d)
  case (Cons l ls)
  let ?c = "create_txn w (Some (lot_id l)) EXPIRATION None (- lot_remaining l) (running - lot_remaining l)
            (Some (''Credits expired ('' @ lot_source_label (lot_source l) @ '')''))
            [(''lot_id'', JStr (uuid_str (lot_id l))), (''source'', JStr (lot_source_value (lot_source l))),
             (''expires_at'', deadline_json (lot_expires l))] [] now (upd_lot (lot_id l) (\<lambda>x. x\<lparr>lot_remaining := 0\<rparr>) d)"
  from Cons[of "running - lot_remaining l" "snd ?c"] obtain ts where
    "txns (expire_walk w now ls (running - lot_remaining l) (snd ?c)) = txns (snd ?c) @ ts"
    "\<forall>t \<in> set ts. txn_type t = EXPIRATION" by blast
  then show ?case
    by (intro exI[of _ "fst ?c # ts"]) (simp add: Let_def split_beta create_txn_frame upd_lot_def)
qed simp

lemma expire_txns:
  "\<exists>ts. txns (snd (expire_due_lots w now d)) = txns d @ ts \<and> (\<forall>t \<in> set ts. txn_type t = EXPIRATION)"
  using expire_walk_txns by (simp add: expire_due_lots_snd sync_balance_frame)

lemma clawed_row_new:
  assumes "txn_type r = REFUND" and "dget (txn_meta r) ''reversed'' = None"
    and "dget (txn_meta r) ''requested'' = Some (JInt n)" and "dget (txn_meta r) ''clawback_of'' = Some (JStr (uuid_str i))"
  shows "clawed_row t r = (if i = txn_id t then n else 0)"
  using assms by (simp add: clawed_row_def)

text \<open>One clawback adds its request to what was asked of that grant, and nothing to any other.\<close>

definition clawed_sum :: "db \<Rightarrow> txn \<Rightarrow> int" where
  "clawed_sum d t = (\<Sum>r\<leftarrow>txns d. clawed_row t r)"

lemma claw_back_grant_clawed:
  assumes "inv d" and "g \<in> set (txns d)" and "claw_back_grant now g (Some n) desc m d = (c, d')"
    and "dget m ''reversed'' = None"
  shows "clawed_sum d' t = clawed_sum d t + (if txn_id g = txn_id t then n else 0)"
proof -
  note f = claw_back_grant_facts[OF assms(1-3)]
  obtain ts where ts: "txns (snd (expire_due_lots (txn_wallet g) now d)) = txns d @ ts"
    "\<forall>t \<in> set ts. txn_type t = EXPIRATION" using expire_txns by blast
  have "dget (txn_meta (cl_txn c)) ''reversed'' = None"
    using assms(4) by (simp add: f(11) clawback_meta_def dget_dmerge_Cons clean_metadata_other)
  moreover have "dget (txn_meta (cl_txn c)) ''requested'' = Some (JInt n)"
    using f(4) by (simp add: f(11) clawback_meta_def dget_dmerge_Cons)
  moreover have "dget (txn_meta (cl_txn c)) ''clawback_of'' = Some (JStr (uuid_str (txn_id g)))"
    by (simp add: f(11) clawback_meta_def dget_dmerge_Cons)
  ultimately have "clawed_row t (cl_txn c) = (if txn_id g = txn_id t then n else 0)"
    by (rule clawed_row_new[OF f(9)])
  moreover have "(\<Sum>r\<leftarrow>ts. clawed_row t r) = 0"
  proof -
    have "(\<Sum>r\<leftarrow>ts. clawed_row t r) = (\<Sum>r\<leftarrow>ts. 0)"
      using ts(2) by (intro arg_cong[where f = sum_list] map_cong) (auto simp: clawed_row_def)
    then show ?thesis by simp
  qed
  ultimately show ?thesis by (simp add: clawed_sum_def f(8) ts(1))
qed

lemma claw_back_remaining_facts:
  assumes "inv d" and "g \<in> set (txns d)"
  shows "inv (claw_back_remaining now obj label ev g d)" "spends d (claw_back_remaining now obj label ev g d)"
    "clawed_sum (claw_back_remaining now obj label ev g d) t = clawed_sum d t +
      (if txn_id g = txn_id t
       then max 0 (min (clawback_credits obj g) (txn_delta g) - already_clawed_back d g) else 0)"
proof -
  let ?n = "min (clawback_credits obj g) (txn_delta g) - already_clawed_back d g"
  let ?d = "claw_back_remaining now obj label ev g d"
  have "inv ?d \<and> spends d ?d \<and> clawed_sum ?d t = clawed_sum d t + (if txn_id g = txn_id t then max 0 ?n else 0)"
  proof (cases "?n \<le> 0")
    case True
    then show ?thesis using assms(1) by (simp add: claw_back_remaining_def Let_def spends_refl)
  next
    case False
    let ?desc = "Some (label @ '': '' @ (case txn_desc g of Some s \<Rightarrow> if s = [] then txn_type_value (txn_type g) else s
                                         | None \<Rightarrow> txn_type_value (txn_type g)))"
    let ?m = "[(''clawback_reason'', JStr label), (''stripe_event_id'', opt_json ev),
                 (''stripe_object_id'', get_json obj ''id'')]"
    obtain c d' where c: "claw_back_grant now g (Some ?n) ?desc ?m d = (c, d')" by (rule prod.exhaust)
    have m: "dget ?m ''reversed'' = None" by (simp add: dget_def)
    have e: "?d = d'" unfolding claw_back_remaining_def Let_def by (simp only: False c if_False snd_conv)
    have "max 0 ?n = ?n" using False by linarith
    with claw_back_grant_facts(1,2)[OF assms c] claw_back_grant_clawed[OF assms c m, of t]
    show ?thesis unfolding e by presburger
  qed
  then show "inv ?d" "spends d ?d" "clawed_sum ?d t = clawed_sum d t + (if txn_id g = txn_id t then max 0 ?n else 0)"
    by blast+
qed

text \<open>Whatever a refund reports, the total asked of a grant stays within the grant.\<close>

lemma claw_back_remaining_bound:
  assumes "inv d" and "g \<in> set (txns d)" and "t \<in> set (txns d)" and "already_clawed_back d t \<le> txn_delta t"
  shows "already_clawed_back (claw_back_remaining now obj label ev g d) t \<le> txn_delta t"
proof -
  have same: "g = t" if "txn_id g = txn_id t"
    using inv_wf[OF assms(1)] assms(2,3) that by (metis wf_db_def txns_ok_def distinct_map inj_onD)
  have a: "already_clawed_back x t = max (clawed_sum x t) 0" for x
    by (simp add: already_clawed_back_def clawed_sum_def)
  let ?d = "claw_back_remaining now obj label ev g d"
  note sum = claw_back_remaining_facts(3)[OF assms(1,2), of now obj label ev t]
  show ?thesis
  proof (cases "txn_id g = txn_id t")
    case True
    then have g: "g = t" by (rule same)
    have "clawed_sum ?d t = clawed_sum d t +
        max 0 (min (clawback_credits obj t) (txn_delta t) - max (clawed_sum d t) 0)"
      using sum unfolding g a by simp
    moreover have "max (clawed_sum d t) 0 \<le> txn_delta t" using assms(4) unfolding a .
    ultimately show ?thesis unfolding a by linarith
  next
    case False
    with sum assms(4) show ?thesis unfolding a by simp
  qed
qed

lemma claw_all_facts:
  assumes "inv d" and "\<forall>g \<in> set gs. g \<in> set (txns d)" and "t \<in> set (txns d)" and "already_clawed_back d t \<le> txn_delta t"
  shows "inv (fold (claw_back_remaining now obj label ev) gs d) \<and>
    spends d (fold (claw_back_remaining now obj label ev) gs d) \<and>
    already_clawed_back (fold (claw_back_remaining now obj label ev) gs d) t \<le> txn_delta t"
  using assms
proof (induction gs arbitrary: d)
  case Nil
  then show ?case by (simp add: spends_refl)
next
  case (Cons g gs)
  let ?d = "claw_back_remaining now obj label ev g d"
  have g: "g \<in> set (txns d)" using Cons.prems(2) by simp
  note f = claw_back_remaining_facts[OF Cons.prems(1) g, of now obj label ev]
  have "set (txns d) \<subseteq> set (txns ?d)" using f(2) by (auto simp: spends_def)
  with Cons.prems have "\<forall>g \<in> set gs. g \<in> set (txns ?d)" "t \<in> set (txns ?d)" by auto
  from Cons.IH[OF f(1) this claw_back_remaining_bound[OF Cons.prems(1) g Cons.prems(3,4)]] f(2)
  show ?case by (auto intro: spends_trans)
qed

lemma handle_clawback_cases:
  obtains "handle_clawback now event label d = d"
  | d1 where "claim_provider_object SCOPE_CLAWBACK (dstr event ''id'') ''stripe'' d = (True, d1)"
      "handle_clawback now event label d =
        fold (claw_back_remaining now (event_object event) label (dstr event ''id'')) (grant_transactions (event_object event) d) d1"
proof (cases "grant_transactions (event_object event) d = []")
  case True
  then show ?thesis by (intro that(1)) (simp add: handle_clawback_def)
next
  case False
  obtain won d1 where c: "claim_provider_object SCOPE_CLAWBACK (dstr event ''id'') ''stripe'' d = (won, d1)"
    by (metis surj_pair)
  show ?thesis
  proof (cases won)
    case True
    with c False show ?thesis by (intro that(2)) (simp_all add: handle_clawback_def Let_def)
  next
    case won: False
    with c have "d1 = d" by simp
    with c won False show ?thesis by (intro that(1)) (simp add: handle_clawback_def)
  qed
qed

lemma claim_txns: "claim_provider_object scope ext prov d = (b, d') \<Longrightarrow> txns d' = txns d"
  using claim_frame by fastforce

lemma grant_transactions_mem: "g \<in> set (grant_transactions obj d) \<Longrightarrow> g \<in> set (txns d) \<and> 0 < txn_delta g"
  by (auto simp: grant_transactions_def Let_def split: if_splits)

lemma already_cong: "txns d = txns d' \<Longrightarrow> already_clawed_back d t = already_clawed_back d' t"
  by (simp add: already_clawed_back_def)

lemma handle_clawback_facts:
  assumes "inv d" and "t \<in> set (txns d)" and "already_clawed_back d t \<le> txn_delta t"
  shows "inv (handle_clawback now event label d)" "t \<in> set (txns (handle_clawback now event label d))"
    "already_clawed_back (handle_clawback now event label d) t \<le> txn_delta t"
proof -
  let ?d = "handle_clawback now event label d"
  have "inv ?d \<and> t \<in> set (txns ?d) \<and> already_clawed_back ?d t \<le> txn_delta t"
  proof (cases rule: handle_clawback_cases[of now event label d])
    case 1
    with assms show ?thesis by simp
  next
    case (2 d1)
    note tx = claim_txns[OF 2(1)]
    have i1: "inv d1" using claim_inv[OF 2(1)] assms(1) by simp
    have gs: "\<forall>g \<in> set (grant_transactions (event_object event) d). g \<in> set (txns d1)"
      using grant_transactions_mem by (simp add: tx)
    have t1: "t \<in> set (txns d1)" "already_clawed_back d1 t \<le> txn_delta t"
      using assms(2,3) already_cong[OF tx] by (simp_all add: tx)
    from claw_all_facts[OF i1 gs t1, of now "event_object event" label "dstr event ''id''"] t1(1) 2(2)
    show ?thesis by (auto simp: spends_def)
  qed
  then show "inv ?d" "t \<in> set (txns ?d)" "already_clawed_back ?d t \<le> txn_delta t" by blast+
qed

lemma handle_clawback_inv:
  assumes "inv d"
  shows "inv (handle_clawback now event label d)"
proof (cases rule: handle_clawback_cases[of now event label d])
  case 1
  with assms show ?thesis by simp
next
  case (2 d1)
  have step: "inv (fold (claw_back_remaining now obj label ev) gs x) \<and> spends x (fold (claw_back_remaining now obj label ev) gs x)"
    if "inv x" "\<forall>g \<in> set gs. g \<in> set (txns x)" for obj ev gs x
    using that
  proof (induction gs arbitrary: x)
    case (Cons g gs)
    have g: "g \<in> set (txns x)" using Cons.prems(2) by simp
    note f = claw_back_remaining_facts[OF Cons.prems(1) g, of now obj label ev]
    have "\<forall>h \<in> set gs. h \<in> set (txns (claw_back_remaining now obj label ev g x))"
      using Cons.prems(2) f(2) by (auto simp: spends_def)
    from Cons.IH[OF f(1) this] f(2) show ?case by (auto intro: spends_trans)
  qed (simp add: spends_refl)
  have "inv d1" using claim_inv[OF 2(1)] assms by simp
  moreover have "\<forall>g \<in> set (grant_transactions (event_object event) d). g \<in> set (txns d1)"
    using grant_transactions_mem by (simp add: claim_txns[OF 2(1)])
  ultimately show ?thesis using step 2(2) by simp
qed

subsection \<open>One event, one clawback\<close>

lemma create_txn_grants [frame]: "grants (snd (create_txn w l ty amt delta bal desc meta key now d)) = grants d"
  by (simp add: create_txn_def Let_def)

lemma expire_grants [frame]: "grants (snd (expire_due_lots w now d)) = grants d"
proof -
  have "grants (expire_walk w now ls running x) = grants x" for ls running x
    by (induction ls arbitrary: running x) (simp_all add: Let_def split_beta create_txn_grants upd_lot_def)
  then show ?thesis by (simp add: expire_due_lots_snd sync_balance_frame)
qed

lemma book_debt_grants [frame]: "grants (snd (book_debt w n reason ty desc key t d)) = grants d"
  by (simp add: book_debt_def Let_def split_beta open_debt_def upd_debt_def upd_txn_def)

lemma claw_back_grant_grants [frame]: "grants (snd (claw_back_grant now t credits desc m d)) = grants d"
  unfolding claw_back_grant_def Let_def split_beta
  by (simp add: book_debt_grants create_txn_grants sync_balance_frame fold_take_frame expire_grants)

lemma claw_all_grants: "grants (fold (claw_back_remaining now obj label ev) gs d) = grants d"
proof (induction gs arbitrary: d)
  case (Cons g gs)
  have "grants (claw_back_remaining now obj label ev g d) = grants d"
    by (simp add: claw_back_remaining_def Let_def claw_back_grant_grants)
  with Cons show ?case by simp
qed simp

lemma handle_clawback_lost:
  assumes "claim_provider_object SCOPE_CLAWBACK (dstr event ''id'') ''stripe'' d = (False, d)"
  shows "handle_clawback now event label d = d"
  using assms by (simp add: handle_clawback_def Let_def)

lemma handle_clawback_twice:
  "handle_clawback later event label' (handle_clawback now event label d) = handle_clawback now event label d"
proof (cases "grant_transactions (event_object event) d = []")
  case True
  then show ?thesis by (simp add: handle_clawback_def)
next
  case False
  obtain won d1 where c: "claim_provider_object SCOPE_CLAWBACK (dstr event ''id'') ''stripe'' d = (won, d1)"
    by (metis surj_pair)
  show ?thesis
  proof (cases won)
    case won: False
    with c have "d1 = d" by simp
    with c won have lost: "claim_provider_object SCOPE_CLAWBACK (dstr event ''id'') ''stripe'' d = (False, d)" by simp
    show ?thesis by (simp add: handle_clawback_lost[OF lost])
  next
    case True
    with c have c': "claim_provider_object SCOPE_CLAWBACK (dstr event ''id'') ''stripe'' d = (True, d1)" by simp
    have h: "handle_clawback now event label d =
        fold (claw_back_remaining now (event_object event) label (dstr event ''id'')) (grant_transactions (event_object event) d) d1"
      using c' False by (simp add: handle_clawback_def Let_def)
    have "claim_provider_object SCOPE_CLAWBACK (dstr event ''id'') ''stripe'' (handle_clawback now event label d) =
        (False, handle_clawback now event label d)"
      by (rule claim_twice[OF c']) (simp add: h claw_all_grants)
    then show ?thesis by (rule handle_clawback_lost)
  qed
qed

subsection \<open>A won dispute: the reversal\<close>

lemma inv_upd_txn_meta:
  assumes "inv d"
  shows "inv (upd_txn i (\<lambda>y. y\<lparr>txn_meta := m\<rparr>) d)" "wallet_ids (upd_txn i (\<lambda>y. y\<lparr>txn_meta := m\<rparr>) d) = wallet_ids d"
    "account_of (upd_txn i (\<lambda>y. y\<lparr>txn_meta := m\<rparr>) d) v now = account_of d v now"
proof -
  let ?d = "upd_txn i (\<lambda>y. y\<lparr>txn_meta := m\<rparr>) d"
  have t: "lots ?d = lots d" "debts ?d = debts d" "holds ?d = holds d" "allocs ?d = allocs d" "wallets ?d = wallets d"
    "next_id ?d = next_id d" by (simp_all add: upd_txn_def)
  show ids: "wallet_ids ?d = wallet_ids d" by (simp add: wallet_ids_def t)
  show "account_of ?d v now = account_of d v now" by (rule account_cong) (rule t)+
  note wf = inv_wf[OF assms]
  have "map txn_id (txns ?d) = map txn_id (txns d)" by (simp add: upd_txn_def map_upd_row)
  then have "txns_ok ?d"
    using wf by (auto simp: wf_db_def txns_ok_def wallet_ids_def upd_txn_def set_upd_row)
  moreover have "\<exists>x \<in> set (txns ?d). txn_id x = txn_id y \<and> txn_wallet x = txn_wallet y" if "y \<in> set (txns d)" for y
    using that by (intro bexI[of _ "if txn_id y = i then y\<lparr>txn_meta := m\<rparr> else y"]) (auto simp: upd_txn_def set_upd_row)
  then have "lot_refs_ok ?d" using wf unfolding wf_db_def lot_refs_ok_def t(1) ids by metis
  moreover have "lots_ok ?d" "wallets_ok ?d" "hold_rows_ok ?d" "alloc_rows_ok ?d" "debts_ok ?d"
    using wf by (simp_all add: wf_db_def lots_ok_def wallets_ok_def hold_rows_ok_def alloc_rows_ok_def debts_ok_def ids t)
  ultimately have "wf_db ?d" by (simp add: wf_db_def)
  moreover have "holds_ok ?d" using assms by (simp add: inv_def holds_ok_def alloc_total_def t)
  moreover have "ledger_total ?d w = ledger_total d w" for w
    by (simp add: ledger_total_def upd_txn_def sum_list_upd_row_same)
  then have "balanced ?d w" for w
    using assms totals_cong(1)[OF t(1)] totals_cong(4)[OF t(4,3)] by (simp add: inv_def balanced_def)
  ultimately show "inv ?d" by (simp add: inv_def)
qed

lemma cancel_debt_fields [simp]:
  "debt_id (cancel_debt now e x) = debt_id x" "debt_wallet (cancel_debt now e x) = debt_wallet x"
  "debt_initial (cancel_debt now e x) = debt_initial x" "debt_txn (cancel_debt now e x) = debt_txn x"
  by (simp_all add: cancel_debt_def)

lemma spends_cancel:
  assumes "wf_db d"
  shows "spends d (upd_debt i (cancel_debt now e) d)"
proof -
  let ?d = "upd_debt i (cancel_debt now e) d"
  have "map debt_id (debts ?d) = map debt_id (debts d)" by (simp add: upd_debt_def map_upd_row)
  then have "debts_ok ?d"
    using assms by (auto simp: wf_db_def debts_ok_def wallet_ids_def upd_debt_def set_upd_row cancel_debt_def)
  moreover have "lots_ok ?d" by (rule lots_ok_cong[of d]) (use assms in \<open>simp_all add: upd_debt_frame\<close>)
  ultimately show ?thesis
    using assms by (simp add: spends_def upd_debt_frame wf_db_def txns_ok_def wallet_ids_def)
qed

text \<open>The restored lot and its row bring the same credits to the lots and to the ledger.\<close>

lemma restore_lot_create:
  obtains src e where "restore_lot w n grant d = create_lot w src n e (map_option txn_id grant) d"
    "\<And>l. find (\<lambda>l. lot_grant l = Some (txn_id (the grant))) (lots d) = Some l \<Longrightarrow> grant \<noteq> None \<Longrightarrow> e = lot_expires l"
proof (cases "case grant of Some g \<Rightarrow> find (\<lambda>l. lot_grant l = Some (txn_id g)) (lots d) | None \<Rightarrow> None")
  case None
  show ?thesis
    by (rule that[of LOT_ADJUSTMENT Never]) (use None in \<open>auto simp: restore_lot_def split: option.splits\<close>)
next
  case (Some l)
  show ?thesis
    by (rule that[of "lot_source l" "lot_expires l"]) (use Some in \<open>auto simp: restore_lot_def split: option.splits\<close>)
qed

lemma give_back_facts:
  assumes inv: "inv d" and w: "w \<in> wallet_ids d" and n: "0 \<le> n"
    and g: "\<forall>g. grant = Some g \<longrightarrow> g \<in> set (txns d) \<and> txn_wallet g = w"
  shows "inv (give_back now w n grant row ev d)" "wallet_ids (give_back now w n grant row ev d) = wallet_ids d"
    "outstanding_debt (give_back now w n grant row ev d) v = outstanding_debt d v"
    "grant = Some t \<Longrightarrow> find (\<lambda>l. lot_grant l = Some (txn_id t)) (lots d) = Some l \<Longrightarrow> At now < lot_expires l \<Longrightarrow>
      live_balance (give_back now w n grant row ev d) v now = live_balance d v now + (if v = w then n else 0)"
proof -
  obtain src e where r: "restore_lot w n grant d = create_lot w src n e (map_option txn_id grant) d"
    and e: "\<And>l. find (\<lambda>l. lot_grant l = Some (txn_id (the grant))) (lots d) = Some l \<Longrightarrow> grant \<noteq> None \<Longrightarrow> e = lot_expires l"
    using restore_lot_create[of w n grant d] by blast
  define d1 where "d1 = snd (create_lot w src n e (map_option txn_id grant) d)"
  define d2 where "d2 = snd (expire_due_lots w now d1)"
  define d3 where "d3 = snd (sync_balance w now d2)"
  define meta where "meta = [(''dispute_won'', JBool True), (''reverses'', JStr (uuid_str (txn_id row))),
            (''stripe_event_id'', opt_json ev)]"
  define c where "c = create_txn w (Some (next_id d)) ADJUSTMENT None n (live_balance d2 w now)
      (Some ''Dispute won: credits restored'') meta [] now d3"
  have eq: "give_back now w n grant row ev d = snd c"
    unfolding give_back_def r Let_def split_beta create_lot_frame(6) sync_balance_fst
    by (simp add: c_def d3_def d2_def d1_def meta_def)
  note wf = inv_wf[OF inv]
  have wf1: "wf_db d1" unfolding d1_def using n g by (intro wf_create_lot[OF wf w]) auto
  have w1: "w \<in> wallet_ids d1" using w by (simp add: d1_def wallet_ids_def create_lot_frame)
  have s2: "spends d1 d2" unfolding d2_def by (rule expire_spends[OF wf1 w1])
  have s3: "spends d2 d3" unfolding d3_def by (rule spends_sync[OF spends_wf[OF wf1 s2]])
  have s13: "spends d1 d3" by (rule spends_trans[OF s2 s3])
  have w3: "w \<in> wallet_ids d3" using w1 spends_wallet_ids[OF s13] by simp
  have s4: "spends d3 (snd c)" unfolding c_def by (rule spends_create_txn[OF spends_wf[OF wf1 s13] w3])
  note s = spends_trans[OF s13 s4]
  have ids1: "wallet_ids d1 = wallet_ids d" by (simp add: d1_def wallet_ids_def create_lot_frame)
  show "wallet_ids (give_back now w n grant row ev d) = wallet_ids d"
    unfolding eq using spends_wallet_ids[OF s] ids1 by simp
  have "debts (snd c) = debts d"
    by (simp add: c_def create_txn_frame d3_def sync_balance_frame d2_def expire_debts d1_def create_lot_frame)
  then show "outstanding_debt (give_back now w n grant row ev d) v = outstanding_debt d v"
    unfolding eq by (rule outstanding_cong)
  have lots4: "lots (snd c) = lots d2" by (simp add: c_def create_txn_frame d3_def sync_balance_frame)
  have led: "ledger_total (snd c) u = ledger_total d2 u + (if u = w then n else 0)" for u
    by (simp add: c_def ledger_create_txn d3_def sync_totals)
  have "balanced (snd c) u" for u
  proof -
    have "lot_total (snd c) u - ledger_total (snd c) u = lot_total d u - ledger_total d u"
      using totals_cong(1)[OF lots4, of u] led[of u] expire_totals[OF wf_lots_ok[OF wf1], of w now u]
      by (simp add: d2_def d1_def create_lot_sum)
    moreover have "reserved (snd c) u = reserved d u"
      using spends_reserved[OF s, of u] by (simp add: d1_def create_lot_sum)
    moreover have "balanced d u" using inv by (simp add: inv_def)
    ultimately show ?thesis unfolding balanced_def by linarith
  qed
  moreover have "holds_ok (snd c)"
    using spends_holds_ok[OF s] inv by (simp add: inv_def holds_ok_def alloc_total_def d1_def create_lot_frame)
  ultimately show "inv (give_back now w n grant row ev d)"
    unfolding eq inv_def using spends_wf[OF wf1 s] by blast
  assume gr: "grant = Some t" "find (\<lambda>l. lot_grant l = Some (txn_id t)) (lots d) = Some l" "At now < lot_expires l"
  then have e': "At now < e" using e by simp
  have "live_balance (snd c) v now = live_balance d1 v now"
    using live_balance_cong[OF lots4] expire_live[OF wf1 w1, of now v] by (simp add: d2_def)
  also have "\<dots> = live_balance d v now + (if v = w then n else 0)"
    using create_lot_live[OF wf_lots_ok[OF wf] n, of w src e] e' by (simp add: d1_def)
  finally show "live_balance (give_back now w n grant row ev d) v now = live_balance d v now + (if v = w then n else 0)"
    unfolding eq .
qed

text \<open>
  A clawback row whose grant lies in its own wallet, as \<open>claw_back_grant\<close> writes it and a
  merge keeps it.
\<close>

definition clawback_row_ok :: "db \<Rightarrow> txn \<Rightarrow> bool" where
  "clawback_row_ok d row = (\<forall>g. by_uuid txn_id (get_json (txn_meta row) ''clawback_of'') (txns d) = Some g \<longrightarrow>
     txn_wallet g = txn_wallet row)"

definition reversed_debt :: "db \<Rightarrow> dict \<Rightarrow> debt option" where
  "reversed_debt d meta =
     (if dtruthy meta ''debt_id'' then by_uuid debt_id (get_json meta ''debt_id'') (debts d) else None)"

definition cancelled :: "time \<Rightarrow> string option \<Rightarrow> debt option \<Rightarrow> db \<Rightarrow> db" where
  "cancelled now ev ox d = (case ox of Some x \<Rightarrow> upd_debt (debt_id x) (cancel_debt now ev) d | None \<Rightarrow> d)"

definition collected_of :: "debt option \<Rightarrow> int" where
  "collected_of ox = (case ox of Some x \<Rightarrow> max (debt_initial x - debt_outstanding x) 0 | None \<Rightarrow> 0)"

lemma reverse_clawback_eq:
  assumes "get_row txn_id (txn_id row0) (txns d) = Some row" and "\<not> dtruthy (txn_meta row) ''reversed''"
    and "int_or_zero (dget (txn_meta row) ''reclaimed'') = Some rc" and "int_or_zero (dget (txn_meta row) ''requested'') = Some rq"
  shows "reverse_clawback now ev row0 d =
    (let ox = reversed_debt d (txn_meta row); given = rc + collected_of ox;
         d1 = cancelled now ev ox d;
         d2 = (if 0 < given then give_back now (txn_wallet row) given
                 (by_uuid txn_id (get_json (txn_meta row) ''clawback_of'') (txns d)) row ev d1 else d1);
         d3 = upd_txn (txn_id row) (\<lambda>y. y\<lparr>txn_meta := dset ''reversed_by'' (opt_json ev)
                (dset ''reversed'' (JInt rq) (txn_meta row))\<rparr>) d2
     in if 0 < given then (case settle_debts (txn_wallet row) now d3 of Inl e \<Rightarrow> Inl e | Inr (n, d4) \<Rightarrow> Inr (given, d4))
        else Inr (given, d3))"
  using assms
  by (simp add: reverse_clawback_def Let_def reversed_debt_def cancelled_def collected_of_def)

lemma cancelled_facts:
  assumes "inv d"
  shows "inv (cancelled now ev ox d)" "spends d (cancelled now ev ox d)" "lots (cancelled now ev ox d) = lots d"
    "txns (cancelled now ev ox d) = txns d"
proof -
  have s: "spends d (cancelled now ev ox d)"
    using spends_cancel[OF inv_wf[OF assms]] spends_refl[OF inv_wf[OF assms]]
    by (auto simp: cancelled_def split: option.splits)
  have f: "lots (cancelled now ev ox d) = lots d" "txns (cancelled now ev ox d) = txns d"
    by (auto simp: cancelled_def upd_debt_frame split: option.splits)
  from s f show "spends d (cancelled now ev ox d)" "lots (cancelled now ev ox d) = lots d" "txns (cancelled now ev ox d) = txns d"
    by simp_all
  show "inv (cancelled now ev ox d)"
    using totals_cong(1)[OF f(1)] totals_cong(2)[OF f(2)] by (intro inv_spends[OF assms s]) simp
qed

lemma reverse_clawback_inv:
  assumes inv: "inv d" and ok: "\<And>row. get_row txn_id (txn_id row0) (txns d) = Some row \<Longrightarrow> clawback_row_ok d row"
    and eq: "reverse_clawback now ev row0 d = Inr (n, d')"
  shows "inv d'"
proof -
  from eq obtain row where row: "get_row txn_id (txn_id row0) (txns d) = Some row"
    by (auto simp: reverse_clawback_def split: option.splits)
  show ?thesis
  proof (cases "dtruthy (txn_meta row) ''reversed''")
    case True
    with eq row inv show ?thesis by (simp add: reverse_clawback_def Let_def)
  next
    case False
    with eq row obtain rc rq where i: "int_or_zero (dget (txn_meta row) ''reclaimed'') = Some rc"
      "int_or_zero (dget (txn_meta row) ''requested'') = Some rq"
      by (auto simp: reverse_clawback_def Let_def split: option.splits)
    define ox where "ox = reversed_debt d (txn_meta row)"
    define given where "given = rc + collected_of ox"
    define d1 where "d1 = cancelled now ev ox d"
    define grant where "grant = by_uuid txn_id (get_json (txn_meta row) ''clawback_of'') (txns d)"
    define d2 where "d2 = (if 0 < given then give_back now (txn_wallet row) given grant row ev d1 else d1)"
    define d3 where "d3 = upd_txn (txn_id row) (\<lambda>y. y\<lparr>txn_meta := dset ''reversed_by'' (opt_json ev)
                (dset ''reversed'' (JInt rq) (txn_meta row))\<rparr>) d2"
    have e: "(if 0 < given then (case settle_debts (txn_wallet row) now d3 of Inl e \<Rightarrow> Inl e | Inr (n, d4) \<Rightarrow> Inr (given, d4))
        else Inr (given, d3)) = Inr (n, d')"
      using eq unfolding reverse_clawback_eq[OF row False i] Let_def ox_def given_def d1_def grant_def d2_def d3_def by blast
    note c = cancelled_facts[OF inv, of now ev ox, folded d1_def]
    have w: "txn_wallet row \<in> wallet_ids d" using inv_wf[OF inv] get_row_Some[OF row] by (auto simp: wf_db_def txns_ok_def)
    then have w1: "txn_wallet row \<in> wallet_ids d1" using spends_wallet_ids[OF c(2)] by simp
    have g: "\<forall>g. grant = Some g \<longrightarrow> g \<in> set (txns d1) \<and> txn_wallet g = txn_wallet row"
      using ok[OF row] unfolding grant_def clawback_row_ok_def by_uuid_def c(4) find_Some_iff by auto
    have i2: "inv d2 \<and> wallet_ids d2 = wallet_ids d1"
      unfolding d2_def using give_back_facts(1,2)[OF c(1) w1 _ g] c(1) by simp
    then have i3: "inv d3" "wallet_ids d3 = wallet_ids d1"
      using inv_upd_txn_meta(1,2) by (simp_all add: d3_def)
    show ?thesis
    proof (cases "0 < given")
      case True
      with e obtain k where "settle_debts (txn_wallet row) now d3 = Inr (k, d')" by (auto split: sum.splits)
      with settle_inv[OF i3(1)] w1 i3(2) show ?thesis by simp
    next
      case False
      with e i3 show ?thesis by simp
    qed
  qed
qed
text \<open>
  What the reversal is worth: the wallet's net (live credits less debt) rises by what the
  clawback reclaimed plus the whole debt it opened, whether that debt was collected since or
  not, as long as the grant's own lots still run.
\<close>

lemma cancelled_owed:
  assumes "wf_db d" and "x \<in> set (debts d)" and "debt_settled x = None \<or> debt_outstanding x = 0"
  shows "outstanding_debt (cancelled now ev (Some x) d) v =
    outstanding_debt d v - (if v = debt_wallet x then debt_outstanding x else 0)"
proof -
  let ?g = "\<lambda>x. if debt_wallet x = v \<and> debt_settled x = None \<and> 0 < debt_outstanding x then debt_outstanding x else 0"
  have dist: "distinct (map debt_id (debts d))" and x0: "0 \<le> debt_outstanding x"
    using assms(1,2) by (auto simp: wf_db_def debts_ok_def)
  have "outstanding_debt (cancelled now ev (Some x) d) v = outstanding_debt d v + ?g (cancel_debt now ev x) - ?g x"
    using sum_list_upd_row[OF dist assms(2), of ?g "cancel_debt now ev"]
    by (simp add: outstanding_sum cancelled_def upd_debt_def)
  moreover have "?g (cancel_debt now ev x) - ?g x = - (if v = debt_wallet x then debt_outstanding x else 0)"
    using assms(3) x0 by (auto simp: cancel_debt_def)
  ultimately show ?thesis by simp
qed

lemma reverse_clawback_net:
  assumes inv: "inv d" and row: "row \<in> set (txns d)" and fresh: "\<not> dtruthy (txn_meta row) ''reversed''"
    and i: "int_or_zero (dget (txn_meta row) ''reclaimed'') = Some rc" "int_or_zero (dget (txn_meta row) ''requested'') = Some rq"
    and rc: "0 \<le> rc" and ok: "clawback_row_ok d row"
    and grant: "by_uuid txn_id (get_json (txn_meta row) ''clawback_of'') (txns d) = Some t"
    and lot: "find (\<lambda>l. lot_grant l = Some (txn_id t)) (lots d) = Some l" "At now < lot_expires l"
    and debt: "\<And>x. reversed_debt d (txn_meta row) = Some x \<Longrightarrow>
      debt_wallet x = txn_wallet row \<and> (debt_settled x = None \<or> debt_outstanding x = 0)"
  shows "\<exists>n d'. reverse_clawback now ev row d = Inr (n, d') \<and> inv d' \<and>
    live_balance d' (txn_wallet row) now - outstanding_debt d' (txn_wallet row) =
    live_balance d (txn_wallet row) now - outstanding_debt d (txn_wallet row) + rc +
      (case reversed_debt d (txn_meta row) of None \<Rightarrow> 0 | Some x \<Rightarrow> debt_initial x)"
proof -
  let ?w = "txn_wallet row"
  define ox where "ox = reversed_debt d (txn_meta row)"
  define given where "given = rc + collected_of ox"
  define d1 where "d1 = cancelled now ev ox d"
  define d2 where "d2 = (if 0 < given then give_back now ?w given (Some t) row ev d1 else d1)"
  define d3 where "d3 = upd_txn (txn_id row) (\<lambda>y. y\<lparr>txn_meta := dset ''reversed_by'' (opt_json ev)
                (dset ''reversed'' (JInt rq) (txn_meta row))\<rparr>) d2"
  note wf = inv_wf[OF inv]
  have gr: "get_row txn_id (txn_id row) (txns d) = Some row"
    using wf row by (intro get_row_distinct) (auto simp: wf_db_def txns_ok_def)
  have xm: "x \<in> set (debts d)" if "ox = Some x" for x
    using that unfolding ox_def reversed_debt_def by_uuid_def by (auto simp: find_Some_iff split: if_splits)
  have col: "0 \<le> collected_of ox" by (simp add: collected_of_def split: option.splits)
  have e: "reverse_clawback now ev row d =
     (if 0 < given then (case settle_debts ?w now d3 of Inl e \<Rightarrow> Inl e | Inr (n, d4) \<Rightarrow> Inr (given, d4)) else Inr (given, d3))"
    unfolding reverse_clawback_eq[OF gr fresh i] Let_def ox_def given_def d1_def d2_def d3_def grant by (rule refl)
  note c = cancelled_facts[OF inv, of now ev ox, folded d1_def]
  have w: "?w \<in> wallet_ids d" using wf row by (auto simp: wf_db_def txns_ok_def)
  then have w1: "?w \<in> wallet_ids d1" using spends_wallet_ids[OF c(2)] by simp
  have tg: "t \<in> set (txns d1) \<and> txn_wallet t = ?w"
    using grant ok unfolding clawback_row_ok_def by_uuid_def c(4) find_Some_iff by auto
  have g: "\<forall>g. Some t = Some g \<longrightarrow> g \<in> set (txns d1) \<and> txn_wallet g = ?w" using tg by simp
  have lot1: "find (\<lambda>l. lot_grant l = Some (txn_id t)) (lots d1) = Some l" using lot(1) c(3) by simp
  have live1: "live_balance d1 ?w now = live_balance d ?w now" by (rule live_balance_cong[OF c(3)])
  have owed1: "outstanding_debt d1 ?w = outstanding_debt d ?w - (case ox of None \<Rightarrow> 0 | Some x \<Rightarrow> debt_outstanding x)"
  proof (cases ox)
    case None
    then show ?thesis by (simp add: d1_def cancelled_def)
  next
    case (Some x)
    with debt[of x] cancelled_owed[OF wf xm[OF Some], of now ev ?w] show ?thesis by (simp add: ox_def d1_def)
  qed
  have gv0: "0 \<le> given" using rc col by (simp add: given_def)
  note gb = give_back_facts[OF c(1) w1 gv0 g]
  have f2: "inv d2" "wallet_ids d2 = wallet_ids d1" "outstanding_debt d2 ?w = outstanding_debt d1 ?w"
    "live_balance d2 ?w now = live_balance d ?w now + given"
    using gb(1-3) gb(4)[OF _ lot1 lot(2)] c(1) live1 gv0 by (auto simp: d2_def)
  have f3: "inv d3" "?w \<in> wallet_ids d3" "account_of d3 ?w now = account_of d2 ?w now"
    using inv_upd_txn_meta[OF f2(1)] f2(2) w1 by (simp_all add: d3_def)
  have sum: "given + (case ox of None \<Rightarrow> 0 | Some x \<Rightarrow> debt_outstanding x) = rc + (case ox of None \<Rightarrow> 0 | Some x \<Rightarrow> debt_initial x)"
    using xm wf by (cases ox) (auto simp: given_def collected_of_def wf_db_def debts_ok_def)
  have net3: "live_balance d3 ?w now - outstanding_debt d3 ?w =
      live_balance d ?w now - outstanding_debt d ?w + rc + (case ox of None \<Rightarrow> 0 | Some x \<Rightarrow> debt_initial x)"
    using f3(3) f2(3,4) owed1 sum by (simp add: account_of_def)
  show ?thesis
  proof (cases "0 < given")
    case False
    with e f3 net3 show ?thesis by (auto simp: ox_def)
  next
    case True
    from settle_debts_result[OF inv_wf[OF f3(1)] f3(2), of now] obtain k d4 where
      s: "settle_debts ?w now d3 = Inr (k, d4)" by blast
    have "live_balance d4 ?w now - outstanding_debt d4 ?w = live_balance d3 ?w now - outstanding_debt d3 ?w"
      using settle_account(1)[OF inv_wf[OF f3(1)] f3(2) s] by (simp add: account_of_def spec_settle_def Let_def)
    with True e s net3 settle_inv[OF f3(1,2) s] show ?thesis by (auto simp: ox_def)
  qed
qed

text \<open>A second reversal of the same row gives nothing back.\<close>

lemma reverse_clawback_idle:
  assumes "get_row txn_id (txn_id row0) (txns d) = Some row" and "dtruthy (txn_meta row) ''reversed''"
  shows "reverse_clawback now ev row0 d = Inr (0, d)"
  using assms by (simp add: reverse_clawback_def Let_def)

subsection \<open>No clawback touches a hold\<close>

lemma expire_holds_frame [frame]: "holds (snd (expire_due_lots w now d)) = holds d"
proof -
  have "holds (expire_walk w now ls running x) = holds x" for ls running x
    by (induction ls arbitrary: running x) (simp_all add: Let_def split_beta create_txn_frame upd_lot_def)
  then show ?thesis by (simp add: expire_due_lots_snd sync_balance_frame)
qed

lemma claw_back_grant_holds: "holds (snd (claw_back_grant now t credits desc m d)) = holds d"
proof -
  have "holds (snd (book_debt w n reason ty desc key x y)) = holds y" for w n reason ty desc key x y
    by (simp add: book_debt_def Let_def split_beta open_debt_def upd_debt_def upd_txn_def)
  then show ?thesis
    unfolding claw_back_grant_def Let_def split_beta
    by (simp add: create_txn_frame sync_balance_frame fold_take_frame expire_holds_frame)
qed

lemma handle_clawback_holds: "holds (handle_clawback now event label d) = holds d"
proof (cases rule: handle_clawback_cases[of now event label d])
  case (2 d1)
  have "holds (fold (claw_back_remaining now obj label ev) gs x) = holds x" for obj ev gs x
  proof (induction gs arbitrary: x)
    case (Cons g gs)
    have "holds (claw_back_remaining now obj label ev g x) = holds x"
      by (simp add: claw_back_remaining_def Let_def claw_back_grant_holds)
    with Cons show ?case by simp
  qed simp
  moreover have "holds d1 = holds d" using claim_frame[OF 2(1)] by auto
  ultimately show ?thesis using 2(2) by simp
qed simp

lemma give_back_holds: "holds (give_back now w n grant row ev d) = holds d"
proof -
  obtain src e where "restore_lot w n grant d = create_lot w src n e (map_option txn_id grant) d"
    by (rule restore_lot_create[of w n grant d])
  then show ?thesis
    unfolding give_back_def Let_def split_beta
    by (simp add: create_txn_frame sync_balance_frame expire_holds_frame create_lot_frame)
qed

lemma settle_debts_holds: "settle_debts w now d = Inr (n, d') \<Longrightarrow> holds d' = holds d"
proof -
  have "holds d' = holds d" if "settle_walk w now xs c d = Inr (n, d')" for xs c
    using that
  proof (induction xs arbitrary: c d)
    case (Cons x xs)
    have "holds (settle_step w now x a taken d1) = holds d1" for a taken d1
      by (simp add: settle_step_def create_txn_frame upd_debt_frame sync_balance_frame)
    with Cons show ?case
      by (auto simp: settle_walk_Cons consume_lots_frame split: if_splits sum.splits)
  qed simp
  then show "settle_debts w now d = Inr (n, d') \<Longrightarrow> holds d' = holds d"
    by (auto simp: settle_debts_def Let_def split: if_splits)
qed

lemma reverse_clawback_holds:
  assumes "reverse_clawback now ev row0 d = Inr (n, d')"
  shows "holds d' = holds d"
proof -
  from assms obtain row where row: "get_row txn_id (txn_id row0) (txns d) = Some row"
    by (auto simp: reverse_clawback_def split: option.splits)
  show ?thesis
  proof (cases "dtruthy (txn_meta row) ''reversed''")
    case True
    with assms row show ?thesis by (simp add: reverse_clawback_def Let_def)
  next
    case False
    with assms row obtain rc rq where i: "int_or_zero (dget (txn_meta row) ''reclaimed'') = Some rc"
      "int_or_zero (dget (txn_meta row) ''requested'') = Some rq"
      by (auto simp: reverse_clawback_def Let_def split: option.splits)
    define ox where "ox = reversed_debt d (txn_meta row)"
    define given where "given = rc + collected_of ox"
    define d1 where "d1 = cancelled now ev ox d"
    define d2 where "d2 = (if 0 < given then give_back now (txn_wallet row) given
        (by_uuid txn_id (get_json (txn_meta row) ''clawback_of'') (txns d)) row ev d1 else d1)"
    define d3 where "d3 = upd_txn (txn_id row) (\<lambda>y. y\<lparr>txn_meta := dset ''reversed_by'' (opt_json ev)
                (dset ''reversed'' (JInt rq) (txn_meta row))\<rparr>) d2"
    have e: "(if 0 < given then (case settle_debts (txn_wallet row) now d3 of Inl e \<Rightarrow> Inl e | Inr (n, d4) \<Rightarrow> Inr (given, d4))
        else Inr (given, d3)) = Inr (n, d')"
      using assms unfolding reverse_clawback_eq[OF row False i] Let_def ox_def given_def d1_def d2_def d3_def by blast
    have "holds d1 = holds d" by (simp add: d1_def cancelled_def upd_debt_frame split: option.splits)
    then have "holds d3 = holds d" by (simp add: d3_def d2_def upd_txn_def give_back_holds)
    with e settle_debts_holds show ?thesis by (auto split: if_splits sum.splits)
  qed
qed

end
