(* ===== verification/Payload.thy ===== *)
theory Payload
  imports Clawback
begin

section \<open>Reading a provider's payload (services.py: the readers before the webhook handlers)\<close>

text \<open>
  A payload is the dictionary the provider sent. The readers look where each API version of
  the provider keeps a fact; a fact the payload does not carry is \<open>None\<close>, never a made-up
  value. \<open>obj.get(k) or {}\<close> is \<open>dobj obj k\<close>: positions the provider documents as objects
  hold an object, null or nothing (the code raises \<open>AttributeError\<close> on anything else, and
  the delivery is retried). Timestamps are the provider's whole seconds, and the model's
  instants are microseconds; JSON numbers are integers.
\<close>

definition epoch_to_datetime :: "json option \<Rightarrow> time option" where
  "epoch_to_datetime ts = (case ts of Some (JInt n) \<Rightarrow> Some (n * 1000000) | _ \<Rightarrow> None)"

definition future_or_none :: "time \<Rightarrow> time option \<Rightarrow> deadline" where
  "future_or_none now value = (case value of None \<Rightarrow> Never | Some t \<Rightarrow> if now < t then At t else Never)"

definition provider_id :: "json option \<Rightarrow> string option" where
  "provider_id v =
     (case (case v of Some (JObj d) \<Rightarrow> dget d ''id'' | _ \<Rightarrow> v) of
        Some (JStr s) \<Rightarrow> if s = [] then None else Some s
      | _ \<Rightarrow> None)"

fun first_some :: "('a \<Rightarrow> 'b option) \<Rightarrow> 'a list \<Rightarrow> 'b option" where
  "first_some f [] = None"
| "first_some f (x # xs) = (case f x of Some y \<Rightarrow> Some y | None \<Rightarrow> first_some f xs)"

fun as_object :: "json \<Rightarrow> dict" where
  "as_object (JObj d) = d"
| "as_object _ = []"

definition invoice_lines :: "dict \<Rightarrow> dict list" where
  "invoice_lines obj = map as_object (darr (dobj obj ''lines'') ''data'')"

definition line_subscription :: "dict \<Rightarrow> string option" where
  "line_subscription line =
     first_some provider_id
       (map (\<lambda>key. dget (dobj (dobj line ''parent'') key) ''subscription'')
          [''subscription_item_details'', ''invoice_item_details''] @ [dget line ''subscription''])"

definition invoice_subscription_id :: "dict \<Rightarrow> string option" where
  "invoice_subscription_id obj =
     (case provider_id (dget obj ''subscription'') of
        Some s \<Rightarrow> Some s
      | None \<Rightarrow>
          (case provider_id (dget (dobj (dobj obj ''parent'') ''subscription_details'') ''subscription'') of
             Some s \<Rightarrow> Some s
           | None \<Rightarrow> first_some line_subscription (invoice_lines obj)))"

definition invoice_period_end :: "dict \<Rightarrow> time option" where
  "invoice_period_end obj =
     (case first_some (\<lambda>line. epoch_to_datetime (dget (dobj line ''period'') ''end'')) (invoice_lines obj) of
        Some t \<Rightarrow> Some t | None \<Rightarrow> epoch_to_datetime (dget obj ''period_end''))"

definition invoice_period_start :: "dict \<Rightarrow> time option" where
  "invoice_period_start obj =
     (case first_some (\<lambda>line. epoch_to_datetime (dget (dobj line ''period'') ''start'')) (invoice_lines obj) of
        Some t \<Rightarrow> Some t | None \<Rightarrow> epoch_to_datetime (dget obj ''period_start''))"

definition invoice_document_url :: "dict \<Rightarrow> string" where
  "invoice_document_url obj =
     (case first_some
         (\<lambda>key. case dget obj key of Some (JStr s) \<Rightarrow> if strip s = [] then None else Some (strip s) | _ \<Rightarrow> None)
         [''hosted_invoice_url'', ''invoice_pdf'', ''receipt_url''] of
        Some url \<Rightarrow> url | None \<Rightarrow> [])"

subsection \<open>The billing period of a subscription object\<close>

text \<open>The subscription's own window widened by the window of each of its items.\<close>

definition widen :: "(time \<Rightarrow> time \<Rightarrow> bool) \<Rightarrow> time option \<Rightarrow> time option \<Rightarrow> time option" where
  "widen beyond item acc =
     (case item of
        None \<Rightarrow> acc
      | Some t \<Rightarrow> (case acc of None \<Rightarrow> Some t | Some a \<Rightarrow> if beyond t a then Some t else Some a))"

fun period_step :: "json \<Rightarrow> time option \<times> time option \<Rightarrow> time option \<times> time option" where
  "period_step (JObj item) (start, until) =
     (widen (<) (epoch_to_datetime (dget item ''current_period_start'')) start,
      widen (>) (epoch_to_datetime (dget item ''current_period_end'')) until)"
| "period_step _ acc = acc"

definition stripe_period :: "dict \<Rightarrow> time option \<times> time option" where
  "stripe_period obj =
     fold period_step (darr (dobj obj ''items'') ''data'')
       (epoch_to_datetime (dget obj ''current_period_start''), epoch_to_datetime (dget obj ''current_period_end''))"

text \<open>Each applies what the payload says to the row and names the fields that changed.\<close>

definition apply_stripe_period :: "dict \<Rightarrow> subscription \<Rightarrow> string list \<times> subscription" where
  "apply_stripe_period obj s =
     (let (start, until) = stripe_period obj;
          move_start = (start \<noteq> None \<and> start \<noteq> sub_period_start s);
          move_end = (until \<noteq> None \<and> until \<noteq> sub_period_end s)
      in ((if move_start then [''current_period_start''] else []) @ (if move_end then [''current_period_end''] else []),
          s\<lparr>sub_period_start := if move_start then start else sub_period_start s,
            sub_period_end := if move_end then until else sub_period_end s\<rparr>))"

definition apply_stripe_cancellation :: "dict \<Rightarrow> subscription \<Rightarrow> string list \<times> subscription" where
  "apply_stripe_cancellation obj s =
     (let flag = dget obj ''cancel_at_period_end'';
          cancelled = epoch_to_datetime (dget obj ''canceled_at'');
          (c1, s1) = (case flag of
              Some (JBool b) \<Rightarrow> if b \<noteq> sub_cancel_at_end s then ([''cancel_at_period_end''], s\<lparr>sub_cancel_at_end := b\<rparr>)
                                else ([], s)
            | _ \<Rightarrow> ([], s))
      in if cancelled \<noteq> None \<and> cancelled \<noteq> sub_cancelled_at s1
         then (c1 @ [''cancelled_at''], s1\<lparr>sub_cancelled_at := cancelled\<rparr>)
         else if cancelled = None \<and> flag = Some (JBool False) \<and> sub_cancelled_at s1 \<noteq> None
         then (c1 @ [''cancelled_at''], s1\<lparr>sub_cancelled_at := None\<rparr>)
         else (c1, s1))"

subsection \<open>What is announced\<close>

text \<open>\<open>_announce_extras\<close> drops the keys whose value is \<open>None\<close> or the empty text.\<close>

definition announce_extras :: "dict \<Rightarrow> dict" where
  "announce_extras values = filter (\<lambda>(k, v). v \<noteq> JNull \<and> v \<noteq> JStr []) values"

definition opt_time :: "time option \<Rightarrow> json" where
  "opt_time t = (case t of None \<Rightarrow> JNull | Some x \<Rightarrow> JTime x)"

definition announce_payment :: "uid \<Rightarrow> txn \<Rightarrow> int \<Rightarrow> string \<Rightarrow> dict \<Rightarrow> db \<Rightarrow> db" where
  "announce_payment u t amount currency extra d =
     emit ''payment.completed''
       (dmerge
          [(''user_id'', JStr u), (''amount_cents'', JInt amount), (''currency'', JStr currency),
           (''transaction_id'', JStr (uuid_str (txn_id t))), (''created_at'', JTime (txn_created t))]
          extra)
       u d"

text \<open>\<open>str(sub.user_id)\<close> of a detached row is the text \<open>None\<close>.\<close>

definition sub_user_text :: "subscription \<Rightarrow> string" where
  "sub_user_text s = (case sub_user s of None \<Rightarrow> ''None'' | Some u \<Rightarrow> u)"

definition announce_subscription :: "subscription \<Rightarrow> db \<Rightarrow> db" where
  "announce_subscription s d =
     emit ''subscription.changed''
       [(''user_id'', JStr (sub_user_text s)), (''plan'', JStr (sub_plan s)),
        (''status'', JStr (sub_status_value (sub_status s))),
        (''current_period_end'', opt_time (sub_period_end s)),
        (''cancel_at_period_end'', JBool (sub_cancel_at_end s))]
       (sub_user_text s) d"

subsection \<open>Facts about the readers\<close>

lemma first_some_None: "first_some f xs = None \<longleftrightarrow> (\<forall>x \<in> set xs. f x = None)"
  by (induction xs) (auto split: option.splits)

lemma first_some_Some: "first_some f xs = Some y \<Longrightarrow> \<exists>x \<in> set xs. f x = Some y"
  by (induction xs) (auto split: option.splits)

text \<open>The window contains the subscription's own and every item's: service is owed to the last end.\<close>

lemma widen_grows:
  "acc = Some a \<Longrightarrow> \<exists>b. widen (>) item acc = Some b \<and> a \<le> b"
  "acc = Some a \<Longrightarrow> \<exists>b. widen (<) item acc = Some b \<and> b \<le> a"
  by (auto simp: widen_def split: option.splits)

lemma widen_covers:
  "item = Some t \<Longrightarrow> \<exists>b. widen (>) item acc = Some b \<and> t \<le> b"
  "item = Some t \<Longrightarrow> \<exists>b. widen (<) item acc = Some b \<and> b \<le> t"
  by (auto simp: widen_def split: option.splits)

lemma period_fold_grows:
  assumes "snd acc = Some a"
  shows "\<exists>b. snd (fold period_step items acc) = Some b \<and> a \<le> b"
  using assms
proof (induction items arbitrary: acc a)
  case (Cons x items)
  have "\<exists>b. snd (period_step x acc) = Some b \<and> a \<le> b"
    using Cons.prems by (cases acc; cases x) (auto intro: widen_grows)
  then obtain b where "snd (period_step x acc) = Some b" "a \<le> b" by blast
  with Cons.IH[OF this(1)] show ?case by force
qed simp

lemma period_fold_covers:
  assumes "JObj item \<in> set items" and "epoch_to_datetime (dget item ''current_period_end'') = Some t"
  shows "\<exists>b. snd (fold period_step items acc) = Some b \<and> t \<le> b"
  using assms
proof (induction items arbitrary: acc)
  case (Cons x items)
  show ?case
  proof (cases "x = JObj item")
    case True
    from widen_covers(1)[OF Cons.prems(2)] obtain b where "snd (period_step x acc) = Some b" "t \<le> b"
      by (cases acc) (auto simp: True)
    with period_fold_grows[OF this(1)] show ?thesis by force
  next
    case False
    with Cons show ?thesis by simp
  qed
qed simp

lemma stripe_period_covers:
  assumes "JObj item \<in> set (darr (dobj obj ''items'') ''data'')"
    and "epoch_to_datetime (dget item ''current_period_end'') = Some t"
  shows "\<exists>b. snd (stripe_period obj) = Some b \<and> t \<le> b"
  unfolding stripe_period_def by (rule period_fold_covers[OF assms])

lemma emit_frame [simp]:
  "wallets (emit t p k d) = wallets d" "lots (emit t p k d) = lots d" "txns (emit t p k d) = txns d"
  "holds (emit t p k d) = holds d" "allocs (emit t p k d) = allocs d" "debts (emit t p k d) = debts d"
  "subs (emit t p k d) = subs d" "grants (emit t p k d) = grants d" "pendings (emit t p k d) = pendings d"
  "comps (emit t p k d) = comps d" "events (emit t p k d) = events d" "next_id (emit t p k d) = next_id d"
  by (simp_all add: emit_def)

lemma announce_frame [simp]:
  "subs (announce_subscription s d) = subs d" "lots (announce_subscription s d) = lots d"
  "pendings (announce_subscription s d) = pendings d" "wallets (announce_subscription s d) = wallets d"
  "txns (announce_subscription s d) = txns d" "grants (announce_subscription s d) = grants d"
  by (simp_all add: announce_subscription_def)

end
