(* ===== verification/Subscriptions.thy ===== *)
theory Subscriptions
  imports Payload
begin

section \<open>The subscription lifecycle (services.py: provider-time ordering, stash, handlers)\<close>

text \<open>
  The local subscription row mirrors a provider object that describes itself in events which
  arrive in any order. The row keeps the provider's clock of the newest event applied to it
  (\<open>sub_last_event\<close>); an event older than that is acknowledged and dropped. A handler that
  drops one leaves a mark for the event log (the \<open>_stale_event\<close> context variable): handlers
  answer that mark with the database.
\<close>

definition STRIPE_STATUS_MAP :: "(string \<times> sub_status) list" where
  "STRIPE_STATUS_MAP =
     [(''active'', ACTIVE), (''trialing'', TRIALING), (''past_due'', PAST_DUE), (''canceled'', CANCELLED),
      (''incomplete'', INCOMPLETE), (''incomplete_expired'', INCOMPLETE_EXPIRED), (''unpaid'', UNPAID),
      (''paused'', PAUSED)]"

definition map_stripe_status :: "json option \<Rightarrow> sub_status option \<Rightarrow> sub_status option" where
  "map_stripe_status raw current =
     (case raw of
        Some (JStr s) \<Rightarrow> (case map_of STRIPE_STATUS_MAP s of Some m \<Rightarrow> Some m | None \<Rightarrow> current)
      | _ \<Rightarrow> current)"

fun LIFECYCLE_RANK :: "sub_status \<Rightarrow> int" where
  "LIFECYCLE_RANK INCOMPLETE = 0"
| "LIFECYCLE_RANK INCOMPLETE_EXPIRED = 1"
| "LIFECYCLE_RANK TRIALING = 2"
| "LIFECYCLE_RANK ACTIVE = 3"
| "LIFECYCLE_RANK PAST_DUE = 4"
| "LIFECYCLE_RANK UNPAID = 5"
| "LIFECYCLE_RANK PAUSED = 6"
| "LIFECYCLE_RANK CANCELLED = 7"

definition provider_event_time :: "dict \<Rightarrow> time option" where
  "provider_event_time event = epoch_to_datetime (dget event ''created'')"

subsection \<open>Staleness and the provider clock\<close>

definition is_stale_lifecycle_event :: "subscription \<Rightarrow> dict \<Rightarrow> json option \<Rightarrow> bool" where
  "is_stale_lifecycle_event s event incoming_status =
     (case (provider_event_time event, sub_last_event s) of
        (Some moment, Some seen) \<Rightarrow>
          if seen < moment then False
          else if moment < seen then True
          else (case map_stripe_status incoming_status None of
                  None \<Rightarrow> False
                | Some incoming \<Rightarrow> LIFECYCLE_RANK incoming < LIFECYCLE_RANK (sub_status s))
      | _ \<Rightarrow> False)"

definition drop_stale :: "subscription \<Rightarrow> dict \<Rightarrow> dict \<Rightarrow> bool" where
  "drop_stale s event obj = is_stale_lifecycle_event s event (dget obj ''status'')"

definition advance_provider_clock :: "time option \<Rightarrow> subscription \<Rightarrow> string list \<times> subscription" where
  "advance_provider_clock moment s =
     (case moment of
        None \<Rightarrow> ([], s)
      | Some t \<Rightarrow>
          (case sub_last_event s of
             Some l \<Rightarrow> if t \<le> l then ([], s) else ([''last_provider_event_at''], s\<lparr>sub_last_event := Some t\<rparr>)
           | None \<Rightarrow> ([''last_provider_event_at''], s\<lparr>sub_last_event := Some t\<rparr>)))"

subsection \<open>Which row\<close>

text \<open>
  An id of the payload as the text the lookups compare and the columns store. A text that is
  empty, null or absent is no id.
\<close>

definition id_text :: "json option \<Rightarrow> string option" where
  "id_text v =
     (case v of
        Some (JStr s) \<Rightarrow> if s = [] then None else Some s
      | Some (JInt n) \<Rightarrow> if n = 0 then None else Some (int_str n)
      | _ \<Rightarrow> None)"

definition sub_by_stripe_id :: "db \<Rightarrow> string \<Rightarrow> subscription option" where
  "sub_by_stripe_id d i = find (\<lambda>s. sub_stripe_id s = Some i) (subs d)"

definition sub_by_customer :: "db \<Rightarrow> string \<Rightarrow> subscription option" where
  "sub_by_customer d c = find (\<lambda>s. sub_customer_id s = Some c) (subs d)"

definition sub_of_user :: "db \<Rightarrow> uid \<Rightarrow> subscription option" where
  "sub_of_user d u = find (\<lambda>s. sub_user s = Some u) (subs d)"

definition unset :: "string option \<Rightarrow> bool" where
  "unset v = (v = None \<or> v = Some [])"

definition save_sub :: "subscription \<Rightarrow> db \<Rightarrow> db" where
  "save_sub s d = upd_sub (sub_id s) (\<lambda>_. s) d"

text \<open>A row found by its customer or its user adopts the ids it does not carry yet.\<close>

definition adopt_id :: "string option \<Rightarrow> string option \<Rightarrow> string option" where
  "adopt_id incoming kept = (if incoming \<noteq> None \<and> unset kept then incoming else kept)"

definition resolve_local_subscription :: "dict \<Rightarrow> db \<Rightarrow> subscription option \<times> db" where
  "resolve_local_subscription obj d =
     (let sid = id_text (dget obj ''id''); customer = id_text (dget obj ''customer'');
          user = id_text (dget (dobj obj ''metadata'') ''user_id'')
      in case Option.bind sid (sub_by_stripe_id d) of
           Some s \<Rightarrow> (Some s, d)
         | None \<Rightarrow>
             (case Option.bind customer (sub_by_customer d) of
                Some s \<Rightarrow> (let s' = s\<lparr>sub_stripe_id := adopt_id sid (sub_stripe_id s)\<rparr> in (Some s', save_sub s' d))
              | None \<Rightarrow>
                  (case Option.bind user (sub_of_user d) of
                     Some s \<Rightarrow>
                       (let s' = s\<lparr>sub_stripe_id := adopt_id sid (sub_stripe_id s),
                                   sub_customer_id := adopt_id customer (sub_customer_id s)\<rparr>
                        in (Some s', save_sub s' d))
                   | None \<Rightarrow> (None, d))))"

subsection \<open>Dating the credits of a subscription\<close>

text \<open>
  \<open>_stamp_subscription_period\<close>: the live undated subscription lots that this subscription
  granted to its owner's wallet get the end of the period. A detached row (no user) matches
  the wallets that lost their user, as the query compares the two columns.
\<close>

definition to_stamp :: "subscription \<Rightarrow> db \<Rightarrow> lot \<Rightarrow> bool" where
  "to_stamp s d l =
     ((\<exists>w \<in> set (wallets d). w_id w = lot_wallet l \<and> w_user w = sub_user s) \<and>
      lot_source l = SUBSCRIPTION \<and> lot_expires l = Never \<and> 0 < lot_remaining l \<and>
      (\<exists>t \<in> set (txns d). lot_grant l = Some (txn_id t) \<and>
         dget (txn_meta t) ''stripe_subscription_id'' = Some (opt_json (sub_stripe_id s))))"

definition stamp_subscription_period :: "subscription \<Rightarrow> db \<Rightarrow> int \<times> db" where
  "stamp_subscription_period s d =
     (case sub_period_end s of
        None \<Rightarrow> (0, d)
      | Some e \<Rightarrow>
          if unset (sub_stripe_id s) then (0, d)
          else (int (length (filter (to_stamp s d) (lots d))),
                d\<lparr>lots := map (\<lambda>l. if to_stamp s d l then l\<lparr>lot_expires := At e\<rparr> else l) (lots d)\<rparr>))"

subsection \<open>Parked periods\<close>

definition pending_of :: "db \<Rightarrow> string \<Rightarrow> pending_period option" where
  "pending_of d i = find (\<lambda>p. pp_stripe_id p = i) (pendings d)"

definition id_or_empty :: "json option \<Rightarrow> string" where
  "id_or_empty v = (case id_text v of None \<Rightarrow> [] | Some s \<Rightarrow> s)"

definition newer_parked :: "time option \<Rightarrow> pending_period \<Rightarrow> bool" where
  "newer_parked moment p =
     (case (moment, pp_event_at p) of (Some t, Some e) \<Rightarrow> t < e | _ \<Rightarrow> False)"

text \<open>\<open>update_or_create\<close>: the stash of the subscription is overwritten, or a new one appended.\<close>

definition set_pending :: "dict \<Rightarrow> time option \<Rightarrow> pending_period \<Rightarrow> pending_period" where
  "set_pending obj moment p =
     (let (start, until) = stripe_period obj
      in p\<lparr>pp_customer_id := id_or_empty (dget obj ''customer''), pp_status := id_or_empty (dget obj ''status''),
           pp_event_at := (if moment = None then pp_event_at p else moment),
           pp_start := (if start = None then pp_start p else start),
           pp_end := (if until = None then pp_end p else until)\<rparr>)"

definition new_pending :: "string \<Rightarrow> pending_period" where
  "new_pending i = \<lparr>pp_stripe_id = i, pp_customer_id = [], pp_status = [], pp_start = None, pp_end = None, pp_event_at = None\<rparr>"

definition stash_subscription_period :: "dict \<Rightarrow> dict \<Rightarrow> db \<Rightarrow> bool \<times> db" where
  "stash_subscription_period obj event d =
     (case id_text (dget obj ''id'') of
        None \<Rightarrow> (False, d)
      | Some i \<Rightarrow>
          (let moment = provider_event_time event
           in case pending_of d i of
                None \<Rightarrow> (False, d\<lparr>pendings := pendings d @ [set_pending obj moment (new_pending i)]\<rparr>)
              | Some p \<Rightarrow>
                  if newer_parked moment p then (True, d)
                  else (False, d\<lparr>pendings := map (\<lambda>q. if pp_stripe_id q = i then set_pending obj moment q else q)
                                    (pendings d)\<rparr>)))"

text \<open>What a parked period makes of the row it belongs to, and the fields it changed.\<close>

definition take_pending :: "pending_period \<Rightarrow> subscription \<Rightarrow> string list \<times> subscription" where
  "take_pending p s =
     (let move_start = (pp_start p \<noteq> None \<and> pp_start p \<noteq> sub_period_start s);
          move_end = (pp_end p \<noteq> None \<and> pp_end p \<noteq> sub_period_end s);
          s1 = s\<lparr>sub_period_start := if move_start then pp_start p else sub_period_start s,
                 sub_period_end := if move_end then pp_end p else sub_period_end s\<rparr>;
          stale = (case (pp_event_at p, sub_last_event s) of (Some e, Some l) \<Rightarrow> e < l | _ \<Rightarrow> False);
          mapped = map_stripe_status (Some (JStr (pp_status p))) (Some (sub_status s));
          move_status = (\<not> stale \<and> mapped \<noteq> None \<and> mapped \<noteq> Some (sub_status s));
          s2 = (if move_status then s1\<lparr>sub_status := the mapped\<rparr> else s1);
          (clock, s3) = (if stale then ([], s2) else advance_provider_clock (pp_event_at p) s2)
      in ((if move_start then [''current_period_start''] else []) @ (if move_end then [''current_period_end''] else []) @
          (if move_status then [''status''] else []) @ clock, s3))"

definition apply_pending_period :: "subscription \<Rightarrow> db \<Rightarrow> (bool \<times> subscription) \<times> db" where
  "apply_pending_period s d =
     (if unset (sub_stripe_id s) then ((False, s), d)
      else (case pending_of d (the (sub_stripe_id s)) of
              None \<Rightarrow> ((False, s), d)
            | Some p \<Rightarrow>
                (let (changed, s') = take_pending p s;
                     d1 = (if changed = [] then d else snd (stamp_subscription_period s' (save_sub s' d)))
                 in ((changed \<noteq> [], s'),
                     d1\<lparr>pendings := filter (\<lambda>q. pp_stripe_id q \<noteq> pp_stripe_id p) (pendings d1)\<rparr>))))"

subsection \<open>The handlers\<close>

definition updated_row :: "dict \<Rightarrow> subscription \<Rightarrow> subscription" where
  "updated_row event s =
     (let obj = event_object event;
          s1 = (case map_stripe_status (dget obj ''status'') (Some (sub_status s)) of
                  Some st \<Rightarrow> s\<lparr>sub_status := st\<rparr> | None \<Rightarrow> s)
      in snd (advance_provider_clock (provider_event_time event)
           (snd (apply_stripe_cancellation obj (snd (apply_stripe_period obj s1))))))"

definition save_lifecycle :: "subscription \<Rightarrow> db \<Rightarrow> db" where
  "save_lifecycle s d = announce_subscription s (snd (stamp_subscription_period s (save_sub s d)))"

definition handle_subscription_updated :: "dict \<Rightarrow> db \<Rightarrow> bool \<times> db" where
  "handle_subscription_updated event d =
     (let obj = event_object event; (found, d1) = resolve_local_subscription obj d
      in case found of
           None \<Rightarrow> stash_subscription_period obj event d1
         | Some s \<Rightarrow> if drop_stale s event obj then (True, d1) else (False, save_lifecycle (updated_row event s) d1))"

definition deleted_row :: "time \<Rightarrow> dict \<Rightarrow> subscription \<Rightarrow> subscription" where
  "deleted_row now event s =
     (let obj = event_object event;
          ended = (case epoch_to_datetime (dget obj ''canceled_at'') of Some t \<Rightarrow> t | None \<Rightarrow> now);
          s1 = s\<lparr>sub_status := CANCELLED, sub_cancelled_at := Some ended, sub_cancel_at_end := False\<rparr>
      in snd (advance_provider_clock (provider_event_time event) (snd (apply_stripe_period obj s1))))"

definition handle_subscription_deleted :: "time \<Rightarrow> dict \<Rightarrow> db \<Rightarrow> bool \<times> db" where
  "handle_subscription_deleted now event d =
     (let obj = event_object event; (found, d1) = resolve_local_subscription obj d
      in case found of
           None \<Rightarrow> stash_subscription_period obj event d1
         | Some s \<Rightarrow>
             if drop_stale s event (dset ''status'' (JStr ''canceled'') obj) then (True, d1)
             else (False, save_lifecycle (deleted_row now event s) d1))"

subsection \<open>Reconciliation against the provider\<close>

definition RECONCILED_FIELDS :: "string list" where
  "RECONCILED_FIELDS =
     [''status'', ''current_period_start'', ''current_period_end'', ''cancel_at_period_end'', ''cancelled_at'']"

definition reconciled_field :: "subscription \<Rightarrow> string \<Rightarrow> json" where
  "reconciled_field s f =
     (if f = ''status'' then JStr (sub_status_value (sub_status s))
      else if f = ''current_period_start'' then opt_time (sub_period_start s)
      else if f = ''current_period_end'' then opt_time (sub_period_end s)
      else if f = ''cancel_at_period_end'' then JBool (sub_cancel_at_end s)
      else opt_time (sub_cancelled_at s))"

record subscription_reconciliation =
  rc_subscription :: string
  rc_stripe_id :: string
  rc_before :: dict
  rc_after :: dict
  rc_changed :: "string list"
  rc_applied :: bool
  rc_missing :: bool
  rc_error :: "string option"

definition field_values :: "subscription \<Rightarrow> dict" where
  "field_values s = map (\<lambda>f. (f, reconciled_field s f)) RECONCILED_FIELDS"

definition reconcilable_subscriptions :: "string list \<Rightarrow> db \<Rightarrow> subscription list" where
  "reconcilable_subscriptions ids d =
     filter (\<lambda>s. \<not> unset (sub_stripe_id s) \<and> (ids = [] \<or> (\<exists>i \<in> set ids. sub_stripe_id s = Some i))) (subs d)"

definition provider_row :: "dict \<Rightarrow> subscription \<Rightarrow> string list \<times> subscription" where
  "provider_row obj s =
     (let s1 = (case map_stripe_status (dget obj ''status'') (Some (sub_status s)) of
                  Some st \<Rightarrow> s\<lparr>sub_status := st\<rparr> | None \<Rightarrow> s);
          (c1, s2) = apply_stripe_period obj s1; (c2, s3) = apply_stripe_cancellation obj s2
      in (''status'' # c1 @ c2, s3))"

text \<open>
  One row: the provider's answer is the object, nothing, or a raise (its text). The write is
  the repaired row with its clock, stamped and announced when a field changed.
\<close>

definition reconcile_one ::
    "bool \<Rightarrow> time \<Rightarrow> (string \<Rightarrow> string + dict option) \<Rightarrow> subscription \<Rightarrow> db \<Rightarrow> subscription_reconciliation \<times> db" where
  "reconcile_one dry_run now fetch s d =
     (let sid = (case sub_stripe_id s of Some i \<Rightarrow> i | None \<Rightarrow> []); before = field_values s;
          result = \<lparr>rc_subscription = uuid_str (sub_id s), rc_stripe_id = sid, rc_before = before, rc_after = before,
                    rc_changed = [], rc_applied = False, rc_missing = False, rc_error = None\<rparr>
      in case fetch sid of
           Inl e \<Rightarrow> (result\<lparr>rc_error := Some e\<rparr>, d)
         | Inr None \<Rightarrow> (result\<lparr>rc_missing := True\<rparr>, d)
         | Inr (Some obj) \<Rightarrow>
             (let (touched, s1) = provider_row obj s;
                  changed = filter (\<lambda>f. f \<in> set touched \<and> reconciled_field s1 f \<noteq> reconciled_field s f) RECONCILED_FIELDS;
                  (clock, s2) = (if dry_run then ([], s1) else advance_provider_clock (Some now) s1);
                  result1 = result\<lparr>rc_after := field_values s1, rc_changed := changed\<rparr>
              in if changed \<noteq> [] \<and> \<not> dry_run then (result1\<lparr>rc_applied := True\<rparr>, save_lifecycle s2 d)
                 else if clock \<noteq> [] then (result1, save_sub s2 d)
                 else (result1, d)))"

fun reconcile_all ::
    "bool \<Rightarrow> time \<Rightarrow> (string \<Rightarrow> string + dict option) \<Rightarrow> subscription list \<Rightarrow> db \<Rightarrow> subscription_reconciliation list \<times> db" where
  "reconcile_all dry_run now fetch [] d = ([], d)"
| "reconcile_all dry_run now fetch (s # rest) d =
     (let (r, d1) = reconcile_one dry_run now fetch s d; (rs, d2) = reconcile_all dry_run now fetch rest d1
      in (r # rs, d2))"

definition reconcile_subscriptions ::
    "bool \<Rightarrow> string list \<Rightarrow> time \<Rightarrow> (string \<Rightarrow> string + dict option) \<Rightarrow> db \<Rightarrow> subscription_reconciliation list \<times> db" where
  "reconcile_subscriptions dry_run ids now fetch d = reconcile_all dry_run now fetch (reconcilable_subscriptions ids d) d"

end
