(* ===== verification/Checkout.thy ===== *)
theory Checkout
  imports Subscriptions
begin

section \<open>Paid grants: checkout sessions and renewal invoices (services.py)\<close>

text \<open>
  What turns a provider's word that money arrived into credits. A checkout session names its
  buyer and what was bought in the metadata the host set; it is compared with the catalogue
  before anything is granted, and claimed once. A renewal invoice grants the plan's month,
  once per invoice. Handlers are \<open>@transaction.atomic\<close>: a raise leaves nothing behind.
\<close>

subsection \<open>Does the session match what was sold?\<close>

definition SETTLED_PAYMENT_STATUSES :: "string list" where
  "SETTLED_PAYMENT_STATUSES = [''paid'', ''no_payment_required'']"

datatype mismatch =
    ModeMismatch json string
  | NotSettled json
  | CurrencyMismatch string string
  | AmountNotInteger json
  | DiscountNotInteger json
  | AmountMismatch int int int

text \<open>\<open>(obj.get("currency") or "").lower()\<close>.\<close>

definition currency_text :: "dict \<Rightarrow> string" where
  "currency_text obj = lower (case dstr obj ''currency'' of Some s \<Rightarrow> s | None \<Rightarrow> [])"

definition or_zero :: "json option \<Rightarrow> json" where
  "or_zero v = (case v of Some x \<Rightarrow> if truthy x then x else JInt 0 | None \<Rightarrow> JInt 0)"

definition reconcile_checkout_session ::
    "settings \<Rightarrow> dict \<Rightarrow> string \<Rightarrow> string \<Rightarrow> int option \<Rightarrow> mismatch option" where
  "reconcile_checkout_session cf obj expected_mode expected_currency expected_amount =
     (if \<not> strict_checkout_reconciliation cf then None
      else if get_json obj ''mode'' \<noteq> JStr expected_mode then Some (ModeMismatch (get_json obj ''mode'') expected_mode)
      else if get_json obj ''payment_status'' \<notin> JStr ` set SETTLED_PAYMENT_STATUSES
      then Some (NotSettled (get_json obj ''payment_status''))
      else if currency_text obj \<noteq> lower expected_currency
      then Some (CurrencyMismatch (currency_text obj) (lower expected_currency))
      else case expected_amount of
             None \<Rightarrow> None
           | Some expected \<Rightarrow>
               (case get_json obj ''amount_total'' of
                  JInt charged \<Rightarrow>
                    (case or_zero (dget (dobj obj ''total_details'') ''amount_discount'') of
                       JInt discount \<Rightarrow>
                         if charged + discount \<noteq> expected then Some (AmountMismatch charged discount expected) else None
                     | v \<Rightarrow> Some (DiscountNotInteger v))
                | v \<Rightarrow> Some (AmountNotInteger v)))"

subsection \<open>A completed checkout\<close>

text \<open>\<open>str(value)\<close> of a metadata value.\<close>

fun py_str :: "json \<Rightarrow> string" where
  "py_str (JStr s) = s"
| "py_str (JBool b) = (if b then ''True'' else ''False'')"
| "py_str (JInt n) = int_str n"
| "py_str JNull = ''None''"
| "py_str _ = ''''"

definition simulated_flag :: "dict \<Rightarrow> bool" where
  "simulated_flag metadata =
     (lower (case dget metadata ''simulated'' of None \<Rightarrow> '''' | Some v \<Rightarrow> py_str v) \<in> set [''1'', ''true'', ''yes''])"

text \<open>The user the session is for, or \<open>None\<close> when it names nobody or contradicts itself.\<close>

definition session_owner :: "settings \<Rightarrow> dict \<Rightarrow> user option" where
  "session_owner cf obj =
     (case id_text (dget (dobj obj ''metadata'') ''user_id'') of
        None \<Rightarrow> None
      | Some u \<Rightarrow>
          (case find_user cf u of
             None \<Rightarrow> None
           | Some user \<Rightarrow>
               (let reference = get_json obj ''client_reference_id''
                in if truthy reference \<and> py_str reference \<noteq> u then None else Some user)))"

definition session_package :: "settings \<Rightarrow> dict \<Rightarrow> credit_package option" where
  "session_package cf obj =
     (case dstr (dobj obj ''metadata'') ''package'' of
        None \<Rightarrow> None | Some slug \<Rightarrow> if slug = [] then None else package_by_slug (cf_packages cf) slug)"

definition session_plan :: "settings \<Rightarrow> dict \<Rightarrow> plan_entry option" where
  "session_plan cf obj =
     (case dstr (dobj obj ''metadata'') ''plan'' of None \<Rightarrow> None | Some slug \<Rightarrow> get_plan (cf_plans cf) slug)"

definition claim_session :: "dict \<Rightarrow> db \<Rightarrow> bool \<times> db" where
  "claim_session obj d = claim_provider_object SCOPE_CHECKOUT_SESSION (id_text (dget obj ''id'')) ''stripe'' d"

definition package_credit :: "dict \<Rightarrow> user \<Rightarrow> credit_package \<Rightarrow> credit_req" where
  "package_credit obj user pkg =
     \<lparr>cr_user = user, cr_credits = cp_credits pkg, cr_type = CREDIT_PURCHASE, cr_source = PURCHASE,
      cr_desc = Some (''Purchase: '' @ cp_name pkg), cr_amount = Some (cp_price_cents pkg),
      cr_meta = [(''package'', JStr (cp_slug pkg)), (''stripe_session_id'', get_json obj ''id''),
                 (''stripe_payment_intent'', get_json obj ''payment_intent''),
                 (''simulated'', JBool (simulated_flag (dobj obj ''metadata'')))],
      cr_expires = Never, cr_key = [], cr_settle = True\<rparr>"

text \<open>The package branch: \<open>None\<close> is the early return of the handler.\<close>

definition checkout_package :: "settings \<Rightarrow> time \<Rightarrow> dict \<Rightarrow> user \<Rightarrow> credit_package \<Rightarrow> db \<Rightarrow> error + bool \<times> db" where
  "checkout_package cf now obj user pkg d =
     (if reconcile_checkout_session cf obj ''payment'' (cp_currency pkg) (Some (cp_price_cents pkg)) \<noteq> None
      then Inr (False, d)
      else let (won, d1) = claim_session obj d
           in if \<not> won then Inr (False, d1)
              else case credit cf now (package_credit obj user pkg) d1 of
                     Inl e \<Rightarrow> Inl e
                   | Inr (t, d2) \<Rightarrow>
                       Inr (True, announce_payment (u_id user) t (cp_price_cents pkg) (lower (cp_currency pkg))
                         ([(''package'', JStr (cp_slug pkg))] @
                          (if simulated_flag (dobj obj ''metadata'') then [(''simulated'', JBool True)] else [])) d2))"

text \<open>\<open>Subscription.objects.update_or_create(user=user, defaults=defaults)\<close> with its unique columns.\<close>

definition column_text :: "json option \<Rightarrow> string option" where
  "column_text v = (case v of Some (JStr s) \<Rightarrow> Some s | Some (JInt n) \<Rightarrow> Some (int_str n) | _ \<Rightarrow> None)"

definition column_taken :: "(subscription \<Rightarrow> string option) \<Rightarrow> string option \<Rightarrow> uuid \<Rightarrow> db \<Rightarrow> bool" where
  "column_taken col v i d = (\<not> unset v \<and> (\<exists>s \<in> set (subs d). sub_id s \<noteq> i \<and> col s = v))"

definition new_subscription :: "uuid \<Rightarrow> uid \<Rightarrow> string \<Rightarrow> subscription" where
  "new_subscription i u slug =
     \<lparr>sub_id = i, sub_user = Some u, sub_pseudonym = [], sub_plan = slug, sub_status = ACTIVE, sub_stripe_id = None,
      sub_customer_id = None, sub_last_event = None, sub_period_start = None, sub_period_end = None,
      sub_cancel_at_end = False, sub_cancelled_at = None\<rparr>"

definition latest :: "time \<Rightarrow> time option \<Rightarrow> time" where
  "latest t previous = (case previous of None \<Rightarrow> t | Some p \<Rightarrow> max t p)"

definition checkout_row :: "dict \<Rightarrow> bool \<Rightarrow> string \<Rightarrow> subscription \<Rightarrow> subscription" where
  "checkout_row event stale slug s =
     (let obj = event_object event
      in s\<lparr>sub_plan := slug,
           sub_status := (if stale then sub_status s else ACTIVE),
           sub_customer_id := column_text (dget obj ''customer''),
           sub_stripe_id := column_text (dget obj ''subscription''),
           sub_last_event := (case provider_event_time event of
                                None \<Rightarrow> sub_last_event s
                              | Some t \<Rightarrow> if stale then sub_last_event s else Some (latest t (sub_last_event s)))\<rparr>)"

definition checkout_stale :: "dict \<Rightarrow> subscription option \<Rightarrow> bool" where
  "checkout_stale event existing =
     (case existing of None \<Rightarrow> False | Some s \<Rightarrow> is_stale_lifecycle_event s event (Some (JStr ''active'')))"

definition subscribe :: "dict \<Rightarrow> user \<Rightarrow> string \<Rightarrow> db \<Rightarrow> error + subscription \<times> db" where
  "subscribe event user slug d =
     (let existing = sub_of_user d (u_id user); stale = checkout_stale event existing;
          s = checkout_row event stale slug
                (case existing of Some x \<Rightarrow> x | None \<Rightarrow> new_subscription (next_id d) (u_id user) slug)
      in if column_taken sub_stripe_id (sub_stripe_id s) (sub_id s) d \<or>
            column_taken sub_customer_id (sub_customer_id s) (sub_id s) d
         then Inl IntegrityError
         else Inr (s, if existing = None then d\<lparr>subs := subs d @ [s], next_id := Suc (next_id d)\<rparr> else save_sub s d))"

definition bundle_credit :: "time \<Rightarrow> dict \<Rightarrow> user \<Rightarrow> string \<Rightarrow> plan_entry \<Rightarrow> int \<Rightarrow> subscription \<Rightarrow> credit_req" where
  "bundle_credit now obj user slug plan charged s =
     \<lparr>cr_user = user, cr_credits = pe_monthly plan, cr_type = SUBSCRIPTION_BONUS, cr_source = SUBSCRIPTION,
      cr_desc = Some (''Plan bonus: '' @ slug), cr_amount = Some charged,
      cr_meta = [(''plan'', JStr slug), (''stripe_subscription_id'', opt_json (sub_stripe_id s)),
                 (''stripe_invoice_id'', get_json obj ''invoice''), (''stripe_session_id'', get_json obj ''id'')],
      cr_expires = future_or_none now (sub_period_end s), cr_key = [], cr_settle = True\<rparr>"

definition charged_or :: "json \<Rightarrow> int \<Rightarrow> int" where
  "charged_or v price = (case v of JInt n \<Rightarrow> n | _ \<Rightarrow> price)"

definition checkout_bundle ::
    "settings \<Rightarrow> time \<Rightarrow> dict \<Rightarrow> user \<Rightarrow> plan_entry \<Rightarrow> subscription \<Rightarrow> db \<Rightarrow> error + db" where
  "checkout_bundle cf now obj user plan s d =
     (if pe_monthly plan = 0 then Inr d
      else let slug = pe_slug plan; charged = charged_or (get_json obj ''amount_total'') (pe_price_cents plan)
           in case credit cf now (bundle_credit now obj user slug plan charged s) d of
                Inl e \<Rightarrow> Inl e
              | Inr (t, d1) \<Rightarrow>
                  Inr (announce_payment (u_id user) t charged (lower (pe_currency plan)) [(''plan'', JStr slug)] d1))"

text \<open>The plan branch; the mark of a stale session is answered.\<close>

definition checkout_plan :: "settings \<Rightarrow> time \<Rightarrow> dict \<Rightarrow> user \<Rightarrow> plan_entry \<Rightarrow> db \<Rightarrow> error + bool \<times> db" where
  "checkout_plan cf now event user plan d =
     (let obj = event_object event
      in if reconcile_checkout_session cf obj ''subscription'' (pe_currency plan) None \<noteq> None then Inr (False, d)
         else let (won, d1) = claim_session obj d
              in if \<not> won then Inr (False, d1)
                 else case subscribe event user (pe_slug plan) d1 of
                        Inl e \<Rightarrow> Inl e
                      | Inr (s, d2) \<Rightarrow>
                          (let ((changed, s'), d3) = apply_pending_period s d2
                           in case checkout_bundle cf now obj user plan s' d3 of
                                Inl e \<Rightarrow> Inl e
                              | Inr d4 \<Rightarrow> Inr (checkout_stale event (sub_of_user d1 (u_id user)),
                                             announce_subscription s' d4)))"

definition handle_checkout_completed :: "settings \<Rightarrow> time \<Rightarrow> dict \<Rightarrow> db \<Rightarrow> error + bool \<times> db" where
  "handle_checkout_completed cf now event d =
     (let obj = event_object event
      in case session_owner cf obj of
           None \<Rightarrow> Inr (False, d)
         | Some user \<Rightarrow>
             (case (case session_package cf obj of
                      None \<Rightarrow> Inr (True, d) | Some pkg \<Rightarrow> checkout_package cf now obj user pkg d) of
                Inl e \<Rightarrow> Inl e
              | Inr (go_on, d1) \<Rightarrow>
                  if \<not> go_on then Inr (False, d1)
                  else case session_plan cf obj of
                         None \<Rightarrow> Inr (False, d1)
                       | Some plan \<Rightarrow> checkout_plan cf now event user plan d1))"

subsection \<open>Money that arrived\<close>

text \<open>\<open>metadata__k=False\<close> or no key \<open>k\<close> at all.\<close>

definition not_flagged :: "dict \<Rightarrow> string \<Rightarrow> bool" where
  "not_flagged m k = (dget m k = Some (JBool False) \<or> dget m k = None)"

definition real_money :: "txn list \<Rightarrow> txn list" where
  "real_money ts = filter (\<lambda>t. not_flagged (txn_meta t) ''simulated'' \<and> not_flagged (txn_meta t) ''comped'') ts"

subsection \<open>A staff member's purchase without the card\<close>

record simulated_purchase =
  sp_transaction :: "string option"
  sp_credits :: int
  sp_balance :: int
  sp_session :: string

text \<open>The session id is random text (\<open>uuid4().hex\<close>), an argument here.\<close>

definition simulated_session :: "string \<Rightarrow> user \<Rightarrow> credit_package \<Rightarrow> string \<Rightarrow> dict" where
  "simulated_session hex user pkg actor =
     [(''id'', JStr (''cs_simulated_'' @ hex)), (''mode'', JStr ''payment''), (''payment_status'', JStr ''paid''),
      (''status'', JStr ''complete''), (''currency'', JStr (lower (cp_currency pkg))),
      (''amount_total'', JInt (cp_price_cents pkg)), (''client_reference_id'', JStr (u_id user)),
      (''payment_intent'', JNull),
      (''metadata'', JObj [(''user_id'', JStr (u_id user)), (''package'', JStr (cp_slug pkg)),
                          (''simulated'', JStr ''true''), (''simulated_by'', JStr actor)])]"

definition simulate_checkout_completed ::
    "settings \<Rightarrow> time \<Rightarrow> string \<Rightarrow> user \<Rightarrow> string \<Rightarrow> string \<Rightarrow> db \<Rightarrow> error + simulated_purchase \<times> db" where
  "simulate_checkout_completed cf now hex user package actor d =
     (case package_by_slug (cf_packages cf) package of
        None \<Rightarrow> Inl (ValueError (''unknown credit package '' @ package))
      | Some pkg \<Rightarrow>
          (let session = simulated_session hex user pkg actor; sid = ''cs_simulated_'' @ hex
           in case handle_checkout_completed cf now [(''data'', JObj [(''object'', JObj session)])] d of
                Inl e \<Rightarrow> Inl e
              | Inr (stale, d1) \<Rightarrow>
                  (let found = find (\<lambda>t. dget (txn_meta t) ''stripe_session_id'' = Some (JStr sid) \<and>
                         (\<exists>w \<in> set (wallets d1). w_id w = txn_wallet t \<and> w_user w = Some (u_id user))) (rev (txns d1));
                       (w, d2) = get_or_create_wallet (u_id user) d1
                   in Inr (\<lparr>sp_transaction = map_option (\<lambda>t. uuid_str (txn_id t)) found,
                            sp_credits = (case found of None \<Rightarrow> 0 | Some t \<Rightarrow> txn_delta t),
                            sp_balance = wallet_balance d2 w, sp_session = sid\<rparr>, d2))))"

subsection \<open>A paid renewal invoice\<close>

definition renewal_credit :: "time \<Rightarrow> dict \<Rightarrow> user \<Rightarrow> plan_entry \<Rightarrow> string \<Rightarrow> int \<Rightarrow> subscription \<Rightarrow> credit_req" where
  "renewal_credit now obj user plan sid amount s =
     \<lparr>cr_user = user, cr_credits = pe_monthly plan, cr_type = SUBSCRIPTION_BONUS, cr_source = SUBSCRIPTION,
      cr_desc = Some (''Plan renewal: '' @ sub_plan s), cr_amount = Some amount,
      cr_meta = [(''plan'', JStr (sub_plan s)), (''stripe_subscription_id'', JStr sid),
                 (''stripe_invoice_id'', get_json obj ''id'')],
      cr_expires = future_or_none now
        (case invoice_period_end obj of Some e \<Rightarrow> Some e | None \<Rightarrow> sub_period_end s),
      cr_key = [], cr_settle = True\<rparr>"

text \<open>A renewal of a row that lost its user reads an attribute of \<open>None\<close> and raises.\<close>

definition renew :: "settings \<Rightarrow> time \<Rightarrow> dict \<Rightarrow> string \<Rightarrow> subscription \<Rightarrow> plan_entry \<Rightarrow> db \<Rightarrow> error + db" where
  "renew cf now obj sid s plan d =
     (let (won, d1) = claim_provider_object SCOPE_INVOICE (id_text (dget obj ''id'')) ''stripe'' d
      in if \<not> won then Inr d1
         else case Option.bind (sub_user s) (find_user cf) of
                None \<Rightarrow> Inl (HandlerError ''AttributeError'')
              | Some user \<Rightarrow>
                  (let amount = charged_or (get_json obj ''amount_paid'') (pe_price_cents plan)
                   in case credit cf now (renewal_credit now obj user plan sid amount s) d1 of
                        Inl e \<Rightarrow> Inl e
                      | Inr (t, d2) \<Rightarrow>
                          Inr (announce_payment (u_id user) t amount
                            (lower (case dstr obj ''currency'' of
                                      Some c \<Rightarrow> if c = [] then pe_currency plan else c | None \<Rightarrow> pe_currency plan))
                            ((''plan'', JStr (sub_plan s)) # announce_extras
                               [(''invoice_url'', JStr (invoice_document_url obj)),
                                (''period_start'', opt_time (invoice_period_start obj)),
                                (''period_end'', opt_time (invoice_period_end obj))]) d2)))"

definition handle_invoice_paid :: "settings \<Rightarrow> time \<Rightarrow> dict \<Rightarrow> db \<Rightarrow> error + db" where
  "handle_invoice_paid cf now event d =
     (let obj = event_object event
      in case invoice_subscription_id obj of
           None \<Rightarrow> Inr d
         | Some sid \<Rightarrow>
             if dget obj ''billing_reason'' = Some (JStr ''subscription_create'') then Inr d
             else if get_json obj ''status'' \<noteq> JNull \<and> get_json obj ''status'' \<noteq> JStr ''paid'' then Inr d
             else case sub_by_stripe_id d sid of
                    None \<Rightarrow> Inr d
                  | Some s \<Rightarrow>
                      (case get_plan (cf_plans cf) (sub_plan s) of
                         None \<Rightarrow> Inr d
                       | Some plan \<Rightarrow> if pe_monthly plan = 0 then Inr d else renew cf now obj sid s plan d))"

end
