(* ===== verification/Lifecycle.thy ===== *)
theory Lifecycle
  imports Checkout "HOL-Library.Product_Lexorder"
begin

section \<open>Events applied in provider time, whatever order they arrive in\<close>

text \<open>
  The contract of a replica that keeps the newest thing it has seen (\<open>newest_wins\<close>): a
  message older than the replica's stamp is dropped, any other one is written whole. Then the
  state reached depends on the set of messages alone, not on their order or on how often each
  is delivered. The subscription row with the handlers' row updates is an instance, for
  events that carry a full description of the subscription.
\<close>

subsection \<open>The contract\<close>

locale newest_wins =
  fixes valid :: "'e \<Rightarrow> bool" and stamp :: "'e \<Rightarrow> 'k::linorder" and clock :: "'s \<Rightarrow> 'k option"
    and put :: "'e \<Rightarrow> 's \<Rightarrow> 's" and outdated :: "'e \<Rightarrow> 's \<Rightarrow> bool"
  assumes outdated_iff: "valid e \<Longrightarrow> outdated e s \<longleftrightarrow> (\<exists>k. clock s = Some k \<and> stamp e < k)"
    and clock_put: "valid e \<Longrightarrow> \<not> outdated e s \<Longrightarrow> clock (put e s) = Some (stamp e)"
    and put_put: "valid e \<Longrightarrow> valid e' \<Longrightarrow> \<not> outdated e' s \<Longrightarrow> stamp e' \<le> stamp e \<Longrightarrow> put e (put e' s) = put e s"
begin

definition receive :: "'e \<Rightarrow> 's \<Rightarrow> 's" where
  "receive e s = (if outdated e s then s else put e s)"

lemma receive_simps: "outdated e s \<Longrightarrow> receive e s = s" "\<not> outdated e s \<Longrightarrow> receive e s = put e s"
  by (simp_all add: receive_def)

lemma receive_newest:
  assumes "es \<noteq> []" and "\<forall>e \<in> set es. valid e" and "\<forall>a \<in> set es. \<forall>b \<in> set es. stamp a = stamp b \<longrightarrow> a = b"
    and "m \<in> set es" and "\<forall>e \<in> set es. stamp e \<le> stamp m"
  shows "fold receive es s = receive m s"
  using assms
proof (induction es arbitrary: s m)
  case (Cons x xs)
  show ?case
  proof (cases "xs = []")
    case True
    with Cons.prems show ?thesis by simp
  next
    case False
    have "finite (stamp ` set xs)" "stamp ` set xs \<noteq> {}" using False by auto
    then have "Max (stamp ` set xs) \<in> stamp ` set xs" by (rule Max_in)
    then obtain n where n: "n \<in> set xs" "stamp n = Max (stamp ` set xs)" by auto
    then have top: "\<forall>e \<in> set xs. stamp e \<le> stamp n" by simp
    have v: "valid x" "valid n" "valid m" using Cons.prems(2,4) n(1) by auto
    have IH: "fold receive xs (receive x s) = receive n (receive x s)"
      using Cons.IH[OF False _ _ n(1) top] Cons.prems(2,3) by simp
    have m: "m = (if stamp x \<le> stamp n then n else x)"
    proof -
      have "stamp m = (if stamp x \<le> stamp n then stamp n else stamp x)"
        using Cons.prems(4,5) n(1) top by (auto intro: antisym)
      with Cons.prems(3,4) n(1) show ?thesis by (auto split: if_splits)
    qed
    show ?thesis
    proof (cases "outdated x s")
      case True
      have "outdated n s" if "\<not> stamp x \<le> stamp n"
        using that True outdated_iff[OF v(1)] outdated_iff[OF v(2)] by (auto intro: less_trans)
      with True IH m show ?thesis by (auto simp: receive_simps)
    next
      case False
      with clock_put[OF v(1)] have k: "clock (put x s) = Some (stamp x)" by simp
      show ?thesis
      proof (cases "stamp x \<le> stamp n")
        case True
        have "\<not> outdated n s" using False True outdated_iff[OF v(1)] outdated_iff[OF v(2)] by force
        moreover have "\<not> outdated n (put x s)" using True k outdated_iff[OF v(2)] by auto
        ultimately show ?thesis
          using False True IH m put_put[OF v(2) v(1) False True] by (simp add: receive_simps)
      next
        case F: False
        then have "outdated n (put x s)" using k outdated_iff[OF v(2)] by auto
        with False F IH m show ?thesis by (simp add: receive_simps)
      qed
    qed
  qed
qed simp

text \<open>Two deliveries of one set of messages agree.\<close>

lemma order_irrelevant:
  assumes "set es = set es'" and "\<forall>e \<in> set es. valid e"
    and "\<forall>a \<in> set es. \<forall>b \<in> set es. stamp a = stamp b \<longrightarrow> a = b"
  shows "fold receive es s = fold receive es' s"
proof (cases "es = []")
  case False
  then have "finite (stamp ` set es)" "stamp ` set es \<noteq> {}" by auto
  then have "Max (stamp ` set es) \<in> stamp ` set es" by (rule Max_in)
  then obtain m where m: "m \<in> set es" "stamp m = Max (stamp ` set es)" by auto
  then have top: "\<forall>e \<in> set es. stamp e \<le> stamp m" by simp
  from False assms(1) have "es' \<noteq> []" by auto
  with receive_newest[OF False assms(2,3) m(1) top] receive_newest[of es' m s] assms m(1) top show ?thesis by simp
qed (use assms(1) in simp)

text \<open>What was applied never goes back.\<close>

lemma clock_grows:
  assumes "valid e" and "clock s = Some k"
  shows "\<exists>k'. clock (receive e s) = Some k' \<and> k \<le> k'"
  using assms outdated_iff[OF assms(1)] clock_put[OF assms(1)] by (auto simp: receive_def)

end

subsection \<open>The subscription row\<close>

text \<open>The lifecycle events and the row they make: \<open>.created\<close> and \<open>.updated\<close> share a handler.\<close>

datatype lifecycle_event = Updated dict | Deleted dict

fun event_of :: "lifecycle_event \<Rightarrow> dict" where
  "event_of (Updated e) = e"
| "event_of (Deleted e) = e"

fun announced_status :: "lifecycle_event \<Rightarrow> sub_status option" where
  "announced_status (Updated e) = map_stripe_status (dget (event_object e) ''status'') None"
| "announced_status (Deleted e) = Some CANCELLED"

fun outdated_event :: "lifecycle_event \<Rightarrow> subscription \<Rightarrow> bool" where
  "outdated_event (Updated e) s = drop_stale s e (event_object e)"
| "outdated_event (Deleted e) s = drop_stale s e (dset ''status'' (JStr ''canceled'') (event_object e))"

fun write_event :: "lifecycle_event \<Rightarrow> subscription \<Rightarrow> subscription" where
  "write_event (Updated e) s = updated_row e s"
| "write_event (Deleted e) s = deleted_row 0 e s"

text \<open>
  An event that describes the subscription in full: the provider's time, a known status, the
  whole period, the cancellation flag and, where it is set, the time of the cancellation.
\<close>

definition full_event :: "lifecycle_event \<Rightarrow> bool" where
  "full_event ev =
     (let obj = event_object (event_of ev)
      in provider_event_time (event_of ev) \<noteq> None \<and> announced_status ev \<noteq> None \<and>
         fst (stripe_period obj) \<noteq> None \<and> snd (stripe_period obj) \<noteq> None \<and>
         (case ev of
            Updated e \<Rightarrow> dget obj ''cancel_at_period_end'' = Some (JBool False) \<or>
              dget obj ''cancel_at_period_end'' = Some (JBool True) \<and> epoch_to_datetime (dget obj ''canceled_at'') \<noteq> None
          | Deleted e \<Rightarrow> epoch_to_datetime (dget obj ''canceled_at'') \<noteq> None))"

definition event_stamp :: "lifecycle_event \<Rightarrow> time \<times> int" where
  "event_stamp ev = (the (provider_event_time (event_of ev)), LIFECYCLE_RANK (the (announced_status ev)))"

definition row_clock :: "subscription \<Rightarrow> (time \<times> int) option" where
  "row_clock s = map_option (\<lambda>t. (t, LIFECYCLE_RANK (sub_status s))) (sub_last_event s)"

lemma map_stripe_status_default:
  "map_stripe_status raw None = Some st \<Longrightarrow> map_stripe_status raw c = Some st"
  by (auto simp: map_stripe_status_def split: option.splits json.splits)

lemma advance_clock_row:
  assumes "\<forall>l. sub_last_event s = Some l \<longrightarrow> l \<le> t"
  shows "snd (advance_provider_clock (Some t) s) = s\<lparr>sub_last_event := Some t\<rparr>"
  using assms by (auto simp: advance_provider_clock_def split: option.splits)

lemma period_row:
  assumes "stripe_period obj = (Some a, Some b)"
  shows "snd (apply_stripe_period obj s) = s\<lparr>sub_period_start := Some a, sub_period_end := Some b\<rparr>"
  using assms by (cases s) (simp add: apply_stripe_period_def Let_def)

lemma cancellation_row:
  assumes "dget obj ''cancel_at_period_end'' = Some (JBool b)" and "b \<longrightarrow> epoch_to_datetime (dget obj ''canceled_at'') \<noteq> None"
  shows "snd (apply_stripe_cancellation obj s) =
    s\<lparr>sub_cancel_at_end := b, sub_cancelled_at := epoch_to_datetime (dget obj ''canceled_at'')\<rparr>"
  using assms by (auto simp: apply_stripe_cancellation_def Let_def)

text \<open>A full event that is not outdated overwrites the whole lifecycle of the row.\<close>

definition described :: "lifecycle_event \<Rightarrow> subscription \<Rightarrow> subscription" where
  "described ev s =
     (let obj = event_object (event_of ev)
      in s\<lparr>sub_status := the (announced_status ev), sub_last_event := provider_event_time (event_of ev),
           sub_period_start := fst (stripe_period obj), sub_period_end := snd (stripe_period obj),
           sub_cancel_at_end := (case ev of Updated e \<Rightarrow> dget obj ''cancel_at_period_end'' = Some (JBool True)
                                          | Deleted e \<Rightarrow> False),
           sub_cancelled_at := epoch_to_datetime (dget obj ''canceled_at'')\<rparr>)"

lemma outdated_row_clock:
  assumes "full_event ev"
  shows "outdated_event ev s \<longleftrightarrow> (\<exists>k. row_clock s = Some k \<and> event_stamp ev < k)"
proof -
  obtain t st where t: "provider_event_time (event_of ev) = Some t" "announced_status ev = Some st"
    using assms by (auto simp: full_event_def Let_def)
  have "outdated_event ev s \<longleftrightarrow> (\<exists>l. sub_last_event s = Some l \<and> (t < l \<or> t = l \<and> LIFECYCLE_RANK st < LIFECYCLE_RANK (sub_status s)))"
  proof (cases ev)
    case (Updated e)
    with t show ?thesis
      by (auto simp: drop_stale_def is_stale_lifecycle_event_def split: option.splits)
  next
    case (Deleted e)
    with t show ?thesis
      by (auto simp: drop_stale_def is_stale_lifecycle_event_def map_stripe_status_def STRIPE_STATUS_MAP_def split: option.splits)
  qed
  then show ?thesis using t by (auto simp: row_clock_def event_stamp_def)
qed

lemma updated_row_full:
  assumes "provider_event_time e = Some t" and "map_stripe_status (dget (event_object e) ''status'') None = Some st"
    and "stripe_period (event_object e) = (Some a, Some b)"
    and "dget (event_object e) ''cancel_at_period_end'' = Some (JBool flag)"
    and "flag \<longrightarrow> epoch_to_datetime (dget (event_object e) ''canceled_at'') \<noteq> None"
    and "\<forall>l. sub_last_event s = Some l \<longrightarrow> l \<le> t"
  shows "updated_row e s = s\<lparr>sub_status := st, sub_period_start := Some a, sub_period_end := Some b,
    sub_cancel_at_end := flag, sub_cancelled_at := epoch_to_datetime (dget (event_object e) ''canceled_at''),
    sub_last_event := Some t\<rparr>"
  unfolding updated_row_def Let_def map_stripe_status_default[OF assms(2)] option.case
    period_row[OF assms(3)] cancellation_row[OF assms(4,5)] assms(1)
  by (subst advance_clock_row) (use assms(6) in simp_all)

lemma deleted_row_full:
  assumes "provider_event_time e = Some t" and "stripe_period (event_object e) = (Some a, Some b)"
    and "epoch_to_datetime (dget (event_object e) ''canceled_at'') = Some c"
    and "\<forall>l. sub_last_event s = Some l \<longrightarrow> l \<le> t"
  shows "deleted_row now e s = s\<lparr>sub_status := CANCELLED, sub_cancelled_at := Some c, sub_cancel_at_end := False,
    sub_period_start := Some a, sub_period_end := Some b, sub_last_event := Some t\<rparr>"
  unfolding deleted_row_def Let_def assms(1,3) option.case period_row[OF assms(2)]
  by (subst advance_clock_row) (use assms(4) in simp_all)

lemma write_full_event:
  assumes "full_event ev" and "\<not> outdated_event ev s"
  shows "write_event ev s = described ev s"
proof -
  let ?obj = "event_object (event_of ev)"
  obtain t st a b where t: "provider_event_time (event_of ev) = Some t" "announced_status ev = Some st"
    "stripe_period ?obj = (Some a, Some b)"
    using assms(1) by (cases "stripe_period ?obj") (auto simp: full_event_def Let_def)
  have seen: "\<forall>l. sub_last_event s = Some l \<longrightarrow> l \<le> t"
    using assms(2) outdated_row_clock[OF assms(1), of s] t by (auto simp: row_clock_def event_stamp_def not_less)
  show ?thesis
  proof (cases ev)
    case (Updated e)
    with assms(1) obtain flag where f: "dget (event_object e) ''cancel_at_period_end'' = Some (JBool flag)"
      "flag \<longrightarrow> epoch_to_datetime (dget (event_object e) ''canceled_at'') \<noteq> None"
      by (auto simp: full_event_def Let_def)
    from t Updated have e: "provider_event_time e = Some t" "map_stripe_status (dget (event_object e) ''status'') None = Some st"
      "stripe_period (event_object e) = (Some a, Some b)" by simp_all
    have "write_event ev s = updated_row e s" using Updated by simp
    also note updated_row_full[OF e f seen]
    finally show ?thesis using e f(1) Updated by (simp add: described_def Let_def)
  next
    case (Deleted e)
    with assms(1) obtain c where c: "epoch_to_datetime (dget (event_object e) ''canceled_at'') = Some c"
      by (auto simp: full_event_def Let_def)
    from t Deleted have e: "provider_event_time e = Some t" "stripe_period (event_object e) = (Some a, Some b)" by simp_all
    have "write_event ev s = deleted_row 0 e s" using Deleted by simp
    also note deleted_row_full[OF e c seen]
    finally show ?thesis using e c Deleted by (simp add: described_def Let_def)
  qed
qed

lemma described_twice: "described e (described e' s) = described e s"
  by (simp add: described_def Let_def)

lemma described_clock: "full_event e \<Longrightarrow> row_clock (described e s) = Some (event_stamp e)"
  by (auto simp: full_event_def described_def Let_def row_clock_def event_stamp_def)

interpretation newest_event: newest_wins full_event event_stamp row_clock write_event outdated_event
proof
  fix e e' and s :: subscription
  show "full_event e \<Longrightarrow> outdated_event e s \<longleftrightarrow> (\<exists>k. row_clock s = Some k \<and> event_stamp e < k)"
    by (rule outdated_row_clock)
  show "full_event e \<Longrightarrow> \<not> outdated_event e s \<Longrightarrow> row_clock (write_event e s) = Some (event_stamp e)"
    by (simp add: write_full_event described_clock)
  assume f: "full_event e" "full_event e'" and n: "\<not> outdated_event e' s" and le: "event_stamp e' \<le> event_stamp e"
  have "\<not> outdated_event e s" using n le outdated_row_clock[OF f(1)] outdated_row_clock[OF f(2)] by force
  moreover have "\<not> outdated_event e (described e' s)"
    using le described_clock[OF f(2)] outdated_row_clock[OF f(1)] by auto
  ultimately show "write_event e (write_event e' s) = write_event e s"
    using n f by (simp add: write_full_event described_twice)
qed

end
