(* ===== verification/Provider_Side.thy ===== *)
theory Provider_Side
  imports Lifecycle
begin

section \<open>The provider side of the database and the steps that move it\<close>

text \<open>
  The tables a payment provider's events act on (subscriptions, parked periods, claims,
  complimentary periods, the event log) are disjoint from the wallet's. A wallet operation
  leaves them alone (\<open>keeps\<close>); the handlers keep their unique columns unique
  (\<open>subs_ok\<close>) and never move a row's provider clock backwards (\<open>subs_move\<close>).
\<close>

subsection \<open>Wallet operations leave the provider's tables alone\<close>

definition keeps :: "db \<Rightarrow> db \<Rightarrow> bool" where
  "keeps d d' = (subs d' = subs d \<and> pendings d' = pendings d \<and> grants d' = grants d \<and> comps d' = comps d \<and>
     events d' = events d \<and> outbox d' = outbox d \<and> next_id d \<le> next_id d')"

lemma keeps_refl [intro!, simp]: "keeps d d"
  by (simp add: keeps_def)

lemma keeps_trans [trans]: "keeps a b \<Longrightarrow> keeps b c \<Longrightarrow> keeps a c"
  by (simp add: keeps_def)

lemma keeps_writes [intro!]:
  "keeps d (snd (create_wallet u cur d))" "keeps d (snd (create_lot w src n e g d))"
  "keeps d (snd (create_txn w l ty amt delta bal desc m key now d))" "keeps d (upd_lot i f1 d)"
  "keeps d (upd_debt i f2 d)" "keeps d (upd_wallet i f3 d)" "keeps d (upd_txn i f4 d)"
  by (simp_all add: keeps_def write_defs)

lemma keeps_sync [intro!]: "keeps d (snd (sync_balance w now d))"
  by (auto simp: sync_balance_def Let_def)

lemma keeps_expire_walk: "keeps d (expire_walk w now ls running d)"
proof (induction ls arbitrary: running d)
  case (Cons l ls)
  show ?case
    by (simp add: Let_def split_beta) (blast intro: keeps_trans Cons.IH)
qed simp

lemma keeps_expire [intro!]: "keeps d (snd (expire_due_lots w now d))"
  using keeps_trans[OF keeps_expire_walk keeps_sync] by (simp add: expire_due_lots_def Let_def)

lemma keeps_fold_take: "keeps d (fold take_from_lot taken d)"
proof (induction taken arbitrary: d)
  case (Cons p taken)
  have "keeps d (take_from_lot p d)" by (auto simp: take_from_lot_def)
  from keeps_trans[OF this Cons.IH] show ?case by simp
qed simp

lemma keeps_consume: "consume_lots w n now d = Inr (taken, d') \<Longrightarrow> keeps d d'"
  by (auto simp: consume_lots_def Let_def keeps_fold_take split: if_splits)

lemma keeps_settle_walk: "settle_walk w now ds c d = Inr (n, d') \<Longrightarrow> keeps d d'"
proof (induction ds arbitrary: c d)
  case (Cons x ds)
  show ?case
  proof (cases "live_balance d w now \<le> 0")
    case True
    with Cons.prems show ?thesis by (simp add: settle_walk_Cons)
  next
    case False
    let ?n = "min (debt_outstanding x) (live_balance d w now)"
    from False Cons.prems obtain taken d1 where c: "consume_lots w ?n now d = Inr (taken, d1)"
      and r: "settle_walk w now ds (c + ?n) (settle_step w now x ?n taken d1) = Inr (n, d')"
      by (auto simp: settle_walk_Cons split: sum.splits)
    have "keeps d1 (settle_step w now x ?n taken d1)"
      unfolding settle_step_def by (blast intro: keeps_trans)
    with keeps_consume[OF c] Cons.IH[OF r] show ?thesis by (blast intro: keeps_trans)
  qed
qed simp

lemma keeps_settle: "settle_debts w now d = Inr (n, d') \<Longrightarrow> keeps d d'"
  by (auto simp: settle_debts_def Let_def keeps_settle_walk split: if_splits)

lemma keeps_lock: "keeps d (snd (lock_wallet u d))"
  by (auto simp: lock_wallet_def get_or_create_wallet_def split: option.splits)

lemma keeps_credit_new:
  assumes "credit_new now r w d = Inr (t, d')"
  shows "keeps d d'"
proof -
  define d1 where "d1 = snd (expire_due_lots w now d)"
  define p2 where "p2 = create_lot w (cr_source r) (cr_credits r) (cr_expires r) None d1"
  define p3 where "p3 = sync_balance w now (snd p2)"
  define p4 where "p4 = create_txn w (Some (fst p2)) (cr_type r) (cr_amount r) (cr_credits r) (fst p3) (cr_desc r)
    (with_key (cr_key r) (cr_meta r)) (cr_key r) now (snd p3)"
  define d5 where "d5 = upd_lot (fst p2) (\<lambda>x. x\<lparr>lot_grant := Some (txn_id (fst p4))\<rparr>) (snd p4)"
  have "keeps d d1" unfolding d1_def by blast
  also have "keeps d1 (snd p2)" unfolding p2_def by blast
  also have "keeps (snd p2) (snd p3)" unfolding p3_def by blast
  also have "keeps (snd p3) (snd p4)" unfolding p4_def by blast
  also have "keeps (snd p4) d5" unfolding d5_def by blast
  finally have k: "keeps d d5" .
  have "credit_new now r w d = (if cr_settle r
      then (case settle_debts w now d5 of Inl e \<Rightarrow> Inl e | Inr (n, d6) \<Rightarrow> Inr (fst p4, d6)) else Inr (fst p4, d5))"
    unfolding credit_new_def Let_def split_beta d1_def p2_def p3_def p4_def d5_def by (rule refl)
  with assms have "d' = d5 \<or> (\<exists>n. settle_debts w now d5 = Inr (n, d'))"
    by (auto split: if_splits sum.splits)
  with k keeps_settle show ?thesis by (blast intro: keeps_trans)
qed

lemma keeps_credit:
  assumes "credit cf now r d = Inr (t, d')"
  shows "keeps d d'"
proof -
  obtain w d0 where l: "lock_wallet (u_id (cr_user r)) d = (w, d0)" by (rule prod.exhaust)
  then have "keeps d d0" using keeps_lock by (metis snd_conv)
  moreover have "d' = d0 \<or> credit_new now r w d0 = Inr (t, d')"
    using assms l by (auto simp: credit_def split: if_splits option.splits)
  ultimately show ?thesis using keeps_credit_new by (blast intro: keeps_trans)
qed

subsection \<open>The unique columns\<close>

definition real_id :: "string option \<Rightarrow> string option" where
  "real_id v = (if unset v then None else v)"

definition unique_by :: "(subscription \<Rightarrow> 'k option) \<Rightarrow> subscription list \<Rightarrow> bool" where
  "unique_by f ss = (\<forall>s \<in> set ss. \<forall>t \<in> set ss. f s \<noteq> None \<and> f s = f t \<longrightarrow> s = t)"

definition subs_ok :: "db \<Rightarrow> bool" where
  "subs_ok d = (distinct (map sub_id (subs d)) \<and> (\<forall>s \<in> set (subs d). sub_id s < next_id d) \<and>
     unique_by sub_user (subs d) \<and> unique_by (real_id \<circ> sub_stripe_id) (subs d) \<and>
     unique_by (real_id \<circ> sub_customer_id) (subs d) \<and> distinct (map pp_stripe_id (pendings d)))"

lemma keeps_subs_ok: "keeps d d' \<Longrightarrow> subs_ok d \<Longrightarrow> subs_ok d'"
  by (fastforce simp: keeps_def subs_ok_def)

lemma subs_set_save:
  assumes "distinct (map sub_id ss)" and "s \<in> set ss" and "sub_id s' = sub_id s"
  shows "set (upd_row sub_id (sub_id s') (\<lambda>_. s') ss) = insert s' {t \<in> set ss. sub_id t \<noteq> sub_id s}"
  using assms by (auto simp: set_upd_row)

definition free_for :: "(subscription \<Rightarrow> 'k option) \<Rightarrow> subscription \<Rightarrow> subscription list \<Rightarrow> bool" where
  "free_for f s' ss = (f s' = None \<or> (\<forall>t \<in> set ss. sub_id t \<noteq> sub_id s' \<longrightarrow> f t \<noteq> f s'))"

lemma unique_by_save:
  assumes "distinct (map sub_id ss)" and "s \<in> set ss" and "sub_id s' = sub_id s" and "unique_by f ss"
    and "f s' = f s \<or> free_for f s' ss"
  shows "unique_by f (upd_row sub_id (sub_id s') (\<lambda>_. s') ss)"
proof -
  have "f t \<noteq> f s'" if "t \<in> set ss" "sub_id t \<noteq> sub_id s'" "f s' \<noteq> None" for t
    using assms(5)
  proof
    assume e: "f s' = f s"
    show ?thesis
    proof
      assume "f t = f s'"
      with e assms(2,4) that have "s = t" unfolding unique_by_def by metis
      with that(2) assms(3) show False by simp
    qed
  qed (use that in \<open>auto simp: free_for_def\<close>)
  then show ?thesis using assms(3,4)
    unfolding unique_by_def subs_set_save[OF assms(1-3)] by (auto; metis)
qed

lemma save_sub_frame [simp]:
  "next_id (save_sub s d) = next_id d" "pendings (save_sub s d) = pendings d" "lots (save_sub s d) = lots d"
  "wallets (save_sub s d) = wallets d" "txns (save_sub s d) = txns d" "grants (save_sub s d) = grants d"
  "subs (save_sub s d) = upd_row sub_id (sub_id s) (\<lambda>_. s) (subs d)"
  by (simp_all add: save_sub_def upd_sub_def)

lemma save_sub_ok:
  assumes "subs_ok d" and "s \<in> set (subs d)" and "sub_id s' = sub_id s" and "sub_user s' = sub_user s"
    and "real_id (sub_stripe_id s') = real_id (sub_stripe_id s) \<or> free_for (real_id \<circ> sub_stripe_id) s' (subs d)"
    and "real_id (sub_customer_id s') = real_id (sub_customer_id s) \<or> free_for (real_id \<circ> sub_customer_id) s' (subs d)"
  shows "subs_ok (save_sub s' d)"
proof -
  note ok = assms(1)[unfolded subs_ok_def]
  from ok have dis: "distinct (map sub_id (subs d))" by simp
  note u = unique_by_save[OF dis assms(2,3)]
  have "map sub_id (upd_row sub_id (sub_id s') (\<lambda>_. s') (subs d)) = map sub_id (subs d)"
    by (simp add: upd_row_def)
  moreover have "\<forall>t \<in> set (upd_row sub_id (sub_id s') (\<lambda>_. s') (subs d)). sub_id t < next_id d"
    unfolding subs_set_save[OF dis assms(2,3)] using ok assms(2,3) by auto
  ultimately show ?thesis
    unfolding subs_ok_def save_sub_frame using ok assms(4-6) by (auto intro!: u)
qed

subsection \<open>The provider clock\<close>

fun clock_le :: "time option \<Rightarrow> time option \<Rightarrow> bool" where
  "clock_le None _ = True"
| "clock_le (Some a) None = False"
| "clock_le (Some a) (Some b) = (a \<le> b)"

lemma clock_le_refl [simp]: "clock_le c c"
  by (cases c) auto

lemma clock_le_trans: "clock_le a b \<Longrightarrow> clock_le b c \<Longrightarrow> clock_le a c"
  by (cases a; cases b; cases c) auto

definition subs_move :: "db \<Rightarrow> db \<Rightarrow> bool" where
  "subs_move d d' = (subs_ok d \<longrightarrow> subs_ok d' \<and>
     (\<forall>s \<in> set (subs d). \<exists>s' \<in> set (subs d'). sub_id s' = sub_id s \<and> sub_user s' = sub_user s \<and>
        clock_le (sub_last_event s) (sub_last_event s')))"

lemma subs_move_refl [intro!, simp]: "subs_move d d"
  by (auto simp: subs_move_def)

lemma subs_move_trans [trans]: "subs_move a b \<Longrightarrow> subs_move b c \<Longrightarrow> subs_move a c"
  unfolding subs_move_def by (metis clock_le_trans)

lemma subs_move_same:
  assumes "subs d' = subs d" and "distinct (map pp_stripe_id (pendings d)) \<Longrightarrow> distinct (map pp_stripe_id (pendings d'))"
    and "next_id d \<le> next_id d'"
  shows "subs_move d d'"
  using assms unfolding subs_move_def subs_ok_def by fastforce

lemma keeps_move: "keeps d d' \<Longrightarrow> subs_move d d'"
  by (rule subs_move_same) (simp_all add: keeps_def)

lemma save_sub_move:
  assumes "s \<in> set (subs d)" and "sub_id s' = sub_id s" and "sub_user s' = sub_user s"
    and "real_id (sub_stripe_id s') = real_id (sub_stripe_id s) \<or> free_for (real_id \<circ> sub_stripe_id) s' (subs d)"
    and "real_id (sub_customer_id s') = real_id (sub_customer_id s) \<or> free_for (real_id \<circ> sub_customer_id) s' (subs d)"
    and "clock_le (sub_last_event s) (sub_last_event s')"
  shows "subs_move d (save_sub s' d)"
proof -
  have "\<exists>s'' \<in> set (subs (save_sub s' d)). sub_id s'' = sub_id t \<and> sub_user s'' = sub_user t \<and>
      clock_le (sub_last_event t) (sub_last_event s'')" if "subs_ok d" "t \<in> set (subs d)" for t
  proof -
    have dis: "distinct (map sub_id (subs d))" using that(1) by (simp add: subs_ok_def)
    have "t = s" if "sub_id t = sub_id s"
      using that dis \<open>t \<in> set (subs d)\<close> assms(1) by (metis distinct_map inj_onD)
    with that(2) assms(3,6) show ?thesis
      unfolding save_sub_frame subs_set_save[OF dis assms(1,2)] by (auto simp: assms(2))
  qed
  with save_sub_ok[OF _ assms(1-5)] show ?thesis by (simp add: subs_move_def)
qed

subsection \<open>What the row updates leave alone\<close>

definition same_ids :: "subscription \<Rightarrow> subscription \<Rightarrow> bool" where
  "same_ids s s' = (sub_id s' = sub_id s \<and> sub_user s' = sub_user s \<and> sub_stripe_id s' = sub_stripe_id s \<and>
     sub_customer_id s' = sub_customer_id s \<and> sub_plan s' = sub_plan s \<and> sub_pseudonym s' = sub_pseudonym s)"

lemma same_ids_refl [simp]: "same_ids s s"
  by (simp add: same_ids_def)

lemma same_ids_trans [trans]: "same_ids a b \<Longrightarrow> same_ids b c \<Longrightarrow> same_ids a c"
  by (simp add: same_ids_def)

lemma apply_rows_ids [simp]:
  "same_ids s (snd (apply_stripe_period obj s))" "same_ids s (snd (apply_stripe_cancellation obj s))"
  "same_ids s (snd (advance_provider_clock m s))" "same_ids s (s\<lparr>sub_status := st\<rparr>)"
  by (auto simp: same_ids_def apply_stripe_period_def apply_stripe_cancellation_def advance_provider_clock_def Let_def
      split: prod.splits option.splits json.splits if_splits)

lemma apply_rows_clock [simp]:
  "sub_last_event (snd (apply_stripe_period obj s)) = sub_last_event s"
  "sub_last_event (snd (apply_stripe_cancellation obj s)) = sub_last_event s"
  by (auto simp: apply_stripe_period_def apply_stripe_cancellation_def Let_def
      split: prod.splits option.splits json.splits if_splits)

lemma advance_clock_le: "clock_le (sub_last_event s) (sub_last_event (snd (advance_provider_clock m s)))"
  by (auto simp: advance_provider_clock_def split: option.splits)

lemma updated_row_facts:
  "same_ids s (updated_row e s)" "clock_le (sub_last_event s) (sub_last_event (updated_row e s))"
proof -
  define s1 where "s1 = (case map_stripe_status (dget (event_object e) ''status'') (Some (sub_status s)) of
    Some st \<Rightarrow> s\<lparr>sub_status := st\<rparr> | None \<Rightarrow> s)"
  define s2 where "s2 = snd (apply_stripe_period (event_object e) s1)"
  define s3 where "s3 = snd (apply_stripe_cancellation (event_object e) s2)"
  have r: "updated_row e s = snd (advance_provider_clock (provider_event_time e) s3)"
    unfolding updated_row_def Let_def s1_def s2_def s3_def by (rule refl)
  have "same_ids s s1" by (simp add: s1_def split: option.splits)
  also have "same_ids s1 s2" by (simp add: s2_def)
  also have "same_ids s2 s3" by (simp add: s3_def)
  finally show "same_ids s (updated_row e s)" unfolding r by (rule same_ids_trans) simp
  have "sub_last_event s3 = sub_last_event s" by (simp add: s3_def s2_def s1_def split: option.splits)
  then show "clock_le (sub_last_event s) (sub_last_event (updated_row e s))"
    unfolding r using advance_clock_le[of s3] by simp
qed

lemma deleted_row_facts:
  "same_ids s (deleted_row now e s)" "clock_le (sub_last_event s) (sub_last_event (deleted_row now e s))"
proof -
  obtain c where r: "deleted_row now e s = snd (advance_provider_clock (provider_event_time e) (snd (apply_stripe_period
      (event_object e) (s\<lparr>sub_status := CANCELLED, sub_cancelled_at := Some c, sub_cancel_at_end := False\<rparr>))))"
    by (simp add: deleted_row_def Let_def split: option.splits)
  let ?s1 = "s\<lparr>sub_status := CANCELLED, sub_cancelled_at := Some c, sub_cancel_at_end := False\<rparr>"
  have "same_ids s ?s1" by (simp add: same_ids_def)
  also have "same_ids ?s1 (snd (apply_stripe_period (event_object e) ?s1))" by simp
  finally show "same_ids s (deleted_row now e s)" unfolding r by (rule same_ids_trans) simp
  show "clock_le (sub_last_event s) (sub_last_event (deleted_row now e s))"
    unfolding r using advance_clock_le[of "snd (apply_stripe_period (event_object e) ?s1)"] by simp
qed

subsection \<open>The handlers\<close>

lemma stamp_frame [simp]:
  "subs (snd (stamp_subscription_period s d)) = subs d" "pendings (snd (stamp_subscription_period s d)) = pendings d"
  "next_id (snd (stamp_subscription_period s d)) = next_id d" "wallets (snd (stamp_subscription_period s d)) = wallets d"
  "txns (snd (stamp_subscription_period s d)) = txns d" "grants (snd (stamp_subscription_period s d)) = grants d"
  by (auto simp: stamp_subscription_period_def split: option.splits)

lemma announce_next_id [simp]: "next_id (announce_subscription s d) = next_id d"
  by (simp add: announce_subscription_def)

lemma save_lifecycle_frame [simp]:
  "subs (save_lifecycle s d) = subs (save_sub s d)" "pendings (save_lifecycle s d) = pendings d"
  "next_id (save_lifecycle s d) = next_id d"
  by (simp_all add: save_lifecycle_def)

lemma save_lifecycle_move:
  assumes "s \<in> set (subs d)" and "same_ids s s'" and "clock_le (sub_last_event s) (sub_last_event s')"
  shows "subs_move d (save_lifecycle s' d)"
proof (rule subs_move_trans)
  show "subs_move d (save_sub s' d)"
    by (rule save_sub_move[OF assms(1)]) (use assms in \<open>simp_all add: same_ids_def\<close>)
  show "subs_move (save_sub s' d) (save_lifecycle s' d)" by (rule subs_move_same) simp_all
qed

lemma adopt_cases: "adopt_id inc kept = kept \<or> adopt_id inc kept = inc \<and> inc \<noteq> None \<and> unset kept"
  by (auto simp: adopt_id_def)

lemma find_none_free:
  assumes "Option.bind k (\<lambda>i. find (\<lambda>s. f s = Some i) ss) = None" and "f s' = k"
  shows "free_for (real_id \<circ> f) s' ss"
  using assms by (auto simp: free_for_def real_id_def find_None_iff unset_def split: if_splits)

lemma resolve_facts:
  assumes "resolve_local_subscription obj d = (Some s, d1)"
  shows "subs_move d d1" "subs_ok d \<Longrightarrow> s \<in> set (subs d1)"
proof -
  let ?i = "id_text (dget obj ''id'')" and ?c = "id_text (dget obj ''customer'')"
    and ?u = "id_text (dget (dobj obj ''metadata'') ''user_id'')"
  have saved: "subs_move d (save_sub s' d) \<and> (subs_ok d \<longrightarrow> s' \<in> set (subs (save_sub s' d)))"
    if "x \<in> set (subs d)" "sub_id s' = sub_id x" "sub_user s' = sub_user x" "sub_last_event s' = sub_last_event x"
      "sub_stripe_id s' = sub_stripe_id x \<or> free_for (real_id \<circ> sub_stripe_id) s' (subs d)"
      "sub_customer_id s' = sub_customer_id x \<or> free_for (real_id \<circ> sub_customer_id) s' (subs d)" for x s'
  proof
    show "subs_move d (save_sub s' d)" by (rule save_sub_move[OF that(1-3)]) (use that(4-6) in auto)
    show "subs_ok d \<longrightarrow> s' \<in> set (subs (save_sub s' d))"
      using that(1,2) by (auto simp: set_upd_row image_iff)
  qed
  have "subs_move d d1 \<and> (subs_ok d \<longrightarrow> s \<in> set (subs d1))"
  proof (cases "Option.bind ?i (sub_by_stripe_id d)")
    case (Some x)
    with assms have "s = x" "d1 = d" by (simp_all add: resolve_local_subscription_def Let_def)
    moreover from Some have "x \<in> set (subs d)"
      by (auto simp: sub_by_stripe_id_def find_Some_iff split: bind_splits)
    ultimately show ?thesis by simp
  next
    case None
    note stripe = find_none_free[OF None[unfolded sub_by_stripe_id_def]]
    show ?thesis
    proof (cases "Option.bind ?c (sub_by_customer d)")
      case (Some x)
      let ?s = "x\<lparr>sub_stripe_id := adopt_id ?i (sub_stripe_id x)\<rparr>"
      have e: "s = ?s" "d1 = save_sub ?s d" using assms None Some
        by (auto simp: resolve_local_subscription_def Let_def)
      from Some have "x \<in> set (subs d)" by (auto simp: sub_by_customer_def find_Some_iff split: bind_splits)
      from saved[OF this, of ?s] adopt_cases[of ?i "sub_stripe_id x"] stripe[of ?s] show ?thesis unfolding e by auto
    next
      case N: None
      note customer = find_none_free[OF N[unfolded sub_by_customer_def]]
      from assms None N obtain x where x: "Option.bind ?u (sub_of_user d) = Some x"
        by (auto simp: resolve_local_subscription_def Let_def split: option.splits)
      let ?s = "x\<lparr>sub_stripe_id := adopt_id ?i (sub_stripe_id x), sub_customer_id := adopt_id ?c (sub_customer_id x)\<rparr>"
      have e: "s = ?s" "d1 = save_sub ?s d" using assms None N x
        by (auto simp: resolve_local_subscription_def Let_def)
      from x have "x \<in> set (subs d)" by (auto simp: sub_of_user_def find_Some_iff split: bind_splits)
      from saved[OF this, of ?s] adopt_cases[of ?i "sub_stripe_id x"] adopt_cases[of ?c "sub_customer_id x"]
        stripe[of ?s] customer[of ?s] show ?thesis unfolding e by auto
    qed
  qed
  then show "subs_move d d1" "subs_ok d \<Longrightarrow> s \<in> set (subs d1)" by blast+
qed

lemma resolve_none: "resolve_local_subscription obj d = (None, d1) \<Longrightarrow> d1 = d"
  by (auto simp: resolve_local_subscription_def Let_def split: option.splits)

lemma set_pending_id [simp]: "pp_stripe_id (set_pending obj m p) = pp_stripe_id p"
  by (simp add: set_pending_def split_beta)

lemma stash_pendings:
  "map pp_stripe_id (pendings (snd (stash_subscription_period obj e d))) = map pp_stripe_id (pendings d) \<or>
   (\<exists>i. i \<notin> pp_stripe_id ` set (pendings d) \<and>
     map pp_stripe_id (pendings (snd (stash_subscription_period obj e d))) = map pp_stripe_id (pendings d) @ [i])"
proof -
  have same: "map pp_stripe_id (map (\<lambda>q. if pp_stripe_id q = i then set_pending obj m q else q) ps) = map pp_stripe_id ps" for i m ps
    by simp
  show ?thesis
  proof (cases "id_text (dget obj ''id'')")
    case (Some i)
    show ?thesis
    proof (cases "pending_of d i")
      case None
      then have "i \<notin> pp_stripe_id ` set (pendings d)" by (auto simp: pending_of_def find_None_iff)
      with Some None show ?thesis
        by (intro disjI2 exI[of _ i]) (simp add: stash_subscription_period_def Let_def new_pending_def)
    next
      case S: (Some p)
      with Some same show ?thesis by (simp add: stash_subscription_period_def Let_def)
    qed
  qed (simp add: stash_subscription_period_def)
qed

lemma stash_frame [simp]:
  "subs (snd (stash_subscription_period obj e d)) = subs d" "next_id (snd (stash_subscription_period obj e d)) = next_id d"
  by (auto simp: stash_subscription_period_def Let_def split: option.splits)

lemma stash_move: "subs_move d (snd (stash_subscription_period obj e d))"
  using stash_pendings[of obj e d] by (intro subs_move_same) auto

lemma handle_updated_move:
  assumes "handle_subscription_updated event d = (stale, d')"
  shows "subs_move d d'"
proof -
  let ?obj = "event_object event"
  obtain f d1 where r: "resolve_local_subscription ?obj d = (f, d1)" by (rule prod.exhaust)
  show ?thesis
  proof (cases f)
    case None
    with r resolve_none have "d1 = d" by blast
    with assms r None stash_move[of d ?obj event] show ?thesis by (simp add: handle_subscription_updated_def Let_def)
  next
    case (Some s)
    note m = resolve_facts[OF r[unfolded Some]]
    show ?thesis
    proof (cases "drop_stale s event ?obj")
      case True
      with assms r Some m(1) show ?thesis by (simp add: handle_subscription_updated_def Let_def)
    next
      case False
      with assms r Some have d': "d' = save_lifecycle (updated_row event s) d1"
        by (simp add: handle_subscription_updated_def Let_def)
      have "subs_ok d \<Longrightarrow> subs_move d1 d'"
        unfolding d' by (rule save_lifecycle_move[OF m(2) updated_row_facts])
      with m(1) show ?thesis by (metis subs_move_def subs_move_trans)
    qed
  qed
qed

lemma handle_deleted_move:
  assumes "handle_subscription_deleted now event d = (stale, d')"
  shows "subs_move d d'"
proof -
  let ?obj = "event_object event"
  obtain f d1 where r: "resolve_local_subscription ?obj d = (f, d1)" by (rule prod.exhaust)
  show ?thesis
  proof (cases f)
    case None
    with r resolve_none have "d1 = d" by blast
    with assms r None stash_move[of d ?obj event] show ?thesis by (simp add: handle_subscription_deleted_def Let_def)
  next
    case (Some s)
    note m = resolve_facts[OF r[unfolded Some]]
    show ?thesis
    proof (cases "drop_stale s event (dset ''status'' (JStr ''canceled'') ?obj)")
      case True
      with assms r Some m(1) show ?thesis by (simp add: handle_subscription_deleted_def Let_def)
    next
      case False
      with assms r Some have d': "d' = save_lifecycle (deleted_row now event s) d1"
        by (simp add: handle_subscription_deleted_def Let_def)
      have "subs_ok d \<Longrightarrow> subs_move d1 d'"
        unfolding d' by (rule save_lifecycle_move[OF m(2) deleted_row_facts])
      with m(1) show ?thesis by (metis subs_move_def subs_move_trans)
    qed
  qed
qed

subsection \<open>Parked periods, checkouts, invoices, reconciliation\<close>

lemma take_pending_facts:
  "same_ids s (snd (take_pending p s))" "clock_le (sub_last_event s) (sub_last_event (snd (take_pending p s)))"
proof -
  define s2 where "s2 =
    (let stale = (case (pp_event_at p, sub_last_event s) of (Some e, Some l) \<Rightarrow> e < l | _ \<Rightarrow> False);
         mapped = map_stripe_status (Some (JStr (pp_status p))) (Some (sub_status s));
         s1 = s\<lparr>sub_period_start := if pp_start p \<noteq> None \<and> pp_start p \<noteq> sub_period_start s then pp_start p else sub_period_start s,
                sub_period_end := if pp_end p \<noteq> None \<and> pp_end p \<noteq> sub_period_end s then pp_end p else sub_period_end s\<rparr>
     in if \<not> stale \<and> mapped \<noteq> None \<and> mapped \<noteq> Some (sub_status s) then s1\<lparr>sub_status := the mapped\<rparr> else s1)"
  have r: "snd (take_pending p s) = s2 \<or> snd (take_pending p s) = snd (advance_provider_clock (pp_event_at p) s2)"
    unfolding take_pending_def s2_def Let_def split_beta snd_conv by (simp split: if_splits)
  have s2: "same_ids s s2" "sub_last_event s2 = sub_last_event s"
    by (simp_all add: s2_def Let_def same_ids_def)
  from r show "same_ids s (snd (take_pending p s))"
    using s2(1) same_ids_trans[OF s2(1) apply_rows_ids(3)] by metis
  from r show "clock_le (sub_last_event s) (sub_last_event (snd (take_pending p s)))"
    using s2(2) advance_clock_le[of s2] by (metis clock_le_refl)
qed

lemma keeps_stamp_save:
  "keeps (d\<lparr>subs := [], pendings := []\<rparr>)
    ((snd (stamp_subscription_period s (save_sub s d)))\<lparr>subs := [], pendings := []\<rparr>)"
proof -
  have k: "keeps (d\<lparr>subs := [], pendings := []\<rparr>) (d'\<lparr>subs := [], pendings := []\<rparr>)"
    if "d' = d\<lparr>subs := ss\<rparr> \<or> d' = d\<lparr>subs := ss, lots := ls\<rparr>" for d' ss ls
    using that by (auto simp: keeps_def)
  have "\<exists>ss ls. snd (stamp_subscription_period s (save_sub s d)) = d\<lparr>subs := ss\<rparr> \<or>
      snd (stamp_subscription_period s (save_sub s d)) = d\<lparr>subs := ss, lots := ls\<rparr>"
    unfolding stamp_subscription_period_def save_sub_def upd_sub_def by (auto split: option.splits)
  with k show ?thesis by blast
qed

lemma apply_pending_move:
  assumes "apply_pending_period s d = ((b, s'), d')" and "s \<in> set (subs d)"
  shows "subs_move d d'" "same_ids s s'" "keeps (d\<lparr>subs := [], pendings := []\<rparr>) (d'\<lparr>subs := [], pendings := []\<rparr>)"
proof -
  have "subs_move d d' \<and> same_ids s s' \<and> keeps (d\<lparr>subs := [], pendings := []\<rparr>) (d'\<lparr>subs := [], pendings := []\<rparr>)"
  proof (cases "unset (sub_stripe_id s) \<or> pending_of d (the (sub_stripe_id s)) = None")
    case True
    with assms(1) have "d' = d" "s' = s" by (auto simp: apply_pending_period_def split: if_splits)
    then show ?thesis by simp
  next
    case False
    then obtain p where p: "\<not> unset (sub_stripe_id s)" "pending_of d (the (sub_stripe_id s)) = Some p" by auto
    let ?s = "snd (take_pending p s)"
    let ?d1 = "if fst (take_pending p s) = [] then d else snd (stamp_subscription_period ?s (save_sub ?s d))"
    have e: "s' = ?s" "d' = ?d1\<lparr>pendings := filter (\<lambda>q. pp_stripe_id q \<noteq> pp_stripe_id p) (pendings ?d1)\<rparr>"
      using assms(1) p by (simp_all add: apply_pending_period_def Let_def split_beta)
    have m: "subs_move d (save_sub ?s d)"
      by (rule save_sub_move[OF assms(2)]) (use take_pending_facts[where s = s] in \<open>simp_all add: same_ids_def\<close>)
    have "subs_move (save_sub ?s d) (snd (stamp_subscription_period ?s (save_sub ?s d)))"
      by (rule subs_move_same) simp_all
    then have "subs_move d ?d1" using subs_move_trans[OF m] by simp
    moreover have "subs_move ?d1 d'"
      unfolding e by (rule subs_move_same) (simp_all add: distinct_map_filter)
    moreover have "keeps (d\<lparr>subs := [], pendings := []\<rparr>) (d'\<lparr>subs := [], pendings := []\<rparr>)"
      unfolding e using keeps_stamp_save[of d ?s] by (cases "fst (take_pending p s) = []") (simp_all add: keeps_def)
    ultimately show ?thesis using subs_move_trans take_pending_facts(1) e(1) by blast
  qed
  then show "subs_move d d'" "same_ids s s'" "keeps (d\<lparr>subs := [], pendings := []\<rparr>) (d'\<lparr>subs := [], pendings := []\<rparr>)"
    by blast+
qed

lemma unique_by_append:
  assumes "unique_by f ss" and "f s = None \<or> (\<forall>t \<in> set ss. f t \<noteq> f s)"
  shows "unique_by f (ss @ [s])"
  unfolding unique_by_def
proof (intro ballI impI, elim conjE)
  fix a b assume a: "a \<in> set (ss @ [s])" and b: "b \<in> set (ss @ [s])" and f: "f a \<noteq> None" "f a = f b"
  consider "a \<in> set ss" "b \<in> set ss" | "a = s" "b = s" | "a \<in> set ss" "b = s" | "a = s" "b \<in> set ss"
    using a b by auto
  then show "a = b"
  proof cases
    case 1
    then show ?thesis using assms(1) f unfolding unique_by_def by blast
  next
    case 3
    with assms(2) f show ?thesis by metis
  next
    case 4
    with assms(2) f show ?thesis by metis
  qed simp
qed

lemma checkout_row_facts:
  "sub_id (checkout_row event stale slug s) = sub_id s" "sub_user (checkout_row event stale slug s) = sub_user s"
  "clock_le (sub_last_event s) (sub_last_event (checkout_row event stale slug s))"
  by (auto simp: checkout_row_def Let_def latest_def split: option.splits)

lemma column_free:
  "\<not> column_taken col (col s) (sub_id s) d \<Longrightarrow> free_for (real_id \<circ> col) s (subs d)"
  by (auto simp: column_taken_def free_for_def real_id_def)

lemma subscribe_move:
  assumes "subscribe event user slug d = Inr (s, d')"
  shows "subs_move d d'" "s \<in> set (subs d')" "sub_user s = Some (u_id user)"
proof -
  let ?ex = "sub_of_user d (u_id user)"
  let ?old = "case ?ex of Some x \<Rightarrow> x | None \<Rightarrow> new_subscription (next_id d) (u_id user) slug"
  have s: "s = checkout_row event (checkout_stale event ?ex) slug ?old"
    and free: "\<not> column_taken sub_stripe_id (sub_stripe_id s) (sub_id s) d" "\<not> column_taken sub_customer_id (sub_customer_id s) (sub_id s) d"
    and d': "d' = (if ?ex = None then d\<lparr>subs := subs d @ [s], next_id := Suc (next_id d)\<rparr> else save_sub s d)"
    using assms by (auto simp: subscribe_def Let_def split: if_splits)
  note row = checkout_row_facts[where event = event and stale = "checkout_stale event ?ex" and slug = slug and s = ?old, folded s]
  have "subs_move d d' \<and> s \<in> set (subs d') \<and> sub_user s = Some (u_id user)"
  proof (cases ?ex)
    case None
    have id: "sub_id s = next_id d" "sub_user s = Some (u_id user)"
      using row None by (simp_all add: new_subscription_def)
    have "\<forall>t \<in> set (subs d). sub_user t \<noteq> Some (u_id user)"
      using None by (simp add: sub_of_user_def find_None_iff)
    moreover have "sub_id t \<noteq> sub_id s" if "subs_ok d" "t \<in> set (subs d)" for t
      using that id by (auto simp: subs_ok_def)
    ultimately have "subs_move d d'"
      using column_free[OF free(1)] column_free[OF free(2)] id
      unfolding subs_move_def subs_ok_def d'
      by (auto simp: None free_for_def intro!: unique_by_append less_SucI)
    with d' None id show ?thesis by simp
  next
    case (Some x)
    then have x: "x \<in> set (subs d)" "sub_user x = Some (u_id user)" by (auto simp: sub_of_user_def find_Some_iff)
    have "subs_move d (save_sub s d)"
      by (rule save_sub_move[OF x(1)]) (use row Some column_free[OF free(1)] column_free[OF free(2)] in simp_all)
    moreover have "s \<in> set (subs (save_sub s d))"
      using x(1) row(1) Some by (auto simp: set_upd_row image_iff)
    ultimately show ?thesis using d' Some row(2) x(2) by simp
  qed
  then show "subs_move d d'" "s \<in> set (subs d')" "sub_user s = Some (u_id user)" by blast+
qed

lemma announce_payment_move: "subs_move d (announce_payment u t n c x d)"
  by (rule subs_move_same) (simp_all add: announce_payment_def emit_def)

lemma announce_subscription_move: "subs_move d (announce_subscription s d)"
  by (rule subs_move_same) (simp_all add: announce_subscription_def emit_def)

lemma claim_move: "claim_provider_object scope ext prov d = (b, d') \<Longrightarrow> subs_move d d'"
  by (drule claim_frame) (auto intro!: subs_move_same)

lemma credit_move: "credit cf now r d = Inr (t, d') \<Longrightarrow> subs_move d d'"
  by (rule keeps_move[OF keeps_credit])

lemmas credit_announce_move = subs_move_trans[OF credit_move announce_payment_move]

lemma checkout_package_move:
  assumes "checkout_package cf now obj user pkg d = Inr (b, d')"
  shows "subs_move d d'"
proof -
  obtain won d1 where c: "claim_session obj d = (won, d1)" by (rule prod.exhaust)
  then have m: "subs_move d d1" unfolding claim_session_def by (rule claim_move)
  from assms c have "d' = d \<or> d' = d1 \<or> (\<exists>t d2 n cur x. credit cf now (package_credit obj user pkg) d1 = Inr (t, d2) \<and>
      d' = announce_payment (u_id user) t n cur x d2)"
    by (auto simp: checkout_package_def split: if_splits sum.splits) blast+
  then show ?thesis using m subs_move_trans[OF m credit_announce_move] by auto
qed

lemma checkout_plan_move:
  assumes "checkout_plan cf now event user plan d = Inr (b, d')"
  shows "subs_move d d'"
proof -
  let ?obj = "event_object event"
  obtain won d1 where c: "claim_session ?obj d = (won, d1)" by (rule prod.exhaust)
  then have m: "subs_move d d1" unfolding claim_session_def by (rule claim_move)
  show ?thesis
  proof (cases "reconcile_checkout_session cf ?obj ''subscription'' (pe_currency plan) None \<noteq> None \<or> \<not> won")
    case True
    with assms c m show ?thesis by (auto simp: checkout_plan_def Let_def split: if_splits)
  next
    case False
    with assms c obtain s d2 ch s' d3 d4 where
      s: "subscribe event user (pe_slug plan) d1 = Inr (s, d2)" and p: "apply_pending_period s d2 = ((ch, s'), d3)"
      and b: "checkout_bundle cf now ?obj user plan s' d3 = Inr d4" and d': "d' = announce_subscription s' d4"
      by (auto simp: checkout_plan_def Let_def split: sum.splits prod.splits)
    have "d4 = d3 \<or> (\<exists>r t d5 u n c x. credit cf now r d3 = Inr (t, d5) \<and> d4 = announce_payment u t n c x d5)"
      using b by (auto simp: checkout_bundle_def Let_def split: if_splits sum.splits) blast
    then have "subs_move d3 d4"
      using credit_announce_move by auto
    from subs_move_trans[OF m subs_move_trans[OF subscribe_move(1)[OF s] subs_move_trans[OF
        apply_pending_move(1)[OF p subscribe_move(2)[OF s]] subs_move_trans[OF this announce_subscription_move]]]]
    show ?thesis unfolding d' .
  qed
qed

lemma handle_checkout_move:
  assumes "handle_checkout_completed cf now event d = Inr (stale, d')"
  shows "subs_move d d'"
proof (cases "session_owner cf (event_object event)")
  case None
  with assms show ?thesis by (simp add: handle_checkout_completed_def Let_def)
next
  case (Some user)
  let ?p = "case session_package cf (event_object event) of None \<Rightarrow> Inr (True, d)
    | Some pkg \<Rightarrow> checkout_package cf now (event_object event) user pkg d"
  from assms Some obtain go d1 where p: "?p = Inr (go, d1)"
    by (cases ?p) (auto simp: handle_checkout_completed_def Let_def)
  have m: "subs_move d d1" using p checkout_package_move by (auto split: option.splits)
  have "d' = d1 \<or> (\<exists>plan. checkout_plan cf now event user plan d1 = Inr (stale, d'))"
    using assms Some p by (auto simp: handle_checkout_completed_def Let_def split: if_splits option.splits)
  with m checkout_plan_move show ?thesis by (blast intro: subs_move_trans)
qed

lemma renew_move:
  assumes "renew cf now obj sid s plan d = Inr d'"
  shows "subs_move d d'"
proof -
  obtain won d1 where c: "claim_provider_object SCOPE_INVOICE (id_text (dget obj ''id'')) ''stripe'' d = (won, d1)"
    by (rule prod.exhaust)
  from assms c have "d' = d1 \<or> (\<exists>r t d2 u n cur x. credit cf now r d1 = Inr (t, d2) \<and> d' = announce_payment u t n cur x d2)"
    by (auto simp: renew_def Let_def split: if_splits option.splits sum.splits) blast+
  with claim_move[OF c] subs_move_trans[OF claim_move[OF c] credit_announce_move] show ?thesis by auto
qed

lemma handle_invoice_move:
  assumes "handle_invoice_paid cf now event d = Inr d'"
  shows "subs_move d d'"
  using assms renew_move by (auto simp: handle_invoice_paid_def Let_def split: option.splits if_splits)

lemma provider_row_facts:
  "same_ids s (snd (provider_row obj s))" "sub_last_event (snd (provider_row obj s)) = sub_last_event s"
proof -
  define s1 where "s1 = (case map_stripe_status (dget obj ''status'') (Some (sub_status s)) of
    Some st \<Rightarrow> s\<lparr>sub_status := st\<rparr> | None \<Rightarrow> s)"
  have r: "snd (provider_row obj s) = snd (apply_stripe_cancellation obj (snd (apply_stripe_period obj s1)))"
    by (simp add: provider_row_def Let_def split_beta s1_def)
  have "same_ids s s1" by (simp add: s1_def split: option.splits)
  also have "same_ids s1 (snd (apply_stripe_period obj s1))" by simp
  finally show "same_ids s (snd (provider_row obj s))" unfolding r by (rule same_ids_trans) simp
  show "sub_last_event (snd (provider_row obj s)) = sub_last_event s"
    unfolding r by (simp add: s1_def split: option.splits)
qed

lemma reconcile_one_cases:
  assumes "reconcile_one dry now fetch s d = (r, d')"
  shows "d' = d \<or> (\<exists>s'. same_ids s s' \<and> clock_le (sub_last_event s) (sub_last_event s') \<and>
    (d' = save_lifecycle s' d \<or> d' = save_sub s' d))"
proof (cases "fetch (case sub_stripe_id s of Some i \<Rightarrow> i | None \<Rightarrow> [])")
  case (Inr o')
  show ?thesis
  proof (cases o')
    case (Some obj)
    define s1 where "s1 = snd (provider_row obj s)"
    define s2 where "s2 = snd (if dry then ([], s1) else advance_provider_clock (Some now) s1)"
    have "d' = d \<or> d' = save_lifecycle s2 d \<or> d' = save_sub s2 d"
      using assms Inr Some unfolding reconcile_one_def Let_def split_beta s2_def s1_def by (auto split: if_splits)
    moreover have "same_ids s s2" "clock_le (sub_last_event s) (sub_last_event s2)"
      using provider_row_facts[where s = s and obj = obj] same_ids_trans[OF provider_row_facts(1) apply_rows_ids(3)]
        advance_clock_le[of s1 "Some now"] by (simp_all add: s2_def s1_def)
    ultimately show ?thesis by blast
  qed (use assms Inr in \<open>simp add: reconcile_one_def Let_def\<close>)
qed (use assms in \<open>simp add: reconcile_one_def Let_def\<close>)

lemma reconcile_one_move:
  assumes "reconcile_one dry now fetch s d = (r, d')" and "s \<in> set (subs d)"
  shows "subs_move d d'" "subs_ok d \<Longrightarrow> t \<in> set (subs d) \<Longrightarrow> sub_id t \<noteq> sub_id s \<Longrightarrow> t \<in> set (subs d')"
proof -
  have saved: "subs_move d (save_sub s' d)" if "same_ids s s'" "clock_le (sub_last_event s) (sub_last_event s')" for s'
    by (rule save_sub_move[OF assms(2)]) (use that in \<open>simp_all add: same_ids_def\<close>)
  show "subs_move d d'"
    using reconcile_one_cases[OF assms(1)] saved save_lifecycle_move[OF assms(2)] by blast
  show "t \<in> set (subs d')" if "subs_ok d" "t \<in> set (subs d)" "sub_id t \<noteq> sub_id s"
    using reconcile_one_cases[OF assms(1)] that by (auto simp: set_upd_row same_ids_def image_iff)
qed

lemma reconcile_all_move:
  assumes "reconcile_all dry now fetch ss d = (rs, d')" and "set ss \<subseteq> set (subs d)" and "distinct (map sub_id ss)"
  shows "subs_move d d'"
  using assms
proof (induction ss arbitrary: d rs)
  case (Cons s ss)
  obtain r d1 where o: "reconcile_one dry now fetch s d = (r, d1)" by (rule prod.exhaust)
  then obtain rs' where rest: "reconcile_all dry now fetch ss d1 = (rs', d')"
    using Cons.prems(1) by (cases "reconcile_all dry now fetch ss d1") (simp add: Let_def)
  have s: "s \<in> set (subs d)" using Cons.prems(2) by simp
  have "subs_move d1 d'" if "subs_ok d"
  proof (rule Cons.IH[OF rest])
    show "set ss \<subseteq> set (subs d1)"
    proof
      fix t assume "t \<in> set ss"
      then have "sub_id t \<noteq> sub_id s" "t \<in> set (subs d)" using Cons.prems(2,3) by (auto simp: image_iff)
      then show "t \<in> set (subs d1)" using reconcile_one_move(2)[OF o s that] by blast
    qed
  qed (use Cons.prems(3) in simp)
  with reconcile_one_move(1)[OF o s] show ?case by (metis subs_move_def subs_move_trans)
qed simp

lemma reconcile_move:
  assumes "reconcile_subscriptions dry ids now fetch d = (rs, d')"
  shows "subs_move d d'"
proof -
  have "distinct (map sub_id (subs d)) \<Longrightarrow> subs_move d d'"
    by (rule reconcile_all_move[OF assms[unfolded reconcile_subscriptions_def]])
      (auto simp: reconcilable_subscriptions_def distinct_map_filter)
  then show ?thesis by (auto simp: subs_move_def subs_ok_def)
qed

end
