(* ===== verification/Wallet_System.thy ===== *)
theory Wallet_System
  imports Clawback
begin

section \<open>The wallet as a system: calls in any order\<close>

text \<open>
  \<open>wallet_step cf d d'\<close>: one public call that returns, or one run of a worker, takes the
  database from \<open>d\<close> to \<open>d'\<close>. The wallet row lock and the transaction around every call make
  the calls of a deployment a sequence of such steps, each at its own instant; nothing is
  assumed about the instants. A raising call changes nothing and is no step. Reachable
  databases are those a sequence of steps leads to from the empty one. Callers are trusted
  with two things the code does not check: the metadata they pass to \<open>hold\<close> does not carry
  the library's own metered-only marker, and a clawback row that is reversed names a grant
  of its own wallet.
\<close>

inductive wallet_step :: "settings \<Rightarrow> db \<Rightarrow> db \<Rightarrow> bool" for cf :: settings where
  step_credit: "credit cf now r d = Inr (t, d') \<Longrightarrow> wallet_step cf d d'"
| step_grant: "grant_credits cf now u n reason actor key e m d = Inr (t, d') \<Longrightarrow> wallet_step cf d d'"
| step_debit: "debit cf now q d = Inr (a, d') \<Longrightarrow> wallet_step cf d d'"
| step_hold: "hold cf now p d = Inr (h, d') \<Longrightarrow> \<not> was_waived (ho_meta p) \<Longrightarrow> wallet_step cf d d'"
| step_capture: "capture now i ac desc m d = Inr (t, d') \<Longrightarrow> wallet_step cf d d'"
| step_release: "release now i ex d = Inr (h, d') \<Longrightarrow> wallet_step cf d d'"
| step_expire_lots: "expire_credit_lots now d = (k, d') \<Longrightarrow> wallet_step cf d d'"
| step_expire_holds: "expire_holds now d = Inr (k', d') \<Longrightarrow> wallet_step cf d d'"
| step_clawback: "wallet_step cf d (handle_clawback now event label d)"
| step_reverse: "reverse_clawback now ev row d = Inr (n, d') \<Longrightarrow>
    (\<And>x. get_row txn_id (txn_id row) (txns d) = Some x \<Longrightarrow> clawback_row_ok d x) \<Longrightarrow> wallet_step cf d d'"

inductive reachable :: "settings \<Rightarrow> db \<Rightarrow> bool" for cf :: settings where
  start: "reachable cf empty_db"
| step: "reachable cf d \<Longrightarrow> wallet_step cf d d' \<Longrightarrow> reachable cf d'"

lemma wallet_step_inv:
  assumes "wallet_step cf d d'" and "inv d"
  shows "inv d'"
  using assms
proof cases
  case (step_expire_lots now k)
  with expire_credit_lots_inv[OF assms(2), of now] show ?thesis by simp
next
  case (step_expire_holds now k)
  with expire_holds_facts[OF assms(2), of now] show ?thesis by auto
next
  case (step_reverse now ev row n)
  then show ?thesis using reverse_clawback_inv[OF assms(2)] by blast
qed (auto intro: credit_inv grant_inv debit_inv hold_inv capture_inv release_inv handle_clawback_inv)

lemma reachable_inv: "reachable cf d \<Longrightarrow> inv d"
  by (induction rule: reachable.induct) (auto intro: inv_empty wallet_step_inv)

text \<open>Every step moves the holds along their state machine; \<open>CAPTURED\<close> is never left.\<close>

lemma expire_credit_lots_holds: "holds (snd (expire_credit_lots now d)) = holds d"
proof -
  have "holds (snd (fold (sweep_wallet now) ws p)) = holds (snd p)" for ws p
  proof (induction ws arbitrary: p)
    case (Cons w ws)
    have "holds (snd (sweep_wallet now w p)) = holds (snd p)"
      using expire_holds_frame by (auto simp: sweep_wallet_def split: option.splits prod.splits) (metis snd_conv)
    with Cons show ?case by simp
  qed simp
  then show ?thesis by (simp add: expire_credit_lots_def)
qed

lemma captured_stays:
  "holds_move d d' \<Longrightarrow> hold_status_of d i = Some CAPTURED \<Longrightarrow> hold_status_of d' i = Some CAPTURED"
  unfolding holds_move_def by fastforce

lemma release_all_captured:
  assumes "inv d" and "release_all now is d = Inr d'" and "hold_status_of d i = Some CAPTURED"
  shows "hold_status_of d' i = Some CAPTURED"
  using assms
proof (induction "is" arbitrary: d)
  case (Cons j "is")
  then obtain h d1 where r: "release now j True d = Inr (h, d1)" "release_all now is d1 = Inr d'"
    by (auto split: sum.splits)
  with Cons.IH[OF release_inv[OF Cons.prems(1) r(1)] r(2)] captured_stays[OF release_moves[OF Cons.prems(1) r(1)]] Cons.prems(3)
  show ?case by blast
qed simp

lemma wallet_step_captured:
  assumes "wallet_step cf d d'" and "inv d" and "hold_status_of d i = Some CAPTURED"
  shows "hold_status_of d' i = Some CAPTURED"
  using assms(1)
proof cases
  case (step_expire_lots now k)
  with expire_credit_lots_holds[of now d] assms(3) show ?thesis by (simp add: hold_status_of_def)
next
  case (step_expire_holds now k)
  then show ?thesis using release_all_captured[OF assms(2) _ assms(3)]
    by (auto simp: expire_holds_def Let_def split: sum.splits)
next
  case (step_clawback now event label)
  with handle_clawback_holds assms(3) show ?thesis by (simp add: hold_status_of_def)
next
  case (step_reverse now ev row n)
  with reverse_clawback_holds[OF step_reverse(1)] assms(3) show ?thesis by (simp add: hold_status_of_def)
next
  case (step_grant now u n reason actor key e m t)
  from grant_is_credit[OF step_grant] credit_holds[OF assms(2)] have "holds d' = holds d" by metis
  with assms(3) show ?thesis by (simp add: hold_status_of_def)
next
  case (step_credit now r t)
  with credit_holds[OF assms(2)] assms(3) show ?thesis by (simp add: hold_status_of_def)
next
  case (step_debit now q a)
  with debit_holds[OF assms(2)] assms(3) show ?thesis by (simp add: hold_status_of_def)
next
  case (step_hold now p h)
  then show ?thesis using captured_stays[OF hold_moves[OF assms(2)] assms(3)] by blast
next
  case (step_capture now j ac desc m t)
  then show ?thesis using captured_stays[OF capture_moves[OF assms(2)] assms(3)] by blast
next
  case (step_release now j ex h)
  then show ?thesis using captured_stays[OF release_moves[OF assms(2)] assms(3)] by blast
qed

end
