(* ===== verification/Fixtures.thy ===== *)
theory Fixtures
  imports Wallet_System
begin

section \<open>A small deployment to instantiate the properties on\<close>

text \<open>
  One set of settings (the default catalogue, an hour of hold time to live, staff metered
  only when the policy says so), two users, and the requests the witnesses send. The
  databases are computed from the model's own operations.
\<close>

definition alice :: user where
  "alice = \<lparr>u_id = ''a'', u_email = ''a@x'', u_authenticated = True, u_staff = False, u_superuser = False\<rparr>"

definition bob :: user where
  "bob = \<lparr>u_id = ''b'', u_email = ''b@x'', u_authenticated = True, u_staff = True, u_superuser = False\<rparr>"

definition cf0 :: settings where
  "cf0 = \<lparr>cf_plans = DEFAULT_PLANS, cf_packages = DEFAULT_CREDIT_PACKAGES, cf_hold_ttl = SInt 3600,
     cf_legacy_lookup = SNone, cf_strict = SBool True, cf_policy = SStr ''charge'', cf_resolver = staff_is_internal,
     cf_forfeit = FNone, cf_unknown_keys = SNone, cf_unknown_plans = SNone,
     cf_entitlement_keys = [''seats''], cf_users = [alice, bob]\<rparr>"

definition cf_metered :: settings where
  "cf_metered = cf0\<lparr>cf_policy := SStr ''meter_only''\<rparr>"

definition buy :: "int \<Rightarrow> deadline \<Rightarrow> string \<Rightarrow> credit_req" where
  "buy n e key = \<lparr>cr_user = alice, cr_credits = n, cr_type = CREDIT_PURCHASE, cr_source = PURCHASE, cr_desc = None,
     cr_amount = None, cr_meta = [], cr_expires = e, cr_key = key, cr_settle = True\<rparr>"

definition use :: "user \<Rightarrow> int \<Rightarrow> string \<Rightarrow> bool \<Rightarrow> debit_req" where
  "use u n key allow_partial = \<lparr>de_user = u, de_credits = n, de_type = AI_CHARGE, de_desc = None, de_meta = [],
     de_key = key, de_partial = allow_partial\<rparr>"

definition reserve :: "int \<Rightarrow> string \<Rightarrow> hold_req" where
  "reserve n key = \<lparr>ho_user = alice, ho_credits = n, ho_type = AI_CHARGE, ho_key = key, ho_desc = None,
     ho_meta = [], ho_expires = None\<rparr>"

text \<open>The database after a call, the old one when it raised.\<close>

definition after :: "db \<Rightarrow> 'e + 'a \<times> db \<Rightarrow> db" where
  "after d r = (case r of Inl e \<Rightarrow> d | Inr p \<Rightarrow> snd p)"

text \<open>Ten credits that die at 50, then five permanent ones, bought at 10.\<close>

definition d_two :: db where
  "d_two = after empty_db (credit cf0 10 (buy 5 Never ''p2'') (after empty_db (credit cf0 10 (buy 10 (At 50) ''p1'') empty_db)))"

lemma d_two_code [code]:
  "d_two =
   \<lparr>wallets =
    [\<lparr>w_id = 0, w_user = Some ''a'', w_pseudonym = [], w_merged_into = None,
        w_balance = 15, w_currency = ''USD''\<rparr>],
    lots =
      [\<lparr>lot_id = 1, lot_wallet = 0, lot_source = PURCHASE, lot_initial = 10,
          lot_remaining = 10, lot_expires = At 50, lot_grant = Some 2\<rparr>,
       \<lparr>lot_id = 3, lot_wallet = 0, lot_source = PURCHASE, lot_initial = 5,
          lot_remaining = 5, lot_expires = Never, lot_grant = Some 4\<rparr>],
    txns =
      [\<lparr>txn_id = 2, txn_wallet = 0, txn_lot = Some 1,
          txn_type = CREDIT_PURCHASE, txn_amount = None, txn_delta = 10,
          txn_balance = 10, txn_desc = None,
          txn_meta = [(''idempotency_key'', JStr ''p1'')], txn_key = ''p1'',
          txn_created = 10\<rparr>,
       \<lparr>txn_id = 4, txn_wallet = 0, txn_lot = Some 3,
          txn_type = CREDIT_PURCHASE, txn_amount = None, txn_delta = 5,
          txn_balance = 15, txn_desc = None,
          txn_meta = [(''idempotency_key'', JStr ''p2'')], txn_key = ''p2'',
          txn_created = 10\<rparr>],
    holds = [], allocs = [], debts = [], subs = [], grants = [],
    pendings = [], comps = [], events = [], outbox = [], next_id = 5\<rparr>"
  by code_simp

text \<open>The same with seven of them reserved.\<close>

definition d_held :: db where
  "d_held = after d_two (hold cf0 20 (reserve 7 ''job'') d_two)"

lemma d_held_code [code]:
  "d_held =
   \<lparr>wallets =
    [\<lparr>w_id = 0, w_user = Some ''a'', w_pseudonym = [], w_merged_into = None,
        w_balance = 8, w_currency = ''USD''\<rparr>],
    lots =
      [\<lparr>lot_id = 1, lot_wallet = 0, lot_source = PURCHASE, lot_initial = 10,
          lot_remaining = 3, lot_expires = At 50, lot_grant = Some 2\<rparr>,
       \<lparr>lot_id = 3, lot_wallet = 0, lot_source = PURCHASE, lot_initial = 5,
          lot_remaining = 5, lot_expires = Never, lot_grant = Some 4\<rparr>],
    txns =
      [\<lparr>txn_id = 2, txn_wallet = 0, txn_lot = Some 1,
          txn_type = CREDIT_PURCHASE, txn_amount = None, txn_delta = 10,
          txn_balance = 10, txn_desc = None,
          txn_meta = [(''idempotency_key'', JStr ''p1'')], txn_key = ''p1'',
          txn_created = 10\<rparr>,
       \<lparr>txn_id = 4, txn_wallet = 0, txn_lot = Some 3,
          txn_type = CREDIT_PURCHASE, txn_amount = None, txn_delta = 5,
          txn_balance = 15, txn_desc = None,
          txn_meta = [(''idempotency_key'', JStr ''p2'')], txn_key = ''p2'',
          txn_created = 10\<rparr>],
    holds =
      [\<lparr>hold_id = 5, hold_wallet = 0, hold_credits = 7,
          hold_type = AI_CHARGE, hold_desc = None, hold_meta = [],
          hold_key = ''job'', hold_status = HELD,
          hold_expires = At 3600000020, hold_resolved = None\<rparr>],
    allocs =
      [\<lparr>alloc_id = 6, alloc_hold = 5, alloc_lot = 1, alloc_credits = 7\<rparr>],
    debts = [], subs = [], grants = [], pendings = [], comps = [],
    events = [], outbox = [], next_id = 7\<rparr>"
  by code_simp

subsection \<open>The sample databases are reachable\<close>

lemma after_ok: "ok r \<Longrightarrow> \<exists>t. r = Inr (t, after d r)"
  by (cases r) (auto simp: after_def)

lemma reach_two: "reachable cf0 d_two"
proof -
  let ?d = "after empty_db (credit cf0 10 (buy 10 (At 50) ''p1'') empty_db)"
  have "ok (credit cf0 10 (buy 10 (At 50) ''p1'') empty_db)" "ok (credit cf0 10 (buy 5 Never ''p2'') ?d)"
    by code_simp+
  with after_ok show ?thesis unfolding d_two_def
    by (metis reachable.start reachable.step step_credit)
qed

lemma reach_held: "reachable cf0 d_held"
proof -
  have "ok (hold cf0 20 (reserve 7 ''job'') d_two)" "\<not> was_waived (ho_meta (reserve 7 ''job''))" by code_simp+
  with after_ok reach_two show ?thesis unfolding d_held_def
    by (metis reachable.step step_hold)
qed

lemmas inv_samples = reach_two[THEN reachable_inv] reach_held[THEN reachable_inv]

end
