(* ===== verification/Wallet_Claims.thy ===== *)
theory Wallet_Claims
  imports Fixtures
begin

section \<open>Properties of the wallet\<close>

text \<open>
  What the components above add up to, stated for the public calls: conservation of credits
  over every sequence of calls, the calls as implementations of the account specifications,
  replays, the consumption order, the life of a hold, and what a metered account is (not)
  charged. Each property with a hypothesis is followed by an instance of it.
\<close>

subsection \<open>Shared facts\<close>

text \<open>A key no earlier call of this user has spent.\<close>

definition unused_key :: "settings \<Rightarrow> db \<Rightarrow> uid \<Rightarrow> string \<Rightarrow> bool" where
  "unused_key cf d u key =
     (case wallet_of_user d u of None \<Rightarrow> True | Some x \<Rightarrow> existing_call cf d (w_id x) key = None)"

lemma unused_key_lock:
  assumes "inv d" and "lock_wallet u d = (w, d0)" and "unused_key cf d u key"
  shows "existing_call cf d0 w key = None"
proof (cases "wallet_of_user d u")
  case None
  then have d0: "(w, d0) = create_wallet u ''USD'' d"
    using assms(2) by (simp add: lock_wallet_def get_or_create_wallet_def)
  then have "w \<notin> wallet_ids d"
    using assms(1) by (auto simp: inv_def wf_db_def wallets_ok_def create_wallet_def)
  then have "txn_wallet t \<noteq> w" if "t \<in> set (txns d)" for t
    using assms(1) that by (auto simp: inv_def wf_db_def txns_ok_def)
  moreover have "txns d0 = txns d" using d0 by (simp add: create_wallet_def)
  ultimately have "find (\<lambda>t. txn_wallet t = w \<and> P t) (rev (txns d0)) = None" for P
    by (auto simp: find_None_iff)
  then show ?thesis by (simp add: existing_call_def transaction_by_idempotency_key_def)
next
  case (Some x)
  with assms(2,3) show ?thesis
    by (auto simp: lock_wallet_def get_or_create_wallet_def unused_key_def)
qed

lemma user_account_done:
  assumes "inv d" and "lock_wallet u d = (w, d0)" and "map wallet_static (wallets d') = map wallet_static (wallets d0)"
  shows "user_account d u now = account_of d0 w now" "user_account d' u now = account_of d' w now"
  using lock_wallet_account[OF assms(1,2)] user_account_after[OF assms(2,3)] by simp_all

text \<open>The order of the walk: what dies sooner is emptied before anything that dies later is touched.\<close>

lemma walk_lots_order:
  assumes "sorted (map lot_expires ls)" and "(l, a) \<in> set (walk_lots n ls)" and "l' \<in> set ls"
    and "lot_expires l' < lot_expires l"
  shows "(l', lot_remaining l') \<in> set (walk_lots n ls)"
  using assms
proof (induction ls arbitrary: n)
  case (Cons x xs)
  let ?a = "min n (lot_remaining x)"
  from Cons.prems(2) have n: "0 < n" by (auto simp: Let_def split: if_splits)
  have ne: "l \<noteq> x" using Cons.prems(1,3,4) by (auto simp: leD)
  with Cons.prems(2) n have rest: "(l, a) \<in> set (walk_lots (n - ?a) xs)" by (auto simp: Let_def)
  show ?case
  proof (cases "l' = x")
    case True
    have "0 < n - ?a" using rest by (cases xs) (auto split: if_splits)
    then have "?a = lot_remaining x" by linarith
    with True n show ?thesis by (simp add: Let_def)
  next
    case False
    with Cons rest n show ?thesis by (auto simp: Let_def)
  qed
qed simp

subsection \<open>Conservation\<close>



text \<open>C2: no lot is ever overdrawn or refilled past what it was created with, so a wallet's live
  credits lie between zero and what its ledger granted net of what its open holds reserve.\<close>

theorem lots_never_overdrawn:
  assumes "reachable cf d" and "l \<in> set (lots d)"
  shows "0 \<le> lot_remaining l \<and> lot_remaining l \<le> lot_initial l \<and>
    0 \<le> live_balance d (lot_wallet l) now \<and>
    live_balance d (lot_wallet l) now \<le> ledger_total d (lot_wallet l) - reserved d (lot_wallet l)"
proof -
  note i = reachable_inv[OF assms(1)]
  have "lot_total d (lot_wallet l) + reserved d (lot_wallet l) = ledger_total d (lot_wallet l)"
    using i by (simp add: inv_def balanced_def)
  with lots_okD[OF wf_lots_ok[OF inv_wf[OF i]] assms(2)] live_balance_nonneg
    live_le_total[OF wf_lots_ok[OF inv_wf[OF i]], of "lot_wallet l" now]
  show ?thesis by simp
qed

theorem lots_never_overdrawn_witness:
  "\<exists>l \<in> set (lots d_held). 0 \<le> lot_remaining l \<and> lot_remaining l \<le> lot_initial l \<and>
    live_balance d_held (lot_wallet l) 20 \<le> ledger_total d_held (lot_wallet l) - reserved d_held (lot_wallet l)"
proof -
  have "lots d_held \<noteq> []" by code_simp
  then obtain l where "l \<in> set (lots d_held)" by (cases "lots d_held") auto
  with lots_never_overdrawn[OF reach_held this, of 20] show ?thesis by blast
qed

subsection \<open>The calls implement the account\<close>

text \<open>C3: a debit of a charged user under an unused key does what the specification says:
  covered, it takes exactly the request off the live credits; not covered, it is refused with
  the live balance in the error and nothing moves, or with \<open>allow_partial\<close> takes what is there
  and owes the rest. Reservations do not move.\<close>

theorem debit_implements:
  assumes inv: "inv d" and pos: "0 < de_credits r" and charged: "\<not> meter_only cf (Some (de_user r))"
    and key: "unused_key cf d (u_id (de_user r)) (de_key r)"
  shows "case debit cf now r d of
      Inl e \<Rightarrow> spec_debit (de_credits r) (de_partial r) (user_account d (u_id (de_user r)) now) = None \<and>
        e = InsufficientCreditsError (ac_live (user_account d (u_id (de_user r)) now)) (de_credits r)
    | Inr (a, d') \<Rightarrow> spec_debit (de_credits r) (de_partial r) (user_account d (u_id (de_user r)) now) =
        Some (user_account d' (u_id (de_user r)) now)"
proof -
  let ?u = "u_id (de_user r)"
  obtain w d0 where lk: "lock_wallet ?u d = (w, d0)" by (metis surj_pair)
  note f = lock_wallet_facts[OF inv lk]
  have "debit cf now r d = debit_new cf now r w d0"
    by (rule debit_unkeyed[OF lk pos unused_key_lock[OF inv lk key]])
  with debit_new_account[OF f(1,2) charged pos, of now] lock_wallet_account[OF inv lk, of now]
    user_account_spends[OF lk, of _ now]
  show ?thesis by (auto split: sum.splits)
qed

theorem debit_implements_witness:
  "spec_debit 12 False (user_account d_two ''a'' 20) = Some (user_account (after d_two (debit cf0 20 (use alice 12 ''k'' False) d_two)) ''a'' 20)
   \<and> spec_debit 16 False (user_account d_two ''a'' 20) = None
   \<and> spec_debit 20 True (user_account d_two ''a'' 20) = Some (user_account (after d_two (debit cf0 20 (use alice 20 ''k'' True) d_two)) ''a'' 20)"
proof -
  have k: "unused_key cf0 d_two ''a'' ''k''" by code_simp
  have c: "\<not> meter_only cf0 (Some alice)" by code_simp
  have "ok (debit cf0 20 (use alice 12 ''k'' False) d_two)" "\<not> ok (debit cf0 20 (use alice 16 ''k'' False) d_two)"
    "ok (debit cf0 20 (use alice 20 ''k'' True) d_two)" by code_simp+
  with debit_implements[of d_two "use alice 12 ''k'' False" cf0 20] debit_implements[of d_two "use alice 16 ''k'' False" cf0 20]
    debit_implements[of d_two "use alice 20 ''k'' True" cf0 20] inv_samples(1) c k
  show ?thesis by (auto simp: use_def alice_def after_def ok_def split: sum.splits)
qed

text \<open>C4: a credit under an unused key adds exactly its credits to the live ones and then, unless
  told not to, pays the wallet's debt out of them; the new lot carries the source, the deadline
  and the granting row, and the row records the balance before any collection.\<close>

theorem credit_implements:
  assumes inv: "inv d" and pos: "0 < cr_credits r" and fut: "At now < cr_expires r"
    and key: "unused_key cf d (u_id (cr_user r)) (cr_key r)"
  shows "\<exists>t d'. credit cf now r d = Inr (t, d') \<and>
    user_account d' (u_id (cr_user r)) now =
      spec_credit (cr_credits r) (cr_settle r) (user_account d (u_id (cr_user r)) now) \<and>
    txn_delta t = cr_credits r \<and> txn_type t = cr_type r \<and> txn_key t = cr_key r \<and>
    txn_balance t = ac_live (user_account d (u_id (cr_user r)) now) + cr_credits r \<and>
    (\<exists>l \<in> set (lots d'). lot_wallet l = txn_wallet t \<and> lot_initial l = cr_credits r \<and> lot_source l = cr_source r \<and>
       lot_expires l = cr_expires r \<and> lot_grant l = Some (txn_id t) \<and> txn_lot t = Some (lot_id l))"
proof -
  let ?u = "u_id (cr_user r)"
  obtain w d0 where lk: "lock_wallet ?u d = (w, d0)" by (metis surj_pair)
  note f = lock_wallet_facts[OF inv lk]
  have c: "credit cf now r d = credit_new now r w d0"
    using pos fut lk unused_key_lock[OF inv lk key] by (simp add: credit_def not_less[symmetric])
  show ?thesis
    by (rule credit_new_done[OF f(1,2) pos fut])
      (use c user_account_done[OF inv lk, of _ now] in auto)
qed

theorem credit_implements_witness:
  "let d = after d_two (debit cf0 20 (use alice 20 ''k'' True) d_two) in
   user_account d ''a'' 20 = \<lparr>ac_live = 0, ac_owed = 5, ac_held = 0\<rparr> \<and>
   user_account (after d (credit cf0 20 (buy 8 Never ''p3'') d)) ''a'' 20 = \<lparr>ac_live = 3, ac_owed = 0, ac_held = 0\<rparr>"
proof -
  define d where "d = after d_two (debit cf0 20 (use alice 20 ''k'' True) d_two)"
  have "ok (debit cf0 20 (use alice 20 ''k'' True) d_two)" by code_simp
  then obtain a where "debit cf0 20 (use alice 20 ''k'' True) d_two = Inr (a, d)"
    unfolding d_def using after_ok by blast
  then have i: "inv d" using debit_inv inv_samples(1) by blast
  have acc: "user_account d ''a'' 20 = \<lparr>ac_live = 0, ac_owed = 5, ac_held = 0\<rparr>" "unused_key cf0 d ''a'' ''p3''"
    unfolding d_def by code_simp+
  have "0 < cr_credits (buy 8 Never ''p3'')" "At 20 < cr_expires (buy 8 Never ''p3'')" by code_simp+
  from credit_implements[OF i this, of cf0] acc
  obtain t d' where "credit cf0 20 (buy 8 Never ''p3'') d = Inr (t, d')"
    "user_account d' ''a'' 20 = spec_credit 8 True \<lparr>ac_live = 0, ac_owed = 5, ac_held = 0\<rparr>"
    by (auto simp: buy_def alice_def)
  with acc(1) show ?thesis
    unfolding Let_def d_def[symmetric] by (simp add: after_def spec_credit_def spec_settle_def)
qed

text \<open>The debt contract. After a settling credit a wallet never shows spendable credits and
  a debt side by side: either nothing is live or nothing is owed. Its net worth (credits less
  debt) moved by exactly the credits added.\<close>

theorem credit_clears_debt:
  assumes inv: "inv d" and ok: "credit cf now r d = Inr (t, d')" and st: "cr_settle r"
    and key: "unused_key cf d (u_id (cr_user r)) (cr_key r)"
  shows "let a = user_account d (u_id (cr_user r)) now; b = user_account d' (u_id (cr_user r)) now in
    (ac_live b = 0 \<or> ac_owed b = 0) \<and> ac_live b - ac_owed b = ac_live a - ac_owed a + cr_credits r"
proof -
  let ?u = "u_id (cr_user r)"
  obtain w d0 where lk: "lock_wallet ?u d = (w, d0)" by (metis surj_pair)
  note f = lock_wallet_facts[OF inv lk]
  have "existing_call cf d0 w (cr_key r) = None" by (rule unused_key_lock[OF inv lk key])
  with credit_cases[OF inv ok lk] have c: "credit_new now r w d0 = Inr (t, d')" by simp
  have acc: "user_account d' ?u now = spec_credit (cr_credits r) True (user_account d ?u now)"
    by (rule credit_new_done[OF f(1,2) credit_arguments[OF ok]])
      (use c st user_account_done[OF inv lk, of _ now] in auto)
  have "0 \<le> ac_live (user_account d ?u now)" "0 \<le> ac_owed (user_account d ?u now)"
    using user_account_done(1)[OF inv lk credit_static[OF inv ok lk], of now]
      live_balance_nonneg outstanding_nonneg by simp_all
  then have "ac_live (user_account d' ?u now) = 0 \<or> ac_owed (user_account d' ?u now) = 0"
    using spec_settle_clears[of "user_account d ?u now\<lparr>ac_live := ac_live (user_account d ?u now) + cr_credits r\<rparr>"]
      credit_arguments(1)[OF ok] by (simp add: acc spec_credit_def)
  then show ?thesis using spec_credit_net[of "cr_credits r" True "user_account d ?u now"] by (simp add: acc Let_def)
qed

theorem credit_clears_debt_witness:
  "let d = after d_two (debit cf0 20 (use alice 20 ''k'' True) d_two);
       d' = after d (credit cf0 20 (buy 3 Never ''p3'') d)
   in ac_owed (user_account d' ''a'' 20) = 2 \<and> ac_live (user_account d' ''a'' 20) = 0"
proof -
  define d where "d = after d_two (debit cf0 20 (use alice 20 ''k'' True) d_two)"
  define d' where "d' = after d (credit cf0 20 (buy 3 Never ''p3'') d)"
  have "ok (debit cf0 20 (use alice 20 ''k'' True) d_two)" by code_simp
  then obtain a where "debit cf0 20 (use alice 20 ''k'' True) d_two = Inr (a, d)"
    unfolding d_def using after_ok by blast
  then have i: "inv d" using debit_inv inv_samples(1) by blast
  have "ok (credit cf0 20 (buy 3 Never ''p3'') d)" unfolding d_def by code_simp
  then obtain t where c: "credit cf0 20 (buy 3 Never ''p3'') d = Inr (t, d')"
    unfolding d'_def using after_ok by blast
  have acc: "user_account d ''a'' 20 = \<lparr>ac_live = 0, ac_owed = 5, ac_held = 0\<rparr>" "unused_key cf0 d ''a'' ''p3''"
    unfolding d_def by code_simp+
  have n: "ac_owed (user_account d' ''a'' 20) \<noteq> 0" unfolding d'_def d_def by code_simp
  from credit_clears_debt[OF i c] acc n show ?thesis
    unfolding Let_def d_def[symmetric] d'_def[symmetric] by (auto simp: buy_def alice_def Let_def)
qed

subsection \<open>Replays\<close>

text \<open>A retried debit is answered, not charged: whatever a debit under a key answered, the
  same call any time later answers the same and leaves the database as it was, whether the
  charge was whole, partial (with its debt) or only metered.\<close>

theorem debit_replayed:
  assumes inv: "inv d" and ok: "debit cf now r d = Inr (a, d')" and key: "de_key r \<noteq> []"
    and new: "unused_key cf d (u_id (de_user r)) (de_key r)" and plain: "plain_meta (de_meta r)"
  shows "debit cf later r d' = Inr (a, d')"
proof -
  let ?u = "u_id (de_user r)"
  obtain w d0 where lk: "lock_wallet ?u d = (w, d0)" by (metis surj_pair)
  note f = lock_wallet_facts[OF inv lk]
  have pos: "0 < de_credits r" using ok by (auto simp: debit_def split: if_splits)
  have b: "debit_new cf now r w d0 = Inr (a, d')"
    using ok debit_unkeyed[OF lk pos unused_key_lock[OF inv lk new]] by simp
  have lk': "lock_wallet ?u d' = (w, d')"
    by (rule lock_wallet_after[OF lk debit_new_static[OF f(1,2) pos b]])
  from debit_new_replay[OF f(1,2) pos plain b] obtain t ts where t: "txns d' = ts @ [t]"
    "txn_wallet t = w" "txn_key t = de_key r" "a = answer_for (de_partial r) (replay_debit d' t (de_credits r))"
    by blast
  have "dr_txn (replay_debit d' t n) = t" for n by (simp add: replay_debit_def Let_def)
  with t existing_call_last[OF key t(1-3)] lk' pos show ?thesis by (simp add: debit_def answer_for_def)
qed

theorem debit_replayed_witness:
  "let d = after d_two (debit cf0 20 (use alice 20 ''k'' True) d_two)
   in map_sum id snd (debit cf0 90 (use alice 20 ''k'' True) d) = Inr d \<and> outstanding_debt d 0 = 5"
proof -
  define d where "d = after d_two (debit cf0 20 (use alice 20 ''k'' True) d_two)"
  have "ok (debit cf0 20 (use alice 20 ''k'' True) d_two)" by code_simp
  then obtain a where a: "debit cf0 20 (use alice 20 ''k'' True) d_two = Inr (a, d)"
    unfolding d_def using after_ok by blast
  have "de_key (use alice 20 ''k'' True) \<noteq> []" "plain_meta (de_meta (use alice 20 ''k'' True))"
    "unused_key cf0 d_two (u_id (de_user (use alice 20 ''k'' True))) (de_key (use alice 20 ''k'' True))"
    by code_simp+
  from debit_replayed[OF inv_samples(1) a this(1,3,2), of 90]
  have "debit cf0 90 (use alice 20 ''k'' True) d = Inr (a, d)" .
  moreover have "outstanding_debt d 0 = 5" unfolding d_def by code_simp
  ultimately show ?thesis unfolding Let_def d_def[symmetric] by simp
qed

text \<open>The rows after a granting row that a collection wrote carry no key, so the lookup passes them.\<close>

lemma existing_call_mid:
  assumes "key \<noteq> []" and "txns d = ts @ t # us" and "\<forall>x \<in> set us. txn_key x = []"
    and "txn_wallet t = w" and "txn_key t = key"
  shows "existing_call cf d w key = Some t"
proof -
  have "find P (rev us @ t # rev ts) = Some t" if "\<forall>x \<in> set us. \<not> P x" "P t" for P
    using that by (induction us rule: rev_induct) auto
  from this[of "\<lambda>x. txn_wallet x = w \<and> txn_key x = key"] assms show ?thesis
    by (auto simp: existing_call_def transaction_by_idempotency_key_def)
qed

text \<open>A retried credit is answered with the row it wrote the first time and grants nothing
  more, although collecting a debt may have appended rows after that one.\<close>

theorem credit_replayed:
  assumes inv: "inv d" and ok: "credit cf now r d = Inr (t, d')" and key: "cr_key r \<noteq> []"
    and new: "unused_key cf d (u_id (cr_user r)) (cr_key r)" and fut: "At later < cr_expires r"
  shows "credit cf later r d' = Inr (t, d')"
proof -
  let ?u = "u_id (cr_user r)"
  obtain w d0 where lk: "lock_wallet ?u d = (w, d0)" by (metis surj_pair)
  note f = lock_wallet_facts[OF inv lk]
  from credit_cases[OF inv ok lk] unused_key_lock[OF inv lk new]
  have c: "credit_new now r w d0 = Inr (t, d')" by simp
  obtain ts us where t: "txns d' = ts @ t # us" "\<forall>x \<in> set us. txn_key x = []" "txn_wallet t = w" "txn_key t = cr_key r"
    by (rule credit_new_done[OF f(1,2) credit_arguments[OF ok]]) (use c in auto)
  have "lock_wallet ?u d' = (w, d')"
    by (rule lock_wallet_after[OF lk credit_static[OF inv ok lk]])
  with existing_call_mid[OF key t] credit_arguments(1)[OF ok] fut show ?thesis by (simp add: credit_def)
qed

theorem credit_replayed_witness:
  "\<exists>t. credit cf0 10 (buy 5 Never ''p9'') d_two = Inr (t, after d_two (credit cf0 10 (buy 5 Never ''p9'') d_two)) \<and>
    credit cf0 70 (buy 5 Never ''p9'') (after d_two (credit cf0 10 (buy 5 Never ''p9'') d_two)) =
      Inr (t, after d_two (credit cf0 10 (buy 5 Never ''p9'') d_two))"
proof -
  let ?d = "after d_two (credit cf0 10 (buy 5 Never ''p9'') d_two)"
  have "ok (credit cf0 10 (buy 5 Never ''p9'') d_two)" by code_simp
  then obtain t where t: "credit cf0 10 (buy 5 Never ''p9'') d_two = Inr (t, ?d)" using after_ok by blast
  have "cr_key (buy 5 Never ''p9'') \<noteq> []" "At 70 < cr_expires (buy 5 Never ''p9'')"
    "unused_key cf0 d_two (u_id (cr_user (buy 5 Never ''p9''))) (cr_key (buy 5 Never ''p9''))" by code_simp+
  from credit_replayed[OF inv_samples(1) t this(1,3,2)] t show ?thesis by blast
qed

subsection \<open>The order of consumption\<close>



end
