(* ===== verification/Paid_Facts.thy ===== *)
theory Paid_Facts
  imports Provider_Side Wallet_Claims
begin

section \<open>What a paid grant does\<close>

text \<open>
  Facts about the credits behind a checkout or an invoice: a credit without an idempotency key
  always lands, moves its owner's account by the specification and nobody else's; the claims,
  the announcements and the provider's tables do not touch an account.
\<close>

subsection \<open>A credit without a key\<close>

lemma lock_wallet_other:
  assumes "lock_wallet u d = (w, d0)" and "v \<noteq> u"
  shows "wallet_of_user d0 v = wallet_of_user d v"
proof -
  have f: "find (\<lambda>w. w_user w = Some v) (ws @ [x]) = find (\<lambda>w. w_user w = Some v) ws" if "w_user x = Some u" for ws x
    using that assms(2) by (induction ws) auto
  from assms(1) show ?thesis
    by (auto simp: f lock_wallet_def get_or_create_wallet_def create_wallet_def wallet_of_user_def split: option.splits)
qed

text \<open>Two users have two wallets.\<close>

lemma wallet_of_user_distinct:
  assumes "wf_db d" and "wallet_of_user d u = Some x" and "wallet_of_user d v = Some y" and "u \<noteq> v"
  shows "w_id x \<noteq> w_id y"
proof
  assume "w_id x = w_id y"
  moreover have "distinct (map w_id (wallets d))" using assms(1) by (simp add: wf_db_def wallets_ok_def)
  ultimately have "x = y"
    using wallet_of_user_Some[OF assms(2)] wallet_of_user_Some[OF assms(3)] by (metis distinct_map inj_onD)
  with wallet_of_user_Some[OF assms(2)] wallet_of_user_Some[OF assms(3)] assms(4) show False by simp
qed

lemma fresh_credit:
  assumes inv: "inv d" and pos: "0 < cr_credits r" and fut: "At now < cr_expires r"
    and key: "unused_key cf d (u_id (cr_user r)) (cr_key r)"
  obtains t d' where "credit cf now r d = Inr (t, d')" "inv d'"
    "user_account d' (u_id (cr_user r)) now = spec_credit (cr_credits r) (cr_settle r) (user_account d (u_id (cr_user r)) now)"
    "\<And>v. v \<noteq> u_id (cr_user r) \<Longrightarrow> user_account d' v now = user_account d v now"
    "txn_delta t = cr_credits r" "txn_type t = cr_type r"
    "\<exists>l \<in> set (lots d'). lot_initial l = cr_credits r \<and> lot_source l = cr_source r \<and> lot_expires l = cr_expires r \<and>
       lot_grant l = Some (txn_id t) \<and> map_option w_id (wallet_of_user d' (u_id (cr_user r))) = Some (lot_wallet l)"
    "\<exists>ts us. txns d' = txns d @ ts @ t # us \<and> (\<forall>x \<in> set ts. txn_type x = EXPIRATION)"
proof -
  let ?u = "u_id (cr_user r)"
  obtain w d0 where lk: "lock_wallet ?u d = (w, d0)" by (rule prod.exhaust)
  note f = lock_wallet_facts[OF inv lk]
  have c: "credit cf now r d = credit_new now r w d0"
    using pos fut lk unused_key_lock[OF inv lk key] by (simp add: credit_def not_less[symmetric])
  obtain t d' us where b: "credit_new now r w d0 = Inr (t, d')" "inv d'" "synced d' w now"
    "account_of d' w now = spec_credit (cr_credits r) (cr_settle r) (account_of d0 w now)"
    "\<And>w'. w' \<noteq> w \<Longrightarrow> account_of d' w' now = account_of d0 w' now"
    "map wallet_static (wallets d') = map wallet_static (wallets d0)"
    "txns d' = txns (snd (expire_due_lots w now d0)) @ t # us" "\<forall>x \<in> set us. txn_key x = []"
    "txn_wallet t = w" "txn_delta t = cr_credits r" "txn_key t = cr_key r" "txn_type t = cr_type r"
    "txn_balance t = live_balance d0 w now + cr_credits r"
    "\<exists>l \<in> set (lots d'). lot_wallet l = w \<and> lot_initial l = cr_credits r \<and> lot_source l = cr_source r \<and>
       lot_expires l = cr_expires r \<and> lot_grant l = Some (txn_id t) \<and> txn_lot t = Some (lot_id l)"
    "holds d' = holds d0"
    by (rule credit_new_done[OF f(1,2) pos fut]) (rule that; assumption)
  have mine: "map_option w_id (wallet_of_user d' ?u) = Some w"
    using static_wallet_of_user[OF b(6), of ?u] lock_wallet_user[OF lk] by auto
  have other: "user_account d' v now = user_account d v now" if v: "v \<noteq> ?u" for v
  proof -
    have s: "map_option w_id (wallet_of_user d' v) = map_option w_id (wallet_of_user d v)"
      using static_wallet_of_user[OF b(6), of v] lock_wallet_other[OF lk v] by simp
    show ?thesis
    proof (cases "wallet_of_user d v")
      case None
      with s show ?thesis by (simp add: user_account_def)
    next
      case (Some x)
      with s obtain y where y: "wallet_of_user d' v = Some y" "w_id y = w_id x" by auto
      obtain z where z: "wallet_of_user d' ?u = Some z" "w_id z = w" using mine by auto
      have "w_id y \<noteq> w" using wallet_of_user_distinct[OF inv_wf[OF b(2)] y(1) z(1) v] z(2) by simp
      then have "account_of d' (w_id y) now = account_of d0 (w_id y) now" by (rule b(5))
      also have "\<dots> = account_of d (w_id y) now" by (rule account_cong) (use f in simp_all)
      finally show ?thesis using Some y by (simp add: user_account_def)
    qed
  qed
  obtain ts where ts: "txns (snd (expire_due_lots w now d0)) = txns d @ ts" "\<forall>x \<in> set ts. txn_type x = EXPIRATION"
    using expire_txns[of w now d0] f(4) by auto
  show ?thesis
  proof (rule that[of t d'])
    show "user_account d' ?u now = spec_credit (cr_credits r) (cr_settle r) (user_account d ?u now)"
      using user_account_done[OF inv lk b(6), of now] b(4) by simp
    show "\<exists>ts us. txns d' = txns d @ ts @ t # us \<and> (\<forall>x \<in> set ts. txn_type x = EXPIRATION)"
      using b(7) ts by auto
  qed (use b c mine other in auto)
qed

lemma keyless_unused: "key = [] \<Longrightarrow> unused_key cf d u key"
  by (simp add: unused_key_def existing_call_def split: option.splits)

lemmas keyless_credit = fresh_credit[OF _ _ _ keyless_unused]

lemma keyless_credit_account:
  assumes "inv d" and "0 < cr_credits r" and "At now < cr_expires r" and "cr_key r = []"
  shows "\<exists>t d'. credit cf now r d = Inr (t, d') \<and> inv d' \<and>
    user_account d' (u_id (cr_user r)) now = spec_credit (cr_credits r) (cr_settle r) (user_account d (u_id (cr_user r)) now) \<and>
    (\<forall>v. v \<noteq> u_id (cr_user r) \<longrightarrow> user_account d' v now = user_account d v now) \<and>
    (\<exists>l \<in> set (lots d'). lot_source l = cr_source r \<and> lot_initial l = cr_credits r \<and> lot_expires l = cr_expires r \<and>
       lot_grant l = Some (txn_id t))"
  by (rule keyless_credit[OF assms, of cf]) blast

end
