(* ===== verification/Merge.thy ===== *)
theory Merge
  imports Hold_Life
begin

section \<open>Folding one account's wallet into another's (services.py: merge\_wallets)\<close>

text \<open>
  The credit half of an account merge. The rows of the merged wallet change owner as rows, so
  that a lot keeps its deadline and its source; account-bound lots can be forfeited first;
  the survivor gets one ledger row under a key derived from the pair of accounts, which is
  also what makes a second delivery of the event do nothing. The digest of the key
  (\<open>hashlib.sha256\<close>, hexadecimal) is a parameter.
\<close>

definition merge_idempotency_key :: "(string \<Rightarrow> string) \<Rightarrow> uid \<Rightarrow> uid \<Rightarrow> string" where
  "merge_idempotency_key digest from into = ''merge:'' @ take 32 (digest (from @ '':'' @ into))"

record merge_counts =
  mc_wallets :: int
  mc_credits :: int
  mc_lots :: int
  mc_txns :: int
  mc_holds :: int
  mc_debts :: int
  mc_subs :: int
  mc_forfeited :: int

definition no_counts :: merge_counts where
  "no_counts = \<lparr>mc_wallets = 0, mc_credits = 0, mc_lots = 0, mc_txns = 0, mc_holds = 0, mc_debts = 0,
     mc_subs = 0, mc_forfeited = 0\<rparr>"

subsection \<open>Account-bound credits\<close>

text \<open>The rows that granted credits of a forfeitable source, and the lots that carry such credits.\<close>

definition bound_grants :: "string list \<Rightarrow> uuid \<Rightarrow> db \<Rightarrow> uuid list" where
  "bound_grants sources w d =
     concat (map (\<lambda>l. case lot_grant l of Some g \<Rightarrow> [g] | None \<Rightarrow> [])
       (filter (\<lambda>l. lot_source_value (lot_source l) \<in> set sources) (wallet_lots d w)))"

definition account_bound :: "string list \<Rightarrow> uuid \<Rightarrow> db \<Rightarrow> lot list" where
  "account_bound sources w d =
     (let gs = bound_grants sources w d
      in filter (\<lambda>l. 0 < lot_remaining l \<and>
           (lot_source_value (lot_source l) \<in> set sources \<or>
            lot_source l = HOLD_RELEASE \<and> (\<exists>g \<in> set gs. lot_grant l = Some g))) (wallet_lots d w))"

fun forfeit_walk :: "uuid \<Rightarrow> time \<Rightarrow> lot list \<Rightarrow> int \<Rightarrow> db \<Rightarrow> db" where
  "forfeit_walk w now [] running d = d"
| "forfeit_walk w now (l # ls) running d =
     (let amount = lot_remaining l;
          d1 = upd_lot (lot_id l) (\<lambda>x. x\<lparr>lot_remaining := 0\<rparr>) d;
          (t, d2) = create_txn w (Some (lot_id l)) EXPIRATION None (- amount) (running - amount)
            (Some ''Credits not transferable on account merge'')
            [(''lot_id'', JStr (uuid_str (lot_id l))),
             (''source'', JStr (lot_source_value (lot_source l))), (''merge_forfeit'', JBool True)]
            [] now d1
      in forfeit_walk w now ls (running - amount) d2)"

definition forfeit_lots_on_merge :: "settings \<Rightarrow> uuid \<Rightarrow> time \<Rightarrow> db \<Rightarrow> int \<times> db" where
  "forfeit_lots_on_merge cf w now d =
     (let sources = merge_forfeit_lot_sources cf
      in if sources = [] then (0, d)
         else let ls = account_bound sources w d
              in if ls = [] then (0, d)
                 else (\<Sum>l\<leftarrow>ls. lot_remaining l,
                       snd (sync_balance w now (forfeit_walk w now ls (live_balance d w now) d))))"

subsection \<open>Moving the rows\<close>

definition rename_clashes :: "uuid \<Rightarrow> uuid \<Rightarrow> db \<Rightarrow> db" where
  "rename_clashes merged survivor d =
     (let taken = map hold_key (filter (\<lambda>h. hold_wallet h = survivor) (holds d))
      in d\<lparr>holds := map (\<lambda>h. if hold_wallet h = merged \<and> hold_key h \<in> set taken
             then h\<lparr>hold_key := hold_key h @ '':merged:'' @ uuid_str merged\<rparr> else h) (holds d)\<rparr>)"

definition move_rows :: "uuid \<Rightarrow> uuid \<Rightarrow> db \<Rightarrow> db" where
  "move_rows merged survivor d =
     d\<lparr>lots := map (\<lambda>l. if lot_wallet l = merged then l\<lparr>lot_wallet := survivor\<rparr> else l) (lots d),
       txns := map (\<lambda>t. if txn_wallet t = merged then t\<lparr>txn_wallet := survivor\<rparr> else t) (txns d),
       holds := map (\<lambda>h. if hold_wallet h = merged then h\<lparr>hold_wallet := survivor\<rparr> else h) (holds d),
       debts := map (\<lambda>x. if debt_wallet x = merged then x\<lparr>debt_wallet := survivor\<rparr> else x) (debts d)\<rparr>"

definition close_wallet :: "uuid \<Rightarrow> uuid \<Rightarrow> db \<Rightarrow> db" where
  "close_wallet merged survivor d =
     upd_wallet merged (\<lambda>x. x\<lparr>w_balance := 0, w_user := None, w_merged_into := Some survivor\<rparr>) d"

text \<open>The subscription: moved whole when the survivor has none, else detached. A user the table
  of users does not hold is the foreign key's \<open>IntegrityError\<close>.\<close>

definition merge_subscription :: "settings \<Rightarrow> uid \<Rightarrow> uid \<Rightarrow> db \<Rightarrow> error + int \<times> db" where
  "merge_subscription cf from into d =
     (case find (\<lambda>s. sub_user s = Some from) (subs d) of
        None \<Rightarrow> Inr (0, d)
      | Some s \<Rightarrow>
          if \<exists>x \<in> set (subs d). sub_user x = Some into
          then Inr (1, upd_sub (sub_id s) (\<lambda>x. x\<lparr>sub_user := None\<rparr>) d)
          else if \<not> (\<exists>u \<in> set (cf_users cf). u_id u = into) then Inl IntegrityError
          else Inr (1, upd_sub (sub_id s) (\<lambda>x. x\<lparr>sub_user := Some into\<rparr>) d))"

text \<open>\<open>get_or_create\<close> of the survivor's wallet, in the merged one's currency.\<close>

definition survivor_wallet :: "settings \<Rightarrow> uid \<Rightarrow> wallet \<Rightarrow> db \<Rightarrow> error + uuid \<times> db" where
  "survivor_wallet cf into merged d =
     (case wallet_of_user d into of
        Some x \<Rightarrow> Inr (w_id x, d)
      | None \<Rightarrow> if \<not> (\<exists>u \<in> set (cf_users cf). u_id u = into) then Inl IntegrityError
                else Inr (create_wallet into (w_currency merged) d))"

definition merge_row :: "uuid \<Rightarrow> uuid \<Rightarrow> int \<Rightarrow> string \<Rightarrow> time \<Rightarrow> db \<Rightarrow> db" where
  "merge_row merged survivor moved key now d =
     (let d1 = snd (expire_due_lots survivor now d);
          (balance, d2) = sync_balance survivor now d1
      in snd (create_txn survivor None ADJUSTMENT None moved balance
           (Some ''Credits merged from a folded account'')
           [(''merge'', JBool True), (''merged_wallet_id'', JStr (uuid_str merged)), (''idempotency_key'', JStr key)]
           key now d2))"

text \<open>The transfer between two locked wallets: sweep and forfeiture first, then the rows.\<close>

definition merge_out :: "settings \<Rightarrow> time \<Rightarrow> uuid \<Rightarrow> uuid \<Rightarrow> db \<Rightarrow> (int \<times> int) \<times> db" where
  "merge_out cf now m s d =
     (let (forfeited, d1) = forfeit_lots_on_merge cf m now (snd (expire_due_lots m now d))
      in ((forfeited, live_balance d1 m now), rename_clashes m s d1))"

definition moved_counts :: "uuid \<Rightarrow> int \<Rightarrow> int \<Rightarrow> int \<Rightarrow> db \<Rightarrow> merge_counts" where
  "moved_counts m moved forfeited n d =
     \<lparr>mc_wallets = 1, mc_credits = moved,
      mc_lots = int (length (filter (\<lambda>l. lot_wallet l = m) (lots d))),
      mc_txns = int (length (filter (\<lambda>t. txn_wallet t = m) (txns d))),
      mc_holds = int (length (filter (\<lambda>h. hold_wallet h = m) (holds d))),
      mc_debts = int (length (filter (\<lambda>x. debt_wallet x = m) (debts d))),
      mc_subs = n, mc_forfeited = forfeited\<rparr>"

definition merge_into ::
    "settings \<Rightarrow> string \<Rightarrow> time \<Rightarrow> uid \<Rightarrow> uid \<Rightarrow> uuid \<Rightarrow> uuid \<Rightarrow> db \<Rightarrow> error + merge_counts \<times> db" where
  "merge_into cf key now from into m s d =
     (let ((forfeited, moved), d1) = merge_out cf now m s d;
          d2 = merge_row m s moved key now (close_wallet m s (move_rows m s d1))
      in case merge_subscription cf from into d2 of
           Inl e \<Rightarrow> Inl e
         | Inr (n, d3) \<Rightarrow>
             (case settle_debts s now d3 of
                Inl e \<Rightarrow> Inl e
              | Inr (c, d4) \<Rightarrow> Inr (moved_counts m moved forfeited n d1, d4)))"

definition merge_wallets ::
    "(string \<Rightarrow> string) \<Rightarrow> settings \<Rightarrow> time \<Rightarrow> uid \<Rightarrow> uid \<Rightarrow> db \<Rightarrow> error + merge_counts \<times> db" where
  "merge_wallets digest cf now from into d =
     (let key = merge_idempotency_key digest from into
      in if \<exists>t \<in> set (txns d). txn_key t = key then Inr (no_counts, d)
         else case wallet_of_user d from of
           None \<Rightarrow> (case merge_subscription cf from into d of
                      Inl e \<Rightarrow> Inl e | Inr (n, d') \<Rightarrow> Inr (no_counts\<lparr>mc_subs := n\<rparr>, d'))
         | Some x \<Rightarrow>
             (case survivor_wallet cf into x d of
                Inl e \<Rightarrow> Inl e
              | Inr (s, d0) \<Rightarrow> merge_into cf key now from into (w_id x) s d0))"

subsection \<open>The forfeiture\<close>

text \<open>Emptying one lot under an expiration row: what every step of the walk does.\<close>

lemma zero_lot_step:
  assumes wf: "wf_db d" and w: "w \<in> wallet_ids d" and l: "l \<in> set (lots d)"
    and d': "d' = snd (create_txn w (Some (lot_id l)) EXPIRATION None (- lot_remaining l) bal desc m [] now
      (upd_lot (lot_id l) (\<lambda>x. x\<lparr>lot_remaining := 0\<rparr>) d))"
  shows "spends d d'" "ledger_total d' v = ledger_total d v - (if v = w then lot_remaining l else 0)"
    "lot_pred P \<Longrightarrow> lot_sum P d' = lot_sum P d - (if P l then lot_remaining l else 0)"
    "debts d' = debts d" "wallets d' = wallets d" "\<exists>t. txns d' = txns d @ [t] \<and> txn_key t = []"
    "l' \<in> set (lots d) \<Longrightarrow> lot_id l' \<noteq> lot_id l \<Longrightarrow> l' \<in> set (lots d')"
proof -
  let ?d1 = "upd_lot (lot_id l) (\<lambda>x. x\<lparr>lot_remaining := 0\<rparr>) d"
  have s1: "spends d ?d1"
    using lots_okD[OF wf_lots_ok[OF wf] l] by (intro spends_upd_remaining[OF wf l]) auto
  have w1: "w \<in> wallet_ids ?d1" using w spends_wallet_ids[OF s1] by simp
  have "spends ?d1 d'" unfolding d' by (rule spends_create_txn[OF spends_wf[OF wf s1] w1])
  with s1 show "spends d d'" by (rule spends_trans)
  show "ledger_total d' v = ledger_total d v - (if v = w then lot_remaining l else 0)"
    by (simp add: d' ledger_create_txn) (simp add: ledger_total_def upd_lot_def)
  have ld: "lots d' = lots ?d1" unfolding d' by (rule create_txn_frame)
  show "lot_sum P d' = lot_sum P d - (if P l then lot_remaining l else 0)" if "lot_pred P"
    using lot_sum_cong[OF ld] lot_sum_upd_remaining[OF wf_lots_ok[OF wf] l that, of 0] by simp
  show "debts d' = debts d" "wallets d' = wallets d" unfolding d' create_txn_frame by (simp_all add: upd_grant_frame)
  show "\<exists>t. txns d' = txns d @ [t] \<and> txn_key t = []" by (simp add: d' create_txn_frame upd_grant_frame)
  show "l' \<in> set (lots d')" if "l' \<in> set (lots d)" "lot_id l' \<noteq> lot_id l"
    using that unfolding ld by (auto simp: upd_lot_def set_upd_row image_iff)
qed

lemma forfeit_walk_facts:
  assumes "wf_db d" and "w \<in> wallet_ids d" and "distinct (map lot_id ls)" and "\<forall>l \<in> set ls. l \<in> set (lots d)"
  shows "spends d (forfeit_walk w now ls r d) \<and>
    ledger_total (forfeit_walk w now ls r d) v = ledger_total d v - (if v = w then \<Sum>l\<leftarrow>ls. lot_remaining l else 0) \<and>
    (lot_pred P \<longrightarrow> lot_sum P (forfeit_walk w now ls r d) = lot_sum P d - (\<Sum>l\<leftarrow>ls. if P l then lot_remaining l else 0)) \<and>
    debts (forfeit_walk w now ls r d) = debts d \<and>
    (\<exists>ts. txns (forfeit_walk w now ls r d) = txns d @ ts \<and> (\<forall>t \<in> set ts. txn_key t = []))"
  using assms
proof (induction ls arbitrary: r d)
  case Nil
  then show ?case by (simp add: spends_refl)
next
  case (Cons l ls)
  define d1 where "d1 = snd (create_txn w (Some (lot_id l)) EXPIRATION None (- lot_remaining l) (r - lot_remaining l)
    (Some ''Credits not transferable on account merge'')
    [(''lot_id'', JStr (uuid_str (lot_id l))), (''source'', JStr (lot_source_value (lot_source l))),
     (''merge_forfeit'', JBool True)] [] now (upd_lot (lot_id l) (\<lambda>x. x\<lparr>lot_remaining := 0\<rparr>) d))"
  have l: "l \<in> set (lots d)" using Cons.prems by simp
  note z = zero_lot_step[OF Cons.prems(1,2) l d1_def]
  have "\<forall>x \<in> set ls. x \<in> set (lots d1)" using Cons.prems(3,4) z(7) by (auto simp: image_iff)
  with Cons.IH[OF spends_wf[OF Cons.prems(1) z(1)], of "r - lot_remaining l"] spends_wallet_ids[OF z(1)] Cons.prems(2,3)
  have ih: "spends d1 (forfeit_walk w now ls (r - lot_remaining l) d1)"
    "ledger_total (forfeit_walk w now ls (r - lot_remaining l) d1) v = ledger_total d1 v - (if v = w then \<Sum>l\<leftarrow>ls. lot_remaining l else 0)"
    "lot_pred P \<Longrightarrow> lot_sum P (forfeit_walk w now ls (r - lot_remaining l) d1) = lot_sum P d1 - (\<Sum>l\<leftarrow>ls. if P l then lot_remaining l else 0)"
    "debts (forfeit_walk w now ls (r - lot_remaining l) d1) = debts d1"
    "\<exists>ts. txns (forfeit_walk w now ls (r - lot_remaining l) d1) = txns d1 @ ts \<and> (\<forall>t \<in> set ts. txn_key t = [])"
    by simp_all
  have eq: "forfeit_walk w now (l # ls) r d = forfeit_walk w now ls (r - lot_remaining l) d1"
    by (simp add: Let_def split_beta d1_def)
  from z(6) ih(5) have "\<exists>ts. txns (forfeit_walk w now ls (r - lot_remaining l) d1) = txns d @ ts \<and> (\<forall>t \<in> set ts. txn_key t = [])"
    by auto
  with spends_trans[OF z(1) ih(1)] ih(2-4) z(2)[of v] z(3)[of P] z(4) show ?case unfolding eq by simp
qed

lemma account_bound_mem:
  "l \<in> set (account_bound sources w d) \<Longrightarrow> l \<in> set (lots d) \<and> lot_wallet l = w \<and> 0 < lot_remaining l"
  by (auto simp: account_bound_def Let_def wallet_lots_def)

lemma account_bound_distinct: "lots_ok d \<Longrightarrow> distinct (map lot_id (account_bound sources w d))"
  using lots_ok_distinct by (auto simp: account_bound_def Let_def wallet_lots_def intro!: distinct_map_filter)

text \<open>
  On a swept wallet the forfeiture takes what it reports off the live credits, and nothing
  else of the account.
\<close>

lemma forfeit_facts:
  assumes inv: "inv d" and w: "w \<in> wallet_ids d"
    and swept: "\<forall>l \<in> set (lots d). lot_wallet l = w \<longrightarrow> 0 < lot_remaining l \<longrightarrow> At now < lot_expires l"
    and eq: "forfeit_lots_on_merge cf w now d = (n, d')"
  shows "inv d'" "spends d d'" "0 \<le> n" "live_balance d' v now = live_balance d v now - (if v = w then n else 0)"
    "debts d' = debts d" "\<exists>ts. txns d' = txns d @ ts \<and> (\<forall>t \<in> set ts. txn_key t = [])"
proof -
  note wf = inv_wf[OF inv]
  let ?ls = "account_bound (merge_forfeit_lot_sources cf) w d"
  let ?n = "\<Sum>l\<leftarrow>?ls. lot_remaining l"
  have n0: "0 \<le> ?n" using account_bound_mem by (intro sum_list_nonneg_int) (auto intro: less_imp_le)
  from eq have "n = 0 \<and> d' = d \<or> n = ?n \<and>
      d' = snd (sync_balance w now (forfeit_walk w now ?ls (live_balance d w now) d))"
    by (auto simp: forfeit_lots_on_merge_def Let_def split: if_splits)
  then have "inv d' \<and> spends d d' \<and> 0 \<le> n \<and> live_balance d' v now = live_balance d v now - (if v = w then n else 0) \<and>
    debts d' = debts d \<and> (\<exists>ts. txns d' = txns d @ ts \<and> (\<forall>t \<in> set ts. txn_key t = []))"
  proof
    assume "n = 0 \<and> d' = d"
    with inv show ?thesis by (simp add: spends_refl[OF wf])
  next
    assume e: "n = ?n \<and> d' = snd (sync_balance w now (forfeit_walk w now ?ls (live_balance d w now) d))"
    define r where "r = live_balance d w now"
    let ?d1 = "forfeit_walk w now ?ls r d"
    have mem: "\<forall>l \<in> set ?ls. l \<in> set (lots d)" using account_bound_mem by blast
    note f = forfeit_walk_facts[OF wf w account_bound_distinct[OF wf_lots_ok[OF wf]] mem, of now r]
    have s: "spends d ?d1" using f by blast
    have wf1: "wf_db ?d1" by (rule spends_wf[OF wf s])
    have "(\<Sum>l\<leftarrow>?ls. if spendable v now l then lot_remaining l else 0) = (\<Sum>l\<leftarrow>?ls. if v = w then lot_remaining l else 0)"
      "(\<Sum>l\<leftarrow>?ls. if in_wallet u l then lot_remaining l else 0) = (\<Sum>l\<leftarrow>?ls. if u = w then lot_remaining l else 0)" for u
      using account_bound_mem swept
      by (intro arg_cong[where f = sum_list] map_cong; auto simp: spendable_def in_wallet_def)+
    then have sums: "(\<Sum>l\<leftarrow>?ls. if spendable v now l then lot_remaining l else 0) = (if v = w then ?n else 0)"
      "(\<Sum>l\<leftarrow>?ls. if in_wallet u l then lot_remaining l else 0) = (if u = w then ?n else 0)" for u
      by (auto simp: sum_list_triv)
    have live: "live_balance ?d1 v now = live_balance d v now - (if v = w then ?n else 0)"
      unfolding live_balance_spendable[OF wf_lots_ok[OF wf]] live_balance_spendable[OF wf_lots_ok[OF wf1]]
      using f sums(1) by simp
    have "lot_total ?d1 u - ledger_total ?d1 u = lot_total d u - ledger_total d u" for u
      using forfeit_walk_facts[OF wf w account_bound_distinct[OF wf_lots_ok[OF wf]] mem, of now r u "in_wallet u"]
        sums(2)[of u] by (simp add: lot_total_def)
    then have i1: "inv ?d1" by (intro inv_spends[OF inv s])
    with e[folded r_def] s live f n0 spends_trans[OF s spends_sync[OF wf1, of w now]] inv_sync[OF i1]
    show ?thesis by (simp add: sync_totals sync_balance_frame)
  qed
  then show "inv d'" "spends d d'" "0 \<le> n" "live_balance d' v now = live_balance d v now - (if v = w then n else 0)"
    "debts d' = debts d" "\<exists>ts. txns d' = txns d @ ts \<and> (\<forall>t \<in> set ts. txn_key t = [])" by blast+
qed

subsection \<open>Moving the rows adds the accounts up\<close>

text \<open>A sum over the rows of a wallet, after the rows of \<open>m\<close> went to \<open>s\<close>.\<close>

lemma sum_moved:
  fixes g :: "'r \<Rightarrow> int"
  assumes "m \<noteq> s" and "\<And>x. k (f x) = s" and "\<And>x. g (f x) = g x"
  shows "(\<Sum>x\<leftarrow>map (\<lambda>x. if k x = m then f x else x) xs. if k x = v then g x else 0) =
    (if v = m then 0 else (\<Sum>x\<leftarrow>xs. if k x = v then g x else 0) +
      (if v = s then \<Sum>x\<leftarrow>xs. if k x = m then g x else 0 else 0))"
  using assms by (induction xs) auto

definition add_at :: "uuid \<Rightarrow> uuid \<Rightarrow> (uuid \<Rightarrow> int) \<Rightarrow> uuid \<Rightarrow> int" where
  "add_at m s g v = (if v = m then 0 else g v + (if v = s then g m else 0))"

lemma rename_facts:
  assumes "inv d"
  shows "inv (rename_clashes m s d)" "account_of (rename_clashes m s d) v now = account_of d v now"
    "wallets (rename_clashes m s d) = wallets d" "lots (rename_clashes m s d) = lots d"
    "txns (rename_clashes m s d) = txns d" "debts (rename_clashes m s d) = debts d" "subs (rename_clashes m s d) = subs d"
proof -
  let ?d = "rename_clashes m s d"
  define f where "f h = (if hold_wallet h = m \<and> hold_key h \<in> set (map hold_key (filter (\<lambda>h. hold_wallet h = s) (holds d)))
    then h\<lparr>hold_key := hold_key h @ '':merged:'' @ uuid_str m\<rparr> else h)" for h :: hold
  have d: "?d = d\<lparr>holds := map f (holds d)\<rparr>" by (simp add: rename_clashes_def f_def Let_def)
  have f: "hold_id (f h) = hold_id h" "hold_wallet (f h) = hold_wallet h" "hold_status (f h) = hold_status h"
    "hold_credits (f h) = hold_credits h" "hold_meta (f h) = hold_meta h" for h by (simp_all add: f_def)
  show same: "wallets ?d = wallets d" "lots ?d = lots d" "txns ?d = txns d" "debts ?d = debts d" "subs ?d = subs d"
    by (simp_all add: d)
  have al: "alloc_total ?d i = alloc_total d i" for i by (rule totals_cong) (simp add: d)
  have ids: "map hold_id (holds ?d) = map hold_id (holds d)" by (simp add: d f(1))
  have "distinct (map hold_id (holds ?d))" unfolding ids using assms by (simp add: inv_def wf_db_def hold_rows_ok_def)
  then have "hold_rows_ok ?d"
    using assms by (auto simp: inv_def wf_db_def hold_rows_ok_def d f wallet_ids_def)
  moreover have "\<exists>h' \<in> set (holds ?d). hold_id h' = hold_id h \<and> hold_wallet h' = hold_wallet h" if "h \<in> set (holds d)" for h
    using that f by (auto simp: d)
  then have "alloc_rows_ok ?d"
    using inv_wf[OF assms] unfolding wf_db_def alloc_rows_ok_def by (simp add: d) metis
  ultimately have wf: "wf_db ?d" by (intro wf_holds_allocs[OF inv_wf[OF assms]]) (simp_all add: d)
  have res: "reserved ?d v = reserved d v" for v
    unfolding reserved_def al by (simp add: d held_in_def f o_def cong: if_cong)
  have "holds_ok ?d" using assms by (auto simp: inv_def holds_ok_def al) (auto simp: d f)
  moreover have "balanced ?d v" for v
    using assms res totals_cong(1)[OF same(2)] totals_cong(2)[OF same(3)] by (simp add: inv_def balanced_def)
  ultimately show "inv ?d" using wf by (simp add: inv_def)
  show "account_of ?d v now = account_of d v now"
    using res live_balance_cong[OF same(2)] outstanding_cong[OF same(4)] by (simp add: account_of_def)
qed

text \<open>The totals of a wallet as sums over its rows.\<close>

lemma sums_by_wallet:
  "lot_total d w = (\<Sum>l\<leftarrow>lots d. if lot_wallet l = w then lot_remaining l else 0)"
  "lots_ok d \<Longrightarrow> live_balance d w now =
    (\<Sum>l\<leftarrow>lots d. if lot_wallet l = w then (if At now < lot_expires l then lot_remaining l else 0) else 0)"
  "ledger_total d w = (\<Sum>t\<leftarrow>txns d. if txn_wallet t = w then txn_delta t else 0)"
  "outstanding_debt d w = (\<Sum>x\<leftarrow>debts d. if debt_wallet x = w
     then (if debt_settled x = None \<and> 0 < debt_outstanding x then debt_outstanding x else 0) else 0)"
  "reserved d w = (\<Sum>h\<leftarrow>holds d. if hold_wallet h = w
     then (if hold_status h = HELD then alloc_total d (hold_id h) else 0) else 0)"
  by (simp_all add: lot_total_def lot_sum_def in_wallet_def live_balance_spendable ledger_total_def outstanding_sum reserved_def)
    (auto simp: spendable_def held_in_def intro!: arg_cong[where f = sum_list] map_cong)

lemma move_tables:
  "lots (move_rows m s d) = map (\<lambda>l. if lot_wallet l = m then l\<lparr>lot_wallet := s\<rparr> else l) (lots d)"
  "txns (move_rows m s d) = map (\<lambda>t. if txn_wallet t = m then t\<lparr>txn_wallet := s\<rparr> else t) (txns d)"
  "holds (move_rows m s d) = map (\<lambda>h. if hold_wallet h = m then h\<lparr>hold_wallet := s\<rparr> else h) (holds d)"
  "debts (move_rows m s d) = map (\<lambda>x. if debt_wallet x = m then x\<lparr>debt_wallet := s\<rparr> else x) (debts d)"
  "wallets (move_rows m s d) = wallets d" "allocs (move_rows m s d) = allocs d" "next_id (move_rows m s d) = next_id d"
  "subs (move_rows m s d) = subs d"
  by (simp_all add: move_rows_def)

lemma move_sums:
  assumes "m \<noteq> s"
  shows "lot_total (move_rows m s d) v = add_at m s (lot_total d) v"
    "ledger_total (move_rows m s d) v = add_at m s (ledger_total d) v"
    "outstanding_debt (move_rows m s d) v = add_at m s (outstanding_debt d) v"
    "reserved (move_rows m s d) v = add_at m s (reserved d) v"
    "alloc_total (move_rows m s d) i = alloc_total d i"
  subgoal unfolding sums_by_wallet(1) add_at_def move_tables by (rule sum_moved) (use assms in simp_all)
  subgoal unfolding sums_by_wallet(3) add_at_def move_tables by (rule sum_moved) (use assms in simp_all)
  subgoal unfolding sums_by_wallet(4) add_at_def move_tables by (rule sum_moved) (use assms in simp_all)
  subgoal
  proof -
    have "alloc_total (move_rows m s d) = alloc_total d" by (rule ext, rule totals_cong) (rule move_tables)
    then show ?thesis unfolding sums_by_wallet(5) add_at_def move_tables
      by (simp only:) (rule sum_moved; use assms in simp)
  qed
  subgoal by (rule totals_cong) (rule move_tables)
  done

lemma move_live:
  assumes "m \<noteq> s" and "lots_ok d" and "lots_ok (move_rows m s d)"
  shows "live_balance (move_rows m s d) v now = add_at m s (\<lambda>w. live_balance d w now) v"
  unfolding sums_by_wallet(2)[OF assms(2)] sums_by_wallet(2)[OF assms(3)] add_at_def move_tables
  by (rule sum_moved) (use assms in simp_all)

lemma move_wf:
  assumes wf: "wf_db d" and s: "s \<in> wallet_ids d"
  shows "wf_db (move_rows m s d)"
proof -
  let ?d = "move_rows m s d"
  have ids: "map lot_id (lots ?d) = map lot_id (lots d)" "map txn_id (txns ?d) = map txn_id (txns d)"
    "map hold_id (holds ?d) = map hold_id (holds d)" "map debt_id (debts ?d) = map debt_id (debts d)"
    by (simp_all add: move_rows_def)
  define to where "to w = (if w = m then s else w)" for w
  have tab: "lots ?d = map (\<lambda>l. l\<lparr>lot_wallet := to (lot_wallet l)\<rparr>) (lots d)"
    "txns ?d = map (\<lambda>t. t\<lparr>txn_wallet := to (txn_wallet t)\<rparr>) (txns d)"
    "holds ?d = map (\<lambda>h. h\<lparr>hold_wallet := to (hold_wallet h)\<rparr>) (holds d)"
    "debts ?d = map (\<lambda>x. x\<lparr>debt_wallet := to (debt_wallet x)\<rparr>) (debts d)"
    by (auto simp: move_rows_def to_def)
  have rest: "wallets ?d = wallets d" "allocs ?d = allocs d" "next_id ?d = next_id d" by (simp_all add: move_rows_def)
  have to: "to w \<in> wallet_ids d" if "w \<in> wallet_ids d" for w using that s by (simp add: to_def)
  have wi: "wallet_ids ?d = wallet_ids d" by (simp add: wallet_ids_def rest)
  have dist: "distinct (map lot_id (lots ?d))" "distinct (map txn_id (txns ?d))" "distinct (map hold_id (holds ?d))"
    "distinct (map debt_id (debts ?d))"
    unfolding ids using wf by (simp_all add: wf_db_def table_ok_defs)
  have "lots_ok ?d" using wf_lots_ok[OF wf] dist(1) unfolding lots_ok_def by (auto simp: tab rest)
  moreover have "wallets_ok ?d" using wf by (simp add: wf_db_def wallets_ok_def wi rest)
  moreover have "txns_ok ?d" using wf dist(2) to unfolding wf_db_def txns_ok_def wi by (auto simp: tab rest)
  moreover have "lot_refs_ok ?d"
    unfolding lot_refs_ok_def wi
  proof (intro ballI conjI allI impI)
    fix l assume "l \<in> set (lots ?d)"
    then obtain l0 where l0: "l0 \<in> set (lots d)" "l = l0\<lparr>lot_wallet := to (lot_wallet l0)\<rparr>" by (auto simp: tab)
    with wf to show "lot_wallet l \<in> wallet_ids d" by (auto simp: wf_db_def lot_refs_ok_def)
    fix g assume "lot_grant l = Some g"
    with l0 wf obtain t where "t \<in> set (txns d)" "txn_id t = g" "txn_wallet t = lot_wallet l0"
      by (auto simp: wf_db_def lot_refs_ok_def)
    with l0(2) show "\<exists>t \<in> set (txns ?d). txn_id t = g \<and> txn_wallet t = lot_wallet l"
      by (intro bexI[of _ "t\<lparr>txn_wallet := to (txn_wallet t)\<rparr>"]) (auto simp: tab image_iff intro: bexI[of _ t])
  qed
  moreover have "hold_rows_ok ?d" using wf dist(3) to unfolding wf_db_def hold_rows_ok_def wi by (auto simp: tab rest)
  moreover have "alloc_rows_ok ?d"
    unfolding alloc_rows_ok_def rest
  proof (intro conjI ballI)
    show "distinct (map alloc_id (allocs d))" using wf by (simp add: wf_db_def alloc_rows_ok_def)
    fix a assume "a \<in> set (allocs d)"
    with wf obtain h l where hl: "alloc_id a < next_id d" "0 \<le> alloc_credits a" "h \<in> set (holds d)" "hold_id h = alloc_hold a"
      "l \<in> set (lots d)" "lot_id l = alloc_lot a" "lot_wallet l = hold_wallet h"
      by (auto simp: wf_db_def alloc_rows_ok_def)
    then show "alloc_id a < next_id d" "0 \<le> alloc_credits a" "\<exists>h \<in> set (holds ?d). hold_id h = alloc_hold a \<and>
       (\<exists>l \<in> set (lots ?d). lot_id l = alloc_lot a \<and> lot_wallet l = hold_wallet h)"
      by (auto simp: tab intro!: bexI[of _ h] bexI[of _ l])
  qed
  moreover have "debts_ok ?d" using wf dist(4) to unfolding wf_db_def debts_ok_def wi by (auto simp: tab rest)
  ultimately show ?thesis by (simp add: wf_db_def)
qed

lemma move_inv:
  assumes inv: "inv d" and s: "s \<in> wallet_ids d" and ne: "m \<noteq> s"
  shows "inv (move_rows m s d)"
    "live_balance (move_rows m s d) v now = add_at m s (\<lambda>w. live_balance d w now) v"
proof -
  have wf: "wf_db (move_rows m s d)" by (rule move_wf[OF inv_wf[OF inv] s])
  have "holds_ok (move_rows m s d)"
    using inv unfolding inv_def holds_ok_def move_sums(5)[OF ne] by (auto simp: move_tables)
  moreover have "balanced (move_rows m s d) u" for u
  proof -
    have "lot_total d w + reserved d w = ledger_total d w" for w using inv by (simp add: inv_def balanced_def)
    from this[of m] this[of s] this[of u] show ?thesis by (auto simp: balanced_def move_sums[OF ne] add_at_def)
  qed
  ultimately show "inv (move_rows m s d)" using wf by (simp add: inv_def)
  show "live_balance (move_rows m s d) v now = add_at m s (\<lambda>w. live_balance d w now) v"
    by (rule move_live[OF ne wf_lots_ok[OF inv_wf[OF inv]] wf_lots_ok[OF wf]])
qed

lemma close_facts:
  assumes "inv d"
  shows "inv (close_wallet m s d)" "account_of (close_wallet m s d) v now = account_of d v now"
    "wallet_ids (close_wallet m s d) = wallet_ids d" "txns (close_wallet m s d) = txns d" "subs (close_wallet m s d) = subs d"
    "lots (close_wallet m s d) = lots d"
proof -
  let ?d = "close_wallet m s d"
  have ids: "map w_id (wallets ?d) = map w_id (wallets d)"
    unfolding close_wallet_def upd_wallet_def by (simp add: map_upd_row)
  show wi: "wallet_ids ?d = wallet_ids d" by (rule wallet_ids_cong) (rule ids)
  have same: "lots ?d = lots d" "holds ?d = holds d" "allocs ?d = allocs d" "debts ?d = debts d" "next_id ?d = next_id d"
    by (simp_all add: close_wallet_def upd_wallet_def)
  show tx: "txns ?d = txns d" by (simp add: close_wallet_def upd_wallet_def)
  show "subs ?d = subs d" "lots ?d = lots d" by (simp_all add: close_wallet_def upd_wallet_def)
  have "distinct (map w_id (wallets ?d))" unfolding ids using assms by (simp add: inv_def wf_db_def wallets_ok_def)
  then have "wf_db ?d" using inv_wf[OF assms]
    by (simp add: wf_db_def lots_ok_def wallets_ok_def txns_ok_def lot_refs_ok_def hold_rows_ok_def alloc_rows_ok_def
        debts_ok_def wi same tx)
  moreover have "holds_ok ?d" using assms by (simp add: inv_def holds_ok_def alloc_total_def same)
  moreover have "balanced ?d u" for u
    using assms totals_cong(1)[OF same(1)] totals_cong(2)[OF tx] totals_cong(4)[OF same(3,2)] by (simp add: inv_def balanced_def)
  ultimately show "inv ?d" by (simp add: inv_def)
  show "account_of ?d v now = account_of d v now" by (rule account_cong) (rule same)+
qed

text \<open>The row of the merge adds to the ledger alone: it is the only step that moves no credit.\<close>

lemma merge_row_facts:
  assumes inv: "inv d" and s: "s \<in> wallet_ids d"
  shows "spends d (merge_row m s moved key now d)" "account_of (merge_row m s moved key now d) v now = account_of d v now"
    "lot_total (merge_row m s moved key now d) v + reserved (merge_row m s moved key now d) v +
      (if v = s then moved else 0) = ledger_total (merge_row m s moved key now d) v"
    "holds_ok (merge_row m s moved key now d)" "subs (merge_row m s moved key now d) = subs d"
    "\<exists>ts t. txns (merge_row m s moved key now d) = txns d @ ts @ [t] \<and> txn_wallet t = s \<and> txn_key t = key \<and>
      txn_delta t = moved \<and> txn_type t = ADJUSTMENT \<and> txn_balance t = live_balance d s now"
proof -
  let ?d1 = "snd (expire_due_lots s now d)"
  let ?d2 = "snd (sync_balance s now ?d1)"
  let ?meta = "[(''merge'', JBool True), (''merged_wallet_id'', JStr (uuid_str m)), (''idempotency_key'', JStr key)]"
  let ?c = "create_txn s None ADJUSTMENT None moved (live_balance ?d1 s now) (Some ''Credits merged from a folded account'') ?meta key now ?d2"
  have eq: "merge_row m s moved key now d = snd ?c"
    by (simp add: merge_row_def Let_def split_beta sync_balance_fst)
  note wf = inv_wf[OF inv]
  have s1: "spends d ?d1" by (rule expire_spends[OF wf s])
  have i1: "inv ?d1" by (rule inv_expire[OF inv s])
  have s2: "spends ?d1 ?d2" by (rule spends_sync[OF inv_wf[OF i1]])
  have i2: "inv ?d2" by (rule inv_sync[OF i1])
  have w2: "s \<in> wallet_ids ?d2" using s spends_wallet_ids[OF s1] spends_wallet_ids[OF s2] by simp
  have s3: "spends ?d2 (snd ?c)" by (rule spends_create_txn[OF inv_wf[OF i2] w2])
  note sp = spends_trans[OF spends_trans[OF s1 s2] s3]
  show "spends d (merge_row m s moved key now d)" unfolding eq by (rule sp)
  have a2: "account_of (snd ?c) v now = account_of ?d1 v now"
    by (rule account_cong) (simp_all add: create_txn_frame sync_balance_frame)
  with expire_account[OF wf s, of now v] show "account_of (merge_row m s moved key now d) v now = account_of d v now"
    unfolding eq by simp
  have "lot_total ?d2 v + reserved ?d2 v = ledger_total ?d2 v" using i2 by (simp add: inv_def balanced_def)
  moreover have "lot_total (snd ?c) v = lot_total ?d2 v" by (rule totals_cong) (rule create_txn_frame)
  moreover have "reserved (snd ?c) v = reserved ?d2 v" by (rule spends_reserved[OF s3])
  ultimately show "lot_total (merge_row m s moved key now d) v + reserved (merge_row m s moved key now d) v +
      (if v = s then moved else 0) = ledger_total (merge_row m s moved key now d) v"
    unfolding eq by (simp add: ledger_create_txn)
  show "holds_ok (merge_row m s moved key now d)" unfolding eq using spends_holds_ok[OF s3] i2 by (simp add: inv_def)
  have "subs (expire_walk w now ls r x) = subs x" for w ls r x
    by (induction ls arbitrary: r x) (simp_all add: Let_def split_beta create_txn_def upd_lot_def)
  moreover have "subs (snd (sync_balance w now x)) = subs x" for w x
    by (simp add: sync_balance_def Let_def upd_wallet_def)
  ultimately show "subs (merge_row m s moved key now d) = subs d"
    unfolding eq by (simp add: create_txn_def Let_def expire_due_lots_snd)
  obtain ts where "txns ?d1 = txns d @ ts" using s1 by (auto simp: spends_def)
  moreover have "live_balance ?d1 s now = live_balance d s now" by (rule expire_live[OF wf s])
  ultimately show "\<exists>ts t. txns (merge_row m s moved key now d) = txns d @ ts @ [t] \<and> txn_wallet t = s \<and> txn_key t = key \<and>
      txn_delta t = moved \<and> txn_type t = ADJUSTMENT \<and> txn_balance t = live_balance d s now"
    unfolding eq by (intro exI[of _ ts] exI[of _ "fst ?c"]) (simp add: create_txn_frame sync_balance_frame new_txn_def)
qed

subsection \<open>The merge\<close>

definition spec_merge :: "int \<Rightarrow> account \<Rightarrow> account \<Rightarrow> account" where
  "spec_merge forfeited a b =
     spec_settle \<lparr>ac_live = ac_live a - forfeited + ac_live b, ac_owed = ac_owed a + ac_owed b, ac_held = ac_held a + ac_held b\<rparr>"

text \<open>The uniqueness of \<open>Wallet.user\<close>, for one user.\<close>

definition owns_one :: "db \<Rightarrow> uid \<Rightarrow> bool" where
  "owns_one d u = (length (filter (\<lambda>x. w_user x = Some u) (wallets d)) \<le> 1)"

lemma owns_oneD:
  assumes "owns_one d u" and "x \<in> set (wallets d)" and "y \<in> set (wallets d)" and "w_user x = Some u" and "w_user y = Some u"
  shows "x = y"
proof -
  let ?f = "filter (\<lambda>x. w_user x = Some u) (wallets d)"
  have "x \<in> set ?f" "y \<in> set ?f" using assms by simp_all
  with assms(1) show ?thesis unfolding owns_one_def by (cases ?f) (auto simp: le_Suc_eq)
qed

lemma with_subs:
  "account_of (d\<lparr>subs := ss\<rparr>) v now = account_of d v now" "wf_db (d\<lparr>subs := ss\<rparr>) = wf_db d"
  "wallet_ids (d\<lparr>subs := ss\<rparr>) = wallet_ids d" "spends d d' \<Longrightarrow> spends d (d'\<lparr>subs := ss\<rparr>)"
  "lot_total (d\<lparr>subs := ss\<rparr>) v = lot_total d v" "ledger_total (d\<lparr>subs := ss\<rparr>) v = ledger_total d v"
  "reserved (d\<lparr>subs := ss\<rparr>) v = reserved d v"
proof -
  show "account_of (d\<lparr>subs := ss\<rparr>) v now = account_of d v now" by (rule account_cong) simp_all
  show "wf_db (d\<lparr>subs := ss\<rparr>) = wf_db d" by (simp add: wf_db_def table_ok_defs)
  show "wallet_ids (d\<lparr>subs := ss\<rparr>) = wallet_ids d" by (simp add: wallet_ids_def)
  show "spends d d' \<Longrightarrow> spends d (d'\<lparr>subs := ss\<rparr>)" by (simp add: spends_def table_ok_defs)
  show "lot_total (d\<lparr>subs := ss\<rparr>) v = lot_total d v" by (rule totals_cong) simp
  show "ledger_total (d\<lparr>subs := ss\<rparr>) v = ledger_total d v" by (rule totals_cong) simp
  show "reserved (d\<lparr>subs := ss\<rparr>) v = reserved d v" by (rule totals_cong) simp_all
qed

lemma merge_subscription_ok:
  assumes "\<exists>u \<in> set (cf_users cf). u_id u = into"
  obtains n ss where "merge_subscription cf from into d = Inr (n, d\<lparr>subs := ss\<rparr>)"
  using assms that[of 0 "subs d"] by (fastforce simp: merge_subscription_def upd_sub_def split: option.splits)

lemma find_append: "find P (xs @ ys) = (case find P xs of None \<Rightarrow> find P ys | Some x \<Rightarrow> Some x)"
  by (induction xs) auto

lemma survivor_facts:
  assumes inv: "inv d" and x: "wallet_of_user d from = Some x" and ne: "from \<noteq> into" and one: "owns_one d from"
    and eq: "survivor_wallet cf into x d = Inr (s, d0)"
  shows "inv d0" "s \<in> wallet_ids d0" "w_id x \<in> wallet_ids d0" "w_id x \<noteq> s" "txns d0 = txns d" "subs d0 = subs d"
    "account_of d0 (w_id x) now = user_account d from now" "account_of d0 s now = user_account d into now"
    "\<forall>y \<in> set (wallets d0). w_user y = Some from \<longrightarrow> w_id y = w_id x" "map_option w_id (wallet_of_user d0 into) = Some s"
    "\<forall>y \<in> set (wallets d0). w_id y = w_id x \<longrightarrow> w_user y \<noteq> Some into"
proof -
  note xm = wallet_of_user_Some[OF x]
  have dist: "distinct (map w_id (wallets d))" using inv by (simp add: inv_def wf_db_def wallets_ok_def)
  have main: "inv d0 \<and> s \<in> wallet_ids d0 \<and> w_id x \<in> wallet_ids d0 \<and> w_id x \<noteq> s \<and> txns d0 = txns d \<and> subs d0 = subs d \<and>
    account_of d0 (w_id x) now = user_account d from now \<and> account_of d0 s now = user_account d into now \<and>
    (\<forall>y \<in> set (wallets d0). w_user y = Some from \<longrightarrow> w_id y = w_id x) \<and> map_option w_id (wallet_of_user d0 into) = Some s \<and>
    (\<forall>y \<in> set (wallets d0). w_id y = w_id x \<longrightarrow> w_user y \<noteq> Some into)"
  proof (cases "wallet_of_user d into")
    case (Some y)
    note ym = wallet_of_user_Some[OF Some]
    from Some eq have e: "s = w_id y" "d0 = d" by (simp_all add: survivor_wallet_def)
    have "w_id x \<noteq> w_id y" using xm ym ne dist by (metis distinct_map inj_onD option.inject)
    moreover have "w_user z \<noteq> Some into" if "z \<in> set (wallets d)" "w_id z = w_id x" for z
      using that xm ne dist by (metis distinct_map inj_onD option.inject)
    ultimately show ?thesis
      using inv xm ym x Some owns_oneD[OF one] by (auto simp: e wallet_ids_def user_account_def)
  next
    case None
    with eq have c: "create_wallet into (w_currency x) d = (s, d0)" by (simp add: survivor_wallet_def split: if_splits)
    then have d0: "s = next_id d" "wallets d0 = wallets d @ [\<lparr>w_id = next_id d, w_user = Some into, w_pseudonym = [],
        w_merged_into = None, w_balance = 0, w_currency = w_currency x\<rparr>]" "txns d0 = txns d" "subs d0 = subs d"
      "lots d0 = lots d" "holds d0 = holds d" "allocs d0 = allocs d" "debts d0 = debts d" by (auto simp: create_wallet_def)
    have fresh: "next_id d \<notin> wallet_ids d" using inv by (auto simp: inv_def wf_db_def wallets_ok_def)
    then have nx: "w_id x \<noteq> next_id d" using xm unfolding wallet_ids_def by (metis imageI)
    have acc: "account_of d0 v now = account_of d v now" for v by (rule account_cong) (rule d0)+
    have "find (\<lambda>w. w_user w = Some into) (wallets d) = None" using None by (simp add: wallet_of_user_def)
    then have "map_option w_id (wallet_of_user d0 into) = Some s"
      unfolding wallet_of_user_def d0(2) by (simp add: d0(1) find_append)
    moreover have "inv d0" using inv_create_wallet[OF inv, of into "w_currency x"] c by simp
    moreover have "w_user z \<noteq> Some into" if "z \<in> set (wallets d)" for z
      using None that by (auto simp: wallet_of_user_def find_None_iff)
    ultimately show ?thesis
      using xm fresh nx x None owns_oneD[OF one] ne acc account_fresh[OF inv_wf[OF inv] fresh]
      by (auto simp: d0 wallet_ids_def user_account_def)
  qed
  then show "inv d0" "s \<in> wallet_ids d0" "w_id x \<in> wallet_ids d0" "w_id x \<noteq> s" "txns d0 = txns d" "subs d0 = subs d"
    "account_of d0 (w_id x) now = user_account d from now" "account_of d0 s now = user_account d into now"
    "\<forall>y \<in> set (wallets d0). w_user y = Some from \<longrightarrow> w_id y = w_id x" "map_option w_id (wallet_of_user d0 into) = Some s"
    "\<forall>y \<in> set (wallets d0). w_id y = w_id x \<longrightarrow> w_user y \<noteq> Some into" by blast+
qed

text \<open>Closing the merged wallet changes whose wallet is whose for the two users only.\<close>

lemma find_close:
  assumes "\<forall>y \<in> set ws. w_id y = m \<longrightarrow> w_user y \<noteq> Some u" and "\<And>y. w_id (f y) = w_id y" and "\<And>y. w_user (f y) = None"
  shows "map_option w_id (find (\<lambda>w. w_user w = Some u) (upd_row w_id m f ws)) = map_option w_id (find (\<lambda>w. w_user w = Some u) ws)"
  using assms(1) by (induction ws) (auto simp: upd_row_def assms(2,3))

lemma static_users:
  assumes "map wallet_static ws = map wallet_static vs" and "\<forall>y \<in> set vs. P (w_id y) (w_user y)"
  shows "\<forall>y \<in> set ws. P (w_id y) (w_user y)"
  using assms
proof (induction ws arbitrary: vs)
  case (Cons w ws)
  then obtain v us where "vs = v # us" "wallet_static w = wallet_static v" by (cases vs) auto
  moreover from this(2) have "w_id w = w_id v" "w_user w = w_user v" by (metis wallet_static_fields)+
  ultimately show ?case using Cons by auto
qed simp

text \<open>The rows of a sweep carry no key.\<close>

lemma expire_keys: "\<exists>ts. txns (snd (expire_due_lots w now d)) = txns d @ ts \<and> (\<forall>t \<in> set ts. txn_key t = [])"
proof -
  have "\<exists>ts. txns (expire_walk w now ls r x) = txns x @ ts \<and> (\<forall>t \<in> set ts. txn_key t = [])" for ls r x
  proof (induction ls arbitrary: r x)
    case (Cons l ls)
    define y where "y = snd (create_txn w (Some (lot_id l)) EXPIRATION None (- lot_remaining l) (r - lot_remaining l)
      (Some (''Credits expired ('' @ lot_source_label (lot_source l) @ '')''))
      [(''lot_id'', JStr (uuid_str (lot_id l))), (''source'', JStr (lot_source_value (lot_source l))),
       (''expires_at'', deadline_json (lot_expires l))] [] now (upd_lot (lot_id l) (\<lambda>x. x\<lparr>lot_remaining := 0\<rparr>) x))"
    from Cons[of "r - lot_remaining l" y] obtain ts where
      "txns (expire_walk w now ls (r - lot_remaining l) y) = txns y @ ts" "\<forall>t \<in> set ts. txn_key t = []" by blast
    moreover have "expire_walk w now (l # ls) r x = expire_walk w now ls (r - lot_remaining l) y"
      by (simp add: Let_def split_beta y_def)
    moreover obtain t where "txns y = txns x @ [t]" "txn_key t = []"
      by (simp add: y_def create_txn_frame upd_lot_def)
    ultimately show ?case by (intro exI[of _ "t # ts"]) simp
  qed simp
  then show ?thesis by (simp add: expire_due_lots_snd sync_balance_frame)
qed

text \<open>
  Everything up to the ledger row: the merged wallet's account is added to the survivor's,
  less what was forfeited, and the merged wallet is closed.
\<close>

lemma merge_moved:
  assumes inv: "inv d0" and s: "s \<in> wallet_ids d0" and m: "m \<in> wallet_ids d0" and ne: "m \<noteq> s"
    and own: "\<forall>y \<in> set (wallets d0). w_user y = Some from \<longrightarrow> w_id y = m" "map_option w_id (wallet_of_user d0 into) = Some s"
      "\<forall>y \<in> set (wallets d0). w_id y = m \<longrightarrow> w_user y \<noteq> Some into"
    and f: "forfeit_lots_on_merge cf m now (snd (expire_due_lots m now d0)) = (n, d2)"
    and d4: "d4 = close_wallet m s (move_rows m s (rename_clashes m s d2))"
  shows "inv d4" "wallet_ids d4 = wallet_ids d0" "live_balance d2 m now = live_balance d0 m now - n" "0 \<le> n" "subs d4 = subs d0"
    "account_of d4 v now = (if v = m then empty_account
       else if v = s then \<lparr>ac_live = live_balance d0 m now - n + live_balance d0 s now,
         ac_owed = outstanding_debt d0 m + outstanding_debt d0 s, ac_held = reserved d0 m + reserved d0 s\<rparr>
       else account_of d0 v now)"
    "map_option w_id (wallet_of_user d4 into) = Some s" "wallet_of_user d4 from = None"
    "\<forall>t \<in> set (txns d4). txn_key t \<noteq> [] \<longrightarrow> txn_key t \<in> txn_key ` set (txns d0)"
proof -
  let ?d1 = "snd (expire_due_lots m now d0)"
  let ?d3 = "rename_clashes m s d2"
  note wf = inv_wf[OF inv]
  have s1: "spends d0 ?d1" by (rule expire_spends[OF wf m])
  have i1: "inv ?d1" by (rule inv_expire[OF inv m])
  have w1: "wallet_ids ?d1 = wallet_ids d0" by (rule spends_wallet_ids[OF s1])
  have m1: "m \<in> wallet_ids ?d1" using m w1 by simp
  have sw: "\<forall>l \<in> set (lots ?d1). lot_wallet l = m \<longrightarrow> 0 < lot_remaining l \<longrightarrow> At now < lot_expires l"
    using expire_no_due by blast
  note ff = forfeit_facts[OF i1 m1 sw f]
  note s2 = spends_trans[OF s1 ff(2)]
  have w2: "wallet_ids d2 = wallet_ids d0" by (rule spends_wallet_ids[OF s2])
  note r = rename_facts[OF ff(1), of m s]
  have w3: "wallet_ids ?d3 = wallet_ids d0" using w2 by (simp add: wallet_ids_def r(3))
  have s3: "s \<in> wallet_ids ?d3" using s w3 by simp
  note mv = move_inv[OF r(1) s3 ne]
  note c = close_facts[OF mv(1), of m s]
  have live2: "live_balance d2 v now = live_balance d0 v now - (if v = m then n else 0)" for v
    using ff(4)[of v] expire_live[OF wf m, of now v] by simp
  have owed2: "outstanding_debt d2 v = outstanding_debt d0 v" for v
    using outstanding_cong[OF ff(5)] outstanding_cong[OF expire_debts] by metis
  have res2: "reserved d2 v = reserved d0 v" for v by (rule spends_reserved[OF s2])
  have acc3: "live_balance ?d3 v now = live_balance d2 v now" "outstanding_debt ?d3 v = outstanding_debt d2 v"
    "reserved ?d3 v = reserved d2 v" for v using r(2)[of v now] by (simp_all add: account_of_def)
  show "inv d4" unfolding d4 by (rule c(1))
  show "wallet_ids d4 = wallet_ids d0" using c(3) w3 by (simp add: d4 wallet_ids_def move_tables)
  show "live_balance d2 m now = live_balance d0 m now - n" using live2[of m] by simp
  show "0 \<le> n" by (rule ff(3))
  have "subs ?d1 = subs d0" "subs d2 = subs ?d1"
  proof -
    have w: "subs (expire_walk w now ls r x) = subs x" "subs (forfeit_walk w now ls r x) = subs x" for w ls r x
      by (induction ls arbitrary: r x) (simp_all add: Let_def split_beta create_txn_def upd_lot_def)
    have sy: "subs (snd (sync_balance w now x)) = subs x" for w x by (simp add: sync_balance_def Let_def upd_wallet_def)
    show "subs ?d1 = subs d0" by (simp add: expire_due_lots_snd w sy)
    show "subs d2 = subs ?d1" using f w sy by (auto simp: forfeit_lots_on_merge_def Let_def split: if_splits)
  qed
  then show "subs d4 = subs d0" using c(5) r(7) by (simp add: d4 move_tables)
  show "account_of d4 v now = (if v = m then empty_account
       else if v = s then \<lparr>ac_live = live_balance d0 m now - n + live_balance d0 s now,
         ac_owed = outstanding_debt d0 m + outstanding_debt d0 s, ac_held = reserved d0 m + reserved d0 s\<rparr>
       else account_of d0 v now)"
    unfolding d4 c(2) using ne live2 owed2 res2
    by (auto simp: account_of_def mv(2) move_sums[OF ne] add_at_def acc3 empty_account_def)
  have st: "map wallet_static (wallets ?d3) = map wallet_static (wallets d0)" using s2 by (simp add: r(3) spends_def)
  have w4: "wallets d4 = upd_row w_id m (\<lambda>x. x\<lparr>w_balance := 0, w_user := None, w_merged_into := Some s\<rparr>) (wallets ?d3)"
    unfolding d4 by (simp add: close_wallet_def upd_wallet_def move_tables)
  have "map_option w_id (wallet_of_user ?d3 into) = Some s"
    using static_wallet_of_user[of ?d3 d0 into] st own(2) by simp
  with find_close[of "wallets ?d3" m into "\<lambda>x. x\<lparr>w_balance := 0, w_user := None, w_merged_into := Some s\<rparr>"]
    static_users[OF st, of "\<lambda>i u. i = m \<longrightarrow> u \<noteq> Some into"] own(3)
  show "map_option w_id (wallet_of_user d4 into) = Some s" by (simp add: wallet_of_user_def w4)
  have "\<forall>y \<in> set (wallets ?d3). w_user y = Some from \<longrightarrow> w_id y = m"
    using static_users[OF st, of "\<lambda>i u. u = Some from \<longrightarrow> i = m"] own(1) by simp
  then show "wallet_of_user d4 from = None"
    by (auto simp: wallet_of_user_def find_None_iff w4 set_upd_row)
  from expire_keys obtain ts where ts: "txns ?d1 = txns d0 @ ts" "\<forall>t \<in> set ts. txn_key t = []" by blast
  from ff(6) obtain us where us: "txns d2 = txns ?d1 @ us" "\<forall>t \<in> set us. txn_key t = []" by blast
  have "txn_key t = [] \<or> txn_key t \<in> txn_key ` set (txns d0)" if "t \<in> set (txns d2)" for t
    using that ts us by auto
  then show "\<forall>t \<in> set (txns d4). txn_key t \<noteq> [] \<longrightarrow> txn_key t \<in> txn_key ` set (txns d0)"
    unfolding d4 c(4) by (auto simp: move_tables r(5)) metis+
qed

lemma merge_done:
  assumes inv: "inv d" and ne: "from \<noteq> into" and x: "wallet_of_user d from = Some x" and one: "owns_one d from"
    and known: "\<exists>u \<in> set (cf_users cf). u_id u = into"
    and fresh: "\<forall>t \<in> set (txns d). txn_key t \<noteq> merge_idempotency_key digest from into"
  obtains c d' where "merge_wallets digest cf now from into d = Inr (c, d')" "wf_db d'" "holds_ok d'"
    "user_account d' into now = spec_merge (mc_forfeited c) (user_account d from now) (user_account d into now)"
    "user_account d' from now = empty_account" "0 \<le> mc_forfeited c"
    "mc_credits c = ac_live (user_account d from now) - mc_forfeited c" "mc_wallets c = 1"
    "\<exists>t \<in> set (txns d'). txn_key t = merge_idempotency_key digest from into \<and> txn_delta t = mc_credits c"
    "\<exists>s. map_option w_id (wallet_of_user d' into) = Some s \<and>
       (\<forall>v. lot_total d' v + reserved d' v + (if v = s then mc_credits c else 0) = ledger_total d' v)"
proof -
  let ?key = "merge_idempotency_key digest from into"
  obtain s d0 where sv: "survivor_wallet cf into x d = Inr (s, d0)"
    using known that by (cases "wallet_of_user d into") (simp_all add: survivor_wallet_def create_wallet_def)
  note f = survivor_facts[OF inv x ne one sv]
  let ?m = "w_id x"
  obtain n d2 where fo: "forfeit_lots_on_merge cf ?m now (snd (expire_due_lots ?m now d0)) = (n, d2)" by (rule prod.exhaust)
  define d4 where "d4 = close_wallet ?m s (move_rows ?m s (rename_clashes ?m s d2))"
  note m = merge_moved[OF f(1-4) f(9-11) fo d4_def]
  define moved where "moved = live_balance d2 ?m now"
  have s4: "s \<in> wallet_ids d4" using f(2) m(2) by simp
  define d5 where "d5 = merge_row ?m s moved ?key now d4"
  note r = merge_row_facts[OF m(1) s4, of ?m moved ?key now, folded d5_def]
  have wf5: "wf_db d5" by (rule spends_wf[OF inv_wf[OF m(1)] r(1)])
  obtain k ss where sub: "merge_subscription cf from into d5 = Inr (k, d5\<lparr>subs := ss\<rparr>)"
    by (rule merge_subscription_ok[OF known])
  let ?d6 = "d5\<lparr>subs := ss\<rparr>"
  have wf6: "wf_db ?d6" and s6: "s \<in> wallet_ids ?d6"
    using wf5 s4 spends_wallet_ids[OF r(1)] by (simp_all add: with_subs)
  obtain q d7 where st: "settle_debts s now ?d6 = Inr (q, d7)" using settle_debts_result[OF wf6 s6] by blast
  note sf = settle_debts_facts[OF wf6 s6 st]
  have sp: "spends d4 d7" using spends_trans[OF with_subs(4)[OF r(1)] sf(2)] .
  let ?c = "moved_counts ?m moved n k (rename_clashes ?m s d2)"
  have run: "merge_wallets digest cf now from into d = Inr (?c, d7)"
    using fresh x sv fo sub st unfolding merge_wallets_def merge_into_def merge_out_def Let_def
    by (simp add: d5_def d4_def moved_def)
  have static: "map wallet_static (wallets d7) = map wallet_static (wallets d4)" using sp by (simp add: spends_def)
  have into7: "map_option w_id (wallet_of_user d7 into) = Some s" using static_wallet_of_user[OF static, of into] m(7) by simp
  have from7: "wallet_of_user d7 from = None" using static_wallet_of_user[OF static, of "from"] m(8) by simp
  have acc: "account_of d7 s now = spec_settle (account_of d4 s now)"
    using settle_account(1)[OF wf6 s6 st] r(2)[of s] by (simp add: with_subs)
  have u: "user_account d7 into now = account_of d7 s now" using into7 by (auto simp: user_account_def)
  have merged: "user_account d7 into now = spec_merge n (user_account d from now) (user_account d into now)"
    unfolding u acc m(6) spec_merge_def f(7)[of now, symmetric] f(8)[of now, symmetric] using f(4) by (simp add: account_of_def)
  have mv: "moved = ac_live (user_account d from now) - n"
    unfolding f(7)[of now, symmetric] using m(3) by (simp add: moved_def)
  obtain ts t where t: "txns d5 = txns d4 @ ts @ [t]" "txn_key t = ?key" "txn_delta t = moved"
    using r(6) by blast
  have row: "\<exists>t \<in> set (txns d7). txn_key t = ?key \<and> txn_delta t = moved"
    using sf(2) t by (auto simp: spends_def)
  have hok: "holds_ok d7" using spends_holds_ok[OF sf(2)] r(4) by (simp add: holds_ok_def alloc_total_def)
  have gap: "lot_total d7 v + reserved d7 v + (if v = s then moved else 0) = ledger_total d7 v" for v
    using sf(3)[of v] sf(4)[of v] spends_reserved[OF sf(2), of v] r(3)[of v] by (simp add: with_subs)
  have gone: "user_account d7 from now = empty_account" using from7 by (simp add: user_account_def)
  show ?thesis
  proof (rule that[of ?c d7])
    show "\<exists>s. map_option w_id (wallet_of_user d7 into) = Some s \<and>
       (\<forall>v. lot_total d7 v + reserved d7 v + (if v = s then mc_credits ?c else 0) = ledger_total d7 v)"
      using into7 gap by (intro exI[of _ s] conjI allI) (simp_all only: moved_counts_def merge_counts.simps)
  qed (use run merged mv row hok gone m(4) spends_wf[OF wf6 sf(2)] in \<open>simp_all add: moved_counts_def\<close>)
qed

text \<open>Once the row of the merge is written, merging the pair again finds it and stops.\<close>

lemma merge_applied:
  assumes "t \<in> set (txns d)" and "txn_key t = merge_idempotency_key digest from into"
  shows "merge_wallets digest cf now from into d = Inr (no_counts, d)"
  using assms by (auto simp: merge_wallets_def Let_def)

end
