(* ===== verification/Hold_Claims.thy ===== *)
theory Hold_Claims
  imports Wallet_Claims
begin

section \<open>Properties of reservations, metered accounts and the sweeps\<close>

text \<open>
  The life of a reservation seen from outside: a hold as an implementation of its
  specification, what a capture charges and hands back, that a retried capture or release
  does nothing more, that holding and releasing is a round trip, and that a captured hold
  stays captured. Then what an account the policy only meters is (not) charged, the
  pre-flight check against the charge it predicts, and the two sweeps.
\<close>

subsection \<open>Shared facts\<close>

text \<open>A key of \<open>hold\<close> that names no reservation of this user that is open or billed.\<close>

definition hold_key_free :: "db \<Rightarrow> uid \<Rightarrow> string \<Rightarrow> bool" where
  "hold_key_free d u key =
     (case wallet_of_user d u of
        None \<Rightarrow> True
      | Some x \<Rightarrow> (case existing_hold d (w_id x) key of
                     None \<Rightarrow> True | Some h \<Rightarrow> hold_status h = RELEASED \<or> hold_status h = EXPIRED))"

lemma hold_key_free_lock:
  assumes inv: "inv d" and lk: "lock_wallet u d = (w, d0)" and free: "hold_key_free d u key"
    and ex: "existing_hold d0 w key = Some h"
  shows "hold_status h = RELEASED \<or> hold_status h = EXPIRED"
proof -
  note f = lock_wallet_facts[OF inv lk]
  from existing_hold_row[OF ex] f(5) have h: "h \<in> set (holds d)" "hold_wallet h = w" by simp_all
  have same: "existing_hold d w key = Some h" using ex f(5) by (simp add: existing_hold_def)
  show ?thesis
  proof (cases "wallet_of_user d u")
    case None
    then have "(w, d0) = create_wallet u ''USD'' d" using lk by (simp add: lock_wallet_def get_or_create_wallet_def)
    then have "w \<notin> wallet_ids d" using inv by (auto simp: inv_def wf_db_def wallets_ok_def create_wallet_def)
    with hold_wallet_known[OF inv_wf[OF inv] h(1)] h(2) show ?thesis by simp
  next
    case (Some x)
    with lk have "w = w_id x" by (simp add: lock_wallet_def get_or_create_wallet_def)
    with Some free same show ?thesis by (simp add: hold_key_free_def)
  qed
qed

lemma hold_free_body:
  assumes inv: "inv d" and lk: "lock_wallet (u_id (ho_user r)) d = (w, d0)" and pos: "0 < ho_credits r"
    and key: "ho_key r \<noteq> []" and free: "hold_key_free d (u_id (ho_user r)) (ho_key r)"
  shows "hold cf now r d = hold_new cf now r w (existing_hold d0 w (ho_key r)) d0"
    "\<forall>h. existing_hold d0 w (ho_key r) = Some h \<longrightarrow>
       h \<in> set (holds d0) \<and> hold_wallet h = w \<and> hold_key h = ho_key r \<and> hold_status h \<noteq> HELD"
  using hold_key_free_lock[OF inv lk free] existing_hold_row pos key lk
  by (auto simp: hold_def split: option.splits)

lemma hold_new_refused:
  assumes inv: "inv d" and w: "w \<in> wallet_ids d" and charged: "\<not> meter_only cf (Some (ho_user r))"
    and pos: "0 < ho_credits r" and short: "live_balance d w now < ho_credits r"
  shows "hold_new cf now r w existing d = Inl (InsufficientCreditsError (live_balance d w now) (ho_credits r))"
  using assms expire_live[OF inv_wf[OF inv] w, of now w]
  by (simp add: hold_new_def Let_def consume_lots_cases)

text \<open>What comes back of an adjustment lies between nothing and the whole difference.\<close>

lemma refunds_bounds:
  assumes "\<forall>a \<in> set as. 0 \<le> alloc_credits a" and "0 \<le> n"
  shows "0 \<le> alive_refund d now (refunds as n) \<and> alive_refund d now (refunds as n) \<le> n"
  using assms
proof (induction as arbitrary: n)
  case (Cons a as)
  let ?m = "min n (alloc_credits a)"
  from Cons.prems have "0 \<le> n - ?m" by simp
  from Cons.IH[OF _ this] Cons.IH[of n] Cons.prems show ?case
    by (auto simp: alive_refund_def)
qed (simp add: alive_refund_def)

lemma capture_delta_bounds:
  assumes "wf_db d" and "actual \<le> hold_credits h"
  shows "0 \<le> capture_delta d now h actual \<and> capture_delta d now h actual \<le> hold_credits h - actual"
  using refunds_bounds[of "rev (hold_allocs d (hold_id h))" "hold_credits h - actual" d now]
    alloc_nonneg[OF assms(1)] assms(2)
  by (auto simp: capture_delta_def hold_allocs_def)

lemma load_row:
  assumes "wf_db d" and "h \<in> set (holds d)"
  shows "load_hold_for_update (hold_id h) d = Inr (h, hold_wallet h)"
  using get_row_distinct[OF holds_distinct[OF assms(1)] assms(2)] by (simp add: load_hold_for_update_def)

subsection \<open>Hold\<close>

text \<open>C9: a hold of a charged user under a free key moves exactly its credits from live to
  reserved, or is refused with the live balance and moves nothing; the reservation it answers
  is open, holds what was asked and carries the caller's deadline, else the configured one.\<close>

theorem hold_implements:
  assumes inv: "inv d" and pos: "0 < ho_credits r" and key: "ho_key r \<noteq> []"
    and charged: "\<not> meter_only cf (Some (ho_user r))" and plain: "\<not> was_waived (ho_meta r)"
    and free: "hold_key_free d (u_id (ho_user r)) (ho_key r)"
  shows "case hold cf now r d of
      Inl e \<Rightarrow> spec_hold (ho_credits r) (user_account d (u_id (ho_user r)) now) = None \<and>
        e = InsufficientCreditsError (ac_live (user_account d (u_id (ho_user r)) now)) (ho_credits r)
    | Inr (h, d') \<Rightarrow> spec_hold (ho_credits r) (user_account d (u_id (ho_user r)) now) =
          Some (user_account d' (u_id (ho_user r)) now) \<and>
        h \<in> set (holds d') \<and> hold_status h = HELD \<and> hold_credits h = ho_credits r \<and> hold_key h = ho_key r \<and>
        hold_expires h = hold_deadline cf now (ho_expires r)"
proof -
  let ?u = "u_id (ho_user r)"
  obtain w d0 where lk: "lock_wallet ?u d = (w, d0)" by (rule prod.exhaust)
  note f = lock_wallet_facts[OF inv lk]
  note b = hold_free_body[OF inv lk pos key free]
  have acc: "user_account d ?u now = account_of d0 w now" by (rule lock_wallet_account[OF inv lk])
  show ?thesis
  proof (cases "ho_credits r \<le> live_balance d0 w now")
    case False
    with hold_new_refused[OF f(1,2) charged pos] show ?thesis by (simp add: b(1) acc spec_hold_def)
  next
    case True
    have n: "ho_credits r = (if meter_only cf (Some (ho_user r)) then 0 else ho_credits r)" using charged by simp
    show ?thesis
      by (rule hold_new_done[OF f(1,2) pos b(2) n True plain])
        (use True user_account_after[OF lk, of _ now] in \<open>simp add: b(1) acc spec_hold_def\<close>)
  qed
qed

theorem hold_implements_witness:
  "spec_hold 7 (user_account d_two ''a'' 20) = Some (user_account d_held ''a'' 20) \<and>
   spec_hold 16 (user_account d_two ''a'' 20) = None"
proof -
  have k: "hold_key_free d_two ''a'' ''job''" "\<not> meter_only cf0 (Some alice)" "\<not> was_waived []"
    "ok (hold cf0 20 (reserve 7 ''job'') d_two)" "\<not> ok (hold cf0 20 (reserve 16 ''job'') d_two)" by code_simp+
  with hold_implements[of d_two "reserve 7 ''job''" cf0 20] hold_implements[of d_two "reserve 16 ''job''" cf0 20] inv_samples(1)
  show ?thesis by (auto simp: reserve_def alice_def d_held_def after_def ok_def split: sum.splits)
qed

subsection \<open>Capture\<close>



text \<open>The charge of a capture is found by its hold, and answered again.\<close>

lemma captured_charge_last:
  assumes "txns d = ts @ [t]" and "txn_wallet t = hold_wallet h"
    and "dget (txn_meta t) ''hold_id'' = Some (JStr (uuid_str (hold_id h)))"
  shows "captured_charge d h = Some t"
  using assms by (simp add: captured_charge_def)

lemma capture_again:
  assumes wf: "wf_db d'" and h: "h \<in> set (holds d)"
    and hs: "holds d' = upd_row hold_id (hold_id h) (\<lambda>x. x\<lparr>hold_status := CAPTURED, hold_resolved := Some now\<rparr>) (holds d)"
    and t: "\<exists>ts. txns d' = ts @ [t]" "txn_wallet t = hold_wallet h"
      "dget (txn_meta t) ''hold_id'' = Some (JStr (uuid_str (hold_id h)))"
  shows "capture later (hold_id h) ac desc m d' = Inr (t, d')"
proof -
  let ?h = "h\<lparr>hold_status := CAPTURED, hold_resolved := Some now\<rparr>"
  have "?h \<in> set (holds d')" using h by (auto simp: hs set_upd_row image_iff intro!: bexI[of _ h])
  from load_row[OF wf this] have l: "load_hold_for_update (hold_id h) d' = Inr (?h, hold_wallet h)" by simp
  from t obtain ts where "txns d' = ts @ [t]" by blast
  from captured_charge_last[OF this, of ?h] t l show ?thesis by (simp add: capture_def)
qed

text \<open>A retried capture answers the charge the first one wrote, whatever cost, text or
  metadata it is retried with, and changes nothing.\<close>

theorem capture_replayed:
  assumes inv: "inv d" and ok: "capture now i ac desc m d = Inr (t, d')"
  shows "capture later i ac' desc' m' d' = Inr (t, d')"
  using ok
proof (cases rule: capture_cases)
  case (replayed h)
  with load_row[OF inv_wf[OF inv] replayed(1)] show ?thesis by (simp add: capture_def)
next
  case (metered h actual)
  note f = meter_only_capture_facts[OF inv metered(1,3,4,6)]
  from capture_again[OF inv_wf[OF f(1)] metered(1) f(11) f(4,6,7)] metered(2) show ?thesis by simp
next
  case (billed h actual)
  show ?thesis
  proof (rule capture_held_done[OF inv billed(1,3,5) capture_held_fits[OF inv billed(1,6)], of desc m])
    fix t' d'' assume a: "capture_held h (hold_wallet h) actual desc m now d = Inr (t', d'')" "inv d''"
      "\<exists>ts. txns d'' = ts @ [t']" "txn_wallet t' = hold_wallet h"
      "dget (txn_meta t') ''hold_id'' = Some (JStr (uuid_str (hold_id h)))"
      "holds d'' = upd_row hold_id (hold_id h) (\<lambda>x. x\<lparr>hold_status := CAPTURED, hold_resolved := Some now\<rparr>) (holds d)"
    have eq: "t' = t" "d'' = d'" using a(1) billed(6) by simp_all
    from capture_again[OF inv_wf[OF a(2)] billed(1) a(6,3,4,5)] show ?thesis by (simp only: eq billed(2))
  qed
qed

theorem capture_replayed_witness:
  "\<exists>t d'. capture 30 (hold_id (hd (holds d_held))) (Some 4) None [] d_held = Inr (t, d') \<and>
    capture 99 (hold_id (hd (holds d_held))) (Some 6) (Some ''again'') [] d' = Inr (t, d')"
proof -
  have "ok (capture 30 (hold_id (hd (holds d_held))) (Some 4) None [] d_held)" by code_simp
  then obtain t d' where c: "capture 30 (hold_id (hd (holds d_held))) (Some 4) None [] d_held = Inr (t, d')"
    using after_ok by blast
  from capture_replayed[OF inv_samples(2) c] c show ?thesis by blast
qed

subsection \<open>Release\<close>

lemma alive_part_bounds:
  assumes "wf_db d"
  shows "0 \<le> alive_part d now i \<and> alive_part d now i \<le> alloc_total d i"
proof -
  have "\<forall>a \<in> set (hold_allocs d i). 0 \<le> alloc_credits a" using alloc_nonneg[OF assms] by (simp add: hold_allocs_def)
  then have "0 \<le> (\<Sum>a\<leftarrow>as. if At now < fst (source_of d a) then alloc_credits a else 0) \<and>
      (\<Sum>a\<leftarrow>as. if At now < fst (source_of d a) then alloc_credits a else 0) \<le> (\<Sum>a\<leftarrow>as. alloc_credits a)"
    if "set as \<subseteq> set (hold_allocs d i)" for as using that by (induction as) auto
  then show ?thesis by (simp add: alive_part_def alloc_total_hold_allocs)
qed

lemma release_twice:
  assumes inv: "inv d" and h: "h \<in> set (holds d)" "hold_status h = HELD" and r: "release now (hold_id h) ex d = Inr (h', d')"
  shows "release later (hold_id h) ex' d' = Inr (h', d')"
  using r
proof (cases rule: release_cases)
  case (idle x)
  with same_hold[OF inv_wf[OF inv] h(1) idle(1)] h(2) show ?thesis by simp
next
  case (full x)
  have x: "x = h" using same_hold[OF inv_wf[OF inv] full(1) h(1) full(2)] .
  note f = release_held_facts[OF inv full(1,3,4)]
  have m: "h' \<in> set (holds d')" using full(1) by (auto simp: f(5) full(5) set_upd_row image_iff intro!: bexI[of _ x])
  from load_row[OF inv_wf[OF f(1)] m] x full(5) show ?thesis by (simp add: release_def)
qed

text \<open>Releasing an open hold succeeds, hands back what it reserved less the part whose lots
  died in the meantime, leaves no reservation and no debt moved; releasing it again, at any
  time and with either flag, answers the same row and does nothing.\<close>

theorem release_gives_back:
  assumes inv: "inv d" and h: "h \<in> set (holds d)" "hold_status h = HELD"
  shows "\<exists>h' d'. release now (hold_id h) ex d = Inr (h', d') \<and>
    hold_status h' = (if ex then EXPIRED else RELEASED) \<and>
    reserved d' (hold_wallet h) = reserved d (hold_wallet h) - hold_credits h \<and>
    outstanding_debt d' (hold_wallet h) = outstanding_debt d (hold_wallet h) \<and>
    live_balance d' (hold_wallet h) now = live_balance d (hold_wallet h) now + alive_part d now (hold_id h) \<and>
    0 \<le> alive_part d now (hold_id h) \<and> alive_part d now (hold_id h) \<le> hold_credits h \<and>
    (\<forall>later ex'. release later (hold_id h) ex' d' = Inr (h', d'))"
proof -
  define d' where "d' = release_held h (hold_wallet h) ex now d"
  define h' where "h' = h\<lparr>hold_status := (if ex then EXPIRED else RELEASED), hold_resolved := Some now\<rparr>"
  have r: "release now (hold_id h) ex d = Inr (h', d')"
    using load_row[OF inv_wf[OF inv] h(1)] h(2) by (simp add: release_def d'_def h'_def)
  note f = release_held_facts[OF inv h d'_def]
  have b: "0 \<le> alive_part d now (hold_id h)" "alive_part d now (hold_id h) \<le> hold_credits h"
    using alive_part_bounds[OF inv_wf[OF inv]] held_allocated(1)[OF inv h] by metis+
  have "reserved d' (hold_wallet h) = reserved d (hold_wallet h) - hold_credits h"
    "outstanding_debt d' (hold_wallet h) = outstanding_debt d (hold_wallet h)"
    "live_balance d' (hold_wallet h) now = live_balance d (hold_wallet h) now + alive_part d now (hold_id h)"
    using f(4)[of "hold_wallet h"] by (simp_all add: account_of_def)
  with r b release_twice[OF inv h r] show ?thesis by (intro exI[of _ h'] exI[of _ d']) (simp add: h'_def)
qed

theorem release_gives_back_witness:
  "let h = hd (holds d_held); d' = after d_held (release 60 (hold_id h) False d_held)
   in hold_credits h = 7 \<and> live_balance d_held 0 60 = 5 \<and> alive_part d_held 60 (hold_id h) = 0 \<and>
     live_balance d' 0 60 = 5 \<and> reserved d' 0 = 0 \<and>
     live_balance (after d_held (release 30 (hold_id h) False d_held)) 0 30 = 15"
proof -
  define h where "h = hd (holds d_held)"
  define d' where "d' = after d_held (release 60 (hold_id h) False d_held)"
  have h: "h \<in> set (holds d_held)" "hold_status h = HELD" "hold_credits h = 7" "hold_wallet h = 0"
    "live_balance d_held 0 60 = 5" "reserved d_held 0 = 7" "alive_part d_held 60 (hold_id h) = 0"
    "live_balance (after d_held (release 30 (hold_id h) False d_held)) 0 30 = 15" unfolding h_def by code_simp+
  from release_gives_back[OF inv_samples(2) h(1,2), of 60 False] h
  have "live_balance d' 0 60 = 5 \<and> reserved d' 0 = 0" by (auto simp: d'_def after_def)
  with h show ?thesis unfolding h_def[symmetric] d'_def Let_def by (simp add: h_def)
qed

text \<open>A charge is final. From a reachable database where a hold is captured, no sequence of
  calls and sweeps, clawbacks and reversals included, ever takes it out of that status.\<close>

theorem captured_is_final:
  assumes "reachable cf d" and "hold_status_of d i = Some CAPTURED" and "(wallet_step cf)\<^sup>*\<^sup>* d d'"
  shows "hold_status_of d' i = Some CAPTURED"
proof -
  have "reachable cf d' \<and> hold_status_of d' i = Some CAPTURED"
    using assms(3) by induction (use assms(1,2) in \<open>auto intro: reachable.step wallet_step_captured reachable_inv\<close>)
  then show ?thesis by blast
qed

theorem captured_is_final_witness:
  "\<exists>d d'. (wallet_step cf0)\<^sup>*\<^sup>* d d' \<and> d' \<noteq> d \<and> hold_status_of d (hold_id (hd (holds d_held))) = Some CAPTURED \<and>
     hold_status_of d' (hold_id (hd (holds d_held))) = Some CAPTURED"
proof -
  let ?i = "hold_id (hd (holds d_held))"
  define d where "d = after d_held (capture 30 ?i (Some 4) None [] d_held)"
  define d' where "d' = after d (credit cf0 40 (buy 5 Never ''p9'') d)"
  have "ok (capture 30 ?i (Some 4) None [] d_held)" by code_simp
  with after_ok have r: "reachable cf0 d" unfolding d_def
    by (metis reach_held reachable.step step_capture)
  have "ok (credit cf0 40 (buy 5 Never ''p9'') d)" unfolding d_def by code_simp
  with after_ok have s: "wallet_step cf0 d d'" unfolding d'_def by (metis step_credit)
  have c: "hold_status_of d ?i = Some CAPTURED" "length (txns d') \<noteq> length (txns d)" unfolding d_def d'_def by code_simp+
  from captured_is_final[OF r c(1) r_into_rtranclp[of "wallet_step cf0", OF s]] s c show ?thesis
    by (intro exI[of _ d] exI[of _ d']) auto
qed

text \<open>Holding and releasing is a round trip: a hold released at the instant it was placed
  leaves the user's account (live, owed, reserved) exactly as it was.\<close>

theorem hold_release_roundtrip:
  assumes inv: "inv d" and key: "ho_key r \<noteq> []" and plain: "\<not> was_waived (ho_meta r)"
    and free: "hold_key_free d (u_id (ho_user r)) (ho_key r)" and ok: "hold cf now r d = Inr (h, d')"
  shows "\<exists>h' d''. release now (hold_id h) False d' = Inr (h', d'') \<and>
    user_account d'' (u_id (ho_user r)) now = user_account d (u_id (ho_user r)) now"
proof -
  let ?u = "u_id (ho_user r)"
  obtain w d0 where lk: "lock_wallet ?u d = (w, d0)" by (rule prod.exhaust)
  note f = lock_wallet_facts[OF inv lk]
  have pos: "0 < ho_credits r" using ok by (auto simp: hold_def split: if_splits)
  note b = hold_free_body[OF inv lk pos key free]
  have new: "hold_new cf now r w (existing_hold d0 w (ho_key r)) d0 = Inr (h, d')" using ok b(1) by simp
  define n where "n = (if meter_only cf (Some (ho_user r)) then 0 else ho_credits r)"
  have fits: "n \<le> live_balance d0 w now" using hold_new_fits[OF f(1,2) pos new] by (simp add: n_def)
  obtain h1 d1 where h1: "hold_new cf now r w (existing_hold d0 w (ho_key r)) d0 = Inr (h1, d1)" "inv d1"
    "\<And>w'. account_of d1 w' now = (if w' = w
       then account_of d0 w now\<lparr>ac_live := live_balance d0 w now - n, ac_held := reserved d0 w + n\<rparr>
       else account_of d0 w' now)"
    "map wallet_static (wallets d1) = map wallet_static (wallets d0)" "h1 \<in> set (holds d1)" "hold_status h1 = HELD"
    "hold_credits h1 = n" "hold_wallet h1 = w"
    by (rule hold_new_done[OF f(1,2) pos b(2) n_def fits plain]) blast
  have eq: "h1 = h" "d1 = d'" using h1(1) new by simp_all
  note i' = h1(2)[unfolded eq] and hh = h1(5-8)[unfolded eq] and acc = h1(3)[unfolded eq, of w]
  define d'' where "d'' = release_held h w False now d'"
  note r = release_held_facts[OF i' hh(1,2), of d'' False now, unfolded hh(4), OF d''_def]
  have "alive_part d' now (hold_id h) = n"
    using hold_new_alive[OF f(1,2) new i'] held_allocated(1)[OF i' hh(1,2)] hh(3) by simp
  with r(4)[of w] acc hh(3) have "account_of d'' w now = account_of d0 w now" by (simp add: account_of_def)
  moreover have "user_account d'' ?u now = account_of d'' w now"
    using user_account_after[OF lk] r(3) h1(4)[unfolded eq] by simp
  ultimately have "user_account d'' ?u now = user_account d ?u now" using lock_wallet_account[OF inv lk] by simp
  moreover have "\<exists>h'. release now (hold_id h) False d' = Inr (h', d'')"
    using load_row[OF inv_wf[OF i'] hh(1)] hh(2,4) by (simp add: release_def d''_def)
  ultimately show ?thesis by blast
qed

theorem hold_release_roundtrip_witness:
  "user_account (after d_held (release 20 (hold_id (hd (holds d_held))) False d_held)) ''a'' 20 = user_account d_two ''a'' 20
   \<and> user_account d_held ''a'' 20 \<noteq> user_account d_two ''a'' 20"
proof -
  have "ok (hold cf0 20 (reserve 7 ''job'') d_two)" by code_simp
  then obtain h where h: "hold cf0 20 (reserve 7 ''job'') d_two = Inr (h, d_held)"
    unfolding d_held_def using after_ok by blast
  have "ho_key (reserve 7 ''job'') \<noteq> []" "\<not> was_waived (ho_meta (reserve 7 ''job''))"
    "hold_key_free d_two (u_id (ho_user (reserve 7 ''job''))) (ho_key (reserve 7 ''job''))" by code_simp+
  from hold_release_roundtrip[OF inv_samples(1) this h]
  obtain h' d'' where "release 20 (hold_id h) False d_held = Inr (h', d'')" "user_account d'' ''a'' 20 = user_account d_two ''a'' 20"
    by (auto simp: reserve_def alice_def)
  moreover have "(case hold cf0 20 (reserve 7 ''job'') d_two of Inr (x, _) \<Rightarrow> hold_id x = hold_id (hd (holds d_held)) | Inl _ \<Rightarrow> False)"
    "user_account d_held ''a'' 20 \<noteq> user_account d_two ''a'' 20" by code_simp+
  ultimately show ?thesis using h by (simp add: after_def)
qed

subsection \<open>The pre-flight, and the account that is only metered\<close>

text \<open>The pre-flight tells the truth: for a registered user it answers the balance the debit
  would see, and it says "affordable" exactly when the same debit, made at that instant under
  an unused key, is not refused; the shortfall it reports is what is missing.\<close>

theorem can_afford_predicts_debit:
  assumes inv: "inv d" and ans: "can_afford cf now (Some (de_user r)) None (de_credits r) d = Inr a"
    and whole: "\<not> de_partial r" and key: "unused_key cf d (u_id (de_user r)) (de_key r)"
  shows "af_affordable a = ok (debit cf now r d) \<and> af_balance a = ac_live (user_account d (u_id (de_user r)) now) \<and>
    af_shortfall a = (if meter_only cf (Some (de_user r)) then 0 else max (de_credits r - af_balance a) 0)"
proof -
  let ?u = "u_id (de_user r)"
  from ans have pos: "0 < de_credits r" by (auto simp: can_afford_def split: if_splits)
  have bal: "(case wallet_of_user d ?u of Some x \<Rightarrow> live_balance d (w_id x) now | None \<Rightarrow> 0) = ac_live (user_account d ?u now)"
    by (simp add: user_account_def empty_account_def split: option.splits)
  with ans pos have rest: "af_balance a = ac_live (user_account d ?u now)"
    "af_shortfall a = (if meter_only cf (Some (de_user r)) then 0 else max (de_credits r - af_balance a) 0)"
    by (auto simp: can_afford_def Let_def split: if_splits)
  obtain w d0 where lk: "lock_wallet ?u d = (w, d0)" by (rule prod.exhaust)
  note f = lock_wallet_facts[OF inv lk]
  have "af_affordable a = ok (debit cf now r d)"
  proof (cases "meter_only cf (Some (de_user r))")
    case True
    have "ok (debit_new cf now r w d0)" by (rule debit_new_metered[OF f(1,2) True, of now]) (simp add: ok_def)
    with True ans debit_unkeyed[OF lk pos unused_key_lock[OF inv lk key]] show ?thesis
      by (auto simp: can_afford_def Let_def split: if_splits)
  next
    case False
    with ans pos bal have "af_affordable a = (de_credits r \<le> ac_live (user_account d ?u now))"
      by (auto simp: can_afford_def Let_def split: if_splits)
    with debit_new_account[OF f(1,2) False pos, of now] whole lock_wallet_account[OF inv lk, of now]
      debit_unkeyed[OF lk pos unused_key_lock[OF inv lk key]] show ?thesis
      by (auto simp: spec_debit_def ok_def split: sum.splits if_splits)
  qed
  with rest show ?thesis by simp
qed

theorem can_afford_predicts_debit_witness:
  "map_sum id af_affordable (can_afford cf0 20 (Some alice) None 15 d_two) = Inr True \<and> ok (debit cf0 20 (use alice 15 ''k'' False) d_two) \<and>
   map_sum id af_affordable (can_afford cf0 20 (Some alice) None 16 d_two) = Inr False \<and> \<not> ok (debit cf0 20 (use alice 16 ''k'' False) d_two)"
proof -
  have k: "unused_key cf0 d_two ''a'' ''k''" by code_simp
  have o: "ok (debit cf0 20 (use alice 15 ''k'' False) d_two)" "\<not> ok (debit cf0 20 (use alice 16 ''k'' False) d_two)" by code_simp+
  have "ok (can_afford cf0 20 (Some alice) None 15 d_two)" "ok (can_afford cf0 20 (Some alice) None 16 d_two)" by code_simp+
  then obtain a b where "can_afford cf0 20 (Some alice) None 15 d_two = Inr a" "can_afford cf0 20 (Some alice) None 16 d_two = Inr b"
    by (auto simp: ok_def split: sum.splits)
  moreover from this can_afford_predicts_debit[OF inv_samples(1), of cf0 20 "use alice 15 ''k'' False" a]
    can_afford_predicts_debit[OF inv_samples(1), of cf0 20 "use alice 16 ''k'' False" b] k
  have "af_affordable a = ok (debit cf0 20 (use alice 15 ''k'' False) d_two)"
    "af_affordable b = ok (debit cf0 20 (use alice 16 ''k'' False) d_two)" by (simp_all add: use_def alice_def)
  ultimately show ?thesis using o by simp
qed

text \<open>An account the policy only meters is never charged, refused or put in debt: its debit
  under an unused key always returns, moves no account, and leaves one row of no credits that
  records what would have been charged; and its hold reserves nothing.\<close>

theorem metered_never_charged:
  assumes inv: "inv d" and met: "meter_only cf (Some (de_user r))" and pos: "0 < de_credits r"
    and key: "unused_key cf d (u_id (de_user r)) (de_key r)"
  shows "\<exists>a d' t ts. debit cf now r d = Inr (a, d') \<and>
    user_account d' (u_id (de_user r)) now = user_account d (u_id (de_user r)) now \<and>
    txns d' = ts @ [t] \<and> txn_delta t = 0 \<and> was_waived (txn_meta t) \<and> dint (txn_meta t) WAIVED = Some (de_credits r)"
proof -
  let ?u = "u_id (de_user r)"
  obtain w d0 where lk: "lock_wallet ?u d = (w, d0)" by (rule prod.exhaust)
  note f = lock_wallet_facts[OF inv lk]
  note un = debit_unkeyed[OF lk pos unused_key_lock[OF inv lk key]]
  obtain a d' where b: "debit_new cf now r w d0 = Inr (a, d')"
    "meter_only_debit now r w (snd (expire_due_lots w now d0)) = (a, d')" "spends d0 d'"
    "\<And>w'. account_of d' w' now = account_of d0 w' now"
    by (rule debit_new_metered[OF f(1,2) met]) blast
  have w1: "w \<in> wallet_ids (snd (expire_due_lots w now d0))"
    using f(2) spends_wallet_ids[OF expire_spends[OF inv_wf[OF f(1)] f(2)]] by simp
  from meter_only_debit_facts(6)[OF inv_expire[OF f(1,2)] w1 b(2)] obtain t where
    "txns d' = txns (snd (expire_due_lots w now d0)) @ [t]" "txn_delta t = 0" "was_waived (txn_meta t)"
    "dint (txn_meta t) WAIVED = Some (de_credits r)" by blast
  with un b user_account_spends[OF lk b(3), of now] lock_wallet_account[OF inv lk, of now] show ?thesis by auto
qed

theorem metered_never_charged_witness:
  "user_account (after empty_db (debit cf_metered 20 (use bob 999 ''k'' False) empty_db)) ''b'' 20 = empty_account \<and>
   ok (debit cf_metered 20 (use bob 999 ''k'' False) empty_db) \<and> \<not> ok (debit cf0 20 (use bob 999 ''k'' False) empty_db)"
proof -
  have k: "unused_key cf_metered empty_db ''b'' ''k''" "meter_only cf_metered (Some bob)"
    "user_account empty_db ''b'' 20 = empty_account" "\<not> ok (debit cf0 20 (use bob 999 ''k'' False) empty_db)" by code_simp+
  with metered_never_charged[OF inv_empty, of cf_metered "use bob 999 ''k'' False" 20] show ?thesis
    by (auto simp: use_def bob_def after_def ok_def)
qed

subsection \<open>The sweeps\<close>

text \<open>Sweeping one wallet leaves the due lots of the others as they are.\<close>

lemma expire_lots_other:
  assumes "lots_ok d" and "lot_wallet l \<noteq> w"
  shows "l \<in> set (lots (snd (expire_due_lots w now d))) \<longleftrightarrow> l \<in> set (lots d)"
proof (cases "due_lots d w now = []")
  case True
  then show ?thesis by (simp add: expire_due_lots_snd)
next
  case False
  let ?D = "lot_id ` set (due_lots d w now)"
  have "lots (snd (expire_due_lots w now d)) = map (\<lambda>x. if lot_id x \<in> ?D then x\<lparr>lot_remaining := 0\<rparr> else x) (lots d)"
    using False by (simp add: expire_due_lots_snd sync_balance_frame expire_walk_lots)
  moreover have "lot_wallet x = w" if "x \<in> set (lots d)" "lot_id x \<in> ?D" for x
  proof -
    from that(2) obtain y where "y \<in> set (lots d)" "lot_wallet y = w" "lot_id y = lot_id x" by (auto simp: set_due_lots)
    with that(1) lots_ok_distinct[OF assms(1)] show ?thesis by (metis distinct_map inj_onD)
  qed
  ultimately show ?thesis using assms(2) by (auto simp: image_iff) (metis lot.select_convs lot.ext_inject lot.surjective lot.update_convs)+
qed

definition wallet_due :: "db \<Rightarrow> time \<Rightarrow> uuid \<Rightarrow> bool" where
  "wallet_due d now w = (\<exists>l \<in> set (lots d). lot_wallet l = w \<and> 0 < lot_remaining l \<and> lot_expires l \<le> At now)"

lemma wallet_due_sweep:
  assumes "inv d" and "w \<in> wallet_ids d"
  shows "wallet_due (snd (sweep_wallet now w (n, d))) now v \<longleftrightarrow> v \<noteq> w \<and> wallet_due d now v"
proof -
  obtain x where x: "get_row w_id w (wallets d) = Some x"
    using assms(2) by (cases "get_row w_id w (wallets d)") (auto simp: get_row_None wallet_ids_def)
  have "\<not> wallet_due (snd (expire_due_lots w now d)) now w"
    using expire_no_due[of _ w now d] by (auto simp: wallet_due_def not_le[symmetric])
  moreover have "wallet_due (snd (expire_due_lots w now d)) now v = wallet_due d now v" if "v \<noteq> w"
    using expire_lots_other[OF wf_lots_ok[OF inv_wf[OF assms(1)]], of _ w now] that by (auto simp: wallet_due_def)
  ultimately show ?thesis using x by (auto simp: sweep_wallet_def split_beta)
qed

lemma sweep_wallet_facts:
  assumes "inv d" and "w \<in> wallet_ids d"
  shows "inv (snd (sweep_wallet now w (n, d)))" "wallet_ids (snd (sweep_wallet now w (n, d))) = wallet_ids d"
    "account_of (snd (sweep_wallet now w (n, d))) v now = account_of d v now"
    "n \<le> fst (sweep_wallet now w (n, d))"
proof -
  show "inv (snd (sweep_wallet now w (n, d)))" by (rule sweep_wallet_inv) (simp add: assms(1))
  note wf = inv_wf[OF assms(1)]
  have "snd (sweep_wallet now w (n, d)) = d \<or> snd (sweep_wallet now w (n, d)) = snd (expire_due_lots w now d)"
    by (auto simp: sweep_wallet_def split_beta split: option.splits)
  with spends_wallet_ids[OF expire_spends[OF wf assms(2)]] expire_account[OF wf assms(2)]
  show "wallet_ids (snd (sweep_wallet now w (n, d))) = wallet_ids d"
    "account_of (snd (sweep_wallet now w (n, d))) v now = account_of d v now" by auto
  have "0 \<le> fst (expire_due_lots w now d)"
    unfolding expire_due_lots_fst by (rule sum_list_nonneg_int) (auto simp: set_due_lots)
  then show "n \<le> fst (sweep_wallet now w (n, d))" by (auto simp: sweep_wallet_def split_beta split: option.splits)
qed

lemma sweep_all:
  assumes "inv d" and "\<forall>w \<in> set ws. w \<in> wallet_ids d"
  shows "let p = fold (sweep_wallet now) ws (n, d) in
    (\<forall>v. account_of (snd p) v now = account_of d v now) \<and>
    (\<forall>v. wallet_due (snd p) now v \<longleftrightarrow> v \<notin> set ws \<and> wallet_due d now v)"
  using assms
proof (induction ws arbitrary: n d)
  case (Cons w ws)
  obtain n1 d1 where e: "sweep_wallet now w (n, d) = (n1, d1)" by (rule prod.exhaust)
  from Cons.prems have w: "w \<in> wallet_ids d" by simp
  note s = sweep_wallet_facts[OF Cons.prems(1) w, of now n, unfolded e snd_conv]
  from Cons.IH[OF s(1), of n1] s(2,3) Cons.prems(2) wallet_due_sweep[OF Cons.prems(1) w, of now n, unfolded e snd_conv]
  show ?case by (auto simp: e Let_def)
qed (simp add: Let_def)

text \<open>The expiry worker takes only what is dead. It changes no account (live, owed,
  reserved) of any wallet, leaves no credit whose deadline has passed in any lot, and a second
  run at the same instant finds no wallet to sweep.\<close>

theorem expiry_sweep_complete:
  assumes inv: "inv d" and run: "expire_credit_lots now d = (n, d')"
  shows "account_of d' w now = account_of d w now \<and>
    (\<forall>l \<in> set (lots d'). 0 < lot_remaining l \<longrightarrow> At now < lot_expires l) \<and>
    expire_credit_lots now d' = (0, d')"
proof -
  have known: "\<forall>w \<in> set (due_wallets now d). w \<in> wallet_ids d"
    using inv_wf[OF inv] by (auto simp: due_wallets_def wf_db_def lot_refs_ok_def)
  have due: "v \<in> set (due_wallets now d) \<longleftrightarrow> wallet_due d now v" for v
    by (auto simp: due_wallets_def wallet_due_def)
  from sweep_all[OF inv known, of now 0] run
  have a: "\<forall>v. account_of d' v now = account_of d v now" and n: "\<forall>v. \<not> wallet_due d' now v"
    by (auto simp: expire_credit_lots_def Let_def due)
  from n have "due_wallets now d' = []" by (auto simp: due_wallets_def wallet_due_def filter_empty_conv)
  then have "expire_credit_lots now d' = (0, d')" by (simp add: expire_credit_lots_def)
  moreover from n have "\<forall>l \<in> set (lots d'). 0 < lot_remaining l \<longrightarrow> At now < lot_expires l"
    by (force simp: wallet_due_def not_le[symmetric])
  ultimately show ?thesis using a by blast
qed

theorem expiry_sweep_complete_witness:
  "fst (expire_credit_lots 60 d_two) = 10 \<and> expire_credit_lots 60 (snd (expire_credit_lots 60 d_two)) = (0, snd (expire_credit_lots 60 d_two))"
proof -
  have "fst (expire_credit_lots 60 d_two) = 10" by code_simp
  with expiry_sweep_complete[OF inv_samples(1), of 60 10 "snd (expire_credit_lots 60 d_two)" 0] show ?thesis
    by (metis prod.collapse)
qed

text \<open>C18: the abandoned holds worker always finishes: it resolves every open hold whose deadline
  has passed, reports how many there were, and leaves none.\<close>

theorem abandoned_holds_resolved:
  assumes "inv d"
  shows "\<exists>d'. expire_holds now d = Inr (length (stale_holds now d), d') \<and> inv d' \<and>
    (\<forall>h \<in> set (holds d'). hold_status h = HELD \<longrightarrow> At now < hold_expires h)"
proof -
  from expire_holds_facts[OF assms, of now] obtain d' where
    "expire_holds now d = Inr (length (stale_holds now d), d')" "inv d'" "stale_holds now d' = []" by blast
  moreover from this(3) have "\<forall>h \<in> set (holds d'). hold_status h = HELD \<longrightarrow> At now < hold_expires h"
    by (auto simp: stale_holds_def filter_empty_conv not_le)
  ultimately show ?thesis by blast
qed

theorem abandoned_holds_resolved_witness:
  "\<exists>d'. expire_holds 3600000020 d_held = Inr (1, d') \<and> (\<forall>h \<in> set (holds d'). hold_status h = HELD \<longrightarrow> At 3600000020 < hold_expires h)"
proof -
  have "length (stale_holds 3600000020 d_held) = 1" by code_simp
  with abandoned_holds_resolved[OF inv_samples(2), of 3600000020] show ?thesis by auto
qed

end
