(* ===== verification/Clawback_Claims.thy ===== *)
theory Clawback_Claims
  imports Hold_Claims
begin

section \<open>Properties of the money-back handlers\<close>

text \<open>
  A refund splits into what is still there, what expired and what was spent; refunds of one
  payment, however many events describe them, never take more than the grant; an event is
  handled once; a dispute that is won puts the account back. The last part exhibits three
  places where the code gives another answer than its comments promise.
\<close>

subsection \<open>Shared facts\<close>

lemma fold_take_other:
  assumes "l \<in> set (lots d)" and "lots_ok d" and "\<forall>p \<in> set taken. lot_id l \<noteq> lot_id (fst p)"
  shows "l \<in> set (lots (fold take_from_lot taken d))"
proof -
  have "l \<in> set (lots (fold take_from_lot taken x))" if "l \<in> set (lots x)" for x
    using that assms(3)
    by (induction taken arbitrary: x) (auto simp: take_from_lot_def upd_lot_def set_upd_row image_iff intro!: bexI)
  with assms(1) show ?thesis by blast
qed

lemma expire_keeps_live:
  assumes "lots_ok d" and "l \<in> set (lots d)" and "At now < lot_expires l"
  shows "l \<in> set (lots (snd (expire_due_lots w now d)))"
proof (cases "due_lots d w now = []")
  case True
  with assms show ?thesis by (simp add: expire_due_lots_snd)
next
  case False
  have "lot_id l \<notin> lot_id ` set (due_lots d w now)"
  proof
    assume "lot_id l \<in> lot_id ` set (due_lots d w now)"
    then obtain y where y: "y \<in> set (due_lots d w now)" "lot_id y = lot_id l" by auto
    then have "y \<in> set (lots d)" "lot_expires y \<le> At now" by (auto simp: set_due_lots)
    moreover from this(1) y(2) assms(2) lots_ok_distinct[OF assms(1)] have "y = l" by (metis distinct_map inj_onD)
    ultimately show False using assms(3) by simp
  qed
  with assms(2) False show ?thesis
    by (auto simp: expire_due_lots_snd sync_balance_frame expire_walk_lots intro!: image_eqI[of _ _ l])
qed

subsection \<open>What a clawback takes\<close>

text \<open>C19: a clawback accounts for every credit it was asked for: what it reclaims leaves the live
  credits, what is outstanding becomes debt, the rest is forgiven; no other wallet moves, and
  no live lot of another grant, the customer's own purchases among them, is touched.\<close>

theorem clawback_splits:
  assumes inv: "inv d" and t: "t \<in> set (txns d)" and eq: "claw_back_grant now t (Some n) desc m d = (c, d')"
  shows "n = cl_reclaimed c + cl_forgiven c + cl_outstanding c \<and>
    account_of d' v now = (if v = txn_wallet t
      then account_of d v now\<lparr>ac_live := live_balance d v now - cl_reclaimed c,
                              ac_owed := outstanding_debt d v + max 0 (cl_outstanding c)\<rparr>
      else account_of d v now) \<and>
    (\<forall>l \<in> set (lots d). lot_grant l \<noteq> Some (txn_id t) \<and> At now < lot_expires l \<longrightarrow> l \<in> set (lots d'))"
proof -
  let ?d1 = "snd (expire_due_lots (txn_wallet t) now d)"
  note f = claw_back_grant_facts[OF inv t eq]
  have w: "txn_wallet t \<in> wallet_ids d" using inv_wf[OF inv] t by (simp add: wf_db_def txns_ok_def)
  have ok1: "lots_ok ?d1" by (rule wf_lots_ok[OF inv_wf[OF inv_expire[OF inv w]]])
  have "l \<in> set (lots d')" if l: "l \<in> set (lots d)" "lot_grant l \<noteq> Some (txn_id t)" "At now < lot_expires l" for l
  proof -
    have m: "l \<in> set (lots ?d1)" by (rule expire_keeps_live[OF wf_lots_ok[OF inv_wf[OF inv]] l(1,3)])
    have "lot_id l \<noteq> lot_id (fst p)" if "p \<in> set (claw_lots (cl_requested c) (granted_lots ?d1 (txn_id t)))" for p
    proof
      assume e: "lot_id l = lot_id (fst p)"
      from claw_lots_mem(1)[OF that] have p: "fst p \<in> set (lots ?d1)" "lot_grant (fst p) = Some (txn_id t)"
        by (simp_all add: granted_lots_def)
      from e m p(1) lots_ok_distinct[OF ok1] have "l = fst p" by (metis distinct_map inj_onD)
      with p(2) l(2) show False by simp
    qed
    with fold_take_other[OF m ok1] show ?thesis by (simp add: f(12))
  qed
  with f(4,5,7) show ?thesis by simp
qed

definition d_spent :: db where
  "d_spent = after d_two (debit cf0 20 (use alice 12 ''k'' False) d_two)"

lemma d_spent_code [code]:
  "d_spent =
   \<lparr>wallets =
    [\<lparr>w_id = 0, w_user = Some ''a'', w_pseudonym = [], w_merged_into = None,
        w_balance = 3, w_currency = ''USD''\<rparr>],
    lots =
      [\<lparr>lot_id = 1, lot_wallet = 0, lot_source = PURCHASE, lot_initial = 10,
          lot_remaining = 0, lot_expires = At 50, lot_grant = Some 2\<rparr>,
       \<lparr>lot_id = 3, lot_wallet = 0, lot_source = PURCHASE, lot_initial = 5,
          lot_remaining = 3, lot_expires = Never, lot_grant = Some 4\<rparr>],
    txns =
      [\<lparr>txn_id = 2, txn_wallet = 0, txn_lot = Some 1,
          txn_type = CREDIT_PURCHASE, txn_amount = None, txn_delta = 10,
          txn_balance = 10, txn_desc = None,
          txn_meta = [(''idempotency_key'', JStr ''p1'')], txn_key = ''p1'',
          txn_created = 10\<rparr>,
       \<lparr>txn_id = 4, txn_wallet = 0, txn_lot = Some 3,
          txn_type = CREDIT_PURCHASE, txn_amount = None, txn_delta = 5,
          txn_balance = 15, txn_desc = None,
          txn_meta = [(''idempotency_key'', JStr ''p2'')], txn_key = ''p2'',
          txn_created = 10\<rparr>,
       \<lparr>txn_id = 5, txn_wallet = 0, txn_lot = None, txn_type = AI_CHARGE,
          txn_amount = None, txn_delta = - 12, txn_balance = 3,
          txn_desc = None,
          txn_meta =
            [(''idempotency_key'', JStr ''k''),
             (''lots'',
              JArr
               [JObj [(''lot_id'', JStr ''1''), (''credits'', JInt 10)],
                JObj [(''lot_id'', JStr ''3''), (''credits'', JInt 2)]])],
          txn_key = ''k'', txn_created = 20\<rparr>],
    holds = [], allocs = [], debts = [], subs = [], grants = [],
    pendings = [], comps = [], events = [], outbox = [], next_id = 6\<rparr>"
  by code_simp

lemma inv_spent: "inv d_spent"
proof -
  have "ok (debit cf0 20 (use alice 12 ''k'' False) d_two)" by code_simp
  then obtain a where "debit cf0 20 (use alice 12 ''k'' False) d_two = Inr (a, d_spent)"
    unfolding d_spent_def using after_ok by blast
  then show ?thesis using debit_inv inv_samples(1) by blast
qed

theorem clawback_splits_witness:
  "\<exists>c d'. claw_back_grant 30 (txns d_spent ! 1) (Some 5) None [] d_spent = (c, d') \<and> cl_reclaimed c = 3 \<and>
     cl_forgiven c = 0 \<and> cl_outstanding c = 2 \<and> live_balance d_spent 0 30 = 3 \<and> live_balance d' 0 30 = 0 \<and> outstanding_debt d' 0 = 2"
proof -
  let ?t = "txns d_spent ! 1"
  obtain c d' where e: "claw_back_grant 30 ?t (Some 5) None [] d_spent = (c, d')" by (rule prod.exhaust)
  have t: "?t \<in> set (txns d_spent)" by code_simp
  have v: "cl_reclaimed (fst (claw_back_grant 30 ?t (Some 5) None [] d_spent)) = 3"
    "cl_forgiven (fst (claw_back_grant 30 ?t (Some 5) None [] d_spent)) = 0"
    "live_balance d_spent 0 30 = 3" "outstanding_debt d_spent 0 = 0" "txn_wallet ?t = 0" by code_simp+
  from clawback_splits[OF inv_spent t e, of 0] v e show ?thesis
    by (intro exI[of _ c] exI[of _ d']) (auto simp: account_of_def)
qed

subsection \<open>However many events\<close>

definition refund_events :: "(time \<times> dict \<times> string) list \<Rightarrow> db \<Rightarrow> db" where
  "refund_events es d = fold (\<lambda>(now, event, label). handle_clawback now event label) es d"

text \<open>C20: refunds are reported cumulatively, disputes and credit notes name the same payment, and
  deliveries repeat; over any sequence of such events the credits taken back for one grant
  (net of reversals) never exceed what it granted.\<close>

theorem clawbacks_bounded:
  assumes "inv d" and "t \<in> set (txns d)" and "already_clawed_back d t \<le> txn_delta t"
  shows "already_clawed_back (refund_events es d) t \<le> txn_delta t \<and> inv (refund_events es d)"
  using assms
proof (induction es arbitrary: d)
  case (Cons e es)
  obtain now event label where e: "e = (now, event, label)" by (rule prod_cases3)
  from Cons.IH[OF handle_clawback_facts[OF Cons.prems], of now event label] show ?case
    by (simp add: refund_events_def e)
qed (simp add: refund_events_def)

definition paid_event :: "string \<Rightarrow> int \<Rightarrow> int \<Rightarrow> dict" where
  "paid_event i refunded amount =
     [(''id'', JStr i), (''data'', JObj [(''object'', JObj [(''id'', JStr ''ch_1''), (''payment_intent'', JStr ''pi_1''),
        (''amount_refunded'', JInt refunded), (''amount'', JInt amount)])])]"

text \<open>Ten credits bought with payment \<open>pi_1\<close>, four of them spent.\<close>

definition d_paid :: db where
  "d_paid =
     (let r = (buy 10 (At 50) ''p1'')\<lparr>cr_meta := [(''stripe_payment_intent'', JStr ''pi_1'')]\<rparr>;
          d = after empty_db (credit cf0 10 r empty_db)
      in after d (debit cf0 20 (use alice 4 ''k'' False) d))"

lemma d_paid_code [code]:
  "d_paid =
   \<lparr>wallets =
    [\<lparr>w_id = 0, w_user = Some ''a'', w_pseudonym = [], w_merged_into = None,
        w_balance = 6, w_currency = ''USD''\<rparr>],
    lots =
      [\<lparr>lot_id = 1, lot_wallet = 0, lot_source = PURCHASE, lot_initial = 10,
          lot_remaining = 6, lot_expires = At 50, lot_grant = Some 2\<rparr>],
    txns =
      [\<lparr>txn_id = 2, txn_wallet = 0, txn_lot = Some 1,
          txn_type = CREDIT_PURCHASE, txn_amount = None, txn_delta = 10,
          txn_balance = 10, txn_desc = None,
          txn_meta =
            [(''stripe_payment_intent'', JStr ''pi_1''),
             (''idempotency_key'', JStr ''p1'')],
          txn_key = ''p1'', txn_created = 10\<rparr>,
       \<lparr>txn_id = 3, txn_wallet = 0, txn_lot = Some 1, txn_type = AI_CHARGE,
          txn_amount = None, txn_delta = - 4, txn_balance = 6,
          txn_desc = None,
          txn_meta =
            [(''idempotency_key'', JStr ''k''),
             (''lots'',
              JArr
               [JObj [(''lot_id'', JStr ''1''), (''credits'', JInt 4)]])],
          txn_key = ''k'', txn_created = 20\<rparr>],
    holds = [], allocs = [], debts = [], subs = [], grants = [],
    pendings = [], comps = [], events = [], outbox = [], next_id = 4\<rparr>"
  by code_simp

lemma inv_paid: "inv d_paid"
proof -
  let ?r = "(buy 10 (At 50) ''p1'')\<lparr>cr_meta := [(''stripe_payment_intent'', JStr ''pi_1'')]\<rparr>"
  let ?d = "after empty_db (credit cf0 10 ?r empty_db)"
  have "ok (credit cf0 10 ?r empty_db)" by code_simp
  with after_ok have "inv ?d" using credit_inv[OF inv_empty] by metis
  moreover have "ok (debit cf0 20 (use alice 4 ''k'' False) ?d)" by code_simp
  ultimately show ?thesis unfolding d_paid_def Let_def using after_ok debit_inv by metis
qed

theorem clawbacks_bounded_witness:
  "already_clawed_back (refund_events [(30, paid_event ''e1'' 50 100, ''refund''), (31, paid_event ''e2'' 100 100, ''refund''),
      (31, paid_event ''e2'' 100 100, ''refund''), (32, paid_event ''e3'' 100 100, ''dispute'')] d_paid) (hd (txns d_paid)) \<le> 10 \<and>
   already_clawed_back (refund_events [(30, paid_event ''e1'' 50 100, ''refund'')] d_paid) (hd (txns d_paid)) = 5"
proof -
  have t: "hd (txns d_paid) \<in> set (txns d_paid)" "already_clawed_back d_paid (hd (txns d_paid)) \<le> txn_delta (hd (txns d_paid))"
    "txn_delta (hd (txns d_paid)) = 10"
    "already_clawed_back (refund_events [(30, paid_event ''e1'' 50 100, ''refund'')] d_paid) (hd (txns d_paid)) = 5" by code_simp+
  with clawbacks_bounded[OF inv_paid t(1,2)] show ?thesis by simp
qed

text \<open>A money-back event is handled once: delivered again, at any time and even under
  another label, it leaves the database as the first delivery left it.\<close>

theorem clawback_event_once:
  "handle_clawback later event label' (handle_clawback now event label d) = handle_clawback now event label d"
  by (rule handle_clawback_twice)

subsection \<open>A dispute that is won\<close>

lemma by_uuid_row:
  assumes "distinct (map rid rows)" and "r \<in> set rows"
  shows "by_uuid rid (JStr (uuid_str (rid r))) rows = Some r"
  using assms by (induction rows) (auto simp: by_uuid_def)

lemma find_static:
  assumes "map lot_static xs = map lot_static ys" and "find (\<lambda>l. lot_grant l = g) ys = Some l"
  shows "\<exists>l'. find (\<lambda>l. lot_grant l = g) xs = Some l' \<and> lot_expires l' = lot_expires l"
  using assms
proof (induction xs arbitrary: ys)
  case (Cons x xs)
  then obtain y zs where ys: "ys = y # zs" by (cases ys) auto
  with Cons.prems(1) have e: "lot_static x = lot_static y" "map lot_static xs = map lot_static zs" by simp_all
  from Cons.IH[OF e(2)] Cons.prems(2) static_fields_eq[OF e(1)] show ?case by (auto simp: ys split: if_splits)
qed simp

text \<open>C22: a won dispute undoes its clawback: reversing the row right after it was written leaves
  the wallet worth (live credits less debt) exactly what it was before the dispute, whatever
  part had been spent, provided the grant's credits have not passed their deadline.\<close>

theorem won_dispute_restores:
  assumes inv: "inv d" and t: "t \<in> set (txns d)" and eq: "claw_back_grant now t (Some n) desc m d = (c, d')"
    and plain: "dget m ''reversed'' = None" "dget m ''debt_id'' = None"
    and alive: "find (\<lambda>l. lot_grant l = Some (txn_id t)) (lots d) = Some l" "At now < lot_expires l"
  shows "\<exists>k d''. reverse_clawback now ev (cl_txn c) d' = Inr (k, d'') \<and>
    live_balance d'' (txn_wallet t) now - outstanding_debt d'' (txn_wallet t) =
    live_balance d (txn_wallet t) now - outstanding_debt d (txn_wallet t)"
proof -
  let ?row = "cl_txn c"
  note f = claw_back_grant_facts[OF inv t eq]
  note i' = f(1)
  have row: "?row \<in> set (txns d')" by (simp add: f(8))
  have td: "t \<in> set (txns d')" using f(2) t by (auto simp: spends_def)
  have dist: "distinct (map txn_id (txns d'))" "distinct (map debt_id (debts d'))"
    using inv_wf[OF i'] by (simp_all add: wf_db_def txns_ok_def debts_ok_def)
  have meta: "dget (txn_meta ?row) ''reversed'' = None" "dget (txn_meta ?row) ''reclaimed'' = Some (JInt (cl_reclaimed c))"
    "dget (txn_meta ?row) ''requested'' = Some (JInt (cl_requested c))"
    "dget (txn_meta ?row) ''clawback_of'' = Some (JStr (uuid_str (txn_id t)))"
    using plain(1) by (simp_all add: f(11) clawback_meta_def dget_dmerge_Cons clean_metadata_other)
  have grant: "by_uuid txn_id (get_json (txn_meta ?row) ''clawback_of'') (txns d') = Some t"
    using by_uuid_row[OF dist(1) td] meta(4) by (simp add: get_json_def)
  have rok: "clawback_row_ok d' ?row" using grant f(13) by (simp add: clawback_row_ok_def)
  obtain l' where l': "find (\<lambda>l. lot_grant l = Some (txn_id t)) (lots d') = Some l'" "At now < lot_expires l'"
  proof -
    have "map lot_static (lots d') = map lot_static (lots d)" using f(2) by (simp add: spends_def)
    from find_static[OF this alive(1)] alive(2) that show thesis by auto
  qed
  have debt: "reversed_debt d' (txn_meta ?row) = None \<and> cl_outstanding c \<le> 0 \<or>
    (\<exists>x. reversed_debt d' (txn_meta ?row) = Some x \<and> debt_wallet x = txn_wallet t \<and> debt_settled x = None \<and>
      debt_initial x = cl_outstanding c \<and> 0 < cl_outstanding c)"
  proof (cases "0 < cl_outstanding c")
    case True
    with f(14) obtain x where x: "x \<in> set (debts d')" "debt_wallet x = txn_wallet t" "debt_initial x = cl_outstanding c"
      "debt_settled x = None" "dget (txn_meta ?row) ''debt_id'' = Some (JStr (uuid_str (debt_id x)))" by auto
    with by_uuid_row[OF dist(2) x(1)] True show ?thesis by (auto simp: reversed_debt_def dtruthy_def get_json_def)
  next
    case False
    with f(14) have "dget (txn_meta ?row) ''debt_id'' = None"
      using plain(2) by (simp add: clawback_meta_def dget_dmerge_Cons clean_metadata_other)
    with False show ?thesis by (simp add: reversed_debt_def dtruthy_def)
  qed
  have "\<exists>k d''. reverse_clawback now ev ?row d' = Inr (k, d'') \<and> Ledger.inv d'' \<and>
    live_balance d'' (txn_wallet ?row) now - outstanding_debt d'' (txn_wallet ?row) =
    live_balance d' (txn_wallet ?row) now - outstanding_debt d' (txn_wallet ?row) + cl_reclaimed c +
      (case reversed_debt d' (txn_meta ?row) of None \<Rightarrow> 0 | Some x \<Rightarrow> debt_initial x)"
    using debt meta f(6,13)
    by (intro reverse_clawback_net[OF i' row _ _ _ _ rok grant l'(1,2)]) (auto simp: dtruthy_def)
  moreover have "live_balance d' (txn_wallet t) now - outstanding_debt d' (txn_wallet t) =
      live_balance d (txn_wallet t) now - outstanding_debt d (txn_wallet t) - cl_reclaimed c - max 0 (cl_outstanding c)"
    using f(7)[of "txn_wallet t"] by (simp add: account_of_def)
  ultimately show ?thesis using debt f(13) by auto
qed

theorem won_dispute_restores_witness:
  "let t = hd (txns d_spent); (c, d') = claw_back_grant 30 t (Some 10) None [] d_spent
   in live_balance d_spent 0 30 - outstanding_debt d_spent 0 = 3 \<and> live_balance d' 0 30 - outstanding_debt d' 0 = -7 \<and>
     (\<exists>k d''. reverse_clawback 30 (Some ''e'') (cl_txn c) d' = Inr (k, d'') \<and>
        live_balance d'' 0 30 - outstanding_debt d'' 0 = 3)"
proof -
  define t where "t = hd (txns d_spent)"
  obtain c d' where e: "claw_back_grant 30 t (Some 10) None [] d_spent = (c, d')" by (rule prod.exhaust)
  have t: "t \<in> set (txns d_spent)" "txn_wallet t = 0"
    and l: "find (\<lambda>l. lot_grant l = Some (txn_id t)) (lots d_spent) = Some (hd (lots d_spent))" "At 30 < lot_expires (hd (lots d_spent))"
    and n: "live_balance d_spent 0 30 - outstanding_debt d_spent 0 = 3"
    and n': "live_balance (snd (claw_back_grant 30 t (Some 10) None [] d_spent)) 0 30 -
      outstanding_debt (snd (claw_back_grant 30 t (Some 10) None [] d_spent)) 0 = -7"
    unfolding t_def by code_simp+
  from won_dispute_restores[OF inv_spent t(1) e _ _ l, of "Some ''e''"] t(2) n n' e show ?thesis
    unfolding t_def[symmetric] Let_def e prod.case by simp
qed

subsection \<open>Where the code and its comments part\<close>

text \<open>
  Two half refunds of one payment against one full refund of it. Ten credits were bought,
  four spent, six expired. The full refund forgives the six that expired and claims the four
  that were spent. Reported as two halves, each half forgives up to six again, because the
  expired credits an earlier clawback forgave are counted once more: nothing is claimed.
\<close>

lemma half_refunds_forgive_twice:
  "outstanding_debt (refund_events [(60, paid_event ''e1'' 100 100, ''refund'')] d_paid) 0 = 4 \<and>
   outstanding_debt (refund_events [(60, paid_event ''e1'' 50 100, ''refund''), (61, paid_event ''e2'' 100 100, ''refund'')] d_paid) 0 = 0"
  by code_simp

text \<open>
  The metered-only marker is an ordinary metadata key, and \<open>hold\<close> does not strip it from what
  the caller passes. A charged user's hold that carries it reserves its credits, and its
  capture takes the metered-only path: the reservation is resolved, no charge is written and
  nothing goes back into a lot, so seven credits are neither spendable, nor reserved, nor on
  the ledger as spent.
\<close>

definition marked :: hold_req where
  "marked = (reserve 7 ''job'')\<lparr>ho_meta := [(MARKER, JBool True)]\<rparr>"

lemma marked_hold_loses_credits:
  "let d = after d_two (hold cf0 20 marked d_two);
       d' = after d (capture 30 (hold_id (hd (holds d))) None None [] d)
   in ledger_total d' 0 = 15 \<and> live_balance d' 0 30 = 8 \<and> reserved d' 0 = 0 \<and> lot_total d' 0 = 8"
  by code_simp

text \<open>
  An insufficient debit raises out of its transaction, so the sweep it ran first is rolled
  back with it: the cached balance of the wallet row still counts credits that are dead.
\<close>

lemma refused_debit_keeps_stale_balance:
  "\<not> ok (debit cf0 60 (use alice 12 ''k'' False) d_two) \<and>
   wallet_balance (after d_two (debit cf0 60 (use alice 12 ''k'' False) d_two)) 0 = 15 \<and>
   live_balance (after d_two (debit cf0 60 (use alice 12 ''k'' False) d_two)) 0 60 = 5"
  by code_simp

end
