(* ===== verification/Merge_Claims.thy ===== *)
theory Merge_Claims
  imports Merge Clawback_Claims
begin

section \<open>Properties of the account merge\<close>

text \<open>
  A merge adds the two accounts up, once; then what the ledger says of the survivor, and what
  an open reservation does to the forfeiture.
\<close>


definition hexless :: "string \<Rightarrow> string" where
  "hexless s = s"

definition cf_forfeit_grants :: settings where
  "cf_forfeit_grants = cf0\<lparr>cf_forfeit := FText ''grant, subscription''\<rparr>"


text \<open>A merge happens once: however often and whenever its event is delivered again, it finds
  the row of the first delivery, reports nothing moved and leaves the database as it is.\<close>

theorem merge_redelivered:
  assumes "inv d" and "from \<noteq> into" and "wallet_of_user d from = Some x" and "owns_one d from"
    and "\<exists>u \<in> set (cf_users cf). u_id u = into"
    and "\<forall>t \<in> set (txns d). txn_key t \<noteq> merge_idempotency_key digest from into"
    and "merge_wallets digest cf now from into d = Inr (c, d')"
  shows "merge_wallets digest cf' later from into d' = Inr (no_counts, d')"
proof (rule merge_done[OF assms(1-6), of now])
  fix c1 d1 assume e: "merge_wallets digest cf now from into d = Inr (c1, d1)"
    and "\<exists>t \<in> set (txns d1). txn_key t = merge_idempotency_key digest from into \<and> txn_delta t = mc_credits c1"
  moreover have "d1 = d'" using e assms(7) by simp
  ultimately show ?thesis using merge_applied by blast
qed

theorem merge_redelivered_witness:
  "\<exists>c d'. merge_wallets hexless cf0 30 ''a'' ''b'' d_spent = Inr (c, d') \<and> mc_credits c = 3 \<and>
     merge_wallets hexless cf0 90 ''a'' ''b'' d' = Inr (no_counts, d')"
proof -
  have h: "''a'' \<noteq> ''b''" "wallet_of_user d_spent ''a'' = Some (hd (wallets d_spent))" "owns_one d_spent ''a''"
    "\<exists>u \<in> set (cf_users cf0). u_id u = ''b''"
    "\<forall>t \<in> set (txns d_spent). txn_key t \<noteq> merge_idempotency_key hexless ''a'' ''b''"
    "map_sum id (mc_credits \<circ> fst) (merge_wallets hexless cf0 30 ''a'' ''b'' d_spent) = Inr 3"
    by code_simp+
  then obtain c d' where "merge_wallets hexless cf0 30 ''a'' ''b'' d_spent = Inr (c, d')" "mc_credits c = 3"
    by (cases "merge_wallets hexless cf0 30 ''a'' ''b'' d_spent") auto
  with merge_redelivered[OF inv_spent h(1-5) this(1), of cf0 90] show ?thesis by blast
qed

subsection \<open>Where the code and its comments part\<close>

text \<open>
  The merged wallet's rows move to the survivor, and the row of the merge adds their credits
  once more: the survivor's ledger then sums to twice what moved, where the comment promises
  a ledger that explains the balance without a gap.
\<close>

lemma merge_row_double_counts:
  "let d' = after d_spent (merge_wallets hexless cf0 30 ''a'' ''b'' d_spent); s = w_id (the (wallet_of_user d' ''b''))
   in lot_total d' s + reserved d' s = 3 \<and> ledger_total d' s = 6"
  by code_simp

text \<open>
  Account-bound credits that are reserved when the merge runs are not in a lot and are not
  forfeited; released afterwards, they come back to the survivor.
\<close>

definition d_granted :: db where
  "d_granted =
     (let r = (buy 10 Never ''g1'')\<lparr>cr_source := GRANT\<rparr>; d = after empty_db (credit cf0 10 r empty_db)
      in after d (hold cf0 20 (reserve 7 ''job'') d))"

lemma d_granted_code [code]:
  "d_granted =
   \<lparr>wallets =
    [\<lparr>w_id = 0, w_user = Some ''a'', w_pseudonym = [], w_merged_into = None,
        w_balance = 3, w_currency = ''USD''\<rparr>],
    lots =
      [\<lparr>lot_id = 1, lot_wallet = 0, lot_source = GRANT, lot_initial = 10,
          lot_remaining = 3, lot_expires = Never, lot_grant = Some 2\<rparr>],
    txns =
      [\<lparr>txn_id = 2, txn_wallet = 0, txn_lot = Some 1,
          txn_type = CREDIT_PURCHASE, txn_amount = None, txn_delta = 10,
          txn_balance = 10, txn_desc = None,
          txn_meta = [(''idempotency_key'', JStr ''g1'')], txn_key = ''g1'',
          txn_created = 10\<rparr>],
    holds =
      [\<lparr>hold_id = 3, hold_wallet = 0, hold_credits = 7,
          hold_type = AI_CHARGE, hold_desc = None, hold_meta = [],
          hold_key = ''job'', hold_status = HELD,
          hold_expires = At 3600000020, hold_resolved = None\<rparr>],
    allocs =
      [\<lparr>alloc_id = 4, alloc_hold = 3, alloc_lot = 1, alloc_credits = 7\<rparr>],
    debts = [], subs = [], grants = [], pendings = [], comps = [],
    events = [], outbox = [], next_id = 5\<rparr>"
  by code_simp

lemma held_grant_survives_merge:
  "let d' = after d_granted (merge_wallets hexless cf_forfeit_grants 30 ''a'' ''b'' d_granted);
       d'' = after d' (release 40 (hold_id (hd (holds d'))) False d')
   in user_account d' ''b'' 40 = \<lparr>ac_live = 0, ac_owed = 0, ac_held = 7\<rparr> \<and>
      user_account d'' ''b'' 40 = \<lparr>ac_live = 7, ac_owed = 0, ac_held = 0\<rparr>"
  by code_simp

end
