(* ===== verification/Subscription_Claims.thy ===== *)
theory Subscription_Claims
  imports Paid_Facts Merge_Claims
begin

section \<open>Properties of the subscription lifecycle\<close>

subsection \<open>The order of delivery\<close>

text \<open>One delivery: the instant it was handled at, and the event.\<close>

fun deliver :: "time \<times> lifecycle_event \<Rightarrow> db \<Rightarrow> db" where
  "deliver (now, Updated e) d = snd (handle_subscription_updated e d)"
| "deliver (now, Deleted e) d = snd (handle_subscription_deleted now e d)"

definition names :: "string \<Rightarrow> lifecycle_event \<Rightarrow> bool" where
  "names i ev = (dget (event_object (event_of ev)) ''id'' = Some (JStr i))"

lemma find_saved:
  assumes "find P xs = Some s" and "P s'" and "rid s' = rid s"
  shows "find P (upd_row rid (rid s') (\<lambda>_. s') xs) = Some s'"
  using assms by (induction xs) (auto split: if_splits)

lemma saved_stripe_row:
  assumes "sub_by_stripe_id d i = Some s" and "same_ids s s'"
  shows "sub_by_stripe_id (save_lifecycle s' d) i = Some s'"
proof -
  from assms have "sub_stripe_id s' = Some i" "sub_id s' = sub_id s"
    by (auto simp: sub_by_stripe_id_def find_Some_iff same_ids_def)
  with assms(1) show ?thesis unfolding sub_by_stripe_id_def save_lifecycle_frame save_sub_frame by (intro find_saved)
qed

lemma deliver_row:
  assumes "sub_by_stripe_id d i = Some s" and "i \<noteq> []" and "names i ev" and "full_event ev"
  shows "sub_by_stripe_id (deliver (now, ev) d) i = Some (newest_event.receive ev s)"
proof -
  have r: "resolve_local_subscription (event_object (event_of ev)) d = (Some s, d)"
    using assms(1-3) by (simp add: resolve_local_subscription_def names_def id_text_def Let_def)
  show ?thesis
  proof (cases "outdated_event ev s")
    case True
    with r assms(1) show ?thesis
      by (cases ev) (simp_all add: newest_event.receive_simps handle_subscription_updated_def handle_subscription_deleted_def Let_def)
  next
    case False
    have w: "newest_event.receive ev s = write_event ev s" using False by (rule newest_event.receive_simps)
    have "\<exists>s'. s' = write_event ev s \<and> same_ids s s' \<and> deliver (now, ev) d = save_lifecycle s' d"
    proof (cases ev)
      case (Updated e)
      with r False updated_row_facts(1) show ?thesis by (simp add: handle_subscription_updated_def Let_def)
    next
      case (Deleted e)
      with assms(4) have "deleted_row now e s = deleted_row 0 e s"
        by (auto simp: full_event_def deleted_row_def Let_def split: option.splits)
      with Deleted r False deleted_row_facts(1)[of s now e] show ?thesis
        by (simp add: handle_subscription_deleted_def Let_def)
    qed
    with saved_stripe_row[OF assms(1)] w show ?thesis by metis
  qed
qed

lemma deliver_all:
  assumes "sub_by_stripe_id d i = Some s" and "i \<noteq> []" and "\<forall>x \<in> set xs. names i (snd x) \<and> full_event (snd x)"
  shows "sub_by_stripe_id (fold deliver xs d) i = Some (fold newest_event.receive (map snd xs) s)"
  using assms
proof (induction xs arbitrary: d s)
  case (Cons x xs)
  obtain now ev where x: "x = (now, ev)" by (rule prod.exhaust)
  from Cons.prems(3) x deliver_row[OF Cons.prems(1,2), of ev now]
  have "sub_by_stripe_id (deliver x d) i = Some (newest_event.receive ev s)" by simp
  from Cons.IH[OF this Cons.prems(2)] Cons.prems(3) x show ?case by simp
qed simp

text \<open>C25: lifecycle events are applied in provider time, not in delivery time. Deliver any set of
  events that describe a known subscription in full (created, updated, deleted), in any order, any
  of them any number of times, at any instants: the row ends the same. Events with one timestamp
  and one status rank are taken to be one event.\<close>

theorem delivery_order_irrelevant:
  assumes "sub_by_stripe_id d i = Some s" and "i \<noteq> []"
    and "snd ` set xs = snd ` set ys"
    and "\<forall>x \<in> set xs. names i (snd x) \<and> full_event (snd x)"
    and "\<forall>x \<in> set xs. \<forall>y \<in> set xs. event_stamp (snd x) = event_stamp (snd y) \<longrightarrow> snd x = snd y"
  shows "sub_by_stripe_id (fold deliver xs d) i = sub_by_stripe_id (fold deliver ys d) i"
proof -
  have "\<forall>y \<in> set ys. names i (snd y) \<and> full_event (snd y)"
  proof
    fix y assume "y \<in> set ys"
    with assms(3) have "snd y \<in> snd ` set xs" by simp
    with assms(4) show "names i (snd y) \<and> full_event (snd y)" by auto
  qed
  moreover have "fold newest_event.receive (map snd xs) s = fold newest_event.receive (map snd ys) s"
  proof (rule newest_event.order_irrelevant)
    show "set (map snd xs) = set (map snd ys)" by (simp only: set_map assms(3))
  qed (use assms(4,5) in auto)
  ultimately show ?thesis
    using deliver_all[OF assms(1,2,4)] deliver_all[OF assms(1,2), of ys] by simp
qed

definition sub_event :: "int \<Rightarrow> string \<Rightarrow> dict" where
  "sub_event at st =
     [(''created'', JInt at),
      (''data'', JObj [(''object'', JObj [(''id'', JStr ''sub_1''), (''status'', JStr st),
         (''current_period_start'', JInt (at + 1)), (''current_period_end'', JInt (at + 100)),
         (''cancel_at_period_end'', JBool False), (''canceled_at'', JInt at)])])]"

definition d_subscribed :: db where
  "d_subscribed = empty_db\<lparr>subs := [(new_subscription 0 ''a'' ''pro'')\<lparr>sub_stripe_id := Some ''sub_1''\<rparr>], next_id := 1\<rparr>"

lemma d_subscribed_code [code]:
  "d_subscribed =
   \<lparr>wallets = [], lots = [], txns = [], holds = [], allocs = [], debts = [],
    subs =
      [\<lparr>sub_id = 0, sub_user = Some ''a'', sub_pseudonym = [],
          sub_plan = ''pro'', sub_status = ACTIVE,
          sub_stripe_id = Some ''sub_1'', sub_customer_id = None,
          sub_last_event = None, sub_period_start = None,
          sub_period_end = None, sub_cancel_at_end = False,
          sub_cancelled_at = None\<rparr>],
    grants = [], pendings = [], comps = [], events = [], outbox = [],
    next_id = 1\<rparr>"
  by code_simp

theorem delivery_order_irrelevant_witness:
  "let xs = [(1, Updated (sub_event 10 ''incomplete'')), (2, Updated (sub_event 12 ''active'')), (3, Deleted (sub_event 20 ''canceled''))];
       ys = [(1, Deleted (sub_event 20 ''canceled'')), (5, Updated (sub_event 12 ''active'')), (6, Updated (sub_event 10 ''incomplete'')),
             (7, Deleted (sub_event 20 ''canceled''))]
   in sub_by_stripe_id (fold deliver xs d_subscribed) ''sub_1'' = sub_by_stripe_id (fold deliver ys d_subscribed) ''sub_1'' \<and>
      map_option sub_status (sub_by_stripe_id (fold deliver ys d_subscribed) ''sub_1'') = Some CANCELLED"
proof -
  let ?xs = "[(1::int, Updated (sub_event 10 ''incomplete'')), (2, Updated (sub_event 12 ''active'')), (3, Deleted (sub_event 20 ''canceled''))]"
  let ?ys = "[(1::int, Deleted (sub_event 20 ''canceled'')), (5, Updated (sub_event 12 ''active'')), (6, Updated (sub_event 10 ''incomplete'')),
    (7, Deleted (sub_event 20 ''canceled''))]"
  have h: "sub_by_stripe_id d_subscribed ''sub_1'' = Some (hd (subs d_subscribed))" "''sub_1'' \<noteq> []"
    "\<forall>x \<in> set ?xs. names ''sub_1'' (snd x) \<and> full_event (snd x)"
    "\<forall>x \<in> set ?xs. \<forall>y \<in> set ?xs. event_stamp (snd x) = event_stamp (snd y) \<longrightarrow> snd x = snd y"
    "map_option sub_status (sub_by_stripe_id (fold deliver ?ys d_subscribed) ''sub_1'') = Some CANCELLED"
    by code_simp+
  have "snd ` set ?xs = snd ` set ?ys" by auto
  from delivery_order_irrelevant[OF h(1,2) this h(3,4)] h(5) show ?thesis unfolding Let_def by (rule conjI)
qed

subsection \<open>Steps of the lifecycle\<close>

inductive lifecycle_step :: "settings \<Rightarrow> db \<Rightarrow> db \<Rightarrow> bool" for cf where
  step_updated: "handle_subscription_updated event d = (stale, d') \<Longrightarrow> lifecycle_step cf d d'"
| step_deleted: "handle_subscription_deleted now event d = (stale, d') \<Longrightarrow> lifecycle_step cf d d'"
| step_checkout: "handle_checkout_completed cf now event d = Inr (stale, d') \<Longrightarrow> lifecycle_step cf d d'"
| step_invoice: "handle_invoice_paid cf now event d = Inr d' \<Longrightarrow> lifecycle_step cf d d'"
| step_reconcile: "reconcile_subscriptions dry_run only now fetch d = (report, d') \<Longrightarrow> lifecycle_step cf d d'"

inductive lifecycle :: "settings \<Rightarrow> db \<Rightarrow> db \<Rightarrow> bool" for cf where
  lc_refl: "lifecycle cf d d"
| lc_step: "lifecycle cf d d' \<Longrightarrow> lifecycle_step cf d' d'' \<Longrightarrow> lifecycle cf d d''"

lemma lifecycle_step_move: "lifecycle_step cf d d' \<Longrightarrow> subs_move d d'"
  by (induction rule: lifecycle_step.induct)
    (auto intro: handle_updated_move handle_deleted_move handle_checkout_move handle_invoice_move reconcile_move)

lemma lifecycle_move: "lifecycle cf d d' \<Longrightarrow> subs_move d d'"
  by (induction rule: lifecycle.induct) (auto intro: subs_move_trans lifecycle_step_move)


text \<open>A row's provider clock never runs backwards and a row is never dropped or handed to another
  user, whatever events arrive in whatever order.\<close>

theorem clock_never_back:
  assumes "lifecycle cf d d'" and "subs_ok d" and "s \<in> set (subs d)"
  shows "\<exists>s' \<in> set (subs d'). sub_id s' = sub_id s \<and> sub_user s' = sub_user s \<and>
    clock_le (sub_last_event s) (sub_last_event s')"
  using lifecycle_move[OF assms(1)] assms(2,3) by (simp add: subs_move_def)

lemma lifecycle_updated: "lifecycle cf d (snd (handle_subscription_updated e d))"
  using lc_step[OF lc_refl step_updated[OF prod.collapse[symmetric]]] .


theorem clock_never_back_witness:
  "\<exists>s' \<in> set (subs (snd (handle_subscription_updated (sub_event 10 ''active'') d_subscribed))).
     sub_id s' = 0 \<and> sub_user s' = Some ''a''"
proof -
  have h: "subs_ok d_subscribed" "hd (subs d_subscribed) \<in> set (subs d_subscribed)"
    "sub_id (hd (subs d_subscribed)) = 0" "sub_user (hd (subs d_subscribed)) = Some ''a''" by code_simp+
  from clock_never_back[OF lifecycle_updated[where cf = cf0] h(1,2)] h(3,4) show ?thesis by auto
qed

subsection \<open>A paid checkout\<close>

lemma outbox_only:
  assumes "d' = d\<lparr>outbox := b\<rparr>"
  shows "inv d' = inv d" "user_account d' u now = user_account d u now"
proof -
  have t: "lots d' = lots d" "txns d' = txns d" "debts d' = debts d" "holds d' = holds d" "allocs d' = allocs d"
    "wallets d' = wallets d" "next_id d' = next_id d" by (simp_all add: assms)
  have ids: "wallet_ids d' = wallet_ids d" by (simp add: wallet_ids_def t)
  have "wf_db d' = wf_db d"
    by (simp add: wf_db_def lots_ok_def wallets_ok_def txns_ok_def lot_refs_ok_def hold_rows_ok_def
        alloc_rows_ok_def debts_ok_def ids t)
  moreover have "holds_ok d' = holds_ok d" by (simp add: holds_ok_def t alloc_total_def)
  moreover have "balanced d' v = balanced d v" for v
    unfolding balanced_def using totals_cong[of d' d] by (simp add: t)
  ultimately show "inv d' = inv d" by (simp add: inv_def)
  show "user_account d' u now = user_account d u now"
    using account_cong[of d' d] by (simp add: user_account_def wallet_of_user_def t split: option.splits)
qed

lemma claim_account:
  assumes "claim_provider_object scope ext prov d = (b, d')"
  shows "user_account d' u now = user_account d u now"
proof -
  have "wallets d' = wallets d" "account_of d' w now = account_of d w now" for w
    using claim_frame[OF assms] grants_only_inv(2) by auto
  then show ?thesis by (simp add: user_account_def wallet_of_user_def split: option.splits)
qed

lemma claim_free:
  assumes "i \<noteq> []" and "\<not> granted d \<lparr>pg_provider = prov, pg_scope = scope, pg_external = i\<rparr>"
  shows "claim_provider_object scope (Some i) prov d =
    (True, d\<lparr>grants := grants d @ [\<lparr>pg_provider = prov, pg_scope = scope, pg_external = i\<rparr>]\<rparr>)"
  using assms by (simp add: claim_provider_object_def claim_grant_def)

lemma announce_payment_emits:
  assumes "''amount_cents'' \<notin> fst ` set x" and "''transaction_id'' \<notin> fst ` set x"
  shows "\<exists>m. announce_payment u t n c x d = d\<lparr>outbox := outbox d @ [m]\<rparr> \<and> em_topic m = ''payment.completed'' \<and>
    em_key m = u \<and> dget (em_payload m) ''amount_cents'' = Some (JInt n) \<and>
    dget (em_payload m) ''transaction_id'' = Some (JStr (uuid_str (txn_id t)))"
  unfolding announce_payment_def emit_def
  by (intro exI conjI; (rule refl)?) (simp_all add: dget_dmerge_notin assms, simp_all add: dget_def)

definition session_claim :: "string \<Rightarrow> provider_grant" where
  "session_claim i = \<lparr>pg_provider = ''stripe'', pg_scope = SCOPE_CHECKOUT_SESSION, pg_external = i\<rparr>"

text \<open>A completed checkout of a package, settled, matching the catalogue and naming its buyer without
  contradiction, grants exactly the package: the buyer's account moves by the specification of a
  credit that repays debt first, nobody else's moves, the credits sit in a lot that never expires,
  one payment is announced for the catalogue price, and the session is claimed.\<close>

theorem package_checkout:
  assumes "inv d" and "session_owner cf (event_object event) = Some user"
    and "session_package cf (event_object event) = Some pkg" and "session_plan cf (event_object event) = None"
    and "reconcile_checkout_session cf (event_object event) ''payment'' (cp_currency pkg) (Some (cp_price_cents pkg)) = None"
    and "id_text (dget (event_object event) ''id'') = Some i" and "\<not> granted d (session_claim i)"
    and "0 < cp_credits pkg"
  shows "\<exists>d' (t :: txn). handle_checkout_completed cf now event d = Inr (False, d') \<and> inv d' \<and>
    user_account d' (u_id user) now = spec_credit (cp_credits pkg) True (user_account d (u_id user) now) \<and>
    (\<forall>v. v \<noteq> u_id user \<longrightarrow> user_account d' v now = user_account d v now) \<and>
    (\<exists>l \<in> set (lots d'). lot_source l = PURCHASE \<and> lot_initial l = cp_credits pkg \<and> lot_expires l = Never \<and>
       lot_grant l = Some (txn_id t)) \<and>
    (\<exists>m. outbox d' = outbox d @ [m] \<and> em_topic m = ''payment.completed'' \<and> em_key m = u_id user \<and>
       dget (em_payload m) ''amount_cents'' = Some (JInt (cp_price_cents pkg)) \<and>
       dget (em_payload m) ''transaction_id'' = Some (JStr (uuid_str (txn_id t)))) \<and>
    granted d' (session_claim i)"
proof -
  let ?obj = "event_object event"
  have i: "i \<noteq> []" using assms(6) by (auto simp: id_text_def int_str_def split: option.splits json.splits if_splits)
  let ?d1 = "d\<lparr>grants := grants d @ [session_claim i]\<rparr>"
  have c: "claim_session ?obj d = (True, ?d1)"
    using claim_free[OF i] assms(6,7) by (simp add: claim_session_def session_claim_def)
  note k = c[unfolded claim_session_def]
  have i1: "inv ?d1" using claim_inv[OF k] assms(1) by simp
  let ?r = "package_credit ?obj user pkg"
  have r: "0 < cr_credits ?r" "At now < cr_expires ?r" "cr_key ?r = []" "cr_user ?r = user" "cr_settle ?r"
    "cr_credits ?r = cp_credits pkg" "cr_source ?r = PURCHASE" "cr_expires ?r = Never"
    using assms(8) by (simp_all add: package_credit_def)
  obtain t d2 where b: "credit cf now ?r ?d1 = Inr (t, d2)" "inv d2"
    "user_account d2 (u_id user) now = spec_credit (cp_credits pkg) True (user_account ?d1 (u_id user) now)"
    "\<forall>v. v \<noteq> u_id user \<longrightarrow> user_account d2 v now = user_account ?d1 v now"
    "\<exists>l \<in> set (lots d2). lot_source l = PURCHASE \<and> lot_initial l = cp_credits pkg \<and> lot_expires l = Never \<and>
       lot_grant l = Some (txn_id t)"
    using keyless_credit_account[OF i1 r(1-3), of cf] r(4-8) by auto
  have keep: "grants d2 = grants ?d1" "outbox d2 = outbox ?d1" using keeps_credit[OF b(1)] by (simp_all add: keeps_def)
  define extra where "extra = [(''package'', JStr (cp_slug pkg))] @
    (if simulated_flag (dobj ?obj ''metadata'') then [(''simulated'', JBool True)] else [])"
  define d3 where "d3 = announce_payment (u_id user) t (cp_price_cents pkg) (lower (cp_currency pkg)) extra d2"
  have run: "handle_checkout_completed cf now event d = Inr (False, d3)"
    using assms(2-5) c b(1) by (simp add: handle_checkout_completed_def checkout_package_def Let_def d3_def extra_def)
  obtain m where m: "d3 = d2\<lparr>outbox := outbox d2 @ [m]\<rparr>" "em_topic m = ''payment.completed''" "em_key m = u_id user"
    "dget (em_payload m) ''amount_cents'' = Some (JInt (cp_price_cents pkg))"
    "dget (em_payload m) ''transaction_id'' = Some (JStr (uuid_str (txn_id t)))"
  proof -
    have "fst ` set extra \<subseteq> {''package'', ''simulated''}" by (auto simp: extra_def)
    then have "''amount_cents'' \<notin> fst ` set extra" "''transaction_id'' \<notin> fst ` set extra" by auto
    from announce_payment_emits[OF this] that show ?thesis unfolding d3_def by blast
  qed
  note o = outbox_only[OF m(1)]
  have g: "granted d3 (session_claim i)" and l: "lots d3 = lots d2" and out: "outbox d3 = outbox d @ [m]" and i3: "inv d3"
    using keep m(1) o(1) b(2) by (simp_all add: granted_def)
  have a: "user_account d3 v now = user_account d2 v now" "user_account ?d1 v now = user_account d v now" for v
    using o(2) claim_account[OF k] by blast+
  show ?thesis
  proof (intro exI[of _ d3] exI[of _ t] conjI)
    show "user_account d3 (u_id user) now = spec_credit (cp_credits pkg) True (user_account d (u_id user) now)"
      using b(3) a by simp
    show "\<forall>v. v \<noteq> u_id user \<longrightarrow> user_account d3 v now = user_account d v now" using b(4) a by simp
    show "\<exists>l \<in> set (lots d3). lot_source l = PURCHASE \<and> lot_initial l = cp_credits pkg \<and> lot_expires l = Never \<and>
       lot_grant l = Some (txn_id t)" using b(5) l by simp
    show "\<exists>m. outbox d3 = outbox d @ [m] \<and> em_topic m = ''payment.completed'' \<and> em_key m = u_id user \<and>
       dget (em_payload m) ''amount_cents'' = Some (JInt (cp_price_cents pkg)) \<and>
       dget (em_payload m) ''transaction_id'' = Some (JStr (uuid_str (txn_id t)))" using out m(2-5) by blast
  qed (rule run i3 g)+
qed

definition package_session :: "string \<Rightarrow> string \<Rightarrow> int \<Rightarrow> dict" where
  "package_session i paid amount =
     [(''created'', JInt 10),
      (''data'', JObj [(''object'', JObj
        [(''id'', JStr i), (''mode'', JStr ''payment''), (''payment_status'', JStr paid), (''currency'', JStr ''usd''),
         (''amount_total'', JInt amount), (''client_reference_id'', JStr ''a''),
         (''metadata'', JObj [(''user_id'', JStr ''a''), (''package'', JStr ''starter'')])])])]"

theorem package_checkout_witness:
  "\<exists>d'. handle_checkout_completed cf0 20 (package_session ''cs_1'' ''paid'' 500) empty_db = Inr (False, d') \<and>
     user_account d' ''a'' 20 = \<lparr>ac_live = 500, ac_owed = 0, ac_held = 0\<rparr>"
proof -
  let ?o = "event_object (package_session ''cs_1'' ''paid'' 500)"
  let ?p = "hd DEFAULT_CREDIT_PACKAGES"
  have h: "session_owner cf0 ?o = Some alice" "session_package cf0 ?o = Some ?p" "session_plan cf0 ?o = None"
    "reconcile_checkout_session cf0 ?o ''payment'' (cp_currency ?p) (Some (cp_price_cents ?p)) = None"
    "id_text (dget ?o ''id'') = Some ''cs_1''" "\<not> granted empty_db (session_claim ''cs_1'')" "0 < cp_credits ?p"
    "spec_credit (cp_credits ?p) True (user_account empty_db (u_id alice) 20) = \<lparr>ac_live = 500, ac_owed = 0, ac_held = 0\<rparr>"
    "u_id alice = ''a''"
    by code_simp+
  from package_checkout[OF inv_empty h(1-7), of 20] obtain d' where
    "handle_checkout_completed cf0 20 (package_session ''cs_1'' ''paid'' 500) empty_db = Inr (False, d')"
    "user_account d' (u_id alice) 20 = spec_credit (cp_credits ?p) True (user_account empty_db (u_id alice) 20)"
    by (elim exE conjE) (rule that)
  with h(8,9) show ?thesis by (intro exI[of _ d'] conjI) simp_all
qed

text \<open>The moves of a checkout that changes anything: the claim of its session comes first.\<close>

lemma claim_session_granted:
  assumes "claim_session obj d = (True, d1)"
  shows "\<exists>i. id_text (dget obj ''id'') = Some i \<and> granted d1 (session_claim i)"
  using claim_won[OF assms[unfolded claim_session_def]] provider_claim.won unfolding session_claim_def by metis

lemma claim_session_again:
  assumes "id_text (dget obj ''id'') = Some i" and "granted d (session_claim i)"
  shows "claim_session obj d = (False, d)"
  using assms provider_claim.lost[OF assms(2)]
  by (auto simp: claim_session_def claim_provider_object_def session_claim_def)

lemma claim_session_lost: "claim_session obj d = (False, d1) \<Longrightarrow> d1 = d"
  unfolding claim_session_def by simp

lemma lifecycle_grants:
  "credit cf now r d = Inr (t, d') \<Longrightarrow> grants d' = grants d"
  using keeps_credit by (auto simp: keeps_def)

lemma subscribe_grants: "subscribe event user slug d = Inr (s, d') \<Longrightarrow> grants d' = grants d"
  by (auto simp: subscribe_def Let_def split: if_splits)

lemma apply_pending_grants:
  assumes "apply_pending_period s d = ((b, s'), d')"
  shows "grants d' = grants d"
proof (cases "unset (sub_stripe_id s) \<or> pending_of d (the (sub_stripe_id s)) = None")
  case True
  with assms show ?thesis by (auto simp: apply_pending_period_def split: if_splits)
next
  case False
  then obtain p where p: "\<not> unset (sub_stripe_id s)" "pending_of d (the (sub_stripe_id s)) = Some p" by auto
  with assms have "d' = (let d1 = if fst (take_pending p s) = [] then d
      else snd (stamp_subscription_period (snd (take_pending p s)) (save_sub (snd (take_pending p s)) d))
    in d1\<lparr>pendings := filter (\<lambda>q. pp_stripe_id q \<noteq> pp_stripe_id p) (pendings d1)\<rparr>)"
    by (simp add: apply_pending_period_def Let_def split_beta)
  then show ?thesis by (simp add: Let_def)
qed

lemma announce_payment_frame [simp]:
  "grants (announce_payment u t n c x d) = grants d" "subs (announce_payment u t n c x d) = subs d"
  "pendings (announce_payment u t n c x d) = pendings d" "lots (announce_payment u t n c x d) = lots d"
  "txns (announce_payment u t n c x d) = txns d" "wallets (announce_payment u t n c x d) = wallets d"
  by (simp_all add: announce_payment_def)

lemma checkout_package_cases:
  assumes "checkout_package cf now obj user pkg d = Inr (b, d')"
  shows "\<not> b \<and> d' = d \<or>
    reconcile_checkout_session cf obj ''payment'' (cp_currency pkg) (Some (cp_price_cents pkg)) = None \<and>
    (\<exists>i. id_text (dget obj ''id'') = Some i \<and> granted d' (session_claim i))"
proof -
  obtain won d1 where c: "claim_session obj d = (won, d1)" by (rule prod.exhaust)
  show ?thesis
  proof (cases "reconcile_checkout_session cf obj ''payment'' (cp_currency pkg) (Some (cp_price_cents pkg)) \<noteq> None \<or> \<not> won")
    case True
    with assms c claim_session_lost[of obj d d1] show ?thesis
      by (auto simp: checkout_package_def split: if_splits)
  next
    case False
    with assms c obtain t d2 where t: "credit cf now (package_credit obj user pkg) d1 = Inr (t, d2)" "grants d' = grants d2"
      by (auto simp: checkout_package_def split: sum.splits)
    with False c claim_session_granted[of obj d d1] lifecycle_grants[OF t(1)] show ?thesis
      by (auto simp: granted_def)
  qed
qed

lemma checkout_plan_cases:
  assumes "checkout_plan cf now event user plan d = Inr (b, d')"
  shows "\<not> b \<and> d' = d \<or>
    reconcile_checkout_session cf (event_object event) ''subscription'' (pe_currency plan) None = None \<and>
    (\<exists>i. id_text (dget (event_object event) ''id'') = Some i \<and> granted d' (session_claim i))"
proof -
  let ?obj = "event_object event"
  obtain won d1 where c: "claim_session ?obj d = (won, d1)" by (rule prod.exhaust)
  show ?thesis
  proof (cases "reconcile_checkout_session cf ?obj ''subscription'' (pe_currency plan) None \<noteq> None \<or> \<not> won")
    case True
    with assms c claim_session_lost[of ?obj d d1] show ?thesis
      by (auto simp: checkout_plan_def Let_def split: if_splits)
  next
    case False
    with assms c obtain s d2 ch s' d3 d4 where
      s: "subscribe event user (pe_slug plan) d1 = Inr (s, d2)" and p: "apply_pending_period s d2 = ((ch, s'), d3)"
      and b: "checkout_bundle cf now ?obj user plan s' d3 = Inr d4" and d': "d' = announce_subscription s' d4"
      by (auto simp: checkout_plan_def Let_def split: sum.splits prod.splits)
    have "grants d4 = grants d3"
      using b lifecycle_grants by (auto simp: checkout_bundle_def Let_def split: if_splits sum.splits)
    with subscribe_grants[OF s] apply_pending_grants[OF p] have "grants d' = grants d1" by (simp add: d')
    with False c claim_session_granted[of ?obj d d1] show ?thesis by (auto simp: granted_def)
  qed
qed

lemma checkout_cases:
  assumes "handle_checkout_completed cf now event d = Inr (b, d')" and "d' \<noteq> d"
  shows "\<exists>user i. session_owner cf (event_object event) = Some user \<and>
    id_text (dget (event_object event) ''id'') = Some i \<and> granted d' (session_claim i) \<and>
    ((\<exists>pkg. session_package cf (event_object event) = Some pkg \<and>
        reconcile_checkout_session cf (event_object event) ''payment'' (cp_currency pkg) (Some (cp_price_cents pkg)) = None) \<or>
     (\<exists>plan. session_plan cf (event_object event) = Some plan \<and>
        reconcile_checkout_session cf (event_object event) ''subscription'' (pe_currency plan) None = None))"
proof -
  let ?obj = "event_object event"
  from assms obtain user where u: "session_owner cf ?obj = Some user"
    by (cases "session_owner cf ?obj") (auto simp: handle_checkout_completed_def Let_def)
  let ?p = "case session_package cf ?obj of None \<Rightarrow> Inr (True, d) | Some pkg \<Rightarrow> checkout_package cf now ?obj user pkg d"
  from assms(1) u obtain go d1 where p: "?p = Inr (go, d1)"
    by (cases ?p) (auto simp: handle_checkout_completed_def Let_def)
  have plan: "d' = d1 \<or> go \<and> (\<exists>plan. session_plan cf ?obj = Some plan \<and> checkout_plan cf now event user plan d1 = Inr (b, d'))"
    using assms(1) u p by (auto simp: handle_checkout_completed_def Let_def split: if_splits option.splits)
  have pkg: "d1 = d \<or> (\<exists>pkg i. session_package cf ?obj = Some pkg \<and> id_text (dget ?obj ''id'') = Some i \<and>
      granted d1 (session_claim i) \<and>
      reconcile_checkout_session cf ?obj ''payment'' (cp_currency pkg) (Some (cp_price_cents pkg)) = None)"
  proof (cases "session_package cf ?obj")
    case (Some pkg)
    then have "checkout_package cf now ?obj user pkg d = Inr (go, d1)" using p by simp
    from checkout_package_cases[OF this] Some show ?thesis by auto
  qed (use p in simp)
  show ?thesis
  proof (cases "d' = d1")
    case True
    with pkg assms(2) u show ?thesis by auto
  next
    case False
    with plan obtain pl where pl: "session_plan cf ?obj = Some pl" "checkout_plan cf now event user pl d1 = Inr (b, d')" by blast
    from checkout_plan_cases[OF pl(2)] False pl(1) u show ?thesis by auto
  qed
qed

text \<open>C29: with the strict reconciliation on, a checkout session changes the database only if it says it is
  settled, names its buyer the same way twice, and agrees with the catalogue about what it bought: for
  a package the mode, the currency and, with the discount the provider reports, the exact price; for a
  plan the mode and the currency. A session that says anything else, or does not say, grants nothing.\<close>

theorem only_matching_sessions:
  assumes "strict_checkout_reconciliation cf"
    and "handle_checkout_completed cf now event d = Inr (b, d')" and "d' \<noteq> d"
  shows "\<exists>user. session_owner cf (event_object event) = Some user \<and>
    get_json (event_object event) ''payment_status'' \<in> JStr ` set SETTLED_PAYMENT_STATUSES \<and>
    ((\<exists>pkg charged discount. session_package cf (event_object event) = Some pkg \<and>
        get_json (event_object event) ''mode'' = JStr ''payment'' \<and>
        currency_text (event_object event) = lower (cp_currency pkg) \<and>
        get_json (event_object event) ''amount_total'' = JInt charged \<and>
        or_zero (dget (dobj (event_object event) ''total_details'') ''amount_discount'') = JInt discount \<and>
        charged + discount = cp_price_cents pkg) \<or>
     (\<exists>plan. session_plan cf (event_object event) = Some plan \<and>
        get_json (event_object event) ''mode'' = JStr ''subscription'' \<and>
        currency_text (event_object event) = lower (pe_currency plan)))"
proof -
  let ?obj = "event_object event"
  have base: "get_json ?obj ''payment_status'' \<in> JStr ` set SETTLED_PAYMENT_STATUSES" "get_json ?obj ''mode'' = JStr m"
    "currency_text ?obj = lower cur" if "reconcile_checkout_session cf ?obj m cur e = None" for m cur e
    using that assms(1) unfolding reconcile_checkout_session_def by (auto split: if_splits)
  have price: "\<exists>charged discount. get_json ?obj ''amount_total'' = JInt charged \<and>
      or_zero (dget (dobj ?obj ''total_details'') ''amount_discount'') = JInt discount \<and> charged + discount = n"
    if "reconcile_checkout_session cf ?obj m cur (Some n) = None" for m cur n
    using that assms(1) unfolding reconcile_checkout_session_def by (auto split: if_splits json.splits)
  obtain user where u: "session_owner cf ?obj = Some user" using checkout_cases[OF assms(2,3)] by blast
  from checkout_cases[OF assms(2,3)] consider
      pkg where "session_package cf ?obj = Some pkg"
        "reconcile_checkout_session cf ?obj ''payment'' (cp_currency pkg) (Some (cp_price_cents pkg)) = None"
    | plan where "session_plan cf ?obj = Some plan"
        "reconcile_checkout_session cf ?obj ''subscription'' (pe_currency plan) None = None" by blast
  then show ?thesis
  proof cases
    case (1 pkg)
    from base[OF 1(2)] price[OF 1(2)] u 1(1) show ?thesis by blast
  next
    case (2 plan)
    from base[OF 2(2)] u 2(1) show ?thesis by blast
  qed
qed

theorem only_matching_sessions_witness:
  "handle_checkout_completed cf0 20 (package_session ''cs_1'' ''unpaid'' 500) empty_db = Inr (False, empty_db) \<and>
   get_json (event_object (package_session ''cs_1'' ''paid'' 500)) ''payment_status'' \<in> JStr ` set SETTLED_PAYMENT_STATUSES"
proof -
  let ?e = "package_session ''cs_1'' ''paid'' 500"
  have h: "strict_checkout_reconciliation cf0" "ok (handle_checkout_completed cf0 20 ?e empty_db)"
    "map_sum id (length \<circ> txns \<circ> snd) (handle_checkout_completed cf0 20 ?e empty_db) = Inr 1"
    "handle_checkout_completed cf0 20 (package_session ''cs_1'' ''unpaid'' 500) empty_db = Inr (False, empty_db)"
    by code_simp+
  then obtain b d' where "handle_checkout_completed cf0 20 ?e empty_db = Inr (b, d')" "length (txns d') = 1"
    by (cases "handle_checkout_completed cf0 20 ?e empty_db") auto
  moreover from this(2) have "d' \<noteq> empty_db" by (auto simp: empty_db_def)
  ultimately show ?thesis using only_matching_sessions[OF h(1)] h(4) by blast
qed

text \<open>A session acts once. Once a checkout has changed anything, every later event that carries the same
  session id, whatever else it says and however the settings have changed, leaves the database as it is,
  as long as claims are only ever added.\<close>

theorem session_acts_once:
  assumes "handle_checkout_completed cf now event d = Inr (b, d')" and "d' \<noteq> d"
    and "dget (event_object event') ''id'' = dget (event_object event) ''id''" and "set (grants d') \<subseteq> set (grants d'')"
  shows "handle_checkout_completed cf' later event' d'' = Inr (False, d'')"
proof -
  from checkout_cases[OF assms(1,2)] assms(3) obtain i where i: "id_text (dget (event_object event') ''id'') = Some i"
    "granted d' (session_claim i)" by auto
  with assms(4) have "granted d'' (session_claim i)" by (auto simp: granted_def)
  note lost = claim_session_again[OF i(1) this]
  then have "checkout_package cf' later (event_object event') u pkg d'' = Inr (False, d'')"
    "checkout_plan cf' later event' u plan d'' = Inr (False, d'')" for u pkg plan
    by (simp_all add: checkout_package_def checkout_plan_def Let_def)
  then show ?thesis by (simp add: handle_checkout_completed_def Let_def split: option.splits)
qed

theorem session_acts_once_witness:
  "\<exists>d'. handle_checkout_completed cf0 20 (package_session ''cs_1'' ''paid'' 500) empty_db = Inr (False, d') \<and>
     length (txns d') = 1 \<and> handle_checkout_completed cf0 90 (package_session ''cs_1'' ''paid'' 500) d' = Inr (False, d')"
proof -
  let ?e = "package_session ''cs_1'' ''paid'' 500"
  have "map_sum id (\<lambda>p. (fst p, length (txns (snd p)))) (handle_checkout_completed cf0 20 ?e empty_db) = Inr (False, 1)"
    by code_simp
  then obtain d' where d: "handle_checkout_completed cf0 20 ?e empty_db = Inr (False, d')" "length (txns d') = 1"
    by (cases "handle_checkout_completed cf0 20 ?e empty_db") auto
  moreover from this(2) have "d' \<noteq> empty_db" by (auto simp: empty_db_def)
  ultimately show ?thesis using session_acts_once[OF d(1) _ refl subset_refl] by blast
qed

end
