(* ===== verification/Renewal_Claims.thy ===== *)
theory Renewal_Claims
  imports Subscription_Claims
begin

section \<open>Properties of renewals and of the repair against the provider\<close>

subsection \<open>A renewal invoice\<close>

definition invoice_claim :: "string \<Rightarrow> provider_grant" where
  "invoice_claim i = \<lparr>pg_provider = ''stripe'', pg_scope = SCOPE_INVOICE, pg_external = i\<rparr>"

text \<open>An invoice that is a paid renewal of a subscription this deployment can price.\<close>

definition renewal_of :: "settings \<Rightarrow> db \<Rightarrow> dict \<Rightarrow> subscription \<Rightarrow> plan_entry \<Rightarrow> bool" where
  "renewal_of cf d obj s plan =
     ((\<exists>sid. invoice_subscription_id obj = Some sid \<and> sub_by_stripe_id d sid = Some s) \<and>
      dget obj ''billing_reason'' \<noteq> Some (JStr ''subscription_create'') \<and>
      (get_json obj ''status'' = JNull \<or> get_json obj ''status'' = JStr ''paid'') \<and>
      get_plan (cf_plans cf) (sub_plan s) = Some plan \<and> 0 < pe_monthly plan)"

text \<open>C31: a paid renewal invoice whose subscription has a live owner grants exactly the month of the
  subscriber's plan: the owner's account moves by the specification of a credit that repays debt
  first and nobody else's moves; the credits are a subscription lot that dies when the invoiced period
  ends (with the stored period where the invoice names none, undated where that is past), and the
  invoice is claimed.\<close>

theorem renewal_grants_month:
  assumes "inv d" and "renewal_of cf d (event_object event) s plan"
    and "Option.bind (sub_user s) (find_user cf) = Some user"
    and "id_text (dget (event_object event) ''id'') = Some i" and "\<not> granted d (invoice_claim i)"
  shows "\<exists>d'. handle_invoice_paid cf now event d = Inr d' \<and> inv d' \<and>
    user_account d' (u_id user) now = spec_credit (pe_monthly plan) True (user_account d (u_id user) now) \<and>
    (\<forall>v. v \<noteq> u_id user \<longrightarrow> user_account d' v now = user_account d v now) \<and>
    (\<exists>l \<in> set (lots d'). lot_source l = SUBSCRIPTION \<and> lot_initial l = pe_monthly plan \<and>
       lot_expires l = future_or_none now (case invoice_period_end (event_object event) of
         Some e \<Rightarrow> Some e | None \<Rightarrow> sub_period_end s)) \<and>
    granted d' (invoice_claim i)"
proof -
  let ?obj = "event_object event"
  from assms(2) obtain sid where sid: "invoice_subscription_id ?obj = Some sid" "sub_by_stripe_id d sid = Some s"
    and rest: "dget ?obj ''billing_reason'' \<noteq> Some (JStr ''subscription_create'')"
      "get_json ?obj ''status'' = JNull \<or> get_json ?obj ''status'' = JStr ''paid''"
      "get_plan (cf_plans cf) (sub_plan s) = Some plan" "0 < pe_monthly plan"
    by (auto simp: renewal_of_def)
  have i: "i \<noteq> []" using assms(4) by (auto simp: id_text_def int_str_def split: option.splits json.splits if_splits)
  let ?d1 = "d\<lparr>grants := grants d @ [invoice_claim i]\<rparr>"
  have c: "claim_provider_object SCOPE_INVOICE (id_text (dget ?obj ''id'')) ''stripe'' d = (True, ?d1)"
    using claim_free[OF i] assms(4,5) by (simp add: invoice_claim_def)
  have i1: "inv ?d1" using claim_inv[OF c] assms(1) by simp
  let ?amount = "charged_or (get_json ?obj ''amount_paid'') (pe_price_cents plan)"
  let ?r = "renewal_credit now ?obj user plan sid ?amount s"
  have future: "At now < future_or_none now t" for t by (simp add: future_or_none_def split: option.splits)
  have r: "0 < cr_credits ?r" "At now < cr_expires ?r" "cr_key ?r = []" "cr_user ?r = user" "cr_settle ?r"
    "cr_credits ?r = pe_monthly plan" "cr_source ?r = SUBSCRIPTION"
    "cr_expires ?r = future_or_none now (case invoice_period_end ?obj of Some e \<Rightarrow> Some e | None \<Rightarrow> sub_period_end s)"
    using rest(4) future by (simp_all add: renewal_credit_def)
  obtain t d2 where b: "credit cf now ?r ?d1 = Inr (t, d2)" "inv d2"
    "user_account d2 (u_id user) now = spec_credit (pe_monthly plan) True (user_account ?d1 (u_id user) now)"
    "\<forall>v. v \<noteq> u_id user \<longrightarrow> user_account d2 v now = user_account ?d1 v now"
    "\<exists>l \<in> set (lots d2). lot_source l = SUBSCRIPTION \<and> lot_initial l = pe_monthly plan \<and>
       lot_expires l = future_or_none now (case invoice_period_end ?obj of Some e \<Rightarrow> Some e | None \<Rightarrow> sub_period_end s)"
    using keyless_credit_account[OF i1 r(1-3), of cf] unfolding r(4-8) by (simp add: r(5)) blast
  obtain cur x where run: "handle_invoice_paid cf now event d = Inr (announce_payment (u_id user) t ?amount cur x d2)"
    using sid rest assms(3) c b(1) by (auto simp: handle_invoice_paid_def renew_def Let_def)
  let ?d3 = "announce_payment (u_id user) t ?amount cur x d2"
  obtain o' where o: "?d3 = d2\<lparr>outbox := o'\<rparr>" by (simp add: announce_payment_def emit_def)
  have g: "granted ?d3 (invoice_claim i)" using keeps_credit[OF b(1)] by (simp add: granted_def keeps_def)
  have a: "user_account ?d3 v now = user_account d2 v now" "user_account ?d1 v now = user_account d v now" for v
    using outbox_only(2)[OF o] claim_account[OF c] by blast+
  have i3: "inv ?d3" using outbox_only(1)[OF o] b(2) by simp
  show ?thesis
  proof (intro exI[of _ ?d3] conjI)
    show "user_account ?d3 (u_id user) now = spec_credit (pe_monthly plan) True (user_account d (u_id user) now)"
      using b(3) a by simp
    show "\<forall>v. v \<noteq> u_id user \<longrightarrow> user_account ?d3 v now = user_account d v now" using b(4) a by simp
    show "\<exists>l \<in> set (lots ?d3). lot_source l = SUBSCRIPTION \<and> lot_initial l = pe_monthly plan \<and>
       lot_expires l = future_or_none now (case invoice_period_end ?obj of Some e \<Rightarrow> Some e | None \<Rightarrow> sub_period_end s)"
      using b(5) by simp
  qed (rule run i3 g)+
qed

definition renewal_invoice :: "string \<Rightarrow> int \<Rightarrow> dict" where
  "renewal_invoice i until =
     [(''data'', JObj [(''object'', JObj
        [(''id'', JStr i), (''billing_reason'', JStr ''subscription_cycle''), (''status'', JStr ''paid''),
         (''parent'', JObj [(''subscription_details'', JObj [(''subscription'', JStr ''sub_1'')])]),
         (''amount_paid'', JInt 1500), (''period_end'', JInt until)])])]"

lemma inv_no_rows:
  assumes "lots d = []" and "txns d = []" and "wallets d = []" and "holds d = []" and "allocs d = []" and "debts d = []"
  shows "inv d"
  using assms by (simp add: inv_def wf_db_def lots_ok_def wallets_ok_def txns_ok_def lot_refs_ok_def hold_rows_ok_def
      alloc_rows_ok_def debts_ok_def holds_ok_def balanced_def lot_total_def lot_sum_def ledger_total_def reserved_def
      wallet_ids_def)

theorem renewal_grants_month_witness:
  "\<exists>d'. handle_invoice_paid cf0 20 (renewal_invoice ''in_1'' 30) d_subscribed = Inr d' \<and>
     user_account d' ''a'' 20 = \<lparr>ac_live = 300, ac_owed = 0, ac_held = 0\<rparr> \<and>
     (\<exists>l \<in> set (lots d'). lot_expires l = At 30000000)"
proof -
  let ?o = "event_object (renewal_invoice ''in_1'' 30)"
  let ?s = "hd (subs d_subscribed)"
  let ?p = "DEFAULT_PLANS ! 1"
  have h: "Option.bind (sub_user ?s) (find_user cf0) = Some alice" "id_text (dget ?o ''id'') = Some ''in_1''"
    "\<not> granted d_subscribed (invoice_claim ''in_1'')"
    "spec_credit (pe_monthly ?p) True (user_account d_subscribed ''a'' 20) = \<lparr>ac_live = 300, ac_owed = 0, ac_held = 0\<rparr>"
    "u_id alice = ''a''"
    "future_or_none 20 (case invoice_period_end ?o of Some e \<Rightarrow> Some e | None \<Rightarrow> sub_period_end ?s) = At 30000000"
    by code_simp+
  have f: "invoice_subscription_id ?o = Some ''sub_1''" "sub_by_stripe_id d_subscribed ''sub_1'' = Some ?s"
    "dget ?o ''billing_reason'' \<noteq> Some (JStr ''subscription_create'')" "get_json ?o ''status'' = JStr ''paid''"
    "get_plan (cf_plans cf0) (sub_plan ?s) = Some ?p" "0 < pe_monthly ?p"
    by code_simp+
  have r: "renewal_of cf0 d_subscribed ?o ?s ?p" unfolding renewal_of_def using f by blast
  have i: "inv d_subscribed" by (rule inv_no_rows) (simp_all add: d_subscribed_def empty_db_def)
  from renewal_grants_month[OF i r h(1-3), of 20] show ?thesis unfolding h(5) h(4,6) by (elim exE conjE bexE) (intro exI conjI bexI; assumption)
qed

text \<open>An invoice acts once: once it changed anything, every later event about the same invoice (the
  provider sends two types for one payment) leaves the database as it is, as long as claims are only added.\<close>

theorem invoice_acts_once:
  assumes "handle_invoice_paid cf now event d = Inr d'" and "d' \<noteq> d"
    and "dget (event_object event') ''id'' = dget (event_object event) ''id''" and "set (grants d') \<subseteq> set (grants d'')"
  shows "handle_invoice_paid cf' later event' d'' = Inr d''"
proof -
  let ?claim = "\<lambda>e. claim_provider_object SCOPE_INVOICE (id_text (dget (event_object e) ''id'')) ''stripe''"
  from assms(1,2) obtain sid s plan where r: "renew cf now (event_object event) sid s plan d = Inr d'"
    by (auto simp: handle_invoice_paid_def Let_def split: option.splits if_splits)
  obtain won d1 where c: "?claim event d = (won, d1)" by (rule prod.exhaust)
  have won using r c assms(2) by (cases won) (auto simp: renew_def)
  with r c obtain t q d2 u n cur x where t: "credit cf now q d1 = Inr (t, d2)" "d' = announce_payment u t n cur x d2"
    by (auto simp: renew_def Let_def split: option.splits sum.splits)
  have "grants d' = grants d1" using lifecycle_grants[OF t(1)] by (simp add: t(2))
  then have "?claim event d'' = (False, d'')" using claim_twice c \<open>won\<close> assms(4) by simp
  then have "renew cf' later (event_object event') sid' s' plan' d'' = Inr d''" for sid' s' plan'
    using assms(3) by (simp add: renew_def)
  then show ?thesis by (simp add: handle_invoice_paid_def Let_def split: option.splits)
qed

theorem invoice_acts_once_witness:
  "\<exists>d'. handle_invoice_paid cf0 20 (renewal_invoice ''in_1'' 30) d_subscribed = Inr d' \<and> length (lots d') = 1 \<and>
     handle_invoice_paid cf0 25 (renewal_invoice ''in_1'' 40) d' = Inr d'"
proof -
  have "map_sum id (length \<circ> lots) (handle_invoice_paid cf0 20 (renewal_invoice ''in_1'' 30) d_subscribed) = Inr 1"
    "dget (event_object (renewal_invoice ''in_1'' 40)) ''id'' = dget (event_object (renewal_invoice ''in_1'' 30)) ''id''"
    "lots d_subscribed = []"
    by code_simp+
  then obtain d' where d: "handle_invoice_paid cf0 20 (renewal_invoice ''in_1'' 30) d_subscribed = Inr d'" "length (lots d') = 1"
    "dget (event_object (renewal_invoice ''in_1'' 40)) ''id'' = dget (event_object (renewal_invoice ''in_1'' 30)) ''id''"
    "lots d_subscribed = []"
    by (cases "handle_invoice_paid cf0 20 (renewal_invoice ''in_1'' 30) d_subscribed") auto
  from d(2,4) have "d' \<noteq> d_subscribed" by auto
  from invoice_acts_once[OF d(1) this d(3) subset_refl] d(1,2) show ?thesis by blast
qed

subsection \<open>Reconciliation repairs once\<close>

definition kept :: "time option \<Rightarrow> time option \<Rightarrow> time option" where
  "kept new old = (if new = None then old else new)"

definition flag_after :: "dict \<Rightarrow> bool \<Rightarrow> bool" where
  "flag_after obj old = (case dget obj ''cancel_at_period_end'' of Some (JBool b) \<Rightarrow> b | _ \<Rightarrow> old)"

definition cancelled_after :: "dict \<Rightarrow> time option \<Rightarrow> time option" where
  "cancelled_after obj old =
     (if epoch_to_datetime (dget obj ''canceled_at'') \<noteq> None then epoch_to_datetime (dget obj ''canceled_at'')
      else if dget obj ''cancel_at_period_end'' = Some (JBool False) then None else old)"

definition mapped_status :: "dict \<Rightarrow> sub_status \<Rightarrow> sub_status" where
  "mapped_status obj st = (case map_stripe_status (dget obj ''status'') (Some st) of Some m \<Rightarrow> m | None \<Rightarrow> st)"

lemma after_twice [simp]:
  "kept new (kept new old) = kept new old" "flag_after obj (flag_after obj b) = flag_after obj b"
  "cancelled_after obj (cancelled_after obj c) = cancelled_after obj c"
  "mapped_status obj (mapped_status obj st) = mapped_status obj st"
  by (auto simp: kept_def flag_after_def cancelled_after_def mapped_status_def map_stripe_status_def
      split: option.splits json.splits)

lemma period_row_explicit:
  "snd (apply_stripe_period obj s) =
    s\<lparr>sub_period_start := kept (fst (stripe_period obj)) (sub_period_start s),
      sub_period_end := kept (snd (stripe_period obj)) (sub_period_end s)\<rparr>"
  by (cases s) (auto simp: apply_stripe_period_def Let_def kept_def split: prod.splits)

lemma no_flag:
  assumes "\<nexists>b. v = Some (JBool b)"
  shows "(case v of Some (JBool b) \<Rightarrow> f b | _ \<Rightarrow> g) = g"
proof (cases v)
  case (Some x)
  with assms show ?thesis by (cases x) simp_all
qed simp

lemma cancellation_row_explicit:
  "snd (apply_stripe_cancellation obj s) =
    s\<lparr>sub_cancel_at_end := flag_after obj (sub_cancel_at_end s), sub_cancelled_at := cancelled_after obj (sub_cancelled_at s)\<rparr>"
proof (cases "\<exists>b. dget obj ''cancel_at_period_end'' = Some (JBool b)")
  case True
  then obtain b where "dget obj ''cancel_at_period_end'' = Some (JBool b)" by blast
  then show ?thesis
    by (cases s; cases "epoch_to_datetime (dget obj ''canceled_at'')")
      (simp_all add: apply_stripe_cancellation_def Let_def flag_after_def cancelled_after_def)
next
  case False
  then show ?thesis unfolding apply_stripe_cancellation_def flag_after_def cancelled_after_def Let_def no_flag[OF False]
    by (cases s; cases "epoch_to_datetime (dget obj ''canceled_at'')") auto
qed

lemma provider_row_explicit:
  "snd (provider_row obj s) =
    s\<lparr>sub_status := mapped_status obj (sub_status s),
      sub_period_start := kept (fst (stripe_period obj)) (sub_period_start s),
      sub_period_end := kept (snd (stripe_period obj)) (sub_period_end s),
      sub_cancel_at_end := flag_after obj (sub_cancel_at_end s),
      sub_cancelled_at := cancelled_after obj (sub_cancelled_at s)\<rparr>"
proof -
  have "(case map_stripe_status (dget obj ''status'') (Some (sub_status s)) of Some st \<Rightarrow> s\<lparr>sub_status := st\<rparr> | None \<Rightarrow> s) =
      s\<lparr>sub_status := mapped_status obj (sub_status s)\<rparr>"
    by (cases s) (auto simp: mapped_status_def split: option.splits)
  then have "snd (provider_row obj s) =
      snd (apply_stripe_cancellation obj (snd (apply_stripe_period obj (s\<lparr>sub_status := mapped_status obj (sub_status s)\<rparr>))))"
    by (simp add: provider_row_def Let_def split_beta)
  then show ?thesis by (simp add: period_row_explicit cancellation_row_explicit)
qed

lemma provider_row_again:
  "reconciled_field (snd (provider_row obj ((snd (provider_row obj s))\<lparr>sub_last_event := c\<rparr>))) f =
   reconciled_field ((snd (provider_row obj s))\<lparr>sub_last_event := c\<rparr>) f"
  unfolding provider_row_explicit by (simp add: reconciled_field_def)

text \<open>The fields the repair names are all that changed.\<close>

lemma period_changed:
  "kept (fst (stripe_period obj)) (sub_period_start s) \<noteq> sub_period_start s \<Longrightarrow>
    ''current_period_start'' \<in> set (fst (apply_stripe_period obj s))"
  "kept (snd (stripe_period obj)) (sub_period_end s) \<noteq> sub_period_end s \<Longrightarrow>
    ''current_period_end'' \<in> set (fst (apply_stripe_period obj s))"
  by (cases "stripe_period obj"; simp add: apply_stripe_period_def Let_def kept_def split: if_splits)+

lemma flag_changed:
  assumes "flag_after obj (sub_cancel_at_end s) \<noteq> sub_cancel_at_end s"
  shows "''cancel_at_period_end'' \<in> set (fst (apply_stripe_cancellation obj s))"
proof -
  from assms obtain b where "dget obj ''cancel_at_period_end'' = Some (JBool b)" "b \<noteq> sub_cancel_at_end s"
    by (auto simp: flag_after_def split: option.splits json.splits)
  then show ?thesis by (simp add: apply_stripe_cancellation_def Let_def)
qed

lemma cancelled_changed:
  assumes "cancelled_after obj (sub_cancelled_at s) \<noteq> sub_cancelled_at s"
  shows "''cancelled_at'' \<in> set (fst (apply_stripe_cancellation obj s))"
proof -
  let ?p = "case dget obj ''cancel_at_period_end'' of
      Some (JBool b) \<Rightarrow> if b \<noteq> sub_cancel_at_end s then ([''cancel_at_period_end''], s\<lparr>sub_cancel_at_end := b\<rparr>) else ([], s)
    | _ \<Rightarrow> ([], s)"
  have "sub_cancelled_at (snd ?p) = sub_cancelled_at s" by (auto split: option.splits json.splits)
  with assms show ?thesis
    unfolding apply_stripe_cancellation_def Let_def split_beta cancelled_after_def
    by (simp split: if_splits)
qed

lemma untouched_fields:
  assumes "f \<in> set RECONCILED_FIELDS" and "f \<notin> set (fst (provider_row obj s))"
  shows "reconciled_field (snd (provider_row obj s)) f = reconciled_field s f"
proof -
  let ?s1 = "case map_stripe_status (dget obj ''status'') (Some (sub_status s)) of Some st \<Rightarrow> s\<lparr>sub_status := st\<rparr> | None \<Rightarrow> s"
  let ?s2 = "snd (apply_stripe_period obj ?s1)"
  have r: "set (fst (provider_row obj s)) =
      insert ''status'' (set (fst (apply_stripe_period obj ?s1)) \<union> set (fst (apply_stripe_cancellation obj ?s2)))"
    by (simp add: provider_row_def Let_def split_beta)
  have s1: "sub_period_start ?s1 = sub_period_start s" "sub_period_end ?s1 = sub_period_end s"
    "sub_cancel_at_end ?s2 = sub_cancel_at_end s" "sub_cancelled_at ?s2 = sub_cancelled_at s"
    by (simp_all add: period_row_explicit split: option.splits)
  note unchanged = period_changed[of obj ?s1, unfolded s1] flag_changed[of obj ?s2, unfolded s1] cancelled_changed[of obj ?s2, unfolded s1]
  consider "f = ''current_period_start''" | "f = ''current_period_end''" | "f = ''cancel_at_period_end''" | "f = ''cancelled_at''"
  proof -
    have "f \<noteq> ''status''" using assms(2) unfolding r by blast
    moreover have "f = ''status'' \<or> f = ''current_period_start'' \<or> f = ''current_period_end'' \<or>
        f = ''cancel_at_period_end'' \<or> f = ''cancelled_at''"
      using assms(1) by (simp add: RECONCILED_FIELDS_def)
    ultimately show ?thesis using that by (elim disjE) (rule notE, assumption+)+
  qed
  then show ?thesis
  proof cases
    case 1
    then have "kept (fst (stripe_period obj)) (sub_period_start s) = sub_period_start s" using assms(2) unchanged(1) unfolding r by blast
    with 1 show ?thesis by (simp add: provider_row_explicit reconciled_field_def)
  next
    case 2
    then have "kept (snd (stripe_period obj)) (sub_period_end s) = sub_period_end s" using assms(2) unchanged(2) unfolding r by blast
    with 2 show ?thesis by (simp add: provider_row_explicit reconciled_field_def)
  next
    case 3
    then have "flag_after obj (sub_cancel_at_end s) = sub_cancel_at_end s" using assms(2) unchanged(3) unfolding r by blast
    with 3 show ?thesis by (simp add: provider_row_explicit reconciled_field_def)
  next
    case 4
    then have "cancelled_after obj (sub_cancelled_at s) = sub_cancelled_at s" using assms(2) unchanged(4) unfolding r by blast
    with 4 show ?thesis by (simp add: provider_row_explicit reconciled_field_def)
  qed
qed

text \<open>A row agrees with the provider when re-reading it changes no field.\<close>

definition agrees :: "(string \<Rightarrow> string + dict option) \<Rightarrow> subscription \<Rightarrow> bool" where
  "agrees fetch s =
     (case fetch (case sub_stripe_id s of Some i \<Rightarrow> i | None \<Rightarrow> []) of
        Inr (Some obj) \<Rightarrow> \<forall>f \<in> set RECONCILED_FIELDS. reconciled_field (snd (provider_row obj s)) f = reconciled_field s f
      | _ \<Rightarrow> True)"

lemma advance_clock_shape: "\<exists>c. snd (advance_provider_clock m s) = s\<lparr>sub_last_event := c\<rparr>"
proof -
  have "\<exists>c. s = s\<lparr>sub_last_event := c\<rparr>" by (rule exI[of _ "sub_last_event s"]) simp
  then show ?thesis unfolding advance_provider_clock_def by (auto split: option.splits)
qed

lemma reconcile_one_rows:
  assumes "reconcile_one False now fetch s d = (r, d')" and "subs_ok d" and "s \<in> set (subs d)" and "u \<in> set (subs d')"
  shows "sub_id u = sub_id s \<Longrightarrow> agrees fetch u \<and> sub_stripe_id u = sub_stripe_id s"
    and "sub_id u \<noteq> sub_id s \<Longrightarrow> u \<in> set (subs d)"
proof -
  have dis: "distinct (map sub_id (subs d))" using assms(2) by (simp add: subs_ok_def)
  have one: "u = s" if "u \<in> set (subs d)" "sub_id u = sub_id s"
    by (rule inj_onD[of sub_id "set (subs d)"]) (use that dis assms(3) in \<open>simp_all add: distinct_map\<close>)
  have saved: "set (subs d') = insert s' {t \<in> set (subs d). sub_id t \<noteq> sub_id s}"
    if "sub_id s' = sub_id s" "d' = save_lifecycle s' d \<or> d' = save_sub s' d" for s'
  proof -
    from that(2) have "subs d' = upd_row sub_id (sub_id s') (\<lambda>_. s') (subs d)" by auto
    with subs_set_save[OF dis assms(3) that(1)] show ?thesis by (simp only:)
  qed
  show "u \<in> set (subs d)" if other: "sub_id u \<noteq> sub_id s"
  proof (cases "d' = d")
    case False
    with reconcile_one_cases[OF assms(1)] obtain s' where s': "same_ids s s'" "d' = save_lifecycle s' d \<or> d' = save_sub s' d"
      by blast
    then have "sub_id s' = sub_id s" by (simp add: same_ids_def)
    with saved[OF this s'(2)] assms(4) other show ?thesis by auto
  qed (use assms(4) in simp)
  assume id: "sub_id u = sub_id s"
  let ?i = "case sub_stripe_id s of Some i \<Rightarrow> i | None \<Rightarrow> []"
  show "agrees fetch u \<and> sub_stripe_id u = sub_stripe_id s"
  proof (cases "\<exists>obj. fetch ?i = Inr (Some obj)")
    case False
    then have "d' = d" "agrees fetch s" using assms(1)
      by (auto simp: reconcile_one_def Let_def agrees_def split: sum.splits option.splits)
    with one id assms(4) show ?thesis by simp
  next
    case True
    then obtain obj where obj: "fetch ?i = Inr (Some obj)" by blast
    define s1 where "s1 = snd (provider_row obj s)"
    define s2 where "s2 = snd (advance_provider_clock (Some now) s1)"
    obtain c where c: "s2 = s1\<lparr>sub_last_event := c\<rparr>" unfolding s2_def using advance_clock_shape by blast
    have ids: "sub_id s2 = sub_id s" "sub_stripe_id s2 = sub_stripe_id s"
      using provider_row_facts(1)[where s = s and obj = obj] by (simp_all add: c s1_def same_ids_def)
    have "reconciled_field (snd (provider_row obj s2)) f = reconciled_field s2 f" for f
      unfolding c s1_def by (rule provider_row_again)
    then have ag: "agrees fetch s2" unfolding agrees_def ids(2) obj by simp
    consider "d' = save_lifecycle s2 d" | "d' = save_sub s2 d"
      | "d' = d" "filter (\<lambda>f. f \<in> set (fst (provider_row obj s)) \<and> reconciled_field s1 f \<noteq> reconciled_field s f) RECONCILED_FIELDS = []"
      using assms(1) obj unfolding reconcile_one_def Let_def s2_def s1_def
      by (auto simp: split_beta split: if_splits)
    then show ?thesis
    proof cases
      case 3
      have "u = s" using 3(1) one id assms(4) by simp
      moreover have "agrees fetch s" using obj 3(2) untouched_fields[where obj = obj and s = s]
        unfolding agrees_def filter_empty_conv s1_def by fastforce
      ultimately show ?thesis by simp
    qed (use saved[OF ids(1)] assms(4) id ag ids in auto)
  qed
qed

lemma reconcile_all_rows:
  assumes "reconcile_all False now fetch ss d = (rs, d')" and "subs_ok d" and "set ss \<subseteq> set (subs d)"
    and "distinct (map sub_id ss)" and "u \<in> set (subs d')"
  shows "(\<exists>s \<in> set ss. sub_id u = sub_id s \<and> sub_stripe_id u = sub_stripe_id s) \<and> agrees fetch u \<or>
    u \<in> set (subs d) \<and> sub_id u \<notin> sub_id ` set ss"
  using assms
proof (induction ss arbitrary: d rs)
  case (Cons s ss)
  obtain r d1 where o: "reconcile_one False now fetch s d = (r, d1)" by (rule prod.exhaust)
  then obtain rs' where rest: "reconcile_all False now fetch ss d1 = (rs', d')"
    using Cons.prems(1) by (cases "reconcile_all False now fetch ss d1") (simp add: Let_def)
  have s: "s \<in> set (subs d)" using Cons.prems(3) by simp
  have ok1: "subs_ok d1" using reconcile_one_move(1)[OF o s] Cons.prems(2) by (simp add: subs_move_def)
  have sub: "set ss \<subseteq> set (subs d1)"
  proof
    fix t assume "t \<in> set ss"
    then have "sub_id t \<noteq> sub_id s" "t \<in> set (subs d)" using Cons.prems(3,4) by (auto simp: image_iff)
    then show "t \<in> set (subs d1)" using reconcile_one_move(2)[OF o s Cons.prems(2)] by blast
  qed
  have dis: "distinct (map sub_id ss)" using Cons.prems(4) by simp
  from Cons.IH[OF rest ok1 sub dis Cons.prems(5)] show ?case
  proof
    assume "u \<in> set (subs d1) \<and> sub_id u \<notin> sub_id ` set ss"
    with reconcile_one_rows[OF o Cons.prems(2) s, of u] show ?thesis by auto
  qed auto
qed simp

lemma agrees_no_change:
  assumes "agrees fetch s"
  shows "rc_changed (fst (reconcile_one dry now fetch s d)) = [] \<and> \<not> rc_applied (fst (reconcile_one dry now fetch s d))"
proof (cases "\<exists>obj. fetch (case sub_stripe_id s of Some i \<Rightarrow> i | None \<Rightarrow> []) = Inr (Some obj)")
  case True
  then obtain obj where obj: "fetch (case sub_stripe_id s of Some i \<Rightarrow> i | None \<Rightarrow> []) = Inr (Some obj)" by blast
  have "filter (\<lambda>f. f \<in> set (fst (provider_row obj s)) \<and>
      reconciled_field (snd (provider_row obj s)) f \<noteq> reconciled_field s f) RECONCILED_FIELDS = []"
    using assms obj by (simp add: agrees_def filter_empty_conv)
  with obj show ?thesis by (simp add: reconcile_one_def Let_def split_beta)
next
  case False
  then show ?thesis by (auto simp: reconcile_one_def Let_def split: sum.splits option.splits)
qed

lemma reconcile_all_Cons:
  "fst (reconcile_all dry now fetch (s # ss) d) = fst (reconcile_one dry now fetch s d) #
     fst (reconcile_all dry now fetch ss (snd (reconcile_one dry now fetch s d)))"
  "snd (reconcile_all dry now fetch (s # ss) d) = snd (reconcile_all dry now fetch ss (snd (reconcile_one dry now fetch s d)))"
  by (simp_all add: Let_def split_beta)

declare reconcile_all.simps(2) [simp del]

lemma reconcile_all_reports:
  assumes "r \<in> set (fst (reconcile_all dry now fetch ss d))"
  shows "\<exists>s \<in> set ss. \<exists>d1. r = fst (reconcile_one dry now fetch s d1)"
  using assms
proof (induction ss arbitrary: d)
  case (Cons s ss)
  from Cons.prems consider "r = fst (reconcile_one dry now fetch s d)"
    | "r \<in> set (fst (reconcile_all dry now fetch ss (snd (reconcile_one dry now fetch s d))))"
    by (auto simp: reconcile_all_Cons)
  then show ?case
  proof cases
    case 2
    from Cons.IH[OF this] show ?thesis by auto
  qed auto
qed simp

lemma dry_run_one: "snd (reconcile_one True now fetch s d) = d"
  by (auto simp: reconcile_one_def Let_def split_beta split: sum.splits option.splits)

lemma dry_run_changes: "rc_changed (fst (reconcile_one True now fetch s d)) = rc_changed (fst (reconcile_one False now' fetch s d'))"
  by (auto simp: reconcile_one_def Let_def split_beta split: sum.splits option.splits)

lemma dry_run_all:
  "snd (reconcile_all True now fetch ss d) = d"
  "map rc_changed (fst (reconcile_all True now fetch ss d)) = map rc_changed (fst (reconcile_all False now' fetch ss d'))"
proof (induction ss arbitrary: d d')
  case (Cons s ss)
  {
    case 1
    from dry_run_one[of now fetch s d] Cons(1)[of d] show ?case by (simp add: reconcile_all_Cons)
  next
    case 2
    from dry_run_changes[of now fetch s d now' d'] Cons(2) show ?case by (simp add: reconcile_all_Cons)
  }
qed simp_all

text \<open>C33: the reconciliation against the provider is idempotent and its dry run is honest. After a run,
  whatever the rows were and whatever the provider answered for each, a second run over the same
  subscriptions with the same answers finds nothing to change; a dry run writes nothing and names, row
  by row, the fields the real run changes.\<close>

theorem reconcile_once:
  assumes "subs_ok d" and "reconcile_subscriptions False ids now fetch d = (report, d')"
  shows "(\<forall>r \<in> set (fst (reconcile_subscriptions dry_run ids later fetch d')). rc_changed r = [] \<and> \<not> rc_applied r) \<and>
    snd (reconcile_subscriptions True ids now fetch d) = d \<and>
    map rc_changed (fst (reconcile_subscriptions True ids now fetch d)) = map rc_changed report"
proof (intro conjI ballI)
  let ?ss = "reconcilable_subscriptions ids d"
  have sub: "set ?ss \<subseteq> set (subs d)" by (auto simp: reconcilable_subscriptions_def)
  have dis: "distinct (map sub_id ?ss)" using assms(1) by (simp add: subs_ok_def reconcilable_subscriptions_def distinct_map_filter)
  fix r assume "r \<in> set (fst (reconcile_subscriptions dry_run ids later fetch d'))"
  then obtain u d1 where u: "u \<in> set (reconcilable_subscriptions ids d')" "r = fst (reconcile_one dry_run later fetch u d1)"
    unfolding reconcile_subscriptions_def by (blast dest: reconcile_all_reports)
  then have mem: "u \<in> set (subs d')" and sel: "\<not> unset (sub_stripe_id u) \<and> (ids = [] \<or> (\<exists>i \<in> set ids. sub_stripe_id u = Some i))"
    by (auto simp: reconcilable_subscriptions_def)
  from reconcile_all_rows[OF assms(2)[unfolded reconcile_subscriptions_def] assms(1) sub dis mem]
  have "agrees fetch u"
  proof
    assume "u \<in> set (subs d) \<and> sub_id u \<notin> sub_id ` set ?ss"
    moreover from this sel have "u \<in> set ?ss" by (simp add: reconcilable_subscriptions_def)
    ultimately show ?thesis by blast
  qed blast
  then show "rc_changed r = []" "\<not> rc_applied r" using agrees_no_change u(2) by blast+
next
  show "snd (reconcile_subscriptions True ids now fetch d) = d" by (simp add: reconcile_subscriptions_def dry_run_all(1))
  show "map rc_changed (fst (reconcile_subscriptions True ids now fetch d)) = map rc_changed report"
    using assms(2) dry_run_all(2)[of now fetch "reconcilable_subscriptions ids d" d now d] by (simp add: reconcile_subscriptions_def)
qed

definition provider_says :: "string \<Rightarrow> string + dict option" where
  "provider_says i = (if i = ''sub_1'' then Inr (Some [(''status'', JStr ''past_due''), (''current_period_end'', JInt 40)]) else Inr None)"

theorem reconcile_once_witness:
  "let p = reconcile_subscriptions False [] 20 provider_says d_subscribed
   in map rc_changed (fst p) = [[''status'', ''current_period_end'']] \<and>
      (\<forall>r \<in> set (fst (reconcile_subscriptions False [] 90 provider_says (snd p))). rc_changed r = [])"
proof -
  have ok: "subs_ok d_subscribed" by code_simp
  have "map rc_changed (fst (reconcile_subscriptions False [] 20 provider_says d_subscribed)) = [[''status'', ''current_period_end'']]"
    by code_simp
  with reconcile_once[OF ok prod.collapse[symmetric], of False "[]" 90 provider_says 20] show ?thesis
    unfolding Let_def by blast
qed

subsection \<open>A period that arrived before its checkout\<close>

text \<open>Dating a lot moves no credit: the invariant does not read the deadlines.\<close>

definition undated :: "lot \<Rightarrow> lot" where
  "undated l = l\<lparr>lot_expires := Never\<rparr>"

lemma undated_fields [simp]:
  "lot_id (undated l) = lot_id l" "lot_wallet (undated l) = lot_wallet l" "lot_remaining (undated l) = lot_remaining l"
  "lot_initial (undated l) = lot_initial l" "lot_grant (undated l) = lot_grant l"
  by (simp_all add: undated_def)

lemma redate_inv:
  assumes l: "map undated (lots d') = map undated (lots d)" and n: "next_id d \<le> next_id d'"
    and t: "wallets d' = wallets d" "txns d' = txns d" "holds d' = holds d" "allocs d' = allocs d" "debts d' = debts d"
    and i: "inv d"
  shows "inv d'"
proof -
  have ids: "wallet_ids d' = wallet_ids d" by (simp add: wallet_ids_def t)
  have older: "\<exists>y \<in> set (lots d). undated y = undated x" if "x \<in> set (lots d')" for x
  proof -
    from that have "undated x \<in> set (map undated (lots d'))" by simp
    with l show ?thesis by auto
  qed
  have newer: "\<exists>y \<in> set (lots d'). undated y = undated x" if "x \<in> set (lots d)" for x
  proof -
    from that have "undated x \<in> set (map undated (lots d))" by simp
    with l[symmetric] show ?thesis by auto
  qed
  have same: "lot_id y = lot_id x" "lot_wallet y = lot_wallet x" "lot_remaining y = lot_remaining x"
    "lot_initial y = lot_initial x" "lot_grant y = lot_grant x" if "undated y = undated x" for x y
    using that undated_fields by metis+
  have mid: "map lot_id (lots d') = map lot_id (lots d)"
  proof -
    have "map lot_id xs = map lot_id (map undated xs)" for xs by simp
    then show ?thesis using l by metis
  qed
  have lt: "lot_total d' w = lot_total d w" for w
  proof -
    have "(\<Sum>l\<leftarrow>xs. if in_wallet w l then lot_remaining l else 0) =
        (\<Sum>l\<leftarrow>map undated xs. if in_wallet w l then lot_remaining l else 0)" for xs
      by (induction xs) (simp_all add: in_wallet_def)
    then show ?thesis unfolding lot_total_def lot_sum_def using l by metis
  qed
  have wf: "wf_db d" using i by simp
  have lo: "lots_ok d'"
    unfolding lots_ok_def mid
  proof (intro conjI ballI)
    show "distinct (map lot_id (lots d))" using wf by (simp add: wf_db_def lots_ok_def)
    fix x assume "x \<in> set (lots d')"
    with older obtain y where y: "y \<in> set (lots d)" "undated y = undated x" by blast
    from lots_okD[OF wf_lots_ok[OF wf] y(1)] same[OF y(2)] n
    show "lot_id x < next_id d'" "0 \<le> lot_remaining x" "lot_remaining x \<le> lot_initial x" by simp_all
  qed
  have refs: "lot_refs_ok d'"
    unfolding lot_refs_ok_def ids t
  proof
    fix x assume "x \<in> set (lots d')"
    with older obtain y where y: "y \<in> set (lots d)" "undated y = undated x" by blast
    with wf same[OF y(2)] show "lot_wallet x \<in> wallet_ids d \<and>
        (\<forall>g. lot_grant x = Some g \<longrightarrow> (\<exists>t \<in> set (txns d). txn_id t = g \<and> txn_wallet t = lot_wallet x))"
      by (auto simp: wf_db_def lot_refs_ok_def)
  qed
  have al: "alloc_rows_ok d'"
    unfolding alloc_rows_ok_def t
  proof (intro conjI ballI)
    show "distinct (map alloc_id (allocs d))" using wf by (simp add: wf_db_def alloc_rows_ok_def)
    fix a assume "a \<in> set (allocs d)"
    with wf obtain h x where a: "alloc_id a < next_id d" "0 \<le> alloc_credits a" "h \<in> set (holds d)" "hold_id h = alloc_hold a"
      "x \<in> set (lots d)" "lot_id x = alloc_lot a" "lot_wallet x = hold_wallet h"
      by (auto simp: wf_db_def alloc_rows_ok_def)
    obtain y where y: "y \<in> set (lots d')" "undated y = undated x" using newer[OF a(5)] by blast
    show "alloc_id a < next_id d'" "0 \<le> alloc_credits a" using a n by simp_all
    show "\<exists>h \<in> set (holds d). hold_id h = alloc_hold a \<and>
        (\<exists>l \<in> set (lots d'). lot_id l = alloc_lot a \<and> lot_wallet l = hold_wallet h)"
      using a(3,4,6,7) y(1) same[OF y(2)] by auto
  qed
  have "wallets_ok d'" "txns_ok d'" "hold_rows_ok d'" "debts_ok d'"
    using wf_db_def[THEN iffD1, OF wf] n
    by (simp_all add: wallets_ok_def txns_ok_def hold_rows_ok_def debts_ok_def ids t) (meson order_less_le_trans)+
  with lo refs al have "wf_db d'" by (simp add: wf_db_def)
  moreover have "holds_ok d'" using i by (simp add: inv_def holds_ok_def t alloc_total_def)
  moreover have "balanced d' w" for w
    using i lt totals_cong(2)[of d' d] totals_cong(4)[of d' d] by (simp add: inv_def balanced_def t)
  ultimately show ?thesis by (simp add: inv_def)
qed

lemma stamp_undated: "map undated (lots (snd (stamp_subscription_period s d))) = map undated (lots d)"
  by (auto simp: stamp_subscription_period_def undated_def split: option.splits)

lemma stamp_wallet_tables:
  "holds (snd (stamp_subscription_period s d)) = holds d" "allocs (snd (stamp_subscription_period s d)) = allocs d"
  "debts (snd (stamp_subscription_period s d)) = debts d" "holds (save_sub s d) = holds d"
  "allocs (save_sub s d) = allocs d" "debts (save_sub s d) = debts d"
  by (auto simp: stamp_subscription_period_def save_sub_def upd_sub_def split: option.splits)

lemma apply_pending_inv:
  assumes "apply_pending_period s d = ((b, s'), d')" and "inv d"
  shows "inv d'"
proof (cases "unset (sub_stripe_id s) \<or> pending_of d (the (sub_stripe_id s)) = None")
  case True
  with assms show ?thesis by (auto simp: apply_pending_period_def split: if_splits)
next
  case False
  then obtain p where p: "\<not> unset (sub_stripe_id s)" "pending_of d (the (sub_stripe_id s)) = Some p" by auto
  define d1 where "d1 = (if fst (take_pending p s) = [] then d
      else snd (stamp_subscription_period (snd (take_pending p s)) (save_sub (snd (take_pending p s)) d)))"
  have d': "d' = d1\<lparr>pendings := filter (\<lambda>q. pp_stripe_id q \<noteq> pp_stripe_id p) (pendings d1)\<rparr>"
    using assms(1) p by (simp add: apply_pending_period_def Let_def split_beta d1_def)
  show ?thesis
    by (rule redate_inv[OF _ _ _ _ _ _ _ assms(2)]) (simp_all add: d' d1_def stamp_undated stamp_wallet_tables)
qed

lemma subscribe_inv:
  assumes "subscribe event user slug d = Inr (s, d')" and "inv d"
  shows "inv d'"
  by (rule redate_inv[OF _ _ _ _ _ _ _ assms(2)])
    (use assms(1) in \<open>auto simp: subscribe_def Let_def stamp_wallet_tables split: if_splits\<close>)

lemma sub_by_stripe_member:
  assumes "subs_ok d" and "s \<in> set (subs d)" and "sub_stripe_id s = Some i" and "i \<noteq> []"
  shows "sub_by_stripe_id d i = Some s"
proof (cases "sub_by_stripe_id d i")
  case None
  with assms show ?thesis by (auto simp: sub_by_stripe_id_def find_None_iff)
next
  case (Some t)
  then have "t \<in> set (subs d)" "sub_stripe_id t = Some i" by (auto simp: sub_by_stripe_id_def find_Some_iff)
  moreover have "unique_by (real_id \<circ> sub_stripe_id) (subs d)" using assms(1) by (simp add: subs_ok_def)
  ultimately have "t = s" using assms(2-4) by (auto simp: unique_by_def real_id_def unset_def)
  with Some show ?thesis by simp
qed

text \<open>A full parked period ends up on the row.\<close>

lemma take_pending_period:
  assumes "pp_start p = Some a" and "pp_end p = Some b"
  shows "sub_period_start (snd (take_pending p s)) = Some a" "sub_period_end (snd (take_pending p s)) = Some b"
proof -
  define s1 where "s1 = s\<lparr>sub_period_start := if pp_start p \<noteq> None \<and> pp_start p \<noteq> sub_period_start s then pp_start p else sub_period_start s,
                sub_period_end := if pp_end p \<noteq> None \<and> pp_end p \<noteq> sub_period_end s then pp_end p else sub_period_end s\<rparr>"
  have p: "sub_period_start s1 = Some a" "sub_period_end s1 = Some b" using assms by (simp_all add: s1_def)
  have "\<exists>s2. (s2 = s1 \<or> (\<exists>st. s2 = s1\<lparr>sub_status := st\<rparr>)) \<and>
      (snd (take_pending p s) = s2 \<or> snd (take_pending p s) = snd (advance_provider_clock (pp_event_at p) s2))"
    unfolding take_pending_def Let_def split_beta snd_conv s1_def[symmetric] by auto
  then obtain s2 c where "s2 = s1 \<or> (\<exists>st. s2 = s1\<lparr>sub_status := st\<rparr>)"
    "snd (take_pending p s) = s2 \<or> snd (take_pending p s) = s2\<lparr>sub_last_event := c\<rparr>"
    using advance_clock_shape by metis
  with p show "sub_period_start (snd (take_pending p s)) = Some a" "sub_period_end (snd (take_pending p s)) = Some b"
    by auto
qed

lemma advance_clock_idle: "fst (advance_provider_clock m s) = [] \<Longrightarrow> snd (advance_provider_clock m s) = s"
  by (auto simp: advance_provider_clock_def split: option.splits if_splits)

lemma take_pending_idle:
  assumes "fst (take_pending p s) = []"
  shows "snd (take_pending p s) = s"
proof -
  define stale where "stale = (case (pp_event_at p, sub_last_event s) of (Some e, Some l) \<Rightarrow> e < l | _ \<Rightarrow> False)"
  define mapped where "mapped = map_stripe_status (Some (JStr (pp_status p))) (Some (sub_status s))"
  define ms where "ms = (pp_start p \<noteq> None \<and> pp_start p \<noteq> sub_period_start s)"
  define me where "me = (pp_end p \<noteq> None \<and> pp_end p \<noteq> sub_period_end s)"
  define mt where "mt = (\<not> stale \<and> mapped \<noteq> None \<and> mapped \<noteq> Some (sub_status s))"
  define s1 where "s1 = s\<lparr>sub_period_start := if ms then pp_start p else sub_period_start s,
    sub_period_end := if me then pp_end p else sub_period_end s\<rparr>"
  define s2 where "s2 = (if mt then s1\<lparr>sub_status := the mapped\<rparr> else s1)"
  define q where "q = (if stale then ([], s2) else advance_provider_clock (pp_event_at p) s2)"
  have r: "take_pending p s = ((if ms then [''current_period_start''] else []) @ (if me then [''current_period_end''] else []) @
      (if mt then [''status''] else []) @ fst q, snd q)"
    unfolding take_pending_def Let_def split_beta q_def s2_def s1_def mt_def me_def ms_def mapped_def stale_def by (rule refl)
  from assms have n: "\<not> ms" "\<not> me" "\<not> mt" "fst q = []" unfolding r by (simp_all split: if_splits)
  then have "s2 = s" by (simp add: s2_def s1_def)
  with n(4) have "snd q = s" using advance_clock_idle unfolding q_def by (auto split: if_splits)
  then show ?thesis unfolding r by simp
qed

lemma apply_pending_found:
  assumes "apply_pending_period s d = ((ch, s'), d')" and "sub_stripe_id s = Some i" and "i \<noteq> []"
    and "pending_of d i = Some p" and "s \<in> set (subs d)"
  shows "s' = snd (take_pending p s)" "pending_of d' i = None" "s' \<in> set (subs d')"
proof -
  have p: "pp_stripe_id p = i" using assms(4) by (auto simp: pending_of_def find_Some_iff)
  let ?s = "snd (take_pending p s)"
  define d1 where "d1 = (if fst (take_pending p s) = [] then d else snd (stamp_subscription_period ?s (save_sub ?s d)))"
  have e: "s' = ?s" "d' = d1\<lparr>pendings := filter (\<lambda>q. pp_stripe_id q \<noteq> i) (pendings d1)\<rparr>"
    using assms(1-4) p by (simp_all add: apply_pending_period_def Let_def split_beta d1_def unset_def)
  show "s' = ?s" by (rule e(1))
  show "pending_of d' i = None" by (auto simp: e(2) pending_of_def find_None_iff)
  have "?s \<in> set (subs d1)"
  proof (cases "fst (take_pending p s) = []")
    case True
    with take_pending_idle[OF True] assms(5) show ?thesis by (simp add: d1_def)
  next
    case False
    have "sub_id ?s = sub_id s" using take_pending_facts(1)[of s p] by (simp add: same_ids_def)
    with False assms(5) show ?thesis by (auto simp: d1_def set_upd_row image_iff)
  qed
  then show "s' \<in> set (subs d')" by (simp add: e)
qed

text \<open>C34: the billing period of a subscription event that arrives before the checkout that creates its row is
  not lost. The event parks it; when the plan's checkout for that provider subscription goes through, the
  row carries the period, the parked copy is gone, and the plan's bundle is granted to die when that
  period ends.\<close>

theorem parked_period_applied:
  assumes "inv d" and "subs_ok d" and "resolve_local_subscription (event_object event) d = (None, d)"
    and "id_text (dget (event_object event) ''id'') = Some i" and "pending_of d i = None"
    and "stripe_period (event_object event) = (Some a, Some b)" and "now < b"
    and "session_package cf (event_object checkout) = None" and "session_plan cf (event_object checkout) = Some plan"
    and "dget (event_object checkout) ''subscription'' = Some (JStr i)" and "0 < pe_monthly plan"
    and "handle_checkout_completed cf now checkout (snd (handle_subscription_updated event d)) = Inr (stale, d')"
    and "d' \<noteq> snd (handle_subscription_updated event d)"
  shows "\<exists>s. sub_by_stripe_id d' i = Some s \<and> sub_period_start s = Some a \<and> sub_period_end s = Some b \<and>
    pending_of d' i = None \<and>
    (\<exists>l \<in> set (lots d'). lot_source l = SUBSCRIPTION \<and> lot_initial l = pe_monthly plan \<and> lot_expires l = At b)"
proof -
  let ?d1 = "snd (handle_subscription_updated event d)" and ?obj = "event_object checkout"
  have i: "i \<noteq> []" using assms(4) by (auto simp: id_text_def int_str_def split: option.splits json.splits if_splits)
  let ?p = "set_pending (event_object event) (provider_event_time event) (new_pending i)"
  have d1: "?d1 = d\<lparr>pendings := pendings d @ [?p]\<rparr>"
    using assms(3-5) by (simp add: handle_subscription_updated_def stash_subscription_period_def Let_def)
  have pend: "pending_of ?d1 i = Some ?p"
    using assms(5) by (simp add: d1 pending_of_def find_append new_pending_def)
  have pp: "pp_start ?p = Some a" "pp_end ?p = Some b" using assms(6) by (simp_all add: set_pending_def)
  have ok1: "subs_ok ?d1"
    using assms(2) handle_updated_move[OF prod.collapse[symmetric], of d event] by (simp add: subs_move_def)
  have i1: "inv ?d1" by (rule redate_inv[OF _ _ _ _ _ _ _ assms(1)]) (simp_all add: d1)
  obtain user where u: "session_owner cf ?obj = Some user" using checkout_cases[OF assms(12,13)] by blast
  have run: "checkout_plan cf now checkout user plan ?d1 = Inr (stale, d')"
    using assms(8,9,12) u by (simp add: handle_checkout_completed_def Let_def)
  obtain won dc where c: "claim_session ?obj ?d1 = (won, dc)" by (rule prod.exhaust)
  have "won \<and> reconcile_checkout_session cf ?obj ''subscription'' (pe_currency plan) None = None"
    using run c claim_session_lost[of ?obj ?d1 dc] assms(13) by (auto simp: checkout_plan_def Let_def split: if_splits)
  with run c obtain s d2 ch s' d3 d4 where
    s: "subscribe checkout user (pe_slug plan) dc = Inr (s, d2)" and ap: "apply_pending_period s d2 = ((ch, s'), d3)"
    and bu: "checkout_bundle cf now ?obj user plan s' d3 = Inr d4" and d': "d' = announce_subscription s' d4"
    by (auto simp: checkout_plan_def Let_def split: sum.splits prod.splits)
  note k = c[unfolded claim_session_def]
  have okc: "subs_ok dc" "inv dc" "pendings dc = pendings ?d1"
    using claim_move[OF k] ok1 claim_inv[OF k] i1 claim_frame[OF k] by (auto simp: subs_move_def)
  have sid: "sub_stripe_id s = Some i" "pendings d2 = pendings dc"
    using s assms(10) by (auto simp: subscribe_def Let_def checkout_row_def column_text_def split: if_splits)
  have mem: "s \<in> set (subs d2)" by (rule subscribe_move(2)[OF s])
  have ok2: "subs_ok d2" using subscribe_move(1)[OF s] okc by (simp add: subs_move_def)
  have "pending_of d2 i = Some ?p" using pend sid okc by (simp add: pending_of_def)
  note found = apply_pending_found[OF ap sid(1) i this mem]
  have period: "sub_period_start s' = Some a" "sub_period_end s' = Some b"
    using take_pending_period[OF pp] found(1) by simp_all
  have sid': "sub_stripe_id s' = Some i" using apply_pending_move(2)[OF ap mem] sid(1) by (simp add: same_ids_def)
  have ok3: "subs_ok d3" using apply_pending_move(1)[OF ap mem] ok2 by (simp add: subs_move_def)
  have i3: "inv d3" by (rule apply_pending_inv[OF ap subscribe_inv[OF s okc(2)]])
  have row: "sub_by_stripe_id d3 i = Some s'" by (rule sub_by_stripe_member[OF ok3 found(3) sid' i])
  let ?r = "bundle_credit now ?obj user (pe_slug plan) plan (charged_or (get_json ?obj ''amount_total'') (pe_price_cents plan)) s'"
  have r: "0 < cr_credits ?r" "At now < cr_expires ?r" "cr_key ?r = []" "cr_credits ?r = pe_monthly plan"
    "cr_source ?r = SUBSCRIPTION" "cr_expires ?r = At b"
    using assms(7,11) period by (simp_all add: bundle_credit_def future_or_none_def)
  obtain t d5 where cr: "credit cf now ?r d3 = Inr (t, d5)" and
    lot: "\<exists>l \<in> set (lots d5). lot_source l = SUBSCRIPTION \<and> lot_initial l = pe_monthly plan \<and> lot_expires l = At b"
    using keyless_credit_account[OF i3 r(1-3), of cf] unfolding r(4-6) by blast
  have "lots d4 = lots d5" "subs d4 = subs d5" "pendings d4 = pendings d5"
    using bu cr assms(11) by (auto simp: checkout_bundle_def Let_def)
  with keeps_credit[OF cr] row found(2) period lot show ?thesis
    by (intro exI[of _ s']) (simp add: d' keeps_def sub_by_stripe_id_def pending_of_def)
qed

definition plan_session :: dict where
  "plan_session =
     [(''created'', JInt 12),
      (''data'', JObj [(''object'', JObj
        [(''id'', JStr ''cs_9''), (''mode'', JStr ''subscription''), (''payment_status'', JStr ''paid''), (''currency'', JStr ''usd''),
         (''subscription'', JStr ''sub_1''), (''customer'', JStr ''cus_1''),
         (''metadata'', JObj [(''user_id'', JStr ''a''), (''plan'', JStr ''pro'')])])])]"

theorem parked_period_applied_witness:
  "\<exists>d'. handle_checkout_completed cf0 20 plan_session (snd (handle_subscription_updated (sub_event 10 ''active'') empty_db)) = Inr (False, d') \<and>
     map_option sub_period_end (sub_by_stripe_id d' ''sub_1'') = Some (Some 110000000)"
proof -
  let ?e = "sub_event 10 ''active''"
  let ?d1 = "snd (handle_subscription_updated ?e empty_db)"
  have h: "subs_ok empty_db" "resolve_local_subscription (event_object ?e) empty_db = (None, empty_db)"
    "id_text (dget (event_object ?e) ''id'') = Some ''sub_1''" "pending_of empty_db ''sub_1'' = None"
    "stripe_period (event_object ?e) = (Some 11000000, Some 110000000)" "(20::int) < 110000000"
    "session_package cf0 (event_object plan_session) = None" "session_plan cf0 (event_object plan_session) = Some (DEFAULT_PLANS ! 1)"
    "dget (event_object plan_session) ''subscription'' = Some (JStr ''sub_1'')" "0 < pe_monthly (DEFAULT_PLANS ! 1)"
    "map_sum id (\<lambda>p. (fst p, length (lots (snd p)))) (handle_checkout_completed cf0 20 plan_session ?d1) = Inr (False, 1)"
    "lots ?d1 = []"
    by code_simp+
  then obtain d' where d': "handle_checkout_completed cf0 20 plan_session ?d1 = Inr (False, d')" "length (lots d') = 1"
    by (cases "handle_checkout_completed cf0 20 plan_session ?d1") auto
  then have "d' \<noteq> ?d1" using h(12) by auto
  from parked_period_applied[OF inv_empty h(1-10) d'(1) this] d'(1) show ?thesis by auto
qed

end
