(* ===== verification/Periods.thy ===== *)
theory Periods
  imports Store
begin

section \<open>The calendar of plan bundles (services.py: current_period_key, _month_bounds)\<close>

text \<open>
  A bundle belongs to a calendar month in UTC, spelled \<open>YYYY-MM\<close>. The model counts instants in
  microseconds since the epoch, so the standard library's \<open>strftime\<close> and \<open>strptime\<close> are
  modelled with the Gregorian calendar underneath: \<open>days_to_year\<close> is the closed form of
  \<open>datetime\<close>, the year and the month of a day are found by walking from 1970. Keys are read as
  \<open>strptime\<close> reads \<open>%Y-%m\<close>: four digits, a dash, and a month of one or two digits; year 0 is
  no year. Instants are taken from 1970 to the end of the range of \<open>datetime\<close>.
\<close>

subsection \<open>Days, months and years\<close>

definition leap :: "int \<Rightarrow> bool" where
  "leap y = (y mod 4 = 0 \<and> (y mod 100 \<noteq> 0 \<or> y mod 400 = 0))"

definition year_days :: "int \<Rightarrow> int" where
  "year_days y = (if leap y then 366 else 365)"

definition month_days :: "int \<Rightarrow> int \<Rightarrow> int" where
  "month_days y m = (if m = 2 then (if leap y then 29 else 28) else if m \<in> {4, 6, 9, 11} then 30 else 31)"

text \<open>Days from 1 January 1970 to 1 January of a year, and from there to the first of a month.\<close>

definition leaps_before :: "int \<Rightarrow> int" where
  "leaps_before y = (y - 1) div 4 - (y - 1) div 100 + (y - 1) div 400"

definition days_to_year :: "int \<Rightarrow> int" where
  "days_to_year y = 365 * (y - 1970) + leaps_before y - leaps_before 1970"

definition days_before_month :: "int \<Rightarrow> int \<Rightarrow> int" where
  "days_before_month y m = (\<Sum>k\<leftarrow>[1..m - 1]. month_days y k)"

definition day_us :: int where
  "day_us = 86400 * 1000000"

definition month_start :: "int \<Rightarrow> int \<Rightarrow> time" where
  "month_start y m = (days_to_year y + days_before_month y m) * day_us"

text \<open>The year a day falls in, \<open>d\<close> days after the first of January of \<open>y\<close>, and the day of that year.\<close>

function year_from :: "int \<Rightarrow> int \<Rightarrow> int \<times> int" where
  "year_from y d = (if d < year_days y then (y, d) else year_from (y + 1) (d - year_days y))"
  by pat_completeness auto
termination
  by (relation "measure (\<lambda>(y, d). nat d)") (auto simp: year_days_def split: if_splits)

function month_from :: "int \<Rightarrow> int \<Rightarrow> int \<Rightarrow> int" where
  "month_from y m d = (if 12 \<le> m \<or> d < month_days y m then m else month_from y (m + 1) (d - month_days y m))"
  by pat_completeness auto
termination
  by (relation "measure (\<lambda>(y, m, d). nat (12 - m))") auto

declare year_from.simps [simp del] month_from.simps [simp del]

definition year_month :: "time \<Rightarrow> int \<times> int" where
  "year_month t = (let (y, d) = year_from 1970 (t div day_us) in (y, month_from y 1 d))"

subsection \<open>Keys\<close>

definition digit :: "int \<Rightarrow> char" where
  "digit n = digit_char (nat (n mod 10))"

definition period_key_of :: "int \<times> int \<Rightarrow> string" where
  "period_key_of ym = (let (y, m) = ym in
     [digit (y div 1000), digit (y div 100), digit (y div 10), digit y, CHR ''-'', digit (m div 10), digit m])"

definition current_period_key :: "time \<Rightarrow> string" where
  "current_period_key now = period_key_of (year_month now)"

definition digit_value :: "char \<Rightarrow> int" where
  "digit_value c = int (of_char c - 48)"

text \<open>The month group \<open>1[0-2]|0[1-9]|[1-9]\<close> of the format's expression, matched to the end of the text.\<close>

fun parse_month :: "string \<Rightarrow> int option" where
  "parse_month [c] = (if is_digit c \<and> c \<noteq> CHR ''0'' then Some (digit_value c) else None)"
| "parse_month [b, c] =
     (if b = CHR ''1'' \<and> c \<in> {CHR ''0'', CHR ''1'', CHR ''2''} then Some (10 + digit_value c)
      else if b = CHR ''0'' \<and> is_digit c \<and> c \<noteq> CHR ''0'' then Some (digit_value c)
      else None)"
| "parse_month _ = None"

fun parse_period :: "string \<Rightarrow> (int \<times> int) option" where
  "parse_period (a # b # c # e # s # m) =
     (if is_digit a \<and> is_digit b \<and> is_digit c \<and> is_digit e \<and> s = CHR ''-''
      then (let y = 1000 * digit_value a + 100 * digit_value b + 10 * digit_value c + digit_value e
            in if y = 0 then None else map_option (Pair y) (parse_month m))
      else None)"
| "parse_period _ = None"

text \<open>
  The bounds of the month a key names: \<open>None\<close> for a key that is no month. The month after
  December 9999 is past the last year of \<open>datetime\<close>, and that \<open>replace\<close> is outside the handler of
  the exception.
\<close>

definition month_bounds :: "string \<Rightarrow> error + (time \<times> time) option" where
  "month_bounds key =
     (case parse_period key of
        None \<Rightarrow> Inr None
      | Some (y, m) \<Rightarrow>
          if m = 12 then (if y = 9999 then Inl (ValueError ''year is out of range'')
                          else Inr (Some (month_start y m, month_start (y + 1) 1)))
          else Inr (Some (month_start y m, month_start y (m + 1))))"

subsection \<open>The calendar is consistent\<close>

lemma div_pred:
  fixes y n :: int
  assumes "0 < n"
  shows "y div n = (y - 1) div n + (if y mod n = 0 then 1 else 0)"
proof -
  let ?q = "(y - 1) div n" and ?r = "(y - 1) mod n"
  have y: "y = n * ?q + (?r + 1)" using mult_div_mod_eq[of n "y - 1"] by linarith
  have r: "0 \<le> ?r" "?r < n" using assms by simp_all
  show ?thesis
  proof (cases "?r + 1 = n")
    case True
    with y have "y = n * (?q + 1) + 0" by (simp add: distrib_left)
    with assms int_div_pos_eq[of y n "?q + 1" 0] int_mod_pos_eq[of y n "?q + 1" 0] show ?thesis by simp
  next
    case False
    with r int_div_pos_eq[OF y] int_mod_pos_eq[OF y] show ?thesis by simp
  qed
qed

lemma days_next_year: "days_to_year (y + 1) = days_to_year y + year_days y"
proof -
  let ?f = "\<lambda>b. if b then 1 else (0::int)"
  have d: "y div 4 = (y - 1) div 4 + ?f (y mod 4 = 0)" "y div 100 = (y - 1) div 100 + ?f (y mod 100 = 0)"
    "y div 400 = (y - 1) div 400 + ?f (y mod 400 = 0)" by (rule div_pred, simp)+
  have 4: "y mod 400 = 0 \<Longrightarrow> y mod 100 = 0" "y mod 100 = 0 \<Longrightarrow> y mod 4 = 0"
    by (auto simp: mod_eq_0_iff_dvd elim!: dvd_trans[rotated])
  have l: "?f (leap y) = ?f (y mod 4 = 0) - ?f (y mod 100 = 0) + ?f (y mod 400 = 0)"
    using 4 by (cases "y mod 4 = 0"; cases "y mod 100 = 0"; cases "y mod 400 = 0") (simp_all add: leap_def)
  have sum: "(a + u) - (b + v) + (c + w) = (a - b + c) + (u - v + w)" for a b c u v w :: int by simp
  have "leaps_before (y + 1) = y div 4 - y div 100 + y div 400" by (simp add: leaps_before_def)
  also have "\<dots> = leaps_before y + ?f (leap y)" unfolding d l leaps_before_def by (rule sum)
  finally have "leaps_before (y + 1) = leaps_before y + ?f (leap y)" .
  then show ?thesis by (simp add: days_to_year_def year_days_def)
qed

lemma days_to_1970 [simp]: "days_to_year 1970 = 0"
  by (simp add: days_to_year_def)

lemma year_days_pos [simp]: "0 < year_days y"
  by (simp add: year_days_def)

lemma month_days_pos [simp]: "0 < month_days y m"
  by (simp add: month_days_def)

lemma year_from_spec:
  assumes "0 \<le> d" and "year_from y d = (y', r)"
  shows "0 \<le> r \<and> r < year_days y' \<and> y \<le> y' \<and> days_to_year y + d = days_to_year y' + r"
  using assms
proof (induction y d rule: year_from.induct)
  case (1 y d)
  show ?case
  proof (cases "d < year_days y")
    case True
    with 1 show ?thesis by (simp add: year_from.simps[of y d])
  next
    case False
    with 1(3) have "year_from (y + 1) (d - year_days y) = (y', r)" by (simp add: year_from.simps[of y d])
    with 1(1)[OF False] False show ?thesis by (auto simp: days_next_year)
  qed
qed

lemma days_before_month_step:
  assumes "1 \<le> m"
  shows "days_before_month y (m + 1) = days_before_month y m + month_days y m"
proof -
  have "[1..m] = [1..m - 1] @ [m]" using assms upto_rec2[of 1 m] by simp
  then show ?thesis by (simp add: days_before_month_def)
qed

lemma days_before_1 [simp]: "days_before_month y 1 = 0"
  by (simp add: days_before_month_def)

lemma days_whole_year: "days_before_month y 12 + month_days y 12 = year_days y"
  by (simp add: days_before_month_def upto_rec1 month_days_def year_days_def)

lemma month_from_spec:
  assumes "1 \<le> m" and "m \<le> 12" and "0 \<le> d" and "days_before_month y m + d < year_days y"
  shows "m \<le> month_from y m d \<and> month_from y m d \<le> 12 \<and>
    days_before_month y (month_from y m d) \<le> days_before_month y m + d \<and>
    days_before_month y m + d < days_before_month y (month_from y m d) + month_days y (month_from y m d)"
  using assms
proof (induction y m d rule: month_from.induct)
  case (1 y m d)
  show ?case
  proof (cases "12 \<le> m \<or> d < month_days y m")
    case True
    with 1(2-) have "m = 12 \<or> d < month_days y m" by linarith
    with True 1(2-) days_whole_year[of y] show ?thesis by (auto simp: month_from.simps[of y m d])
  next
    case False
    with 1(1)[OF False] 1(2-) show ?thesis by (simp add: month_from.simps[of y m d] days_before_month_step)
  qed
qed

lemma days_before_mono:
  assumes "1 \<le> m" and "m < n"
  shows "days_before_month y m + month_days y m \<le> days_before_month y n"
proof -
  from assms(2) have "m + 1 \<le> n" by simp
  then show ?thesis
  proof (induction n rule: int_ge_induct)
    case (step n)
    with assms(1) have "days_before_month y (n + 1) = days_before_month y n + month_days y n"
      by (intro days_before_month_step) simp
    with step.IH month_days_pos[of y n] show ?case by linarith
  qed (use days_before_month_step[OF assms(1), of y] in simp)
qed

lemma days_to_year_mono:
  assumes "y < z"
  shows "days_to_year y + year_days y \<le> days_to_year z"
proof -
  from assms have "y + 1 \<le> z" by simp
  then show ?thesis
  proof (induction z rule: int_ge_induct)
    case (step z)
    with days_next_year[of z] year_days_pos[of z] show ?case by linarith
  qed (simp add: days_next_year)
qed

text \<open>The months partition the instants: an instant lies in the month \<open>year_month\<close> names, and in no other.\<close>

definition month_end :: "int \<Rightarrow> int \<Rightarrow> time" where
  "month_end y m = (days_to_year y + days_before_month y m + month_days y m) * day_us"

lemma month_end_next:
  assumes "1 \<le> m" and "m \<le> 12"
  shows "month_end y m = (if m = 12 then month_start (y + 1) 1 else month_start y (m + 1))"
proof (cases "m = 12")
  case True
  have "days_to_year y + days_before_month y 12 + month_days y 12 = days_to_year (y + 1)"
    using days_whole_year[of y] days_next_year[of y] by simp
  with True show ?thesis by (simp add: month_end_def month_start_def)
next
  case False
  with days_before_month_step[OF assms(1), of y] show ?thesis
    by (simp add: month_end_def month_start_def add.assoc)
qed

lemma in_day: "a * day_us \<le> t \<and> t < b * day_us \<longleftrightarrow> a \<le> t div day_us \<and> t div day_us < b"
  by (auto simp: day_us_def)

lemma year_month_bounds:
  assumes "0 \<le> t" and "year_month t = (y, m)"
  shows "1970 \<le> y" and "1 \<le> m" and "m \<le> 12" and "month_start y m \<le> t" and "t < month_end y m"
proof -
  obtain d where d: "year_from 1970 (t div day_us) = (y, d)" "m = month_from y 1 d"
    using assms(2) by (auto simp: year_month_def Let_def split: prod.splits)
  have n: "0 \<le> t div day_us" using assms(1) by (simp add: day_us_def)
  note f = year_from_spec[OF n d(1)]
  have g: "1 \<le> m \<and> m \<le> 12 \<and> days_before_month y m \<le> d \<and> d < days_before_month y m + month_days y m"
    using month_from_spec[of 1 d y] f by (simp add: d(2))
  show "1970 \<le> y" "1 \<le> m" "m \<le> 12" using f g by auto
  have "month_start y m \<le> t \<and> t < month_end y m"
    unfolding month_start_def month_end_def in_day using f g by simp
  then show "month_start y m \<le> t" and "t < month_end y m" by auto
qed

lemma day_of_month_unique:
  assumes "1 \<le> m" and "m \<le> 12" and "1 \<le> m'" and "m' \<le> 12"
    and "days_to_year y + days_before_month y m \<le> x" and "x < days_to_year y + days_before_month y m + month_days y m"
    and "days_to_year y' + days_before_month y' m' \<le> x" and "x < days_to_year y' + days_before_month y' m' + month_days y' m'"
  shows "y = y' \<and> m = m'"
proof -
  have le: "days_before_month y m + month_days y m \<le> year_days y" if "1 \<le> m" "m \<le> 12" for y m
  proof (cases "m = 12")
    case False
    with that days_before_mono[of m 12 y] have "days_before_month y m + month_days y m \<le> days_before_month y 12" by simp
    with days_whole_year[of y] month_days_pos[of y 12] show ?thesis by linarith
  qed (simp add: days_whole_year)
  have ge: "0 \<le> days_before_month y m" for y m
    unfolding days_before_month_def by (rule sum_list_nonneg_int) (simp add: less_imp_le)
  have "y = y'"
  proof (rule ccontr)
    assume "y \<noteq> y'"
    then consider "y < y'" | "y' < y" by linarith
    then show False
      by cases (use assms le[OF assms(1,2), of y] le[OF assms(3,4), of y'] ge[of y m] ge[of y' m']
        days_to_year_mono[of y y'] days_to_year_mono[of y' y] in linarith)+
  qed
  moreover have "m = m'"
  proof (rule ccontr)
    assume "m \<noteq> m'"
    then consider "m < m'" | "m' < m" by linarith
    then show False
      by cases (use assms \<open>y = y'\<close> days_before_mono[of m m' y] days_before_mono[of m' m y] in auto)
  qed
  ultimately show ?thesis by simp
qed

lemma year_month_unique:
  assumes "0 \<le> t" and "1 \<le> m" and "m \<le> 12"
  shows "month_start y m \<le> t \<and> t < month_end y m \<longleftrightarrow> year_month t = (y, m)"
proof
  assume "month_start y m \<le> t \<and> t < month_end y m"
  then have x: "days_to_year y + days_before_month y m \<le> t div day_us"
    "t div day_us < days_to_year y + days_before_month y m + month_days y m"
    unfolding month_start_def month_end_def in_day by auto
  obtain y' m' where ym: "year_month t = (y', m')" by (rule prod.exhaust)
  note b = year_month_bounds[OF assms(1) ym]
  have "days_to_year y' + days_before_month y' m' \<le> t div day_us"
    "t div day_us < days_to_year y' + days_before_month y' m' + month_days y' m'"
    using conjI[OF b(4,5)] unfolding month_start_def month_end_def in_day by auto
  from day_of_month_unique[OF assms(2,3) b(2,3) x this] ym show "year_month t = (y, m)" by simp
next
  assume "year_month t = (y, m)"
  from year_month_bounds[OF assms(1) this] show "month_start y m \<le> t \<and> t < month_end y m" by simp
qed

subsection \<open>Keys name months\<close>

lemma digit_facts:
  "is_digit (digit n)" "digit_value (digit n) = n mod 10" "digit n = CHR ''0'' \<longleftrightarrow> n mod 10 = 0"
  "digit n = CHR ''1'' \<longleftrightarrow> n mod 10 = 1" "digit n = CHR ''2'' \<longleftrightarrow> n mod 10 = 2"
proof -
  have n: "nat (n mod 10) < 10" by simp
  have c: "of_char (digit n) = (48 + nat (n mod 10) :: nat)" using n by (simp add: digit_def digit_char_def of_char_of)
  show "is_digit (digit n)" using c n by (simp add: is_digit_def)
  show "digit_value (digit n) = n mod 10" using c by (simp add: digit_value_def)
  have inj: "digit n = digit k \<longleftrightarrow> n mod 10 = k mod 10" for k
  proof
    assume "digit n = digit k"
    then have "nat (n mod 10) = nat (k mod 10)" unfolding digit_def by (intro digit_char_inj) auto
    then show "n mod 10 = k mod 10" by simp
  qed (simp add: digit_def)
  have "digit 0 = CHR ''0''" "digit 1 = CHR ''1''" "digit 2 = CHR ''2''" by code_simp+
  with inj[of 0] inj[of 1] inj[of 2] show "digit n = CHR ''0'' \<longleftrightarrow> n mod 10 = 0"
    "digit n = CHR ''1'' \<longleftrightarrow> n mod 10 = 1" "digit n = CHR ''2'' \<longleftrightarrow> n mod 10 = 2" by simp_all
qed

lemma parse_period_key:
  assumes "1 \<le> y" and "y \<le> 9999" and "1 \<le> m" and "m \<le> 12"
  shows "parse_period (period_key_of (y, m)) = Some (y, m)"
proof -
  have y: "1000 * (y div 1000 mod 10) + 100 * (y div 100 mod 10) + 10 * (y div 10 mod 10) + y mod 10 = y"
  proof -
    have d: "y div 100 = y div 10 div 10" "y div 1000 = y div 10 div 10 div 10" by simp_all
    have "0 \<le> y div 1000" "y div 1000 < 10" using assms(1,2) by simp_all
    then have "y div 1000 mod 10 = y div 1000" by simp
    with mult_div_mod_eq[of 10 y] mult_div_mod_eq[of 10 "y div 10"] mult_div_mod_eq[of 10 "y div 10 div 10"]
    show ?thesis unfolding d by linarith
  qed
  consider "m \<le> 9" | "m \<in> {10, 11, 12}" using assms(4) by fastforce
  then have "parse_month [digit (m div 10), digit m] = Some m"
  proof cases
    case 1
    with assms(3) have "m div 10 = 0" "m mod 10 = m" by auto
    with assms(3) show ?thesis by (simp only: parse_month.simps digit_facts) simp
  next
    case 2
    then have "m div 10 = 1" "m mod 10 \<in> {0, 1, 2}" "10 + m mod 10 = m" by auto
    then show ?thesis by (simp only: parse_month.simps digit_facts insert_iff) simp
  qed
  with y assms(1) show ?thesis
    by (simp only: period_key_of_def prod.case Let_def parse_period.simps digit_facts) simp
qed

lemma period_key_inj:
  assumes "1 \<le> y" and "y \<le> 9999" and "1 \<le> m" and "m \<le> 12" and "1 \<le> y'" and "y' \<le> 9999" and "1 \<le> m'" and "m' \<le> 12"
  shows "period_key_of (y, m) = period_key_of (y', m') \<longleftrightarrow> y = y' \<and> m = m'"
  using parse_period_key[OF assms(1-4)] parse_period_key[OF assms(5-8)] by (metis Pair_inject option.inject)

end
