(* ===== verification/Bundles.thy ===== *)
theory Bundles
  imports Periods Checkout
begin

section \<open>Plan bundles and the balance audit (services.py, tasks.py)\<close>

text \<open>
  Plans that no payment provider sells grant their month here: one bundle per wallet, plan and
  period, claimed in the table the provider grants use, with the provider \<open>local\<close>. The sweep
  asks a resolver who is entitled and grants row by row; a row that raises is skipped. The
  resolver is a seam of the settings: an argument here, whose default is the walk over the
  wallets below.
\<close>

subsection \<open>One bundle\<close>

text \<open>
  The arguments of \<open>grant_plan_bundle\<close>. The text \<open>[]\<close> is an absent period, \<open>None\<close> an absent
  argument otherwise.
\<close>

record bundle_req =
  gb_user :: "user option"
  gb_user_id :: "uid option"
  gb_wallet :: "wallet option"
  gb_plan :: string
  gb_period :: string
  gb_credits :: "int option"
  gb_expires :: "time option"
  gb_type :: txn_type
  gb_source :: lot_source
  gb_desc :: "string option"
  gb_meta :: dict

text \<open>What there is to grant: the explicit credits, else the plan's own; nothing when not positive.\<close>

definition bundle_size :: "settings \<Rightarrow> bundle_req \<Rightarrow> int option" where
  "bundle_size cf r =
     (case (case gb_credits r of Some n \<Rightarrow> Some n | None \<Rightarrow> map_option pe_monthly (get_plan (cf_plans cf) (gb_plan r))) of
        None \<Rightarrow> None
      | Some n \<Rightarrow> if n \<le> 0 then None else Some n)"

definition bundle_user :: "settings \<Rightarrow> bundle_req \<Rightarrow> error + user option" where
  "bundle_user cf r =
     (case gb_user r of
        Some u \<Rightarrow> Inr (Some u)
      | None \<Rightarrow>
          (case (case gb_user_id r of Some i \<Rightarrow> Some i | None \<Rightarrow> Option.bind (gb_wallet r) w_user) of
             None \<Rightarrow> Inl (ValueError ''grant_plan_bundle needs user, user_id or wallet'')
           | Some i \<Rightarrow> Inr (find_user cf i)))"

definition bundle_period :: "time \<Rightarrow> bundle_req \<Rightarrow> string" where
  "bundle_period now r = (if gb_period r = [] then current_period_key now else gb_period r)"

text \<open>When the bundle dies: the explicit deadline, else the end of the month the key names.\<close>

definition bundle_deadline :: "time \<Rightarrow> bundle_req \<Rightarrow> error + time option" where
  "bundle_deadline now r =
     (case gb_expires r of
        Some e \<Rightarrow> Inr (Some e)
      | None \<Rightarrow> (case month_bounds (bundle_period now r) of Inl e \<Rightarrow> Inl e | Inr b \<Rightarrow> Inr (map_option snd b)))"

definition bundle_id :: "uuid \<Rightarrow> string \<Rightarrow> string \<Rightarrow> string" where
  "bundle_id w plan period = uuid_str w @ '':'' @ plan @ '':'' @ period"

definition bundle_credit_req :: "time \<Rightarrow> user \<Rightarrow> int \<Rightarrow> time \<Rightarrow> bundle_req \<Rightarrow> credit_req" where
  "bundle_credit_req now user n e r =
     (let period = bundle_period now r
      in \<lparr>cr_user = user, cr_credits = n, cr_type = gb_type r, cr_source = gb_source r,
          cr_desc = or_text (gb_desc r) (''Plan bundle: '' @ gb_plan r @ '' ('' @ period @ '')''),
          cr_amount = None,
          cr_meta = dmerge (gb_meta r)
            [(''plan'', JStr (gb_plan r)), (''period_key'', JStr period), (''grant'', JStr ''plan_bundle'')],
          cr_expires = At e, cr_key = ''plan-bundle:'' @ gb_plan r @ '':'' @ period, cr_settle = True\<rparr>)"

definition bundle_wallet :: "user \<Rightarrow> bundle_req \<Rightarrow> db \<Rightarrow> uuid \<times> db" where
  "bundle_wallet user r d =
     (case gb_wallet r of Some x \<Rightarrow> (w_id x, d) | None \<Rightarrow> get_or_create_wallet (u_id user) d)"

definition grant_plan_bundle :: "settings \<Rightarrow> time \<Rightarrow> bundle_req \<Rightarrow> db \<Rightarrow> error + txn option \<times> db" where
  "grant_plan_bundle cf now r d =
     (case bundle_size cf r of
        None \<Rightarrow> Inr (None, d)
      | Some n \<Rightarrow>
          (case bundle_user cf r of
             Inl e \<Rightarrow> Inl e
           | Inr None \<Rightarrow> Inr (None, d)
           | Inr (Some user) \<Rightarrow>
               (case bundle_deadline now r of
                  Inl e \<Rightarrow> Inl e
                | Inr None \<Rightarrow> Inr (None, d)
                | Inr (Some e) \<Rightarrow>
                    if e \<le> now then Inr (None, d)
                    else let (w, d1) = bundle_wallet user r d
                         in case claim_provider_object SCOPE_PLAN_BUNDLE
                                   (Some (bundle_id w (gb_plan r) (bundle_period now r))) ''local'' d1 of
                              (False, d2) \<Rightarrow> Inr (None, d2)
                            | (True, d2) \<Rightarrow>
                                (case credit cf now (bundle_credit_req now user n e r) d2 of
                                   Inl x \<Rightarrow> Inl x
                                 | Inr (t, d3) \<Rightarrow> Inr (Some t, d3)))))"

subsection \<open>Who is entitled\<close>

definition GRANTING_SUBSCRIPTION_STATUSES :: "sub_status list" where
  "GRANTING_SUBSCRIPTION_STATUSES = [ACTIVE, TRIALING, PAST_DUE]"

definition ENTITLEMENT_CHUNK :: nat where
  "ENTITLEMENT_CHUNK = 500"

definition owned_wallets :: "db \<Rightarrow> (uuid \<times> uid) list" where
  "owned_wallets d = map (\<lambda>w. (w_id w, the (w_user w))) (filter (\<lambda>w. w_user w \<noteq> None) (wallets d))"

text \<open>
  The row of one wallet, given its owner's subscription: a granting subscription speaks for its
  plan unless the provider's invoices grant it, everybody else is on the default plan, and a plan
  that bundles nothing yields nothing.
\<close>

definition entitled_plan :: "settings \<Rightarrow> subscription option \<Rightarrow> string option" where
  "entitled_plan cf found =
     (let slug = (case found of
                    Some s \<Rightarrow> if sub_status s \<in> set GRANTING_SUBSCRIPTION_STATUSES
                              then (if unset (sub_stripe_id s) then Some (sub_plan s) else None)
                              else Some DEFAULT_PLAN
                  | None \<Rightarrow> Some DEFAULT_PLAN)
      in case Option.bind slug (get_plan (cf_plans cf)) of
           None \<Rightarrow> None
         | Some entry \<Rightarrow> if pe_monthly entry \<le> 0 then None else slug)"

definition entitlement_of :: "settings \<Rightarrow> (uid \<Rightarrow> subscription option) \<Rightarrow> uuid \<times> uid \<Rightarrow> json option" where
  "entitlement_of cf subs_of wu =
     (let (w, u) = wu
      in map_option (\<lambda>slug. JObj [(''wallet_id'', JStr (uuid_str w)), (''user_id'', JStr u), (''plan'', JStr slug)])
           (entitled_plan cf (subs_of u)))"

text \<open>The dictionary of the chunk's subscriptions by owner: a later row of one owner wins.\<close>

definition chunk_subs :: "db \<Rightarrow> (uuid \<times> uid) list \<Rightarrow> uid \<Rightarrow> subscription option" where
  "chunk_subs d chunk u =
     map_of (rev (map (\<lambda>s. (the (sub_user s), s))
       (filter (\<lambda>s. \<exists>v \<in> set (map snd chunk). sub_user s = Some v) (subs d)))) u"

text \<open>
  The generator reads the wallets through one iterator, a chunk at a time, until a chunk comes
  back empty: the loop is a partial function, so that its return is something to prove.
\<close>

partial_function (option) entitlement_chunks :: "settings \<Rightarrow> db \<Rightarrow> (uuid \<times> uid) list \<Rightarrow> json list option" where
  "entitlement_chunks cf d rows =
     (let chunk = take ENTITLEMENT_CHUNK rows
      in if chunk = [] then Some []
         else Option.bind (entitlement_chunks cf d (drop ENTITLEMENT_CHUNK rows))
                (\<lambda>rest. Some (List.map_filter (entitlement_of cf (chunk_subs d chunk)) chunk @ rest)))"

declare entitlement_chunks.simps [code]

definition default_plan_bundle_entitlements :: "settings \<Rightarrow> db \<Rightarrow> json list option" where
  "default_plan_bundle_entitlements cf d = entitlement_chunks cf d (owned_wallets d)"

text \<open>
  A row of the configured resolver, normalised: a mapping with a subject and a plan, or anything
  that unpacks into two values (a two-letter text does). The rest is logged and skipped. A
  resolver that is not callable is \<open>None\<close>.
\<close>

definition given :: "dict \<Rightarrow> string \<Rightarrow> bool" where
  "given row k = (get_json row k \<noteq> JNull)"

fun entitlement_row :: "json \<Rightarrow> dict option" where
  "entitlement_row (JObj row) =
     (if \<not> given row ''user_id'' \<and> \<not> given row ''wallet_id'' then None
      else if \<not> dtruthy row ''plan'' then None
      else Some row)"
| "entitlement_row (JArr [u, p]) = Some [(''user_id'', u), (''plan'', p)]"
| "entitlement_row (JStr [u, p]) = Some [(''user_id'', JStr [u]), (''plan'', JStr [p])]"
| "entitlement_row _ = None"

definition plan_bundle_entitlements :: "(db \<Rightarrow> json list) option \<Rightarrow> db \<Rightarrow> dict list" where
  "plan_bundle_entitlements resolver d =
     (case resolver of None \<Rightarrow> [] | Some f \<Rightarrow> List.map_filter entitlement_row (f d))"

subsection \<open>The sweep\<close>

text \<open>
  What \<open>grant_plan_bundles\<close> passes on from a row. The seam's contract: an id is a text or a number,
  a plan and a period are texts, credits are a number, a deadline is an instant. The wallet of a row
  is not passed on.
\<close>

definition row_text :: "dict \<Rightarrow> string \<Rightarrow> string" where
  "row_text row k = (case get_json row k of JStr s \<Rightarrow> s | _ \<Rightarrow> [])"

definition row_request :: "string \<Rightarrow> dict \<Rightarrow> bundle_req" where
  "row_request period row =
     \<lparr>gb_user = None,
      gb_user_id = (case get_json row ''user_id'' of JStr s \<Rightarrow> Some s | JInt n \<Rightarrow> Some (int_str n) | _ \<Rightarrow> None),
      gb_wallet = None, gb_plan = row_text row ''plan'',
      gb_period = (if row_text row ''period_key'' = [] then period else row_text row ''period_key''),
      gb_credits = (case get_json row ''credits'' of JInt n \<Rightarrow> Some n | _ \<Rightarrow> None),
      gb_expires = (case get_json row ''expires_at'' of JTime t \<Rightarrow> Some t | _ \<Rightarrow> None),
      gb_type = SUBSCRIPTION_BONUS, gb_source = SUBSCRIPTION, gb_desc = None, gb_meta = []\<rparr>"

fun grant_rows :: "settings \<Rightarrow> time \<Rightarrow> string \<Rightarrow> dict list \<Rightarrow> nat \<times> db \<Rightarrow> nat \<times> db" where
  "grant_rows cf now period [] p = p"
| "grant_rows cf now period (row # rows) (n, d) =
     (case grant_plan_bundle cf now (row_request period row) d of
        Inl e \<Rightarrow> grant_rows cf now period rows (n, d)
      | Inr (None, d') \<Rightarrow> grant_rows cf now period rows (n, d')
      | Inr (Some t, d') \<Rightarrow> grant_rows cf now period rows (Suc n, d'))"

definition grant_plan_bundles ::
    "settings \<Rightarrow> (db \<Rightarrow> json list) option \<Rightarrow> string \<Rightarrow> time \<Rightarrow> db \<Rightarrow> nat \<times> db" where
  "grant_plan_bundles cf resolver period now d =
     grant_rows cf now (if period = [] then current_period_key now else period)
       (plan_bundle_entitlements resolver d) (0, d)"

definition default_resolver :: "settings \<Rightarrow> (db \<Rightarrow> json list) option" where
  "default_resolver cf = Some (\<lambda>d. case default_plan_bundle_entitlements cf d of None \<Rightarrow> [] | Some rows \<Rightarrow> rows)"

subsection \<open>The audit of the cached balances\<close>

record drift =
  df_wallet :: string
  df_cached :: int
  df_lots :: int

definition reconcile_wallet_balances :: "time \<Rightarrow> db \<Rightarrow> drift list" where
  "reconcile_wallet_balances now d =
     map (\<lambda>w. \<lparr>df_wallet = uuid_str (w_id w), df_cached = w_balance w, df_lots = live_balance d (w_id w) now\<rparr>)
       (filter (\<lambda>w. live_balance d (w_id w) now \<noteq> w_balance w) (wallets d))"

end
