(* ===== verification/Bundle_Claims.thy ===== *)
theory Bundle_Claims
  imports Bundles Paid_Facts
begin

section \<open>Properties of plan bundles\<close>

text \<open>
  The walk that finds who is entitled returns, and its chunks are invisible; a period key names
  exactly the instants of its month; a bundle is granted in full and once; a second sweep in a
  period does nothing.
\<close>

subsection \<open>The walk over the wallets\<close>

definition last_sub_of :: "db \<Rightarrow> uid \<Rightarrow> subscription option" where
  "last_sub_of d u = find (\<lambda>s. sub_user s = Some u) (rev (subs d))"

lemma chunk_lookup:
  assumes "u \<in> set (map snd chunk)"
  shows "chunk_subs d chunk u = last_sub_of d u"
proof -
  let ?P = "\<lambda>s. \<exists>v \<in> set (map snd chunk). sub_user s = Some v"
  have "map_of (map (\<lambda>s. (the (sub_user s), s)) (filter ?P ss)) u = find (\<lambda>s. sub_user s = Some u) ss" for ss
    using assms by (induction ss) auto
  then show ?thesis by (simp add: chunk_subs_def last_sub_of_def rev_map rev_filter)
qed

lemma map_filter_cong_set:
  "(\<And>x. x \<in> set xs \<Longrightarrow> f x = g x) \<Longrightarrow> List.map_filter f xs = List.map_filter g xs"
  by (induction xs) (simp_all add: map_filter_simps split: option.split)

lemma map_filter_append: "List.map_filter f (xs @ ys) = List.map_filter f xs @ List.map_filter f ys"
  by (induction xs) (simp_all add: map_filter_simps split: option.split)

lemma chunks_return:
  "entitlement_chunks cf d rows = Some (List.map_filter (entitlement_of cf (last_sub_of d)) rows)"
proof (induction "length rows" arbitrary: rows rule: less_induct)
  case less
  let ?chunk = "take ENTITLEMENT_CHUNK rows"
  show ?case
  proof (cases "?chunk = []")
    case True
    then have "rows = []" by (simp add: ENTITLEMENT_CHUNK_def)
    then show ?thesis by (subst entitlement_chunks.simps) (simp add: map_filter_simps)
  next
    case False
    then have "length (drop ENTITLEMENT_CHUNK rows) < length rows"
      by (cases rows) (auto simp: ENTITLEMENT_CHUNK_def)
    note rest = less[OF this]
    have "List.map_filter (entitlement_of cf (chunk_subs d ?chunk)) ?chunk =
        List.map_filter (entitlement_of cf (last_sub_of d)) ?chunk"
      by (rule map_filter_cong_set) (auto simp: entitlement_of_def chunk_lookup rev_image_eqI)
    with False rest show ?thesis
      by (subst entitlement_chunks.simps) (simp add: Let_def flip: map_filter_append)
  qed
qed


subsection \<open>Months\<close>

lemma month_of_instant:
  assumes "0 \<le> t" and "t < month_start 9999 12"
  obtains y m where "year_month t = (y, m)" "1970 \<le> y" "y \<le> 9999" "1 \<le> m" "m \<le> 12" "y = 9999 \<longrightarrow> m < 12"
proof -
  obtain y m where ym: "year_month t = (y, m)" by (rule prod.exhaust)
  note b = year_month_bounds[OF assms(1) ym]
  have "y \<le> 9999 \<and> (y = 9999 \<longrightarrow> m < 12)"
  proof -
    have "month_start 9999 12 \<le> month_start y m" if "9999 < y \<or> y = 9999 \<and> m = 12"
    proof (cases "y = 9999")
      case False
      with that have "days_to_year 9999 + year_days 9999 \<le> days_to_year y" by (intro days_to_year_mono) simp
      moreover have "days_before_month 9999 12 \<le> year_days 9999"
        using days_whole_year[of 9999] month_days_pos[of 9999 12] by linarith
      moreover have "0 \<le> days_before_month y m"
        unfolding days_before_month_def by (rule sum_list_nonneg_int) (simp add: less_imp_le)
      ultimately show ?thesis unfolding month_start_def day_us_def by simp
    qed (use that in simp)
    with b(3,4) assms(2) show ?thesis by force
  qed
  with ym b that show ?thesis by blast
qed

text \<open>C36: a period key names its month exactly. The key of an instant parses to bounds that hold the
  instant, and another instant has the same key exactly when it lies within the same bounds: every
  grant of one calendar month shares one key, and no two months do.\<close>

theorem period_key_names_month:
  assumes "0 \<le> now" and "now < month_start 9999 12" and "0 \<le> t" and "t < month_start 9999 12"
  shows "\<exists>first until. month_bounds (current_period_key now) = Inr (Some (first, until)) \<and>
    first \<le> now \<and> now < until \<and> (first \<le> t \<and> t < until \<longleftrightarrow> current_period_key t = current_period_key now)"
proof -
  obtain y m where ym: "year_month now = (y, m)" "1970 \<le> y" "y \<le> 9999" "1 \<le> m" "m \<le> 12" "y = 9999 \<longrightarrow> m < 12"
    by (rule month_of_instant[OF assms(1,2)])
  obtain y' m' where ym': "year_month t = (y', m')" "1970 \<le> y'" "y' \<le> 9999" "1 \<le> m'" "m' \<le> 12"
    by (rule month_of_instant[OF assms(3,4)]) (rule that)
  have k: "parse_period (current_period_key now) = Some (y, m)"
    unfolding current_period_key_def ym(1) using ym by (intro parse_period_key) auto
  have "month_bounds (current_period_key now) = Inr (Some (month_start y m, month_end y m))"
    using ym(6) by (auto simp: month_bounds_def k month_end_next[OF ym(4,5)])
  moreover have "month_start y m \<le> now \<and> now < month_end y m"
    unfolding year_month_unique[OF assms(1) ym(4,5)] by (rule ym(1))
  moreover have "current_period_key t = current_period_key now \<longleftrightarrow> y' = y \<and> m' = m"
    unfolding current_period_key_def ym(1) ym'(1) using ym ym' by (intro period_key_inj) auto
  moreover have "month_start y m \<le> t \<and> t < month_end y m \<longleftrightarrow> y' = y \<and> m' = m"
    unfolding year_month_unique[OF assms(3) ym(4,5)] ym'(1) by auto
  ultimately show ?thesis by blast
qed

theorem period_key_names_month_witness:
  "current_period_key 1785542400000000 = ''2026-08'' \<and>
   month_bounds ''2026-08'' = Inr (Some (1785542400000000, 1788220800000000)) \<and>
   current_period_key 1788220799999999 = ''2026-08'' \<and> current_period_key 1788220800000000 = ''2026-09''"
proof -
  have c: "current_period_key 1785542400000000 = ''2026-08''"
    "month_bounds ''2026-08'' = Inr (Some (1785542400000000, 1788220800000000))"
    "1788220800000000 < month_start 9999 12" "current_period_key 1788220800000000 = ''2026-09''" by code_simp+
  from c(3) have r: "(1785542400000000 :: time) < month_start 9999 12" "(1788220799999999 :: time) < month_start 9999 12"
    by linarith+
  from period_key_names_month[of 1785542400000000 1788220799999999] c r
  have "current_period_key 1788220799999999 = ''2026-08''" by auto
  with c show ?thesis by simp
qed

subsection \<open>One bundle\<close>

text \<open>A wallet operation that creates no wallet and the claim keep what the sweep reads.\<close>

definition settled_on :: "db \<Rightarrow> db \<Rightarrow> bool" where
  "settled_on d d' = (subs d' = subs d \<and> map wallet_static (wallets d') = map wallet_static (wallets d) \<and>
     set (grants d) \<subseteq> set (grants d'))"

lemma settled_refl [intro!, simp]: "settled_on d d"
  by (simp add: settled_on_def)

lemma settled_trans [trans]: "settled_on a b \<Longrightarrow> settled_on b c \<Longrightarrow> settled_on a c"
  by (auto simp: settled_on_def)

lemma lock_keeps_accounts:
  assumes "inv d" and "lock_wallet u d = (w, d0)"
  shows "user_account d0 v now = user_account d v now"
proof (cases "v = u")
  case True
  show ?thesis unfolding True using user_account_done[OF assms, of d0] by simp
next
  case False
  note f = lock_wallet_facts[OF assms]
  show ?thesis
    unfolding user_account_def lock_wallet_other[OF assms(2) False]
    by (cases "wallet_of_user d v") (auto intro: account_cong f)
qed

lemma grants_keep_accounts: "user_account (d\<lparr>grants := g\<rparr>) v now = user_account d v now"
  by (simp add: user_account_def wallet_of_user_def grants_only_inv(2)[OF refl] split: option.split)

definition bundle_claim :: "uuid \<Rightarrow> bundle_req \<Rightarrow> time \<Rightarrow> provider_grant" where
  "bundle_claim w r now =
     \<lparr>pg_provider = ''local'', pg_scope = SCOPE_PLAN_BUNDLE, pg_external = bundle_id w (gb_plan r) (bundle_period now r)\<rparr>"

lemma bundle_claimed:
  "claim_provider_object SCOPE_PLAN_BUNDLE (Some (bundle_id w (gb_plan r) (bundle_period now r))) ''local'' d =
   (if granted d (bundle_claim w r now) then (False, d) else (True, d\<lparr>grants := grants d @ [bundle_claim w r now]\<rparr>))"
  by (simp add: claim_provider_object_def claim_grant_def bundle_claim_def bundle_id_def)

text \<open>A bundle for somebody's own wallet, once everything before the claim has gone through.\<close>

lemma bundle_steps:
  assumes "bundle_size cf r = Some n" and "bundle_user cf r = Inr (Some user)" and "bundle_deadline now r = Inr (Some e)"
    and "now < e" and "gb_wallet r = None" and "get_or_create_wallet (u_id user) d = (w, d1)"
  shows "grant_plan_bundle cf now r d =
    (if granted d1 (bundle_claim w r now) then Inr (None, d1)
     else case credit cf now (bundle_credit_req now user n e r) (d1\<lparr>grants := grants d1 @ [bundle_claim w r now]\<rparr>) of
            Inl x \<Rightarrow> Inl x | Inr (t, d3) \<Rightarrow> Inr (Some t, d3))"
  using assms by (auto simp: grant_plan_bundle_def bundle_wallet_def bundle_claimed not_le[symmetric])

lemma bundle_req_fields:
  "cr_user (bundle_credit_req now user n e r) = user" "cr_credits (bundle_credit_req now user n e r) = n"
  "cr_expires (bundle_credit_req now user n e r) = At e" "cr_source (bundle_credit_req now user n e r) = gb_source r"
  "cr_type (bundle_credit_req now user n e r) = gb_type r" "cr_settle (bundle_credit_req now user n e r)"
  "cr_key (bundle_credit_req now user n e r) = ''plan-bundle:'' @ gb_plan r @ '':'' @ bundle_period now r"
  by (simp_all add: bundle_credit_req_def Let_def)

lemma bundle_size_pos: "bundle_size cf r = Some n \<Longrightarrow> 0 < n"
  by (auto simp: bundle_size_def split: option.splits if_splits)

lemma claimed_again:
  assumes "bundle_user cf r = Inr (Some user)" and "gb_wallet r = None" and "wallet_of_user d (u_id user) = Some x"
    and "granted d (bundle_claim (w_id x) r now)" and "bundle_deadline now r = Inr b"
  shows "grant_plan_bundle cf now r d = Inr (None, d)"
  using assms by (auto simp: grant_plan_bundle_def bundle_wallet_def bundle_claimed get_or_create_wallet_def
      split: option.splits)

text \<open>What the sweep asks for a user it is told about: the month of a plan.\<close>

definition monthly :: "uid \<Rightarrow> string \<Rightarrow> string \<Rightarrow> bundle_req" where
  "monthly u plan key = row_request key [(''user_id'', JStr u), (''plan'', JStr plan)]"

lemma monthly_fields:
  "gb_user (monthly u plan key) = None" "gb_user_id (monthly u plan key) = Some u" "gb_wallet (monthly u plan key) = None"
  "gb_plan (monthly u plan key) = plan" "gb_period (monthly u plan key) = key" "gb_credits (monthly u plan key) = None"
  "gb_expires (monthly u plan key) = None" "gb_source (monthly u plan key) = SUBSCRIPTION"
  by (simp_all add: monthly_def row_request_def get_json_def row_text_def dget_def)

lemma find_user_id: "find_user cf u = Some user \<Longrightarrow> u_id user = u"
  by (auto simp: find_user_def find_Some_iff)



subsection \<open>The sweep\<close>

text \<open>
  What one row leaves behind: the tables the sweep reads, and an answer that is final for as long as
  those tables are. The row's user has a wallet and the period does not move between the two sweeps.
\<close>

lemma settled_wallet:
  assumes "settled_on d d'" and "wallet_of_user d u = Some x"
  obtains y where "wallet_of_user d' u = Some y" "w_id y = w_id x"
  using assms static_wallet_of_user[of d' d u] by (auto simp: settled_on_def)

lemma grant_row_final:
  assumes inv: "inv d" and w: "gb_wallet r = None" "\<And>u. bundle_user cf r = Inr (Some u) \<Longrightarrow> wallet_of_user d (u_id u) \<noteq> None"
    and t: "now \<le> later" "bundle_period later r = bundle_period now r"
  shows "case grant_plan_bundle cf now r d of
      Inl e \<Rightarrow> (\<forall>d2. \<exists>e'. grant_plan_bundle cf later r d2 = Inl e')
    | Inr (a, d') \<Rightarrow> inv d' \<and> settled_on d d' \<and> (\<forall>d2. settled_on d' d2 \<longrightarrow> grant_plan_bundle cf later r d2 = Inr (None, d2))"
proof -
  have dl: "bundle_deadline later r = bundle_deadline now r" unfolding bundle_deadline_def t(2) by (rule refl)
  show ?thesis
  proof (cases "\<exists>n user e. bundle_size cf r = Some n \<and> bundle_user cf r = Inr (Some user) \<and>
      bundle_deadline now r = Inr (Some e) \<and> now < e")
    case False
    have "(\<exists>x. \<forall>s d. now \<le> s \<and> bundle_deadline s r = bundle_deadline now r \<longrightarrow> grant_plan_bundle cf s r d = Inl x) \<or>
        (\<forall>s d. now \<le> s \<and> bundle_deadline s r = bundle_deadline now r \<longrightarrow> grant_plan_bundle cf s r d = Inr (None, d))"
      using False unfolding grant_plan_bundle_def
      by (cases "bundle_size cf r"; cases "bundle_user cf r"; cases "bundle_deadline now r")
        (auto split: option.splits)
    with t(1) dl inv show ?thesis by fastforce
  next
    case True
    then obtain n user e where pre: "bundle_size cf r = Some n" "bundle_user cf r = Inr (Some user)"
      "bundle_deadline now r = Inr (Some e)" "now < e" by blast
    obtain x where x: "wallet_of_user d (u_id user) = Some x" using w(2)[OF pre(2)] by blast
    then have g: "get_or_create_wallet (u_id user) d = (w_id x, d)" by (simp add: get_or_create_wallet_def)
    define c where "c = bundle_claim (w_id x) r now"
    have later: "grant_plan_bundle cf later r d2 = Inr (None, d2)" if "settled_on d' d2" "settled_on d d'" "granted d' c" for d' d2
    proof -
      have "settled_on d d2" using that(1,2) by (rule settled_trans[rotated])
      then obtain y where y: "wallet_of_user d2 (u_id user) = Some y" "w_id y = w_id x" by (rule settled_wallet[OF _ x])
      have "bundle_claim (w_id y) r later = c" by (simp add: c_def bundle_claim_def t(2) y(2))
      moreover have "granted d2 c" using that(1,3) by (auto simp: settled_on_def granted_def)
      ultimately show ?thesis
        using claimed_again[OF pre(2) w(1) y(1), of later "Some e"] dl pre(3) by simp
    qed
    show ?thesis
    proof (cases "granted d c")
      case True
      with bundle_steps[OF pre w(1) g] have "grant_plan_bundle cf now r d = Inr (None, d)" by (simp add: c_def)
      with later[OF _ settled_refl True] inv show ?thesis by simp
    next
      case False
      define d1 where "d1 = d\<lparr>grants := grants d @ [c]\<rparr>"
      define q where "q = bundle_credit_req now user n e r"
      have i1: "inv d1" using inv by (simp add: d1_def grants_only_inv(1)[OF refl])
      have "0 < cr_credits q" "At now < cr_expires q" using bundle_size_pos[OF pre(1)] pre(4) by (simp_all add: q_def bundle_req_fields)
      then obtain a d' where cr: "credit cf now q d1 = Inr (a, d')" using credit_total[OF i1] by blast
      have lk: "lock_wallet (u_id (cr_user q)) d1 = (w_id x, d1)"
        using x by (simp add: q_def bundle_req_fields d1_def lock_wallet_def get_or_create_wallet_def wallet_of_user_def)
      have s: "settled_on d d'"
        using credit_static[OF i1 cr lk] keeps_credit[OF cr] by (auto simp: settled_on_def keeps_def d1_def)
      have gr: "granted d' c" using keeps_credit[OF cr] by (simp add: keeps_def granted_def d1_def)
      have "grant_plan_bundle cf now r d = Inr (Some a, d')"
        using bundle_steps[OF pre w(1) g] False cr by (simp flip: c_def d1_def q_def)
      with later[OF _ s gr] s credit_inv[OF i1 cr] show ?thesis by simp
    qed
  qed
qed

lemma period_nonempty: "current_period_key t \<noteq> []"
  by (simp add: current_period_key_def period_key_of_def split: prod.split)

lemma row_period:
  assumes "period \<noteq> []"
  shows "bundle_period later (row_request period row) = bundle_period now (row_request period row)"
  using assms by (simp add: bundle_period_def row_request_def)

text \<open>A row that has nothing left to do, and a sweep over such rows.\<close>

definition quiet :: "settings \<Rightarrow> time \<Rightarrow> string \<Rightarrow> db \<Rightarrow> dict \<Rightarrow> bool" where
  "quiet cf now period d row =
     (case grant_plan_bundle cf now (row_request period row) d of Inl e \<Rightarrow> True | Inr p \<Rightarrow> p = (None, d))"

lemma quiet_sweep: "\<forall>row \<in> set rows. quiet cf now period d row \<Longrightarrow> grant_rows cf now period rows (n, d) = (n, d)"
  by (induction rows) (auto simp: quiet_def split: sum.splits)

lemma sweep_settles:
  assumes "inv d" and "period \<noteq> []" and "now \<le> later"
    and "\<forall>row \<in> set rows. \<forall>u. bundle_user cf (row_request period row) = Inr (Some u) \<longrightarrow> wallet_of_user d (u_id u) \<noteq> None"
    and "grant_rows cf now period rows (n, d) = (m, d')"
  shows "settled_on d d' \<and> (\<forall>d2. settled_on d' d2 \<longrightarrow> (\<forall>row \<in> set rows. quiet cf later period d2 row))"
  using assms(1,4,5)
proof (induction rows arbitrary: n d)
  case (Cons row rows)
  let ?r = "row_request period row"
  have none: "gb_wallet ?r = None" by (simp add: row_request_def)
  have own: "wallet_of_user d (u_id u) \<noteq> None" if "bundle_user cf ?r = Inr (Some u)" for u using Cons.prems(2) that by simp
  note final = grant_row_final[where cf = cf, OF Cons.prems(1) none own assms(3) row_period[OF assms(2)]]
  show ?case
  proof (cases "grant_plan_bundle cf now ?r d")
    case (Inl e)
    with Cons.prems(3) have "grant_rows cf now period rows (n, d) = (m, d')" by simp
    with Cons.IH[OF Cons.prems(1)] Cons.prems(2) have "settled_on d d'"
      "\<forall>d2. settled_on d' d2 \<longrightarrow> (\<forall>row \<in> set rows. quiet cf later period d2 row)" by auto
    moreover have "quiet cf later period d2 row" for d2
    proof -
      from final Inl obtain e' where "grant_plan_bundle cf later ?r d2 = Inl e'" by fastforce
      then show ?thesis by (simp add: quiet_def)
    qed
    ultimately show ?thesis by simp
  next
    case (Inr p)
    obtain a d1 where p: "p = (a, d1)" by (rule prod.exhaust)
    with final Inr have f: "inv d1" "settled_on d d1"
      "\<And>d2. settled_on d1 d2 \<Longrightarrow> grant_plan_bundle cf later ?r d2 = Inr (None, d2)" by simp_all
    obtain k where "grant_rows cf now period rows (k, d1) = (m, d')" using Cons.prems(3) Inr p by (cases a) auto
    moreover have "\<forall>row \<in> set rows. \<forall>u. bundle_user cf (row_request period row) = Inr (Some u) \<longrightarrow> wallet_of_user d1 (u_id u) \<noteq> None"
    proof (intro ballI allI impI)
      fix row' u
      assume "row' \<in> set rows" "bundle_user cf (row_request period row') = Inr (Some u)"
      then obtain x where "wallet_of_user d (u_id u) = Some x" using Cons.prems(2) by fastforce
      then show "wallet_of_user d1 (u_id u) \<noteq> None" by (rule settled_wallet[OF f(2)]) simp
    qed
    ultimately have r: "settled_on d1 d'" "\<forall>d2. settled_on d' d2 \<longrightarrow> (\<forall>row \<in> set rows. quiet cf later period d2 row)"
      using Cons.IH[OF f(1)] by auto
    have "quiet cf later period d2 row" if "settled_on d' d2" for d2
      using f(3)[OF settled_trans[OF r(1) that]] by (simp add: quiet_def)
    with r settled_trans[OF f(2) r(1)] show ?thesis by simp
  qed
qed simp

lemma default_rows:
  "plan_bundle_entitlements (default_resolver cf) d =
   List.map_filter entitlement_row (List.map_filter (entitlement_of cf (last_sub_of d)) (owned_wallets d))"
  by (simp add: plan_bundle_entitlements_def default_resolver_def default_plan_bundle_entitlements_def chunks_return)

lemma default_row_owner:
  assumes "row \<in> set (plan_bundle_entitlements (default_resolver cf) d)"
    and "bundle_user cf (row_request period row) = Inr (Some u)"
  shows "wallet_of_user d (u_id u) \<noteq> None"
proof -
  from assms(1) obtain w v slug where v: "(w, v) \<in> set (owned_wallets d)"
    "row = [(''wallet_id'', JStr (uuid_str w)), (''user_id'', JStr v), (''plan'', JStr slug)]"
    by (auto simp: default_rows map_filter_def entitlement_of_def split: if_splits)
  have "bundle_user cf (row_request period row) = Inr (find_user cf v)"
    by (simp add: v(2) bundle_user_def row_request_def get_json_def dget_def)
  with assms(2) have "u_id u = v" using find_user_id by simp
  with v(1) show ?thesis by (auto simp: owned_wallets_def wallet_of_user_def find_None_iff)
qed

lemma settled_rows:
  assumes "settled_on d d'"
  shows "plan_bundle_entitlements (default_resolver cf) d' = plan_bundle_entitlements (default_resolver cf) d"
proof -
  have "owned_wallets e = map (\<lambda>w. (w_id w, the (w_user w))) (filter (\<lambda>w. w_user w \<noteq> None) (map wallet_static (wallets e)))" for e
    by (simp add: owned_wallets_def filter_map comp_def)
  with assms have "owned_wallets d' = owned_wallets d" by (simp add: settled_on_def)
  moreover have "last_sub_of d' = last_sub_of d" using assms by (simp add: settled_on_def last_sub_of_def fun_eq_iff)
  ultimately show ?thesis by (simp add: default_rows)
qed

text \<open>C38: the bundle sweep can be run as often as one likes. After a sweep over the wallets the deployment has,
  a second one in the same period, at any later instant, grants nothing and changes nothing, whatever the
  wallets, the subscriptions and the plans are, and whichever rows failed the first time.\<close>

theorem sweep_once_a_period:
  assumes "inv d" and "now \<le> later" and "period \<noteq> [] \<or> current_period_key later = current_period_key now"
    and "grant_plan_bundles cf (default_resolver cf) period now d = (n, d')"
  shows "grant_plan_bundles cf (default_resolver cf) period later d' = (0, d')"
proof -
  let ?p = "if period = [] then current_period_key now else period"
  let ?rows = "plan_bundle_entitlements (default_resolver cf) d"
  have p: "?p \<noteq> []" by (simp add: period_nonempty)
  have same: "(if period = [] then current_period_key later else period) = ?p" using assms(3) by auto
  have own: "\<forall>row \<in> set ?rows. \<forall>u. bundle_user cf (row_request ?p row) = Inr (Some u) \<longrightarrow> wallet_of_user d (u_id u) \<noteq> None"
    using default_row_owner by blast
  have "grant_rows cf now ?p ?rows (0, d) = (n, d')" using assms(4) by (simp add: grant_plan_bundles_def)
  note s = sweep_settles[OF assms(1) p assms(2) own this]
  then have "grant_rows cf later ?p ?rows (0, d') = (0, d')" by (intro quiet_sweep) simp
  with settled_rows[of d d' cf] s show ?thesis unfolding grant_plan_bundles_def same by simp
qed

theorem sweep_once_a_period_witness:
  "let cf = cf0\<lparr>cf_plans := map (\<lambda>p. p\<lparr>pe_monthly := 20\<rparr>) DEFAULT_PLANS\<rparr>;
       swept = grant_plan_bundles cf (default_resolver cf) [] 1785542400000000 d_two
   in fst swept = 1 \<and> grant_plan_bundles cf (default_resolver cf) [] 1786000000000000 (snd swept) = (0, snd swept)"
proof -
  define cf where "cf = cf0\<lparr>cf_plans := map (\<lambda>p. p\<lparr>pe_monthly := 20\<rparr>) DEFAULT_PLANS\<rparr>"
  obtain n d' where g: "grant_plan_bundles cf (default_resolver cf) [] 1785542400000000 d_two = (n, d')" by (rule prod.exhaust)
  have "fst (grant_plan_bundles cf (default_resolver cf) [] 1785542400000000 d_two) = 1"
    "current_period_key 1786000000000000 = current_period_key 1785542400000000" unfolding cf_def by code_simp+
  with sweep_once_a_period[OF inv_samples(1) _ _ g, of 1786000000000000] g show ?thesis
    by (simp flip: cf_def)
qed

end
