(* ===== verification/Comps.thy ===== *)
theory Comps
  imports Lifecycle Bundles
begin

section \<open>Complimentary periods and the plan that governs (services.py)\<close>

text \<open>
  Subscription time the operator gives away is a row of its own (\<open>comp_period\<close>). Which plan
  entitles a user is computed from the provider's row and the open windows and never stored. Where
  the code orders windows by a column that may tie, the first of the tied rows is taken.
\<close>

subsection \<open>Which window\<close>

text \<open>The first row with the greatest key: the fold behind \<open>max(rows, key=...)\<close>.\<close>

fun better :: "('a \<Rightarrow> 'k::linorder) \<Rightarrow> 'a \<Rightarrow> 'a option \<Rightarrow> 'a option" where
  "better key x None = Some x"
| "better key x (Some y) = (if key y < key x then Some x else Some y)"

definition best_by :: "('a \<Rightarrow> 'k::linorder) \<Rightarrow> 'a list \<Rightarrow> 'a option" where
  "best_by key xs = fold (better key) xs None"

definition open_windows :: "uuid \<Rightarrow> time \<Rightarrow> db \<Rightarrow> comp_period list" where
  "open_windows i now d = filter (\<lambda>c. comp_subscription c = i \<and> comp_is_live now c) (comps d)"

definition live_comp_period :: "uuid \<Rightarrow> time \<Rightarrow> db \<Rightarrow> comp_period option" where
  "live_comp_period i now d = best_by comp_ends (open_windows i now d)"

definition latest_comp_period :: "uuid \<Rightarrow> time \<Rightarrow> db \<Rightarrow> comp_period option" where
  "latest_comp_period i now d =
     best_by comp_ends (filter (\<lambda>c. comp_subscription c = i \<and> comp_revoked c = None \<and> now < comp_ends c) (comps d))"

definition window_key :: "plan_entry list \<Rightarrow> comp_period \<Rightarrow> int \<times> time" where
  "window_key plans c =
     ((case plan_rank plans (comp_plan c) of None \<Rightarrow> -1 | Some r \<Rightarrow> int r), comp_ends c)"

definition governing_comp_period :: "settings \<Rightarrow> uuid \<Rightarrow> time \<Rightarrow> db \<Rightarrow> comp_period option" where
  "governing_comp_period cf i now d = best_by (window_key (cf_plans cf)) (open_windows i now d)"

definition comp_plan_for_user :: "settings \<Rightarrow> uid \<Rightarrow> time \<Rightarrow> db \<Rightarrow> string option" where
  "comp_plan_for_user cf u now d =
     (case sub_of_user d u of
        None \<Rightarrow> None
      | Some s \<Rightarrow> map_option comp_plan (governing_comp_period cf (sub_id s) now d))"

subsection \<open>The plan that governs\<close>

text \<open>An unranked slug sorts below every configured one.\<close>

definition ladder_key :: "plan_entry list \<Rightarrow> string \<Rightarrow> bool \<times> nat" where
  "ladder_key plans slug =
     (plan_rank plans slug \<noteq> None, case plan_rank plans slug of None \<Rightarrow> 0 | Some r \<Rightarrow> r)"

definition entitling :: "subscription \<Rightarrow> bool" where
  "entitling s = (sub_status s \<in> set GRANTING_SUBSCRIPTION_STATUSES)"

definition effective_plan :: "settings \<Rightarrow> uid \<Rightarrow> time \<Rightarrow> db \<Rightarrow> string" where
  "effective_plan cf u now d =
     (case sub_of_user d u of
        None \<Rightarrow> DEFAULT_PLAN
      | Some s \<Rightarrow>
          (let paid = (if entitling s \<and> sub_plan s \<noteq> [] then [sub_plan s] else []);
               comped = (case comp_plan_for_user cf u now d of None \<Rightarrow> [] | Some p \<Rightarrow> if p = [] then [] else [p])
           in case best_by (ladder_key (cf_plans cf)) (paid @ comped) of None \<Rightarrow> DEFAULT_PLAN | Some p \<Rightarrow> p))"

subsection \<open>Granting a window\<close>

definition COMP_STARTS_NOW :: string where
  "COMP_STARTS_NOW = ''now''"

definition COMP_STARTS_PERIOD_END :: string where
  "COMP_STARTS_PERIOD_END = ''period_end''"

text \<open>Why a bundle that was asked for grants nothing (\<open>bundle_note\<close>).\<close>

datatype bundle_note = OwnerErased | NothingToAdd | BundleStillLive

record comp_period_preview =
  cv_subscription :: uuid
  cv_plan :: string
  cv_starts :: time
  cv_ends :: time
  cv_days :: int
  cv_reason :: string
  cv_granted_by :: string
  cv_applied :: bool
  cv_stacked_on :: "uuid option"
  cv_comp :: "uuid option"
  cv_upgrade_from :: "string option"
  cv_bundle_credits :: "int option"
  cv_plan_credits :: "int option"
  cv_baseline_plan :: "string option"
  cv_baseline_credits :: "int option"
  cv_bundle_expires :: "time option"
  cv_note :: "bundle_note option"
  cv_transaction :: "uuid option"

text \<open>The arguments of \<open>extend_subscription\<close>. An absent plan is \<open>[]\<close>: the code tests \<open>plan or ...\<close>.\<close>

record extension =
  ex_days :: "int option"
  ex_reason :: string
  ex_actor :: string
  ex_plan :: string
  ex_until :: "time option"
  ex_starts :: "string option"
  ex_stack :: bool
  ex_bundle :: bool
  ex_apply :: bool

definition comp_bundle_is_live :: "uid option \<Rightarrow> time \<Rightarrow> db \<Rightarrow> bool" where
  "comp_bundle_is_live user now d =
     (case user of
        None \<Rightarrow> False
      | Some u \<Rightarrow>
          (\<exists>t \<in> set (txns d).
             (\<exists>w \<in> set (wallets d). w_id w = txn_wallet t \<and> w_user w = Some u) \<and>
             dget (txn_meta t) ''comped'' = Some (JBool True) \<and>
             (\<exists>l \<in> set (lots d). txn_lot t = Some (lot_id l) \<and> At now < lot_expires l \<and> lot_expires l \<noteq> Never)))"

definition comped_slug :: "extension \<Rightarrow> subscription \<Rightarrow> string" where
  "comped_slug r s = (if ex_plan r = [] then sub_plan s else ex_plan r)"

text \<open>The checks that need no database: the length, the opening, the reason, the plan.\<close>

definition check_extension :: "settings \<Rightarrow> extension \<Rightarrow> subscription \<Rightarrow> error + plan_entry" where
  "check_extension cf r s =
     (if (ex_days r = None) = (ex_until r = None) then Inl (ValueError ''pass exactly one of days= or until='')
      else if (case ex_days r of Some n \<Rightarrow> n \<le> 0 | None \<Rightarrow> False) then Inl (ValueError ''days must be positive'')
      else if ex_starts r \<notin> {None, Some COMP_STARTS_NOW, Some COMP_STARTS_PERIOD_END}
        then Inl (ValueError ''starts must be now, period_end or None'')
      else if strip (ex_reason r) = [] then Inl (ValueError ''a reason is required'')
      else if comped_slug r s = DEFAULT_PLAN then Inl (ValueError ''this subscription is on the default plan'')
      else case get_plan (cf_plans cf) (comped_slug r s) of
             None \<Rightarrow> Inl (ValueError ''unknown plan'')
           | Some entry \<Rightarrow> Inr entry)"

definition baseline_plan :: "subscription \<Rightarrow> string" where
  "baseline_plan s = (if entitling s then sub_plan s else DEFAULT_PLAN)"

definition is_upgrade :: "settings \<Rightarrow> extension \<Rightarrow> subscription \<Rightarrow> bool" where
  "is_upgrade cf r s =
     (entitling s \<and>
      (case plan_rank (cf_plans cf) (comped_slug r s) of
         None \<Rightarrow> False
       | Some c \<Rightarrow> (case plan_rank (cf_plans cf) (baseline_plan s) of None \<Rightarrow> True | Some b \<Rightarrow> b < c)))"

definition window_opens :: "settings \<Rightarrow> time \<Rightarrow> extension \<Rightarrow> subscription \<Rightarrow> comp_period option \<Rightarrow> time" where
  "window_opens cf now r s existing =
     (if ex_starts r = Some COMP_STARTS_NOW \<or> (ex_starts r = None \<and> is_upgrade cf r s) then now
      else case existing of
             Some c \<Rightarrow> comp_ends c
           | None \<Rightarrow> (case sub_period_end s of Some e \<Rightarrow> if now < e then e else now | None \<Rightarrow> now))"

text \<open>The window's end and its length in whole days.\<close>

definition window_closes :: "extension \<Rightarrow> time \<Rightarrow> error + time \<times> int" where
  "window_closes r opens =
     (case ex_until r of
        Some e \<Rightarrow> if e \<le> opens then Inl (ValueError ''until is not after the window opens'')
                  else Inr (e, (e - opens) div day_us)
      | None \<Rightarrow> (case ex_days r of
                   Some n \<Rightarrow> Inr (opens + n * day_us, n)
                 | None \<Rightarrow> Inl (ValueError ''pass exactly one of days= or until='')))"

definition preview_bundle :: "settings \<Rightarrow> time \<Rightarrow> subscription \<Rightarrow> plan_entry \<Rightarrow> db \<Rightarrow> comp_period_preview \<Rightarrow> comp_period_preview" where
  "preview_bundle cf now s entry d p =
     (let base = (case get_plan (cf_plans cf) (baseline_plan s) of Some e \<Rightarrow> pe_monthly e | None \<Rightarrow> 0);
          difference = pe_monthly entry - base;
          p1 = p\<lparr>cv_baseline_plan := Some (baseline_plan s), cv_baseline_credits := Some base,
                 cv_plan_credits := Some (pe_monthly entry), cv_bundle_credits := Some (max difference 0),
                 cv_bundle_expires := Some (cv_ends p)\<rparr>
      in if sub_user s = None then p1\<lparr>cv_bundle_credits := Some 0, cv_note := Some OwnerErased\<rparr>
         else if difference \<le> 0 then p1\<lparr>cv_note := Some NothingToAdd\<rparr>
         else if comp_bundle_is_live (sub_user s) now d
           then p1\<lparr>cv_bundle_credits := Some 0, cv_note := Some BundleStillLive\<rparr>
         else p1)"

definition preview_extension ::
    "settings \<Rightarrow> time \<Rightarrow> extension \<Rightarrow> subscription \<Rightarrow> db \<Rightarrow> error + plan_entry \<times> comp_period_preview" where
  "preview_extension cf now r s d =
     (case check_extension cf r s of
        Inl e \<Rightarrow> Inl e
      | Inr entry \<Rightarrow>
          (let existing = latest_comp_period (sub_id s) now d; opens = window_opens cf now r s existing
           in if existing \<noteq> None \<and> \<not> ex_stack r then Inl (ValueError ''already has comp time'')
              else case window_closes r opens of
                     Inl e \<Rightarrow> Inl e
                   | Inr (closes, days) \<Rightarrow>
                       (let p = \<lparr>cv_subscription = sub_id s, cv_plan = comped_slug r s, cv_starts = opens, cv_ends = closes,
                                 cv_days = days, cv_reason = strip (ex_reason r), cv_granted_by = ex_actor r,
                                 cv_applied = False, cv_stacked_on = map_option comp_id existing, cv_comp = None,
                                 cv_upgrade_from = (if is_upgrade cf r s then Some (baseline_plan s) else None),
                                 cv_bundle_credits = None, cv_plan_credits = None, cv_baseline_plan = None,
                                 cv_baseline_credits = None, cv_bundle_expires = None, cv_note = None,
                                 cv_transaction = None\<rparr>
                        in Inr (entry, if ex_bundle r then preview_bundle cf now s entry d p else p))))"

definition create_comp :: "comp_period_preview \<Rightarrow> db \<Rightarrow> comp_period \<times> db" where
  "create_comp p d =
     (let c = \<lparr>comp_id = next_id d, comp_subscription = cv_subscription p, comp_plan = cv_plan p,
               comp_starts = cv_starts p, comp_ends = cv_ends p, comp_reason = cv_reason p,
               comp_granted_by = cv_granted_by p, comp_revoked = None\<rparr>
      in (c, d\<lparr>comps := comps d @ [c], next_id := Suc (next_id d)\<rparr>))"

text \<open>The text of \<open>description\<close>, with the dash of the source written \<open>-\<close>.\<close>

definition comp_credit :: "user \<Rightarrow> comp_period_preview \<Rightarrow> string \<Rightarrow> int \<Rightarrow> comp_period \<Rightarrow> credit_req" where
  "comp_credit user p base n c =
     \<lparr>cr_user = user, cr_credits = n, cr_type = SUBSCRIPTION_BONUS, cr_source = SUBSCRIPTION,
      cr_desc = Some (''Comp bundle: '' @ cv_plan p @ '' minus '' @ base @ '' ('' @ int_str n @ '' credits) - '' @ cv_reason p),
      cr_amount = None,
      cr_meta = [(''comped'', JBool True), (''comp_period_id'', JStr (uuid_str (comp_id c))),
                 (''comp_reason'', JStr (cv_reason p)), (''comp_plan'', JStr (cv_plan p)),
                 (''comp_baseline_plan'', JStr base)],
      cr_expires = At (cv_ends p), cr_key = ''comp-bundle:'' @ uuid_str (comp_id c), cr_settle = True\<rparr>"

text \<open>
  The payload's \<open>plan\<close> is the plan that governs; the provider's period end and the window's own
  end travel side by side.
\<close>

definition announce_comp :: "settings \<Rightarrow> time \<Rightarrow> subscription \<Rightarrow> comp_period \<Rightarrow> db \<Rightarrow> db" where
  "announce_comp cf now s c d =
     (let u = (case sub_user s of None \<Rightarrow> [] | Some x \<Rightarrow> x)
      in emit ''subscription.changed''
           [(''user_id'', JStr u), (''plan'', JStr (effective_plan cf u now d)),
            (''status'', JStr (sub_status_value (sub_status s))), (''current_period_end'', opt_time (sub_period_end s)),
            (''cancel_at_period_end'', JBool (sub_cancel_at_end s)), (''comped_until'', JTime (comp_ends c))] u d)"

text \<open>\<open>grant_bundle and preview.bundle_credits\<close>: the credit, when there is something to grant.\<close>

definition grant_comp_bundle ::
    "settings \<Rightarrow> time \<Rightarrow> subscription \<Rightarrow> comp_period \<Rightarrow> comp_period_preview \<Rightarrow> db \<Rightarrow> error + comp_period_preview \<times> db" where
  "grant_comp_bundle cf now s c p d =
     (case cv_bundle_credits p of
        None \<Rightarrow> Inr (p, d)
      | Some n \<Rightarrow>
          if n = 0 then Inr (p, d)
          else case Option.bind (sub_user s) (find_user cf) of
                 None \<Rightarrow> Inl (HandlerError ''AttributeError'')
               | Some user \<Rightarrow>
                   (case credit cf now (comp_credit user p (baseline_plan s) n c) d of
                      Inl e \<Rightarrow> Inl e
                    | Inr (t, d1) \<Rightarrow> Inr (p\<lparr>cv_transaction := Some (txn_id t)\<rparr>, d1)))"

definition extend_subscription ::
    "settings \<Rightarrow> time \<Rightarrow> extension \<Rightarrow> subscription \<Rightarrow> db \<Rightarrow> error + comp_period_preview \<times> db" where
  "extend_subscription cf now r s d =
     (case preview_extension cf now r s d of
        Inl e \<Rightarrow> Inl e
      | Inr (entry, p) \<Rightarrow>
          if \<not> ex_apply r then Inr (p, d)
          else let (c, d1) = create_comp p d;
                   p1 = p\<lparr>cv_applied := True, cv_comp := Some (comp_id c)\<rparr>
               in case grant_comp_bundle cf now s c p1 d1 of
                    Inl e \<Rightarrow> Inl e
                  | Inr (p2, d2) \<Rightarrow> Inr (p2, if sub_user s = None then d2 else announce_comp cf now s c d2))"

subsection \<open>The first maximum\<close>

lemma best_by_fold:
  "\<exists>z. fold (better key) xs (Some y) = Some z \<and> z \<in> insert y (set xs) \<and> key y \<le> key z \<and> (\<forall>x \<in> set xs. key x \<le> key z)"
proof (induction xs arbitrary: y)
  case (Cons x xs)
  show ?case
  proof (cases "key y < key x")
    case True
    obtain z where "fold (better key) xs (Some x) = Some z \<and> z \<in> insert x (set xs) \<and> key x \<le> key z \<and>
      (\<forall>x \<in> set xs. key x \<le> key z)" using Cons.IH by blast
    with True show ?thesis by auto
  next
    case False
    obtain z where "fold (better key) xs (Some y) = Some z \<and> z \<in> insert y (set xs) \<and> key y \<le> key z \<and>
      (\<forall>x \<in> set xs. key x \<le> key z)" using Cons.IH by blast
    with False show ?thesis by auto
  qed
qed simp

lemma best_by_Some:
  assumes "best_by key xs = Some z"
  shows "z \<in> set xs" "\<And>x. x \<in> set xs \<Longrightarrow> key x \<le> key z"
proof -
  obtain y ys where "xs = y # ys" using assms by (cases xs) (auto simp: best_by_def)
  with assms best_by_fold[of key ys y] show "z \<in> set xs" "\<And>x. x \<in> set xs \<Longrightarrow> key x \<le> key z"
    by (auto simp: best_by_def)
qed

lemma best_by_None [simp]: "best_by key xs = None \<longleftrightarrow> xs = []"
proof (cases xs)
  case (Cons y ys)
  with best_by_fold[of key ys y] show ?thesis by (auto simp: best_by_def)
qed (simp add: best_by_def)

lemma best_by_code [simp]:
  "best_by key [] = None" "best_by key [x] = Some x"
  "best_by key [x, y] = Some (if key x < key y then y else x)"
  by (simp_all add: best_by_def)

end
