(* ===== verification/Erasure.thy ===== *)
theory Erasure
  imports Comps
begin

section \<open>Erasure of a subject (gdpr.py)\<close>

text \<open>
  Erasure takes the person out of the ledger and keeps the bill: the ids that name the subject are
  pseudonymized, free text is blanked, metadata is cut down to the accounting keys, and the stored
  provider payloads that describe the customer are replaced. The keyed digest behind a pseudonym
  (an HMAC under the deployment's secret) is the argument \<open>digest\<close>: its hexadecimal text.
\<close>

definition SUBJECT_TYPES :: "string list" where
  "SUBJECT_TYPES = [''account'']"

definition PSEUDONYM_PREFIX :: string where
  "PSEUDONYM_PREFIX = ''erased:''"

definition LEDGER_METADATA_KEYS :: "string list" where
  "LEDGER_METADATA_KEYS =
     [''expires_at'', ''hold_id'', ''lot_id'', ''lots'', ''package'', ''plan'', ''source'',
      ''clawback_of'', ''clawback_reason'', ''debt_id'', ''debt_reason'', ''debt_settlement'', ''forgiven'', ''grant'',
      ''outstanding'', ''partial'', ''period_key'', ''reclaimed'', ''requested'', ''requested_credits'', ''shortfall'']"

definition ERASED_PAYLOAD :: dict where
  "ERASED_PAYLOAD = [(''erased'', JBool True)]"

definition pseudonymize :: "(string \<Rightarrow> string) \<Rightarrow> string \<Rightarrow> string" where
  "pseudonymize digest v =
     (if take (length PSEUDONYM_PREFIX) v = PSEUDONYM_PREFIX then v else PSEUDONYM_PREFIX @ take 32 (digest v))"

subsection \<open>Free text\<close>

definition kept_metadata :: "dict \<Rightarrow> dict" where
  "kept_metadata m = filter (\<lambda>(k, v). k \<in> set LEDGER_METADATA_KEYS) m"

definition nothing_to_scrub :: "string option \<Rightarrow> dict \<Rightarrow> bool" where
  "nothing_to_scrub desc m = (unset desc \<and> kept_metadata m = m)"

text \<open>One model's rows: which are this subject's, which carry nothing, how one is scrubbed.\<close>

definition scrub_free_text :: "('r \<Rightarrow> bool) \<Rightarrow> ('r \<Rightarrow> bool) \<Rightarrow> ('r \<Rightarrow> 'r) \<Rightarrow> 'r list \<Rightarrow> nat \<times> 'r list" where
  "scrub_free_text mine clean wipe rows =
     (length (filter (\<lambda>r. mine r \<and> \<not> clean r) rows), map (\<lambda>r. if mine r \<and> \<not> clean r then wipe r else r) rows)"

definition scrub_txns :: "uuid list \<Rightarrow> txn list \<Rightarrow> nat \<times> txn list" where
  "scrub_txns ws = scrub_free_text (\<lambda>t. txn_wallet t \<in> set ws) (\<lambda>t. nothing_to_scrub (txn_desc t) (txn_meta t))
     (\<lambda>t. t\<lparr>txn_desc := Some [], txn_meta := kept_metadata (txn_meta t)\<rparr>)"

definition scrub_holds :: "uuid list \<Rightarrow> hold list \<Rightarrow> nat \<times> hold list" where
  "scrub_holds ws = scrub_free_text (\<lambda>h. hold_wallet h \<in> set ws) (\<lambda>h. nothing_to_scrub (hold_desc h) (hold_meta h))
     (\<lambda>h. h\<lparr>hold_desc := Some [], hold_meta := kept_metadata (hold_meta h)\<rparr>)"

definition scrub_debts :: "uuid list \<Rightarrow> debt list \<Rightarrow> nat \<times> debt list" where
  "scrub_debts ws = scrub_free_text (\<lambda>x. debt_wallet x \<in> set ws) (\<lambda>x. nothing_to_scrub (debt_desc x) (debt_meta x))
     (\<lambda>x. x\<lparr>debt_desc := Some [], debt_meta := kept_metadata (debt_meta x)\<rparr>)"

subsection \<open>Provider payloads\<close>

definition payload_field :: "dict \<Rightarrow> string \<Rightarrow> json option" where
  "payload_field payload f = dget (dobj (dobj payload ''data'') ''object'') f"

definition describes :: "string list \<Rightarrow> string list \<Rightarrow> webhook_event \<Rightarrow> bool" where
  "describes customers subscriptions e =
     ((\<exists>c \<in> set customers. payload_field (ev_payload e) ''customer'' = Some (JStr c)) \<or>
      (\<exists>i \<in> set subscriptions. payload_field (ev_payload e) ''id'' = Some (JStr i)))"

definition scrub_webhook_payloads :: "string list \<Rightarrow> string list \<Rightarrow> webhook_event list \<Rightarrow> nat \<times> webhook_event list" where
  "scrub_webhook_payloads customers subscriptions es =
     (let hit = (\<lambda>e. describes customers subscriptions e \<and> ev_payload e \<noteq> ERASED_PAYLOAD)
      in (length (filter hit es), map (\<lambda>e. if hit e then e\<lparr>ev_payload := ERASED_PAYLOAD, ev_error := []\<rparr> else e) es))"

subsection \<open>The subject\<close>

record erasure_counts =
  ec_wallets :: nat
  ec_subscriptions :: nat
  ec_transactions :: nat
  ec_holds :: nat
  ec_debts :: nat
  ec_events :: nat

definition real_ids :: "(subscription \<Rightarrow> string option) \<Rightarrow> subscription list \<Rightarrow> string list" where
  "real_ids f ss = map (\<lambda>s. the (f s)) (filter (\<lambda>s. \<not> unset (f s)) ss)"

definition erased_subscription :: "(string \<Rightarrow> string) \<Rightarrow> uid \<Rightarrow> subscription \<Rightarrow> subscription" where
  "erased_subscription digest u s =
     s\<lparr>sub_user := None, sub_pseudonym := pseudonymize digest u, sub_stripe_id := Some [], sub_customer_id := Some []\<rparr>"

definition erased_wallet :: "(string \<Rightarrow> string) \<Rightarrow> uid \<Rightarrow> wallet \<Rightarrow> wallet" where
  "erased_wallet digest u x = x\<lparr>w_user := None, w_pseudonym := pseudonymize digest u\<rparr>"

definition erase_subject ::
    "(string \<Rightarrow> string) \<Rightarrow> string \<Rightarrow> string option \<Rightarrow> db \<Rightarrow> erasure_counts option \<times> db" where
  "erase_subject digest subject_type subject_key d =
     (let key = (case subject_key of None \<Rightarrow> [] | Some k \<Rightarrow> k)
      in if key = [] \<or> subject_type \<notin> set SUBJECT_TYPES then (None, d)
         else let mine = filter (\<lambda>s. sub_user s = Some key) (subs d);
                  ws = map w_id (filter (\<lambda>x. w_user x = Some key) (wallets d));
                  (nt, ts) = scrub_txns ws (txns d); (nh, hs) = scrub_holds ws (holds d);
                  (nd, xs) = scrub_debts ws (debts d);
                  (ne, es) = scrub_webhook_payloads (real_ids sub_customer_id mine) (real_ids sub_stripe_id mine) (events d)
              in (Some \<lparr>ec_wallets = length (filter (\<lambda>x. w_user x = Some key) (wallets d)), ec_subscriptions = length mine,
                        ec_transactions = nt, ec_holds = nh, ec_debts = nd, ec_events = ne\<rparr>,
                  d\<lparr>subs := map (\<lambda>s. if sub_user s = Some key then erased_subscription digest key s else s) (subs d),
                    wallets := map (\<lambda>x. if w_user x = Some key then erased_wallet digest key x else x) (wallets d),
                    txns := ts, holds := hs, debts := xs, events := es\<rparr>))"

end
