(* ===== verification/Export.thy ===== *)
theory Export
  imports Erasure
begin

section \<open>Export of a subject's data (gdpr.py)\<close>

text \<open>
  What the subject is given: the wallet, every lot, hold, debt and ledger row of it, and the
  subscription, as dictionaries. Rows come in the order their models declare, which in tables kept in
  creation order is that order or its reverse; \<open>created\<close> is the creation instant of a row, which only
  ledger rows keep themselves. An instant is exported as the text \<open>JTime\<close> stands for.
\<close>

definition or_null :: "('a \<Rightarrow> json) \<Rightarrow> 'a option \<Rightarrow> json" where
  "or_null f v = (case v of None \<Rightarrow> JNull | Some x \<Rightarrow> f x)"

definition deadline_json :: "deadline \<Rightarrow> json" where
  "deadline_json t = (case t of Never \<Rightarrow> JNull | At x \<Rightarrow> JTime x)"

definition exported_wallet :: "(uuid \<Rightarrow> time) \<Rightarrow> wallet \<Rightarrow> dict" where
  "exported_wallet created x =
     [(''balance'', JStr (int_str (w_balance x))), (''currency'', JStr (w_currency x)), (''created_at'', JTime (created (w_id x)))]"

definition exported_txn :: "txn \<Rightarrow> dict" where
  "exported_txn t =
     [(''type'', JStr (txn_type_value (txn_type t))), (''amount_cents'', or_null JInt (txn_amount t)),
      (''credits_delta'', JInt (txn_delta t)), (''balance_after'', JInt (txn_balance t)),
      (''description'', or_null JStr (txn_desc t)), (''created_at'', JTime (txn_created t))]"

definition exported_lot :: "(uuid \<Rightarrow> time) \<Rightarrow> lot \<Rightarrow> dict" where
  "exported_lot created l =
     [(''source'', JStr (lot_source_value (lot_source l))), (''credits_initial'', JInt (lot_initial l)),
      (''credits_remaining'', JInt (lot_remaining l)), (''expires_at'', deadline_json (lot_expires l)),
      (''created_at'', JTime (created (lot_id l)))]"

definition exported_hold :: "(uuid \<Rightarrow> time) \<Rightarrow> hold \<Rightarrow> dict" where
  "exported_hold created h =
     [(''credits'', JInt (hold_credits h)), (''type'', JStr (txn_type_value (hold_type h))),
      (''description'', or_null JStr (hold_desc h)), (''status'', JStr (hold_status_value (hold_status h))),
      (''expires_at'', deadline_json (hold_expires h)), (''resolved_at'', or_null JTime (hold_resolved h)),
      (''created_at'', JTime (created (hold_id h)))]"

definition exported_debt :: "(uuid \<Rightarrow> time) \<Rightarrow> debt \<Rightarrow> dict" where
  "exported_debt created x =
     [(''credits_initial'', JInt (debt_initial x)), (''credits_outstanding'', JInt (debt_outstanding x)),
      (''reason'', JStr (debt_reason_value (debt_reason x))), (''type'', JStr (txn_type_value (debt_type x))),
      (''description'', or_null JStr (debt_desc x)), (''settled_at'', or_null JTime (debt_settled x)),
      (''created_at'', JTime (created (debt_id x)))]"

definition exported_subscription :: "subscription \<Rightarrow> dict" where
  "exported_subscription s =
     [(''plan'', JStr (sub_plan s)), (''status'', JStr (sub_status_value (sub_status s))),
      (''current_period_start'', or_null JTime (sub_period_start s)),
      (''current_period_end'', or_null JTime (sub_period_end s)), (''cancelled_at'', or_null JTime (sub_cancelled_at s))]"

record data_export =
  xp_wallet :: dict
  xp_lots :: "dict list"
  xp_holds :: "dict list"
  xp_debts :: "dict list"
  xp_transactions :: "dict list"
  xp_subscription :: dict

definition export :: "(uuid \<Rightarrow> time) \<Rightarrow> uid \<Rightarrow> db \<Rightarrow> data_export" where
  "export created u d =
     (let sub = (case sub_of_user d u of None \<Rightarrow> [] | Some s \<Rightarrow> exported_subscription s)
      in case wallet_of_user d u of
           None \<Rightarrow> \<lparr>xp_wallet = [], xp_lots = [], xp_holds = [], xp_debts = [], xp_transactions = [], xp_subscription = sub\<rparr>
         | Some x \<Rightarrow>
             \<lparr>xp_wallet = exported_wallet created x,
              xp_lots = map (exported_lot created) (wallet_lots d (w_id x)),
              xp_holds = map (exported_hold created) (rev (filter (\<lambda>h. hold_wallet h = w_id x) (holds d))),
              xp_debts = map (exported_debt created) (filter (\<lambda>x'. debt_wallet x' = w_id x) (debts d)),
              xp_transactions = map exported_txn (rev (filter (\<lambda>t. txn_wallet t = w_id x) (txns d))),
              xp_subscription = sub\<rparr>)"

end
