(* ===== verification/Provider_Client.thy ===== *)
theory Provider_Client
  imports Checkout
begin

section \<open>The payment provider (providers/base.py, providers/stripe.py)\<close>

text \<open>
  What the application asks of the provider, and what it does when the provider cannot be asked. The
  provider's library is the argument \<open>api\<close>: one function per call, each answering an object or
  raising. A provider without a key refuses every call unless the deployment opted into placeholders.
\<close>

datatype api_error = InvalidRequest string | NotFound404 | ApiFailure string

record stripe_api =
  api_checkout :: "dict \<Rightarrow> api_error + dict"
  api_portal :: "dict \<Rightarrow> api_error + dict"
  api_modify :: "string \<Rightarrow> dict \<Rightarrow> api_error + unit"
  api_retrieve :: "string \<Rightarrow> api_error + dict"
  api_construct_event :: "string \<Rightarrow> string \<Rightarrow> string \<Rightarrow> api_error + dict"

datatype provider_error =
    ProviderNotConfiguredError string
  | NoProviderCustomerError
  | SlugKeyError string
  | ProviderValueError string
  | ApiRaised api_error

text \<open>Whether the library can be imported, the keys (the empty text is none), the switch.\<close>

record provider_settings =
  ps_sdk :: bool
  ps_secret_key :: string
  ps_webhook_secret :: string
  ps_allow_unconfigured :: setting

definition allow_unconfigured_payment_provider :: "provider_settings \<Rightarrow> bool" where
  "allow_unconfigured_payment_provider ps = opened (ps_allow_unconfigured ps)"

definition is_configured :: "provider_settings \<Rightarrow> bool" where
  "is_configured ps = (ps_sdk ps \<and> ps_secret_key ps \<noteq> [])"

definition refuse_unless_dev_placeholders_allowed :: "provider_settings \<Rightarrow> string \<Rightarrow> 'a \<Rightarrow> provider_error + 'a" where
  "refuse_unless_dev_placeholders_allowed ps operation placeholder =
     (if allow_unconfigured_payment_provider ps then Inr placeholder else Inl (ProviderNotConfiguredError operation))"

subsection \<open>Checkout\<close>

text \<open>Every request has one line of quantity one; a package is paid once, a plan every month.\<close>

definition session_request :: "string \<Rightarrow> uid \<Rightarrow> string \<Rightarrow> string \<Rightarrow> string \<Rightarrow> string \<Rightarrow> dict \<Rightarrow> dict" where
  "session_request mode u kind slug success_url cancel_url price_data =
     [(''mode'', JStr mode), (''payment_method_types'', JArr [JStr ''card'']),
      (''success_url'', JStr success_url), (''cancel_url'', JStr cancel_url),
      (''client_reference_id'', JStr u), (''metadata'', JObj [(''user_id'', JStr u), (kind, JStr slug)]),
      (''line_items'', JArr [JObj [(''price_data'', JObj price_data), (''quantity'', JInt 1)]])]"

definition package_request :: "user \<Rightarrow> credit_package \<Rightarrow> string \<Rightarrow> string \<Rightarrow> dict" where
  "package_request user pkg success_url cancel_url =
     session_request ''payment'' (u_id user) ''package'' (cp_slug pkg) success_url cancel_url
       [(''currency'', JStr (lower (cp_currency pkg))),
        (''product_data'', JObj [(''name'', JStr (''Credit pack: '' @ cp_name pkg))]),
        (''unit_amount'', JInt (cp_price_cents pkg))]"

definition plan_request :: "user \<Rightarrow> plan_entry \<Rightarrow> string \<Rightarrow> string \<Rightarrow> dict" where
  "plan_request user plan success_url cancel_url =
     session_request ''subscription'' (u_id user) ''plan'' (pe_slug plan) success_url cancel_url
       [(''currency'', JStr (lower (pe_currency plan))), (''recurring'', JObj [(''interval'', JStr ''month'')]),
        (''product_data'', JObj [(''name'', JStr (pe_name plan))]), (''unit_amount'', JInt (pe_price_cents plan))]"

definition placeholder_checkout :: "string \<Rightarrow> string \<Rightarrow> string \<times> string" where
  "placeholder_checkout kind slug =
     (''https://example.invalid/stripe-not-configured/'' @ kind @ ''/'' @ slug, ''cs_dev_'' @ slug)"

definition text_field :: "dict \<Rightarrow> string \<Rightarrow> provider_error + string" where
  "text_field obj key = (case dget obj key of Some (JStr s) \<Rightarrow> Inr s | _ \<Rightarrow> Inl (SlugKeyError key))"

definition opened_session :: "stripe_api \<Rightarrow> dict \<Rightarrow> provider_error + string \<times> string" where
  "opened_session api request =
     (case api_checkout api request of
        Inl e \<Rightarrow> Inl (ApiRaised e)
      | Inr session \<Rightarrow>
          (case text_field session ''url'' of
             Inl e \<Rightarrow> Inl e
           | Inr url \<Rightarrow> (case text_field session ''id'' of Inl e \<Rightarrow> Inl e | Inr i \<Rightarrow> Inr (url, i))))"

definition create_checkout_session ::
    "provider_settings \<Rightarrow> stripe_api \<Rightarrow> settings \<Rightarrow> user \<Rightarrow> string option \<Rightarrow> string option \<Rightarrow> string \<Rightarrow> string
     \<Rightarrow> provider_error + string \<times> string" where
  "create_checkout_session ps api cf user package plan success_url cancel_url =
     (if \<not> unset package
      then (case package_by_slug (cf_packages cf) (the package) of
              None \<Rightarrow> Inl (SlugKeyError (the package))
            | Some pkg \<Rightarrow>
                if \<not> is_configured ps
                then refuse_unless_dev_placeholders_allowed ps ''a package checkout'' (placeholder_checkout ''package'' (cp_slug pkg))
                else opened_session api (package_request user pkg success_url cancel_url))
      else (case Option.bind plan (get_plan (cf_plans cf)) of
              None \<Rightarrow> Inl (SlugKeyError (case plan of Some p \<Rightarrow> p | None \<Rightarrow> ''None''))
            | Some entry \<Rightarrow>
                if \<not> is_configured ps
                then refuse_unless_dev_placeholders_allowed ps ''a plan checkout'' (placeholder_checkout ''plan'' (pe_slug entry))
                else opened_session api (plan_request user entry success_url cancel_url)))"

subsection \<open>Portal, cancel, re-reading, webhooks\<close>

definition create_portal_session ::
    "provider_settings \<Rightarrow> stripe_api \<Rightarrow> string \<Rightarrow> string \<Rightarrow> provider_error + string" where
  "create_portal_session ps api customer_id return_url =
     (if \<not> is_configured ps
      then refuse_unless_dev_placeholders_allowed ps ''the customer portal'' ''https://example.invalid/stripe-portal-not-configured''
      else if customer_id = [] then Inl NoProviderCustomerError
      else case api_portal api [(''customer'', JStr customer_id), (''return_url'', JStr return_url)] of
             Inl (InvalidRequest why) \<Rightarrow> Inl (ProviderNotConfiguredError (''the customer portal was refused by Stripe: '' @ why))
           | Inl e \<Rightarrow> Inl (ApiRaised e)
           | Inr portal \<Rightarrow> text_field portal ''url'')"

definition cancel_subscription :: "provider_settings \<Rightarrow> stripe_api \<Rightarrow> string \<Rightarrow> provider_error + unit" where
  "cancel_subscription ps api subscription_id =
     (if \<not> is_configured ps then refuse_unless_dev_placeholders_allowed ps ''a subscription cancel'' ()
      else if subscription_id = [] then Inr ()
      else case api_modify api subscription_id [(''cancel_at_period_end'', JBool True)] of
             Inl e \<Rightarrow> Inl (ApiRaised e) | Inr u \<Rightarrow> Inr ())"

definition fetch_subscription ::
    "provider_settings \<Rightarrow> stripe_api \<Rightarrow> string \<Rightarrow> provider_error + dict option" where
  "fetch_subscription ps api subscription_id =
     (if \<not> is_configured ps then Inl (ProviderNotConfiguredError ''reconciliation'')
      else if subscription_id = [] then Inr None
      else case api_retrieve api subscription_id of
             Inl NotFound404 \<Rightarrow> Inr None
           | Inl e \<Rightarrow> Inl (ApiRaised e)
           | Inr sub \<Rightarrow> Inr (Some sub))"

definition verify_webhook ::
    "provider_settings \<Rightarrow> stripe_api \<Rightarrow> string \<Rightarrow> string \<Rightarrow> provider_error + dict" where
  "verify_webhook ps api payload signature =
     (if \<not> ps_sdk ps \<or> ps_webhook_secret ps = [] then Inl (ProviderValueError ''Stripe is not configured'')
      else case api_construct_event api payload signature (ps_webhook_secret ps) of
             Inl e \<Rightarrow> Inl (ApiRaised e) | Inr event \<Rightarrow> Inr event)"

end
