(* ===== verification/Redirects.thy ===== *)
theory Redirects
  imports Conf
begin

section \<open>Where a payment may send the browser back (redirects.py)\<close>

text \<open>
  A checkout and the customer portal return the browser to a URL. One the request supplies must
  have an origin the configuration names; the configured fallbacks are trusted. The origin is read
  with the standard library's \<open>urlsplit\<close>, modelled here for texts of ASCII characters. Its check of
  a bracketed host (an IPv6 literal) is the argument \<open>bracketed\<close>: whether the library accepts the
  authority. What \<open>urlsplit\<close> or \<open>.port\<close> raise is \<open>Inl\<close>.
\<close>

text \<open>The switch and the texts of the configuration this part reads.\<close>

record redirect_settings =
  rs_allowed :: "string list"
  rs_success_url :: string
  rs_cancel_url :: string
  rs_return_url :: string
  rs_frontend :: string
  rs_frontend_env :: string
  rs_unvalidated :: setting

datatype redirect_error = StapelValidationError string | UrlValueError

definition ERR_400_REDIRECT_URL_NOT_CONFIGURED :: string where
  "ERR_400_REDIRECT_URL_NOT_CONFIGURED = ''error.400.redirect_url_not_configured''"

definition ERR_400_REDIRECT_URL_NOT_ALLOWED :: string where
  "ERR_400_REDIRECT_URL_NOT_ALLOWED = ''error.400.redirect_url_not_allowed''"

definition allow_unvalidated_redirect_urls :: "redirect_settings \<Rightarrow> bool" where
  "allow_unvalidated_redirect_urls rs = opened (rs_unvalidated rs)"

definition ALLOWED_SCHEMES :: "string list" where
  "ALLOWED_SCHEMES = [''http'', ''https'']"

definition default_port :: "string \<Rightarrow> int" where
  "default_port scheme = (if scheme = ''http'' then 80 else 443)"

subsection \<open>Splitting a URL\<close>

definition code_of :: "char \<Rightarrow> nat" where
  "code_of c = of_char c"

definition is_alpha :: "char \<Rightarrow> bool" where
  "is_alpha c = (let n = code_of c in (65 \<le> n \<and> n \<le> 90) \<or> (97 \<le> n \<and> n \<le> 122))"

definition scheme_char :: "char \<Rightarrow> bool" where
  "scheme_char c = (is_alpha c \<or> is_digit c \<or> c \<in> {CHR ''+'', CHR ''-'', CHR ''.''})"

definition blank :: "char \<Rightarrow> bool" where
  "blank c = (code_of c \<le> 32)"

definition unsafe :: "char \<Rightarrow> bool" where
  "unsafe c = (code_of c \<in> {9, 10, 13})"

definition until :: "char set \<Rightarrow> string \<Rightarrow> string" where
  "until cs s = takeWhile (\<lambda>c. c \<notin> cs) s"

definition beyond :: "char set \<Rightarrow> string \<Rightarrow> string" where
  "beyond cs s = drop 1 (dropWhile (\<lambda>c. c \<notin> cs) s)"

text \<open>The part after the last of a character (\<open>rpartition\<close>), the whole text where there is none.\<close>

definition after_last :: "char \<Rightarrow> string \<Rightarrow> string" where
  "after_last x s = rev (takeWhile (\<lambda>c. c \<noteq> x) (rev s))"

definition cleaned :: "string \<Rightarrow> string" where
  "cleaned url = filter (\<lambda>c. \<not> unsafe c) (dropWhile blank url)"

text \<open>Scheme and rest: no scheme where the text before the first colon is not one.\<close>

definition split_scheme :: "string \<Rightarrow> string \<times> string" where
  "split_scheme url =
     (let pre = until {CHR '':''} url
      in if CHR '':'' \<in> set url \<and> pre \<noteq> [] \<and> is_alpha (hd pre) \<and> list_all scheme_char pre
         then (lower pre, beyond {CHR '':''} url) else ([], url))"

definition netloc_of :: "string \<Rightarrow> string" where
  "netloc_of rest =
     (if take 2 rest = ''//'' then until {CHR ''/'', CHR ''?'', CHR ''#''} (drop 2 rest) else [])"

definition bad_brackets :: "(string \<Rightarrow> bool) \<Rightarrow> string \<Rightarrow> bool" where
  "bad_brackets bracketed netloc =
     (if CHR ''['' \<in> set netloc \<longleftrightarrow> CHR '']'' \<in> set netloc
      then CHR ''['' \<in> set netloc \<and> \<not> bracketed netloc else True)"

definition urlsplit :: "(string \<Rightarrow> bool) \<Rightarrow> string \<Rightarrow> redirect_error + string \<times> string" where
  "urlsplit bracketed url =
     (let (scheme, rest) = split_scheme (cleaned url); netloc = netloc_of rest
      in if bad_brackets bracketed netloc then Inl UrlValueError else Inr (scheme, netloc))"

text \<open>Host and port of an authority; the host's lower case is taken by the caller.\<close>

definition hostinfo :: "string \<Rightarrow> string \<times> string" where
  "hostinfo netloc =
     (let info = after_last (CHR ''@'') netloc
      in if CHR ''['' \<in> set info
         then (let b = beyond {CHR ''[''} info in (until {CHR '']''} b, beyond {CHR '':''} (beyond {CHR '']''} b)))
         else (until {CHR '':''} info, beyond {CHR '':''} info))"

definition port_number :: "string \<Rightarrow> int" where
  "port_number s = fold (\<lambda>c a. a * 10 + int (code_of c - 48)) s 0"

definition port_of :: "string \<Rightarrow> redirect_error + int option" where
  "port_of s =
     (if s = [] then Inr None
      else if \<not> list_all is_digit s \<or> 65535 < port_number s then Inl UrlValueError
      else Inr (Some (port_number s)))"

subsection \<open>Origins\<close>

definition spell_origin :: "string \<Rightarrow> string \<Rightarrow> int \<Rightarrow> string" where
  "spell_origin scheme host port =
     (if port = default_port scheme then scheme @ ''://'' @ host else scheme @ ''://'' @ host @ '':'' @ int_str port)"

definition origin_of :: "(string \<Rightarrow> bool) \<Rightarrow> string \<Rightarrow> redirect_error + string option" where
  "origin_of bracketed url =
     (if url = [] \<or> CHR 0x5C \<in> set url then Inr None
      else case urlsplit bracketed (strip url) of
             Inl e \<Rightarrow> Inl e
           | Inr (scheme, netloc) \<Rightarrow>
               if scheme \<notin> set ALLOWED_SCHEMES \<or> netloc = [] then Inr None
               else let (host, p) = hostinfo netloc
                    in if host = [] then Inr None
                       else case port_of p of
                              Inl e \<Rightarrow> Inl e
                            | Inr port \<Rightarrow>
                                Inr (Some (spell_origin scheme (lower host)
                                  (case port of Some n \<Rightarrow> if n = 0 then default_port scheme else n
                                    | None \<Rightarrow> default_port scheme))))"

definition frontend_url :: "redirect_settings \<Rightarrow> string" where
  "frontend_url rs = (if rs_frontend rs \<noteq> [] then rs_frontend rs else rs_frontend_env rs)"

definition candidates :: "redirect_settings \<Rightarrow> string list" where
  "candidates rs = rs_allowed rs @ [rs_success_url rs, rs_cancel_url rs, rs_return_url rs] @ [frontend_url rs]"

fun origins :: "(string \<Rightarrow> bool) \<Rightarrow> string list \<Rightarrow> redirect_error + string list" where
  "origins bracketed [] = Inr []"
| "origins bracketed (c # cs) =
     (case origin_of bracketed c of
        Inl e \<Rightarrow> Inl e
      | Inr x \<Rightarrow>
          (case origins bracketed cs of
             Inl e \<Rightarrow> Inl e
           | Inr os \<Rightarrow> Inr (case x of None \<Rightarrow> os | Some o1 \<Rightarrow> o1 # os)))"

definition allowed_origins :: "(string \<Rightarrow> bool) \<Rightarrow> redirect_settings \<Rightarrow> redirect_error + string list" where
  "allowed_origins bracketed rs = origins bracketed (candidates rs)"

definition assert_allowed :: "(string \<Rightarrow> bool) \<Rightarrow> redirect_settings \<Rightarrow> string \<Rightarrow> redirect_error + unit" where
  "assert_allowed bracketed rs url =
     (if allow_unvalidated_redirect_urls rs then Inr ()
      else case origin_of bracketed url of
             Inl e \<Rightarrow> Inl e
           | Inr None \<Rightarrow> Inl (StapelValidationError ERR_400_REDIRECT_URL_NOT_ALLOWED)
           | Inr (Some x) \<Rightarrow>
               (case allowed_origins bracketed rs of
                  Inl e \<Rightarrow> Inl e
                | Inr os \<Rightarrow> if x \<in> set os then Inr ()
                             else Inl (StapelValidationError ERR_400_REDIRECT_URL_NOT_ALLOWED)))"

text \<open>The setting is passed by its reader. \<open>rstrip\<close> takes every trailing slash.\<close>

definition configured_redirect :: "redirect_settings \<Rightarrow> string \<Rightarrow> string \<Rightarrow> redirect_error + string" where
  "configured_redirect rs configured path =
     (if configured \<noteq> [] then Inr configured
      else if frontend_url rs \<noteq> []
      then Inr (rev (dropWhile (\<lambda>c. c = CHR ''/'') (rev (frontend_url rs))) @ path)
      else Inl (StapelValidationError ERR_400_REDIRECT_URL_NOT_CONFIGURED))"

definition resolve_redirect ::
    "(string \<Rightarrow> bool) \<Rightarrow> redirect_settings \<Rightarrow> string option \<Rightarrow> (redirect_settings \<Rightarrow> string) \<Rightarrow> string
     \<Rightarrow> redirect_error + string" where
  "resolve_redirect bracketed rs explicit key path =
     (case explicit of
        None \<Rightarrow> configured_redirect rs (key rs) path
      | Some url \<Rightarrow>
          if url = [] then configured_redirect rs (key rs) path
          else (case assert_allowed bracketed rs url of Inl e \<Rightarrow> Inl e | Inr u \<Rightarrow> Inr url))"

end
