(* ===== verification/Views.thy ===== *)
theory Views
  imports Provider_Client Redirects Comps
begin

section \<open>The HTTP views (views.py, dto.py, serializers.py)\<close>

text \<open>
  Every view the application's own clients call: who may, what the request must look like, what the
  services are asked, what is answered. A data class of \<open>dto.py\<close> is a record; instants and ids go out
  as texts, which the records keep as instants and row ids. The framework decodes and types a
  request before a serializer sees it. Columns the tables of the model do not keep are here: the
  creation and update times of rows are an argument, the recharge settings of wallets a map.
\<close>

subsection \<open>Data classes\<close>

record lot_response =
  lr_id :: uuid
  lr_remaining :: int
  lr_initial :: int
  lr_source :: string
  lr_expires :: "time option"
  lr_created :: time

record hold_response =
  hr_id :: uuid
  hr_credits :: int
  hr_type :: string
  hr_desc :: "string option"
  hr_status :: string
  hr_expires :: "time option"
  hr_created :: time

record debt_response =
  xr_id :: uuid
  xr_outstanding :: int
  xr_initial :: int
  xr_reason :: string
  xr_type :: string
  xr_desc :: "string option"
  xr_created :: time

record expiring_response =
  er_credits :: int
  er_expires :: time

record wallet_response =
  wr_user :: "uid option"
  wr_balance :: int
  wr_currency :: string
  wr_recharge_enabled :: bool
  wr_recharge_threshold :: int
  wr_recharge_package :: "string option"
  wr_low_balance_alert :: int
  wr_updated :: time
  wr_lots :: "lot_response list"
  wr_holds :: "hold_response list"
  wr_expiring :: "expiring_response option"
  wr_debts :: "debt_response list"
  wr_owed :: int

record wallet_update_request =
  wu_enabled :: "bool option"
  wu_threshold :: "int option"
  wu_package :: "string option"
  wu_alert :: "int option"

record transaction_response =
  tr_id :: uuid
  tr_type :: string
  tr_amount :: "int option"
  tr_delta :: int
  tr_balance :: int
  tr_desc :: "string option"
  tr_meta :: dict
  tr_created :: time

record transaction_list_response =
  tl_transactions :: "transaction_response list"
  tl_next_cursor :: "string option"
  tl_has_more :: bool

record package_response =
  kr_slug :: string
  kr_name :: string
  kr_credits :: int
  kr_price_cents :: int
  kr_currency :: string

record plan_response =
  pr_slug :: string
  pr_name :: string
  pr_price_cents :: int
  pr_currency :: string
  pr_monthly :: int
  pr_storage :: int
  pr_desc :: string

record catalog_response =
  cg_packages :: "package_response list"
  cg_plans :: "plan_response list"

record checkout_request =
  cq_package :: "string option"
  cq_plan :: "string option"
  cq_success_url :: "string option"
  cq_cancel_url :: "string option"

record checkout_response =
  ck_checkout_url :: string
  ck_session_id :: string

record subscription_response =
  sr_plan :: string
  sr_status :: string
  sr_stripe_id :: "string option"
  sr_period_start :: "time option"
  sr_period_end :: "time option"
  sr_cancelled_at :: "time option"
  sr_cancel_at_end :: bool
  sr_is_paid :: bool
  sr_is_active :: bool

record credit_debit_request =
  dq_user :: uid
  dq_credits :: int
  dq_type :: string
  dq_desc :: "string option"
  dq_meta :: "dict option"
  dq_key :: "string option"

record credit_operation_response =
  co_transaction :: uuid
  co_balance :: int

record simulated_checkout_response =
  sc_transaction :: "string option"
  sc_credits :: int
  sc_balance :: int
  sc_session :: string
  sc_simulated :: bool

subsection \<open>The site, its callers and its answers\<close>

record recharge =
  rg_enabled :: bool
  rg_threshold :: int
  rg_package :: "string option"
  rg_alert :: int

record site =
  si_db :: db
  si_recharge :: "uuid \<Rightarrow> recharge"

record row_times =
  rt_created :: "uuid \<Rightarrow> time"
  rt_updated :: "uuid \<Rightarrow> time"

text \<open>What the permission classes of the core library say of the session or service that calls.\<close>

record caller =
  ca_user :: user
  ca_username :: string
  ca_authenticated :: bool
  ca_anonymous :: bool
  ca_staff :: bool
  ca_service :: bool

datatype page =
    WalletPage wallet_response
  | TransactionsPage transaction_list_response
  | CatalogPage catalog_response
  | CheckoutPage checkout_response
  | PortalPage string
  | SubscriptionPage subscription_response
  | SimulatedPage simulated_checkout_response
  | OperationPage credit_operation_response

text \<open>\<open>Crashed\<close> is an exception no view catches, the framework's answer 500.\<close>

datatype answer = Answered page | Refused nat string | BadGateway | Denied | Crashed

definition ERR_404_WALLET_NOT_FOUND :: string where "ERR_404_WALLET_NOT_FOUND = ''error.404.wallet_not_found''"
definition ERR_404_SUBSCRIPTION_NOT_FOUND :: string where "ERR_404_SUBSCRIPTION_NOT_FOUND = ''error.404.subscription_not_found''"
definition ERR_402_INSUFFICIENT_CREDITS :: string where "ERR_402_INSUFFICIENT_CREDITS = ''error.402.insufficient_credits''"
definition ERR_400_INVALID_PACKAGE :: string where "ERR_400_INVALID_PACKAGE = ''error.400.invalid_package''"
definition ERR_400_INVALID_PLAN :: string where "ERR_400_INVALID_PLAN = ''error.400.invalid_plan''"
definition ERR_400_AMOUNT_INVALID :: string where "ERR_400_AMOUNT_INVALID = ''error.400.amount_invalid''"
definition ERR_409_SUBSCRIPTION_NOT_PAID :: string where "ERR_409_SUBSCRIPTION_NOT_PAID = ''error.409.subscription_not_paid''"
definition ERR_409_NO_BILLING_ACCOUNT :: string where "ERR_409_NO_BILLING_ACCOUNT = ''error.409.no_billing_account''"

subsection \<open>Mappers\<close>

fun expiry :: "deadline \<Rightarrow> time option" where
  "expiry (At t) = Some t"
| "expiry Never = None"

definition lot_to_dto :: "row_times \<Rightarrow> lot \<Rightarrow> lot_response" where
  "lot_to_dto rt l =
     \<lparr>lr_id = lot_id l, lr_remaining = lot_remaining l, lr_initial = lot_initial l,
      lr_source = lot_source_value (lot_source l), lr_expires = expiry (lot_expires l), lr_created = rt_created rt (lot_id l)\<rparr>"

definition hold_to_dto :: "row_times \<Rightarrow> hold \<Rightarrow> hold_response" where
  "hold_to_dto rt h =
     \<lparr>hr_id = hold_id h, hr_credits = hold_credits h, hr_type = txn_type_value (hold_type h), hr_desc = hold_desc h,
      hr_status = hold_status_value (hold_status h), hr_expires = expiry (hold_expires h), hr_created = rt_created rt (hold_id h)\<rparr>"

definition debt_to_dto :: "row_times \<Rightarrow> debt \<Rightarrow> debt_response" where
  "debt_to_dto rt x =
     \<lparr>xr_id = debt_id x, xr_outstanding = debt_outstanding x, xr_initial = debt_initial x,
      xr_reason = debt_reason_value (debt_reason x), xr_type = txn_type_value (debt_type x), xr_desc = debt_desc x,
      xr_created = rt_created rt (debt_id x)\<rparr>"

text \<open>The first dated lot in spend order: \<open>None\<close> where no lot has a deadline.\<close>

fun first_dated :: "lot list \<Rightarrow> expiring_response option" where
  "first_dated [] = None"
| "first_dated (l # ls) =
     (case lot_expires l of At t \<Rightarrow> Some \<lparr>er_credits = lot_remaining l, er_expires = t\<rparr> | Never \<Rightarrow> first_dated ls)"

definition wallet_to_dto :: "row_times \<Rightarrow> time \<Rightarrow> uuid \<Rightarrow> site \<Rightarrow> wallet_response" where
  "wallet_to_dto rt now w s =
     (let d = si_db s; g = si_recharge s w; ls = live_lots_ordered d w now; xs = open_debts d w;
          row = get_row w_id w (wallets d)
      in \<lparr>wr_user = Option.bind row w_user, wr_balance = wallet_balance d w,
          wr_currency = (case row of Some x \<Rightarrow> w_currency x | None \<Rightarrow> []),
          wr_recharge_enabled = rg_enabled g, wr_recharge_threshold = rg_threshold g,
          wr_recharge_package = rg_package g, wr_low_balance_alert = rg_alert g, wr_updated = rt_updated rt w,
          wr_lots = map (lot_to_dto rt) ls, wr_holds = map (hold_to_dto rt) (open_holds d w),
          wr_expiring = first_dated ls, wr_debts = map (debt_to_dto rt) xs,
          wr_owed = (\<Sum>x\<leftarrow>xs. debt_outstanding x)\<rparr>)"

definition txn_to_dto :: "txn \<Rightarrow> transaction_response" where
  "txn_to_dto t =
     \<lparr>tr_id = txn_id t, tr_type = txn_type_value (txn_type t), tr_amount = txn_amount t, tr_delta = txn_delta t,
      tr_balance = txn_balance t, tr_desc = txn_desc t, tr_meta = txn_meta t, tr_created = txn_created t\<rparr>"

definition sub_to_dto :: "time \<Rightarrow> subscription \<Rightarrow> subscription_response" where
  "sub_to_dto now s =
     \<lparr>sr_plan = sub_plan s, sr_status = sub_status_value (sub_status s), sr_stripe_id = sub_stripe_id s,
      sr_period_start = sub_period_start s, sr_period_end = sub_period_end s, sr_cancelled_at = sub_cancelled_at s,
      sr_cancel_at_end = sub_cancel_at_end s, sr_is_paid = is_paid s, sr_is_active = is_active now s\<rparr>"

subsection \<open>Validation\<close>

definition validate_auto_recharge_package :: "settings \<Rightarrow> string option \<Rightarrow> string option" where
  "validate_auto_recharge_package cf v =
     (case v of
        None \<Rightarrow> None
      | Some p \<Rightarrow> if package_by_slug (cf_packages cf) p = None then Some ERR_400_INVALID_PACKAGE else None)"

definition validate_checkout :: "settings \<Rightarrow> checkout_request \<Rightarrow> string option" where
  "validate_checkout cf q =
     (let package = cq_package q; plan = cq_plan q
      in if (\<not> unset package \<and> \<not> unset plan) \<or> (unset package \<and> unset plan) then Some ERR_400_INVALID_PACKAGE
         else if \<not> unset package \<and> package_by_slug (cf_packages cf) (the package) = None then Some ERR_400_INVALID_PACKAGE
         else if \<not> unset plan \<and> get_plan (cf_plans cf) (the plan) = None then Some ERR_400_INVALID_PLAN
         else None)"

definition txn_type_values :: "txn_type list" where
  "txn_type_values =
     [CREDIT_PURCHASE, TRANSCRIPTION_CHARGE, AI_CHARGE, SUBSCRIPTION_BONUS, REFUND, ADJUSTMENT, EXPIRATION]"

definition txn_type_of :: "string \<Rightarrow> txn_type option" where
  "txn_type_of s = find (\<lambda>ty. txn_type_value ty = s) txn_type_values"

definition validate_debit :: "credit_debit_request \<Rightarrow> string option" where
  "validate_debit q =
     (if dq_credits q \<le> 0 \<or> txn_type_of (dq_type q) = None then Some ERR_400_AMOUNT_INVALID else None)"

subsection \<open>Who may\<close>

definition account_session :: "caller \<Rightarrow> bool" where
  "account_session c = (ca_authenticated c \<and> \<not> ca_anonymous c)"

definition staff_session :: "caller \<Rightarrow> bool" where
  "staff_session c = (ca_authenticated c \<and> ca_staff c \<and> \<not> ca_anonymous c)"

definition service_or_staff :: "caller \<Rightarrow> bool" where
  "service_or_staff c = (ca_service c \<or> ca_staff c)"

subsection \<open>Wallet and transactions\<close>

definition wallet_get :: "row_times \<Rightarrow> time \<Rightarrow> caller \<Rightarrow> site \<Rightarrow> answer \<times> site" where
  "wallet_get rt now c s =
     (let (w, d) = get_or_create_wallet (u_id (ca_user c)) (si_db s); s1 = s\<lparr>si_db := d\<rparr>
      in (Answered (WalletPage (wallet_to_dto rt now w s1)), s1))"

definition updated_recharge :: "wallet_update_request \<Rightarrow> recharge \<Rightarrow> recharge" where
  "updated_recharge q g =
     \<lparr>rg_enabled = (case wu_enabled q of Some b \<Rightarrow> b | None \<Rightarrow> rg_enabled g),
      rg_threshold = (case wu_threshold q of Some n \<Rightarrow> n | None \<Rightarrow> rg_threshold g),
      rg_package = (case wu_package q of Some p \<Rightarrow> Some p | None \<Rightarrow> rg_package g),
      rg_alert = (case wu_alert q of Some n \<Rightarrow> n | None \<Rightarrow> rg_alert g)\<rparr>"

definition wallet_patch ::
    "settings \<Rightarrow> row_times \<Rightarrow> time \<Rightarrow> caller \<Rightarrow> wallet_update_request \<Rightarrow> site \<Rightarrow> answer \<times> site" where
  "wallet_patch cf rt now c q s =
     (let (w, d) = get_or_create_wallet (u_id (ca_user c)) (si_db s); s1 = s\<lparr>si_db := d\<rparr>
      in case validate_auto_recharge_package cf (wu_package q) of
           Some key \<Rightarrow> (Refused 400 key, s1)
         | None \<Rightarrow>
             (let s2 = s1\<lparr>si_recharge := (si_recharge s1)(w := updated_recharge q (si_recharge s1 w))\<rparr>
              in (Answered (WalletPage (wallet_to_dto rt now w s2)), s2)))"

text \<open>Rows are kept in creation order, so the newest are the last.\<close>

definition transactions_get :: "caller \<Rightarrow> site \<Rightarrow> answer \<times> site" where
  "transactions_get c s =
     (let (w, d) = get_or_create_wallet (u_id (ca_user c)) (si_db s);
          rows = take 100 (rev (filter (\<lambda>t. txn_wallet t = w) (txns d)))
      in (Answered (TransactionsPage \<lparr>tl_transactions = map txn_to_dto rows, tl_next_cursor = None, tl_has_more = False\<rparr>),
          s\<lparr>si_db := d\<rparr>))"

definition catalog_get :: "settings \<Rightarrow> site \<Rightarrow> answer \<times> site" where
  "catalog_get cf s =
     (Answered (CatalogPage
        \<lparr>cg_packages = map (\<lambda>p. \<lparr>kr_slug = cp_slug p, kr_name = cp_name p, kr_credits = cp_credits p,
                                 kr_price_cents = cp_price_cents p, kr_currency = cp_currency p\<rparr>) (cf_packages cf),
         cg_plans = map (\<lambda>p. \<lparr>pr_slug = pe_slug p, pr_name = pe_name p, pr_price_cents = pe_price_cents p,
                              pr_currency = pe_currency p, pr_monthly = pe_monthly p, pr_storage = pe_storage p,
                              pr_desc = pe_desc p\<rparr>) (cf_plans cf)\<rparr>), s)"

subsection \<open>Checkout and portal\<close>

text \<open>What the provider and the redirect guard need besides the request.\<close>

record gateway =
  gw_redirects :: redirect_settings
  gw_bracketed :: "string \<Rightarrow> bool"
  gw_provider :: provider_settings
  gw_api :: stripe_api

definition redirect_answer :: "redirect_error \<Rightarrow> answer" where
  "redirect_answer e = (case e of StapelValidationError key \<Rightarrow> Refused 400 key | UrlValueError \<Rightarrow> Crashed)"

definition provider_answer :: "provider_error \<Rightarrow> answer" where
  "provider_answer e = (case e of ProviderNotConfiguredError w \<Rightarrow> BadGateway | _ \<Rightarrow> Crashed)"

definition checkout_post :: "gateway \<Rightarrow> settings \<Rightarrow> caller \<Rightarrow> checkout_request \<Rightarrow> site \<Rightarrow> answer \<times> site" where
  "checkout_post gw cf c q s =
     (case validate_checkout cf q of
        Some key \<Rightarrow> (Refused 400 key, s)
      | None \<Rightarrow>
          (case resolve_redirect (gw_bracketed gw) (gw_redirects gw) (cq_success_url q) rs_success_url ''/billing/success'' of
             Inl e \<Rightarrow> (redirect_answer e, s)
           | Inr success \<Rightarrow>
               (case resolve_redirect (gw_bracketed gw) (gw_redirects gw) (cq_cancel_url q) rs_cancel_url ''/billing/cancel'' of
                  Inl e \<Rightarrow> (redirect_answer e, s)
                | Inr cancel \<Rightarrow>
                    (case create_checkout_session (gw_provider gw) (gw_api gw) cf (ca_user c) (cq_package q) (cq_plan q)
                            success cancel of
                       Inl e \<Rightarrow> (provider_answer e, s)
                     | Inr (url, i) \<Rightarrow> (Answered (CheckoutPage \<lparr>ck_checkout_url = url, ck_session_id = i\<rparr>), s)))))"

definition portal_answer :: "provider_error + string \<Rightarrow> answer" where
  "portal_answer r =
     (case r of
        Inr url \<Rightarrow> Answered (PortalPage url)
      | Inl NoProviderCustomerError \<Rightarrow> Refused 409 ERR_409_NO_BILLING_ACCOUNT
      | Inl e \<Rightarrow> provider_answer e)"

definition portal_get :: "gateway \<Rightarrow> caller \<Rightarrow> string option \<Rightarrow> site \<Rightarrow> answer \<times> site" where
  "portal_get gw c return_to s =
     (let customer = (case sub_of_user (si_db s) (u_id (ca_user c)) of Some x \<Rightarrow> sub_customer_id x | None \<Rightarrow> None)
      in case resolve_redirect (gw_bracketed gw) (gw_redirects gw) return_to rs_return_url ''/billing'' of
           Inl e \<Rightarrow> (redirect_answer e, s)
         | Inr url \<Rightarrow>
             if unset customer then (Refused 409 ERR_409_NO_BILLING_ACCOUNT, s)
             else (portal_answer (create_portal_session (gw_provider gw) (gw_api gw) (the customer) url), s))"

subsection \<open>Subscription\<close>

definition subscription_get :: "time \<Rightarrow> caller \<Rightarrow> site \<Rightarrow> answer \<times> site" where
  "subscription_get now c s =
     (let d = si_db s; u = u_id (ca_user c)
      in case sub_of_user d u of
           Some x \<Rightarrow> (Answered (SubscriptionPage (sub_to_dto now x)), s)
         | None \<Rightarrow>
             (let x = new_subscription (next_id d) u DEFAULT_PLAN
              in (Answered (SubscriptionPage (sub_to_dto now x)),
                  s\<lparr>si_db := d\<lparr>subs := subs d @ [x], next_id := Suc (next_id d)\<rparr>\<rparr>)))"

definition cancelled_row :: "time \<Rightarrow> subscription \<Rightarrow> subscription" where
  "cancelled_row now x = x\<lparr>sub_cancelled_at := Some now, sub_cancel_at_end := True\<rparr>"

definition cancel_post :: "gateway \<Rightarrow> time \<Rightarrow> caller \<Rightarrow> site \<Rightarrow> answer \<times> site" where
  "cancel_post gw now c s =
     (let d = si_db s
      in case sub_of_user d (u_id (ca_user c)) of
           None \<Rightarrow> (Refused 404 ERR_404_SUBSCRIPTION_NOT_FOUND, s)
         | Some x \<Rightarrow>
             if \<not> is_paid x then (Refused 409 ERR_409_SUBSCRIPTION_NOT_PAID, s)
             else case cancel_subscription (gw_provider gw) (gw_api gw) (the (sub_stripe_id x)) of
                    Inl e \<Rightarrow> (BadGateway, s)
                  | Inr u \<Rightarrow>
                      (Answered (SubscriptionPage (sub_to_dto now (cancelled_row now x))),
                       s\<lparr>si_db := save_sub (cancelled_row now x) d\<rparr>))"

subsection \<open>Staff and services\<close>

definition simulated_post :: "settings \<Rightarrow> time \<Rightarrow> string \<Rightarrow> caller \<Rightarrow> string \<Rightarrow> site \<Rightarrow> answer \<times> site" where
  "simulated_post cf now hex c package s =
     (case simulate_checkout_completed cf now hex (ca_user c) package (ca_username c) (si_db s) of
        Inl (ValueError e) \<Rightarrow> (Refused 400 ERR_400_INVALID_PACKAGE, s)
      | Inl e \<Rightarrow> (Crashed, s)
      | Inr (r, d) \<Rightarrow>
          (Answered (SimulatedPage \<lparr>sc_transaction = sp_transaction r, sc_credits = sp_credits r, sc_balance = sp_balance r,
                                    sc_session = sp_session r, sc_simulated = True\<rparr>), s\<lparr>si_db := d\<rparr>))"

definition answered_row :: "debit_answer \<Rightarrow> txn" where
  "answered_row a = (case a of Whole t \<Rightarrow> t | Result r \<Rightarrow> dr_txn r)"

definition debit_post :: "settings \<Rightarrow> time \<Rightarrow> credit_debit_request \<Rightarrow> site \<Rightarrow> answer \<times> site" where
  "debit_post cf now q s =
     (case validate_debit q of
        Some key \<Rightarrow> (Refused 400 key, s)
      | None \<Rightarrow>
          (case find_user cf (dq_user q) of
             None \<Rightarrow> (Refused 404 ERR_404_WALLET_NOT_FOUND, s)
           | Some user \<Rightarrow>
               (case debit cf now
                       \<lparr>de_user = user, de_credits = dq_credits q, de_type = the (txn_type_of (dq_type q)),
                        de_desc = dq_desc q, de_meta = (case dq_meta q of Some m \<Rightarrow> m | None \<Rightarrow> []),
                        de_key = (case dq_key q of Some k \<Rightarrow> k | None \<Rightarrow> []), de_partial = False\<rparr> (si_db s) of
                  Inl (InsufficientCreditsError x y) \<Rightarrow> (Refused 402 ERR_402_INSUFFICIENT_CREDITS, s)
                | Inl e \<Rightarrow> (Crashed, s)
                | Inr (a, d) \<Rightarrow>
                    (Answered (OperationPage \<lparr>co_transaction = txn_id (answered_row a), co_balance = txn_balance (answered_row a)\<rparr>),
                     s\<lparr>si_db := d\<rparr>))))"

subsection \<open>One call\<close>

datatype api_call =
    GetWallet
  | PatchWallet wallet_update_request
  | GetTransactions
  | GetCatalog
  | PostCheckout checkout_request
  | GetPortal "string option"
  | GetSubscription
  | PostCancel
  | PostSimulated string string
  | PostDebit credit_debit_request

fun may_call :: "caller \<Rightarrow> api_call \<Rightarrow> bool" where
  "may_call c GetCatalog = True"
| "may_call c (PostSimulated hex p) = staff_session c"
| "may_call c (PostDebit q) = service_or_staff c"
| "may_call c _ = account_session c"

fun respond :: "gateway \<Rightarrow> settings \<Rightarrow> row_times \<Rightarrow> time \<Rightarrow> caller \<Rightarrow> api_call \<Rightarrow> site \<Rightarrow> answer \<times> site" where
  "respond gw cf rt now c GetWallet s = wallet_get rt now c s"
| "respond gw cf rt now c (PatchWallet q) s = wallet_patch cf rt now c q s"
| "respond gw cf rt now c GetTransactions s = transactions_get c s"
| "respond gw cf rt now c GetCatalog s = catalog_get cf s"
| "respond gw cf rt now c (PostCheckout q) s = checkout_post gw cf c q s"
| "respond gw cf rt now c (GetPortal r) s = portal_get gw c r s"
| "respond gw cf rt now c GetSubscription s = subscription_get now c s"
| "respond gw cf rt now c PostCancel s = cancel_post gw now c s"
| "respond gw cf rt now c (PostSimulated hex p) s = simulated_post cf now hex c p s"
| "respond gw cf rt now c (PostDebit q) s = debit_post cf now q s"

definition request :: "gateway \<Rightarrow> settings \<Rightarrow> row_times \<Rightarrow> time \<Rightarrow> caller \<Rightarrow> api_call \<Rightarrow> site \<Rightarrow> answer \<times> site" where
  "request gw cf rt now c call s = (if may_call c call then respond gw cf rt now c call s else (Denied, s))"


end
