(* ===== verification/Provider_Claims.thy ===== *)
theory Provider_Claims
  imports Provider_Client Subscription_Claims
begin

section \<open>From the checkout to the credits\<close>

text \<open>
  The session the application opens and the event that reports it completed are two ends of one
  purchase, with the provider in between. What the application relies on is that a completed session
  repeats the mode, the reference and the metadata of its request, is settled, and totals the
  one line of the request less a discount (\<open>completed_session\<close>).
\<close>

definition line_data :: "dict \<Rightarrow> dict" where
  "line_data request = (case darr request ''line_items'' of JObj l # ls \<Rightarrow> dobj l ''price_data'' | _ \<Rightarrow> [])"

definition completed_session :: "dict \<Rightarrow> int \<Rightarrow> dict \<Rightarrow> bool" where
  "completed_session request discount obj =
     (dget obj ''mode'' = dget request ''mode'' \<and>
      dget obj ''client_reference_id'' = dget request ''client_reference_id'' \<and>
      dget obj ''metadata'' = dget request ''metadata'' \<and>
      get_json obj ''payment_status'' \<in> JStr ` set SETTLED_PAYMENT_STATUSES \<and>
      dget obj ''currency'' = dget (line_data request) ''currency'' \<and>
      or_zero (dget (dobj obj ''total_details'') ''amount_discount'') = JInt discount \<and>
      (\<exists>price. dget (line_data request) ''unit_amount'' = Some (JInt price) \<and>
         dget obj ''amount_total'' = Some (JInt (price - discount))))"

lemma lower_lower [simp]: "lower (lower s) = lower s"
proof -
  have "lower_char (lower_char c) = lower_char c" for c
    by (auto simp: lower_char_def Let_def of_char_of)
  then show ?thesis by (simp add: lower_def)
qed

lemma package_request_fields:
  "dget (package_request user pkg su cu) ''mode'' = Some (JStr ''payment'')"
  "dget (package_request user pkg su cu) ''client_reference_id'' = Some (JStr (u_id user))"
  "dget (package_request user pkg su cu) ''metadata'' =
     Some (JObj [(''user_id'', JStr (u_id user)), (''package'', JStr (cp_slug pkg))])"
  "dget (line_data (package_request user pkg su cu)) ''currency'' = Some (JStr (lower (cp_currency pkg)))"
  "dget (line_data (package_request user pkg su cu)) ''unit_amount'' = Some (JInt (cp_price_cents pkg))"
  by (simp_all add: package_request_def session_request_def line_data_def dget_def darr_def dobj_def)

text \<open>A completed session of a package request is read as what was asked for.\<close>

lemma completed_package_read:
  assumes "completed_session (package_request user pkg su cu) discount obj"
    and "find_user cf (u_id user) = Some user" and "u_id user \<noteq> []"
    and "package_by_slug (cf_packages cf) slug = Some pkg" and "slug \<noteq> []"
  shows "session_owner cf obj = Some user" "session_package cf obj = Some pkg" "session_plan cf obj = None"
    "reconcile_checkout_session cf obj ''payment'' (cp_currency pkg) (Some (cp_price_cents pkg)) = None"
proof -
  note f = assms(1)[unfolded completed_session_def package_request_fields]
  have s: "cp_slug pkg = slug" using package_by_slug_slug[OF assms(4)] by simp
  from f have m: "dobj obj ''metadata'' = [(''user_id'', JStr (u_id user)), (''package'', JStr slug)]"
    by (simp add: dobj_def s)
  have md: "dget (dobj obj ''metadata'') ''user_id'' = Some (JStr (u_id user))" "dstr (dobj obj ''metadata'') ''package'' = Some slug"
    "dstr (dobj obj ''metadata'') ''plan'' = None" by (simp_all add: m dget_def dstr_def)
  from f show "session_owner cf obj = Some user"
    using assms(2,3) by (simp add: session_owner_def md id_text_def get_json_def)
  show "session_package cf obj = Some pkg" using assms(4,5) by (simp add: session_package_def md)
  show "session_plan cf obj = None" by (simp add: session_plan_def md)
  from f have "get_json obj ''mode'' = JStr ''payment''" "get_json obj ''amount_total'' = JInt (cp_price_cents pkg - discount)"
    "currency_text obj = lower (cp_currency pkg)"
    by (auto simp: get_json_def currency_text_def dstr_def)
  with f show "reconcile_checkout_session cf obj ''payment'' (cp_currency pkg) (Some (cp_price_cents pkg)) = None"
    by (simp add: reconcile_checkout_session_def)
qed

text \<open>What the provider is asked for when a checkout is opened.\<close>

lemma checkout_asks:
  assumes "create_checkout_session ps api cf user (Some slug) plan su cu = Inr (url, i)" and "slug \<noteq> []" and "is_configured ps"
  obtains pkg where "package_by_slug (cf_packages cf) slug = Some pkg"
    "opened_session api (package_request user pkg su cu) = Inr (url, i)"
  using assms by (auto simp: create_checkout_session_def unset_def split: option.splits)

text \<open>What is sold is what is granted. A package checkout the application opened for a user of its own,
  reported completed by a provider that repeats what it was asked, grants exactly that package: the
  buyer's account moves by the specification of a credit that repays debt first and nobody else's
  moves, the credits sit in a lot that never expires, one payment of the catalogue price is
  announced, and the session is claimed.\<close>

theorem bought_is_granted:
  assumes "create_checkout_session ps api cf user (Some slug) None su cu = Inr (url, i)" and "is_configured ps"
    and "slug \<noteq> []" and "find_user cf (u_id user) = Some user" and "u_id user \<noteq> []" and "inv d"
    and "\<forall>pkg. package_by_slug (cf_packages cf) slug = Some pkg \<longrightarrow>
           completed_session (package_request user pkg su cu) discount (event_object event) \<and> 0 < cp_credits pkg"
    and "dget (event_object event) ''id'' = Some (JStr i)" and "i \<noteq> []" and "\<not> granted d (session_claim i)"
  shows "\<exists>pkg d' (t :: txn). package_by_slug (cf_packages cf) slug = Some pkg \<and>
    opened_session api (package_request user pkg su cu) = Inr (url, i) \<and>
    handle_checkout_completed cf now event d = Inr (False, d') \<and> inv d' \<and>
    user_account d' (u_id user) now = spec_credit (cp_credits pkg) True (user_account d (u_id user) now) \<and>
    (\<forall>v. v \<noteq> u_id user \<longrightarrow> user_account d' v now = user_account d v now) \<and>
    (\<exists>l \<in> set (lots d'). lot_source l = PURCHASE \<and> lot_initial l = cp_credits pkg \<and> lot_expires l = Never \<and>
       lot_grant l = Some (txn_id t)) \<and>
    (\<exists>m. outbox d' = outbox d @ [m] \<and> em_topic m = ''payment.completed'' \<and> em_key m = u_id user \<and>
       dget (em_payload m) ''amount_cents'' = Some (JInt (cp_price_cents pkg)) \<and>
       dget (em_payload m) ''transaction_id'' = Some (JStr (uuid_str (txn_id t)))) \<and>
    granted d' (session_claim i)"
proof -
  obtain pkg where p: "package_by_slug (cf_packages cf) slug = Some pkg"
    and o: "opened_session api (package_request user pkg su cu) = Inr (url, i)"
    by (rule checkout_asks[OF assms(1,3,2)])
  from assms(7) p have c: "completed_session (package_request user pkg su cu) discount (event_object event)"
    and n: "0 < cp_credits pkg" by blast+
  note r = completed_package_read[OF c assms(4,5) p assms(3)]
  have i: "id_text (dget (event_object event) ''id'') = Some i" using assms(8,9) by (simp add: id_text_def)
  from package_checkout[OF assms(6) r i assms(10) n, of now] p o show ?thesis by blast
qed

definition ps0 :: provider_settings where
  "ps0 = \<lparr>ps_sdk = True, ps_secret_key = ''sk'', ps_webhook_secret = ''wh'', ps_allow_unconfigured = SNone\<rparr>"

definition api0 :: stripe_api where
  "api0 = \<lparr>api_checkout = (\<lambda>r. Inr [(''url'', JStr ''https://pay.test/cs_1''), (''id'', JStr ''cs_1'')]),
     api_portal = (\<lambda>r. Inl (InvalidRequest ''no settings'')), api_modify = (\<lambda>i a. Inr ()),
     api_retrieve = (\<lambda>i. Inl NotFound404), api_construct_event = (\<lambda>p s k. Inl (ApiFailure ''signature''))\<rparr>"

lemma completed_starter:
  "completed_session (package_request alice (hd DEFAULT_CREDIT_PACKAGES) [] []) 0
     (event_object (package_session ''cs_1'' ''paid'' 500))"
proof -
  let ?o = "event_object (package_session ''cs_1'' ''paid'' 500)"
  let ?p = "hd DEFAULT_CREDIT_PACKAGES"
  have f: "dget ?o ''mode'' = dget (package_request alice ?p [] []) ''mode''"
    "dget ?o ''client_reference_id'' = dget (package_request alice ?p [] []) ''client_reference_id''"
    "dget ?o ''metadata'' = dget (package_request alice ?p [] []) ''metadata''"
    "get_json ?o ''payment_status'' = JStr ''paid''" "''paid'' \<in> set SETTLED_PAYMENT_STATUSES"
    "dget ?o ''currency'' = dget (line_data (package_request alice ?p [] [])) ''currency''"
    "or_zero (dget (dobj ?o ''total_details'') ''amount_discount'') = JInt 0"
    "dget (line_data (package_request alice ?p [] [])) ''unit_amount'' = Some (JInt 500)"
    "dget ?o ''amount_total'' = Some (JInt (500 - 0))"
    by code_simp+
  show ?thesis unfolding completed_session_def using f by blast
qed

theorem bought_is_granted_witness:
  "\<exists>d'. handle_checkout_completed cf0 20 (package_session ''cs_1'' ''paid'' 500) empty_db = Inr (False, d') \<and>
     granted d' (session_claim ''cs_1'')"
proof -
  let ?o = "event_object (package_session ''cs_1'' ''paid'' 500)"
  let ?p = "hd DEFAULT_CREDIT_PACKAGES"
  have h: "create_checkout_session ps0 api0 cf0 alice (Some ''starter'') None [] [] = Inr (''https://pay.test/cs_1'', ''cs_1'')"
    "is_configured ps0" "''starter'' \<noteq> []" "find_user cf0 (u_id alice) = Some alice" "u_id alice \<noteq> []"
    "dget ?o ''id'' = Some (JStr ''cs_1'')" "''cs_1'' \<noteq> []" "\<not> granted empty_db (session_claim ''cs_1'')"
    "package_by_slug (cf_packages cf0) ''starter'' = Some ?p" "0 < cp_credits ?p"
    by code_simp+
  have "completed_session (package_request alice ?p [] []) 0 ?o" by (rule completed_starter)
  with h(9,10) have c: "\<forall>pkg. package_by_slug (cf_packages cf0) ''starter'' = Some pkg \<longrightarrow>
      completed_session (package_request alice pkg [] []) 0 ?o \<and> 0 < cp_credits pkg" by simp
  from bought_is_granted[OF h(1-5) inv_empty c h(6-8), of 20] show ?thesis
    by (elim exE conjE) (intro exI conjI; assumption)
qed

subsection \<open>A provider that cannot be asked\<close>

text \<open>Without a key nothing is answered as if it had happened, and the provider is not called.\<close>

lemma unconfigured_refuses:
  assumes "\<not> is_configured ps" and "\<not> allow_unconfigured_payment_provider ps"
  shows "\<not> (\<exists>r. create_checkout_session ps api cf user package plan su cu = Inr r)"
    "\<not> (\<exists>r. create_portal_session ps api c ret = Inr r)" "\<not> (\<exists>r. cancel_subscription ps api s = Inr r)"
    "\<not> (\<exists>r. fetch_subscription ps api s = Inr r)"
  using assms by (auto simp: create_checkout_session_def create_portal_session_def cancel_subscription_def
      fetch_subscription_def refuse_unless_dev_placeholders_allowed_def split: option.splits if_splits)

end
