(* ===== verification/Redirect_Claims.thy ===== *)
theory Redirect_Claims
  imports Redirects
begin

section \<open>The guard against open redirects\<close>

text \<open>
  The guard reads the URL with \<open>urlsplit\<close>, the victim's browser with the URL standard's parser: spaces
  and control characters trimmed on both sides, a backslash a slash, any number of slashes before the
  authority. \<open>browser_target\<close> is that parser for the two schemes a redirect may have and hosts that
  are names. What the guard lets through, the browser sends to the very origin the guard saw.
\<close>

definition browser_text :: "string \<Rightarrow> string" where
  "browser_text url = filter (\<lambda>c. \<not> unsafe c) (rev (dropWhile blank (rev (dropWhile blank url))))"

definition browser_authority :: "string \<Rightarrow> string" where
  "browser_authority rest =
     until {CHR ''/'', CHR 0x5C, CHR ''?'', CHR ''#''} (dropWhile (\<lambda>c. c \<in> {CHR ''/'', CHR 0x5C}) rest)"

definition browser_target :: "string \<Rightarrow> (string \<times> string \<times> int) option" where
  "browser_target url =
     (let (scheme, rest) = split_scheme (browser_text url); info = after_last (CHR ''@'') (browser_authority rest)
      in if scheme \<notin> set ALLOWED_SCHEMES \<or> until {CHR '':''} info = [] then None
         else case port_of (beyond {CHR '':''} info) of
                Inl e \<Rightarrow> None
              | Inr port \<Rightarrow> Some (scheme, lower (until {CHR '':''} info),
                              (case port of Some n \<Rightarrow> n | None \<Rightarrow> default_port scheme)))"

subsection \<open>Trimming\<close>

definition blanks :: "string \<Rightarrow> bool" where
  "blanks s = (\<forall>c \<in> set s. blank c)"

lemma space_blank: "is_space c \<Longrightarrow> blank c"
  by (auto simp: is_space_def blank_def code_of_def Let_def)

lemma not_blank [simp]:
  "\<not> blank CHR '':''" "\<not> blank CHR ''/''" "\<not> blank CHR ''?''" "\<not> blank CHR ''#''" "\<not> blank CHR ''@''" "\<not> blank CHR ''[''"
  by (simp_all add: blank_def code_of_def)

lemma digit_not_blank: "is_digit c \<Longrightarrow> \<not> blank c"
  by (auto simp: is_digit_def blank_def code_of_def Let_def)

lemma lower_blank: "blank c \<Longrightarrow> lower_char c = c"
  by (auto simp: lower_char_def blank_def code_of_def Let_def)

lemma blanks_append [simp]: "blanks (s @ t) = (blanks s \<and> blanks t)"
  by (auto simp: blanks_def)

lemma blanks_drop: "blanks s \<Longrightarrow> dropWhile blank (s @ t) = dropWhile blank t" "blanks s \<Longrightarrow> dropWhile blank s = []"
  by (auto simp: blanks_def)

lemma rtrim_split:
  obtains s where "xs = rev (dropWhile P (rev xs)) @ s" "\<forall>c \<in> set s. P c"
proof -
  have "xs = rev (takeWhile P (rev xs) @ dropWhile P (rev xs))" by (metis rev_rev_ident takeWhile_dropWhile_id)
  then have "xs = rev (dropWhile P (rev xs)) @ rev (takeWhile P (rev xs))" by (metis rev_append)
  moreover have "\<forall>c \<in> set (rev (takeWhile P (rev xs))). P c" by (auto dest: set_takeWhileD)
  ultimately show ?thesis by (rule that)
qed

lemma strip_split:
  obtains a s where "url = a @ strip url @ s" "blanks a" "blanks s"
proof -
  obtain s where s: "dropWhile is_space url = strip url @ s" "\<forall>c \<in> set s. is_space c"
    unfolding strip_def by (rule rtrim_split)
  have "url = takeWhile is_space url @ strip url @ s" using s(1) by (metis takeWhile_dropWhile_id)
  moreover have "blanks (takeWhile is_space url)" "blanks s"
    using s(2) by (auto simp: blanks_def intro: space_blank dest: set_takeWhileD)
  ultimately show ?thesis by (rule that)
qed

lemma cleaned_text:
  obtains t where "cleaned (strip url) = browser_text url @ t" "blanks t"
proof -
  obtain a s where u: "url = a @ strip url @ s" "blanks a" "blanks s" by (rule strip_split)
  let ?K = "dropWhile blank (strip url)"
  have d: "dropWhile blank url = dropWhile blank (strip url @ s)" using u(1) blanks_drop(1)[OF u(2), of "strip url @ s"] by simp
  show ?thesis
  proof (cases "blanks (strip url)")
    case True
    with d u(3) have "dropWhile blank url = []" by (simp add: blanks_drop)
    with True that[of "[]"] show ?thesis by (simp add: cleaned_def browser_text_def blanks_drop blanks_def[of "[]"])
  next
    case False
    then have "dropWhile blank (strip url @ s) = ?K @ s"
      unfolding blanks_def using dropWhile_append1[of _ "strip url" blank s] by blast
    with d have r: "rev (dropWhile blank (rev (dropWhile blank url))) = rev (dropWhile blank (rev ?K))"
      using blanks_drop(1)[of "rev s"] u(3) by (simp add: blanks_def)
    obtain t0 where t0: "?K = rev (dropWhile blank (rev ?K)) @ t0" "\<forall>c \<in> set t0. blank c" by (rule rtrim_split)
    have "cleaned (strip url) = browser_text url @ filter (\<lambda>c. \<not> unsafe c) t0"
      unfolding cleaned_def browser_text_def r by (subst t0(1)) simp
    moreover have "blanks (filter (\<lambda>c. \<not> unsafe c) t0)" using t0(2) by (simp add: blanks_def)
    ultimately show ?thesis by (rule that)
  qed
qed

subsection \<open>Parts of a text with a blank tail\<close>

lemma before_tail:
  assumes "blanks t" and "\<forall>c \<in> cs. \<not> blank c"
  shows "until cs (s @ t) = (if set s \<inter> cs = {} then s @ t else until cs s)"
    and "set s \<inter> cs \<noteq> {} \<Longrightarrow> beyond cs (s @ t) = beyond cs s @ t" and "set s \<inter> cs = {} \<Longrightarrow> beyond cs (s @ t) = []"
proof -
  have t: "\<forall>c \<in> set t. c \<notin> cs" using assms by (auto simp: blanks_def)
  show "until cs (s @ t) = (if set s \<inter> cs = {} then s @ t else until cs s)"
    using t by (auto simp: until_def takeWhile_append)
  show "beyond cs (s @ t) = beyond cs s @ t" if c: "set s \<inter> cs \<noteq> {}"
  proof -
    from c obtain x where x: "x \<in> set s" "x \<in> cs" by blast
    then have "dropWhile (\<lambda>c. c \<notin> cs) s \<noteq> []" by (auto simp: dropWhile_eq_Nil_conv)
    moreover have "dropWhile (\<lambda>c. c \<notin> cs) (s @ t) = dropWhile (\<lambda>c. c \<notin> cs) s @ t" using x by (intro dropWhile_append1) auto
    ultimately show ?thesis by (simp add: beyond_def Suc_le_eq)
  qed
  show "beyond cs (s @ t) = []" if "set s \<inter> cs = {}"
  proof -
    have "dropWhile (\<lambda>c. c \<notin> cs) (s @ t) = []" unfolding dropWhile_eq_Nil_conv using t that by auto
    then show ?thesis by (simp only: beyond_def drop_Nil)
  qed
qed

lemma split_scheme_tail:
  assumes "split_scheme s = (sc, r)" and "blanks t"
  shows "split_scheme (s @ t) = (sc, r @ t)"
proof (cases "CHR '':'' \<in> set s")
  case True
  with before_tail[OF assms(2), of "{CHR '':''}" s] assms(1) show ?thesis
    by (auto simp: split_scheme_def Let_def split: if_splits)
next
  case False
  moreover have "CHR '':'' \<notin> set t" using assms(2) by (auto simp: blanks_def)
  ultimately show ?thesis using assms(1) by (simp add: split_scheme_def Let_def)
qed

lemma split_scheme_set: "split_scheme s = (sc, r) \<Longrightarrow> set r \<subseteq> set s"
  by (auto simp: split_scheme_def Let_def beyond_def split: if_splits dest: in_set_dropD set_dropWhileD)

lemma netloc_authority:
  assumes "netloc_of (r @ t) \<noteq> []" and "blanks t" and "CHR 0x5C \<notin> set r"
  obtains t' where "netloc_of (r @ t) = browser_authority r @ t'" "blanks t'"
proof -
  let ?ds = "{CHR ''/'', CHR ''?'', CHR ''#''}"
  have two: "take 2 (r @ t) = ''//''" using assms(1) by (simp add: netloc_of_def split: if_splits)
  have "r \<noteq> [] \<and> tl r \<noteq> []"
  proof (rule ccontr)
    assume "\<not> ?thesis"
    then have "CHR ''/'' \<in> set t" using two by (cases r; cases "tl r"; cases t; cases "tl t") (auto split: if_splits)
    with assms(2) show False by (auto simp: blanks_def)
  qed
  then obtain a b q where r: "r = a # b # q" by (metis list.exhaust list.sel(3))
  with two have r': "r = CHR ''/'' # CHR ''/'' # q" by simp
  have n: "netloc_of (r @ t) = until ?ds (q @ t)" using r' by (simp add: netloc_of_def)
  have h: "q = [] \<or> hd q \<noteq> CHR ''/''" using assms(1) unfolding n by (cases q) (auto simp: until_def)
  then have dw: "dropWhile (\<lambda>c. c \<in> {CHR ''/'', CHR 0x5C}) r = q"
    using assms(3) r' by (cases q) auto
  have au: "browser_authority r = until ?ds q"
    unfolding browser_authority_def dw until_def using assms(3) r' by (intro takeWhile_cong) auto
  have "until ?ds (q @ t) = (if set q \<inter> ?ds = {} then q @ t else until ?ds q)"
    using assms(2) by (intro before_tail(1)) auto
  moreover have "until ?ds q = q" if "set q \<inter> ?ds = {}" using that by (auto simp: until_def takeWhile_eq_all_conv)
  ultimately show ?thesis using that[of t] that[of "[]"] assms(2) unfolding n au by (auto simp: blanks_def split: if_splits)
qed

lemma after_last_tail: "blanks t \<Longrightarrow> after_last CHR ''@'' (s @ t) = after_last CHR ''@'' s @ t"
proof -
  assume "blanks t"
  then have "takeWhile (\<lambda>c. c \<noteq> CHR ''@'') (rev t @ rev s) = rev t @ takeWhile (\<lambda>c. c \<noteq> CHR ''@'') (rev s)"
    by (intro takeWhile_append2) (auto simp: blanks_def)
  then show ?thesis by (simp add: after_last_def)
qed

text \<open>The blank tail is empty: a port has none, and a host that has one shows it in its origin.\<close>

lemma host_tail:
  assumes "blanks t" and "CHR ''['' \<notin> set (au @ t)" and "hostinfo (au @ t) = (host, p)"
    and "port_of p = Inr port" and "\<forall>c \<in> set (lower host). \<not> blank c"
  shows "host = until {CHR '':''} (after_last CHR ''@'' au) \<and> p = beyond {CHR '':''} (after_last CHR ''@'' au)"
proof -
  let ?i = "after_last CHR ''@'' au"
  have c: "\<forall>c \<in> {CHR '':''}. \<not> blank c" by simp
  have "set (after_last CHR ''@'' (au @ t)) \<subseteq> set (au @ t)" by (auto simp: after_last_def dest: set_takeWhileD)
  with assms(2) have b: "CHR ''['' \<notin> set (after_last CHR ''@'' (au @ t))" by blast
  have hp: "host = until {CHR '':''} (?i @ t)" "p = beyond {CHR '':''} (?i @ t)"
    using assms(3) b by (simp_all add: hostinfo_def Let_def after_last_tail[OF assms(1)])
  show ?thesis
  proof (cases "set ?i \<inter> {CHR '':''} = {}")
    case True
    have host: "host = ?i @ t" using before_tail(1)[OF assms(1) c, of ?i] True hp(1) by simp
    have "blank c \<Longrightarrow> c \<in> set host \<Longrightarrow> False" for c
      using assms(5) lower_blank[of c] by (force simp: lower_def)
    then have "t = []" using assms(1) host by (cases t) (auto simp: blanks_def)
    with hp show ?thesis by simp
  next
    case False
    then have p: "p = beyond {CHR '':''} ?i @ t" using before_tail(2)[OF assms(1) c] hp(2) by simp
    have "\<forall>c \<in> set p. is_digit c" using assms(4) by (auto simp: port_of_def list_all_iff split: if_splits)
    then have "t = []" using p assms(1) digit_not_blank by (cases t) (auto simp: blanks_def)
    with hp show ?thesis by simp
  qed
qed

lemma cleaned_set: "set (cleaned s) \<subseteq> set s"
  by (auto simp: cleaned_def dest: set_dropWhileD)

lemma strip_set: "set (strip s) \<subseteq> set s"
  by (auto simp: strip_def dest!: set_dropWhileD)

lemma netloc_set: "set (netloc_of r) \<subseteq> set r"
  by (auto simp: netloc_of_def until_def dest!: set_takeWhileD in_set_dropD)

lemma spelled_host: "set host \<subseteq> set (spell_origin scheme host port)"
  by (auto simp: spell_origin_def)

text \<open>What the guard saw is where the browser goes.\<close>

lemma origin_target:
  assumes "origin_of bracketed url = Inr (Some x)" and "CHR ''['' \<notin> set url" and "\<forall>c \<in> set x. \<not> blank c"
  shows "\<exists>s h p. browser_target url = Some (s, h, p) \<and> x = spell_origin s h (if p = 0 then default_port s else p)"
proof -
  obtain t where t: "cleaned (strip url) = browser_text url @ t" "blanks t" by (rule cleaned_text)
  obtain sc r where sp: "split_scheme (browser_text url) = (sc, r)" by (rule prod.exhaust)
  have ss: "split_scheme (cleaned (strip url)) = (sc, r @ t)" unfolding t(1) by (rule split_scheme_tail[OF sp t(2)])
  have sub: "set (r @ t) \<subseteq> set url" using split_scheme_set[OF ss] cleaned_set strip_set by blast
  let ?n = "netloc_of (r @ t)"
  obtain host p where hi: "hostinfo ?n = (host, p)" by (rule prod.exhaust)
  from assms(1) have bs: "CHR 0x5C \<notin> set url" and ok: "\<not> bad_brackets bracketed ?n" "sc \<in> set ALLOWED_SCHEMES" "?n \<noteq> []"
    and hne: "host \<noteq> []"
    by (auto simp: origin_of_def urlsplit_def Let_def ss hi split: if_splits)
  with assms(1) obtain port where po: "port_of p = Inr port"
    and x: "x = spell_origin sc (lower host) (case port of Some n \<Rightarrow> if n = 0 then default_port sc else n | None \<Rightarrow> default_port sc)"
    by (auto simp: origin_of_def urlsplit_def Let_def ss hi split: if_splits sum.splits)
  obtain t' where n: "?n = browser_authority r @ t'" "blanks t'"
    using netloc_authority[OF ok(3) t(2)] sub bs by auto
  have nb: "CHR ''['' \<notin> set (browser_authority r @ t')" using netloc_set[of "r @ t"] sub assms(2) unfolding n(1)[symmetric] by blast
  have hb: "\<forall>c \<in> set (lower host). \<not> blank c" using assms(3) spelled_host unfolding x by blast
  from host_tail[OF n(2) nb hi[unfolded n(1)] po hb]
  have "host = until {CHR '':''} (after_last CHR ''@'' (browser_authority r))"
    "p = beyond {CHR '':''} (after_last CHR ''@'' (browser_authority r))" by simp_all
  with sp ok(2) hne po have "browser_target url = Some (sc, lower host, case port of Some n \<Rightarrow> n | None \<Rightarrow> default_port sc)"
    by (simp add: browser_target_def Let_def)
  then show ?thesis unfolding x by (auto simp: default_port_def split: option.splits if_splits)
qed

lemma origins_from: "origins bracketed cs = Inr os \<Longrightarrow> x \<in> set os \<Longrightarrow> \<exists>c \<in> set cs. origin_of bracketed c = Inr (Some x)"
  by (induction cs arbitrary: os) (auto split: sum.splits option.splits)


definition rs0 :: redirect_settings where
  "rs0 = \<lparr>rs_allowed = [''https://app.test''], rs_success_url = [], rs_cancel_url = [], rs_return_url = [],
     rs_frontend = ''https://www.test/'', rs_frontend_env = [], rs_unvalidated = SNone\<rparr>"


text \<open>
  Tricks the guard sees through, and two it does not look for: a port that is no number raises instead
  of being refused, and port 0 passes for the scheme's own.
\<close>

lemma guard_cases:
  "origin_of b ''https://app.test@evil.test/'' = Inr (Some ''https://evil.test'')"
  "origin_of b ''//evil.test/'' = Inr None" "origin_of b ''https:///evil.test/'' = Inr None"
  "origin_of b ''javascript:alert(1)'' = Inr None" "origin_of b (''https://app.test'' @ CHR 0x5C # ''@evil.test'') = Inr None"
  by code_simp+

lemma bad_port_raises: "resolve_redirect b rs0 (Some ''https://app.test:x/'') rs_success_url [] = Inl UrlValueError"
  by code_simp

lemma port_zero_passes: "resolve_redirect b rs0 (Some ''https://app.test:0/'') rs_success_url [] = Inr ''https://app.test:0/''"
  by code_simp


end
