(* ===== verification/Failed_Payments.thy ===== *)
theory Failed_Payments
  imports Checkout
begin

section \<open>Money that did not arrive (services.py)\<close>

text \<open>
  A declined renewal and a declined charge grant nothing and take nothing back: they announce
  \<open>payment.failed\<close> to the owner of the subscription the payload names, if one is known, and do
  nothing otherwise. Amounts are read as \<open>int(value or 0)\<close> reads them; a text that is no number
  raises, and the delivery fails.
\<close>

text \<open>\<open>a or b\<close> on values of a payload.\<close>

definition or_json :: "json option \<Rightarrow> json \<Rightarrow> json" where
  "or_json v w = (case v of Some x \<Rightarrow> if truthy x then x else w | None \<Rightarrow> w)"

definition failed_payment_user :: "dict \<Rightarrow> db \<Rightarrow> uid option \<times> string option" where
  "failed_payment_user obj d =
     (case Option.bind (invoice_subscription_id obj) (sub_by_stripe_id d) of
        Some s \<Rightarrow> (sub_user s, Some (sub_plan s))
      | None \<Rightarrow>
          (let customer = (case dget obj ''customer'' of Some (JObj c) \<Rightarrow> dget c ''id'' | v \<Rightarrow> v)
           in case Option.bind (id_text customer) (sub_by_customer d) of
                Some s \<Rightarrow> (sub_user s, Some (sub_plan s))
              | None \<Rightarrow> (None, None)))"

text \<open>The first of some texts a source states, stripped; one that is blank is not stated.\<close>

definition stated :: "dict \<Rightarrow> string list \<Rightarrow> string option" where
  "stated source keys =
     first_some
       (\<lambda>key. case dget source key of Some (JStr s) \<Rightarrow> if strip s = [] then None else Some (strip s) | _ \<Rightarrow> None)
       keys"

definition decline_reason :: "dict \<Rightarrow> string" where
  "decline_reason obj =
     (let error = as_object (or_json (dget obj ''last_payment_error'') (or_json (dget obj ''outcome'') (JObj [])))
      in case first_some (\<lambda>source. stated source [''seller_message'', ''message'']) [error, obj] of
           Some r \<Rightarrow> r
         | None \<Rightarrow>
             (case first_some
                 (\<lambda>source. stated source [''decline_code'', ''code'', ''failure_code'', ''network_status'']) [error, obj] of
                Some r \<Rightarrow> r
              | None \<Rightarrow> []))"

definition announce_payment_failed :: "time \<Rightarrow> uid \<Rightarrow> json option \<Rightarrow> string \<Rightarrow> dict \<Rightarrow> db \<Rightarrow> error + db" where
  "announce_payment_failed now u amount currency extra d =
     (case int_or_zero amount of
        None \<Rightarrow> Inl (ValueError ''amount is not an integer'')
      | Some n \<Rightarrow>
          Inr (emit ''payment.failed''
            (dmerge
               [(''user_id'', JStr u), (''amount_cents'', JInt n), (''currency'', JStr currency),
                (''created_at'', JTime now)]
               extra)
            u d))"

definition is_final_attempt :: "dict \<Rightarrow> bool" where
  "is_final_attempt obj =
     (if dget obj ''next_payment_attempt'' \<noteq> Some JNull then False
      else if or_json (dget obj ''collection_method'') (JStr ''charge_automatically'') \<noteq> JStr ''charge_automatically''
      then False
      else or_json (dget obj ''billing_reason'') (JStr []) \<noteq> JStr ''subscription_create'')"

fun is_integer :: "json option \<Rightarrow> bool" where
  "is_integer (Some (JInt n)) = True"
| "is_integer (Some (JBool b)) = True"
| "is_integer _ = False"

definition handle_invoice_payment_failed :: "time \<Rightarrow> dict \<Rightarrow> db \<Rightarrow> error + db" where
  "handle_invoice_payment_failed now event d =
     (let obj = event_object event; (owner, plan) = failed_payment_user obj d
      in case owner of
           None \<Rightarrow> Inr d
         | Some u \<Rightarrow>
             announce_payment_failed now u
               (if is_integer (dget obj ''amount_due'') then dget obj ''amount_due'' else dget obj ''amount_remaining'')
               (currency_text obj)
               (announce_extras
                  [(''invoice_id'', get_json obj ''id''), (''plan'', opt_json plan),
                   (''decline_reason'', JStr (decline_reason obj)), (''invoice_url'', JStr (invoice_document_url obj)),
                   (''final_attempt'', if is_final_attempt obj then JBool True else JNull)])
               d)"

definition handle_charge_failed :: "time \<Rightarrow> dict \<Rightarrow> db \<Rightarrow> error + db" where
  "handle_charge_failed now event d =
     (let obj = event_object event
      in if provider_id (dget obj ''invoice'') \<noteq> None then Inr d
         else let (owner, plan) = failed_payment_user obj d
              in case owner of
                   None \<Rightarrow> Inr d
                 | Some u \<Rightarrow>
                     announce_payment_failed now u (dget obj ''amount'') (currency_text obj)
                       (announce_extras
                          [(''payment_intent_id'', or_json (dget obj ''payment_intent'') (get_json obj ''id'')),
                           (''plan'', opt_json plan), (''decline_reason'', JStr (decline_reason obj))])
                       d)"

subsection \<open>They announce and do nothing else\<close>

lemma announce_failed_outbox:
  assumes "announce_payment_failed now u amount currency extra d = Inr d'"
  obtains m where "d' = d\<lparr>outbox := outbox d @ [m]\<rparr>" "em_topic m = ''payment.failed''" "em_key m = u"
  using assms by (auto simp: announce_payment_failed_def emit_def split: option.splits)

lemma invoice_failed_outbox:
  assumes "handle_invoice_payment_failed now event d = Inr d'"
  obtains ms where "d' = d\<lparr>outbox := outbox d @ ms\<rparr>" "length ms \<le> 1"
proof (cases "fst (failed_payment_user (event_object event) d)")
  case None
  with assms that[of "[]"] show ?thesis by (simp add: handle_invoice_payment_failed_def Let_def split_beta)
next
  case (Some u)
  with assms obtain amount extra
    where "announce_payment_failed now u amount (currency_text (event_object event)) extra d = Inr d'"
    by (simp add: handle_invoice_payment_failed_def Let_def split_beta)
  from announce_failed_outbox[OF this] obtain m where "d' = d\<lparr>outbox := outbox d @ [m]\<rparr>" by blast
  with that[of "[m]"] show ?thesis by simp
qed

lemma charge_failed_outbox:
  assumes "handle_charge_failed now event d = Inr d'"
  obtains ms where "d' = d\<lparr>outbox := outbox d @ ms\<rparr>" "length ms \<le> 1"
proof (cases "provider_id (dget (event_object event) ''invoice'') = None \<and> fst (failed_payment_user (event_object event) d) \<noteq> None")
  case False
  with assms have "d' = d"
    by (auto simp: handle_charge_failed_def Let_def split_beta split: if_splits option.splits)
  with that[of "[]"] show ?thesis by simp
next
  case True
  then obtain u where "fst (failed_payment_user (event_object event) d) = Some u" by auto
  with True assms obtain amount extra
    where "announce_payment_failed now u amount (currency_text (event_object event)) extra d = Inr d'"
    by (simp add: handle_charge_failed_def Let_def split_beta)
  from announce_failed_outbox[OF this] obtain m where "d' = d\<lparr>outbox := outbox d @ [m]\<rparr>" by blast
  with that[of "[m]"] show ?thesis by simp
qed

end
