(* ===== verification/Letters.thy ===== *)
theory Letters
  imports Failed_Payments Periods Merge
begin

section \<open>Consumers of events: the merge and the payer's letters (actions.py, notifications.py)\<close>

text \<open>
  Three facts this application announces are heard again by it, to write to the person: a payment
  that went through, a payment that did not, a plan that will not renew. A letter is claimed first
  (under the provider \<open>notify\<close>, keyed on what the letter is about), then handed to the bus; a bus
  that refuses gives the claim back and the handler raises. The bus is the argument \<open>publish\<close>.

  Facts arrive as their schema has them: ids, currencies and slugs are texts, amounts are numbers,
  and a text that spells an instant is \<open>JTime\<close>, which the emitters write in UTC. Dates are those of
  instants from 1970 on. An amount is printed exactly; the source divides by a hundred in floating
  point, which prints the same two decimals for every amount below \<open>2^46\<close>.
\<close>

definition PROVIDER_NOTIFY :: string where "PROVIDER_NOTIFY = ''notify''"

definition TYPE_PAYMENT_SUCCEEDED :: string where "TYPE_PAYMENT_SUCCEEDED = ''billing.payment_succeeded''"
definition TYPE_PAYMENT_FAILED :: string where "TYPE_PAYMENT_FAILED = ''billing.payment_failed''"
definition TYPE_SUBSCRIPTION_ENDING :: string where "TYPE_SUBSCRIPTION_ENDING = ''billing.subscription_ending''"

record notify_settings =
  ns_max_age :: "int option"
  ns_billing_page :: "string option"

text \<open>What a handler raises, a request to the bus, and what a handler did with a fact.\<close>

datatype letter_error = AttributeError | NotificationNotQueued

record letter =
  lt_type :: string
  lt_user :: string
  lt_vars :: dict

datatype reply = Sent letter | AlreadySent | Dropped

subsection \<open>Amounts\<close>

text \<open>Texts are bytes: the signs of the euro, the pound, the rouble and the yen are their UTF-8 spellings.\<close>

definition CURRENCY_SYMBOLS :: "(string \<times> string) list" where
  "CURRENCY_SYMBOLS =
     [(''usd'', ''$''), (''eur'', map char_of [226, 130, 172 :: nat]), (''gbp'', map char_of [194, 163 :: nat]),
      (''rub'', map char_of [226, 130, 189 :: nat]), (''jpy'', map char_of [194, 165 :: nat])]"

definition ZERO_DECIMAL_CURRENCIES :: "string list" where
  "ZERO_DECIMAL_CURRENCIES =
     [''bif'', ''clp'', ''djf'', ''gnf'', ''jpy'', ''kmf'', ''krw'', ''mga'', ''pyg'', ''rwf'', ''ugx'', ''vnd'', ''vuv'',
      ''xaf'', ''xof'', ''xpf'']"

text \<open>The thousands separator of the format \<open>,\<close>: read from the last digit.\<close>

fun grouped :: "string \<Rightarrow> string" where
  "grouped (a # b # c # d # cs) = a # b # c # CHR '','' # grouped (d # cs)"
| "grouped cs = cs"

definition thousands :: "nat \<Rightarrow> string" where
  "thousands n = rev (grouped (rev (uuid_str n)))"

definition signed :: "int \<Rightarrow> string \<Rightarrow> string" where
  "signed n s = (if n < 0 then CHR ''-'' # s else s)"

definition figure :: "string \<Rightarrow> int \<Rightarrow> string" where
  "figure code n =
     (if code \<in> set ZERO_DECIMAL_CURRENCIES then signed n (thousands (nat \<bar>n\<bar>))
      else signed n (thousands (nat (\<bar>n\<bar> div 100)) @ [CHR ''.'', digit (\<bar>n\<bar> div 10), digit \<bar>n\<bar>]))"

definition upper_char :: "char \<Rightarrow> char" where
  "upper_char c = (let n = of_char c :: nat in if 97 \<le> n \<and> n \<le> 122 then char_of (n - 32) else c)"

text \<open>\<open>int(value)\<close>, and the text \<open>value or ''''\<close>: anything else has no string methods.\<close>

fun int_of_json :: "json option \<Rightarrow> int option" where
  "int_of_json (Some (JInt n)) = Some n"
| "int_of_json (Some (JBool b)) = Some (if b then 1 else 0)"
| "int_of_json (Some (JStr s)) = py_int s"
| "int_of_json _ = None"

definition text_or_empty :: "json option \<Rightarrow> letter_error + string" where
  "text_or_empty v =
     (case v of
        None \<Rightarrow> Inr []
      | Some x \<Rightarrow> if \<not> truthy x then Inr [] else (case x of JStr s \<Rightarrow> Inr s | _ \<Rightarrow> Inl AttributeError))"

definition money_text :: "string \<Rightarrow> int \<Rightarrow> string" where
  "money_text code n =
     (case map_of CURRENCY_SYMBOLS code of
        Some symbol \<Rightarrow> symbol @ figure code n
      | None \<Rightarrow> if code = [] then figure code n else figure code n @ [CHR '' ''] @ map upper_char code)"

definition format_amount :: "json option \<Rightarrow> json option \<Rightarrow> letter_error + string" where
  "format_amount amount_cents currency =
     (case int_of_json amount_cents of
        None \<Rightarrow> Inr []
      | Some n \<Rightarrow>
          (case text_or_empty currency of
             Inl e \<Rightarrow> Inl e
           | Inr s \<Rightarrow> Inr (money_text (lower (strip s)) n)))"

subsection \<open>Names, dates and reasons\<close>

definition named :: "string \<Rightarrow> string \<Rightarrow> string" where
  "named name slug = (if name = [] then slug else name)"

definition plan_label :: "settings \<Rightarrow> json \<Rightarrow> string" where
  "plan_label cf plan =
     (case plan of
        JStr s \<Rightarrow> (case get_plan (cf_plans cf) s of Some e \<Rightarrow> named (pe_name e) s | None \<Rightarrow> s)
      | _ \<Rightarrow> py_str plan)"

definition package_label :: "settings \<Rightarrow> json \<Rightarrow> string" where
  "package_label cf package =
     (case package of
        JStr s \<Rightarrow> (case package_by_slug (cf_packages cf) s of Some e \<Rightarrow> named (cp_name e) s | None \<Rightarrow> s)
      | _ \<Rightarrow> py_str package)"

definition item_label :: "settings \<Rightarrow> json \<Rightarrow> json \<Rightarrow> string" where
  "item_label cf package plan =
     (if truthy plan then plan_label cf plan
      else if truthy package then package_label cf package
      else ''your account credit'')"

definition utc_date :: "time \<Rightarrow> string" where
  "utc_date t =
     (let (y, d) = year_from 1970 (t div day_us); m = month_from y 1 d; day = d - days_before_month y m + 1
      in period_key_of (y, m) @ [CHR ''-'', digit (day div 10), digit day])"

definition parse_moment :: "json option \<Rightarrow> time option" where
  "parse_moment v = (case v of Some (JTime t) \<Rightarrow> Some t | _ \<Rightarrow> None)"

definition iso_date :: "json option \<Rightarrow> string" where
  "iso_date v = (case parse_moment v of Some t \<Rightarrow> utc_date t | None \<Rightarrow> [])"

definition NO_TIMESTAMP :: string where "NO_TIMESTAMP = ''carries no usable timestamp''"

definition staleness_refusal :: "notify_settings \<Rightarrow> time \<Rightarrow> json option \<Rightarrow> string option" where
  "staleness_refusal ns now timestamp =
     (case ns_max_age ns of
        None \<Rightarrow> None
      | Some max_age \<Rightarrow>
          if max_age = 0 then None
          else case parse_moment timestamp of
                 None \<Rightarrow> Some NO_TIMESTAMP
               | Some moment \<Rightarrow>
                   if max_age * 1000000 < now - moment
                   then Some (''is '' @ int_str ((now - moment) div day_us) @ '' day(s) old (limit ''
                              @ int_str (max_age div 86400) @ '')'')
                   else None)"

definition billing_page_url :: "notify_settings \<Rightarrow> string" where
  "billing_page_url ns = strip (case ns_billing_page ns of Some s \<Rightarrow> s | None \<Rightarrow> [])"

definition DECLINE_SENTENCES :: "(string \<times> string) list" where
  "DECLINE_SENTENCES =
     [(''insufficient_funds'', ''the card did not have enough available funds''),
      (''card_declined'', ''the card was declined by the bank''),
      (''expired_card'', ''the card has expired''),
      (''incorrect_cvc'', ''the security code did not match''),
      (''processing_error'', ''the bank could not process the payment''),
      (''authentication_required'', ''the bank asked for confirmation that was not given'')]"

definition humanise_decline :: "string \<Rightarrow> string" where
  "humanise_decline reason =
     (let key = map (\<lambda>c. if c = CHR '' '' then CHR ''_'' else c) (lower (strip reason))
      in case map_of DECLINE_SENTENCES key of
           Some sentence \<Rightarrow> sentence
         | None \<Rightarrow>
             if CHR ''_'' \<in> set reason \<and> CHR '' '' \<notin> set (strip reason) then [] else strip reason)"

subsection \<open>What a letter says\<close>

definition unless_empty :: "string \<Rightarrow> string \<Rightarrow> dict" where
  "unless_empty key s = (if s = [] then [] else [(key, JStr s)])"

definition service_period :: "dict \<Rightarrow> dict" where
  "service_period payload =
     (let start = iso_date (dget payload ''period_start''); end = iso_date (dget payload ''period_end'')
      in if start \<noteq> [] \<and> end \<noteq> [] then [(''period_start'', JStr start), (''period_end'', JStr end)] else [])"

text \<open>The two variables every letter about a payment has; none where the amount is not a number.\<close>

definition amount_and_item :: "settings \<Rightarrow> dict \<Rightarrow> letter_error + dict option" where
  "amount_and_item cf payload =
     (case format_amount (dget payload ''amount_cents'') (dget payload ''currency'') of
        Inl e \<Rightarrow> Inl e
      | Inr amount \<Rightarrow>
          if amount = [] then Inr None
          else Inr (Some [(''amount'', JStr amount),
                 (''item_name'', JStr (item_label cf (get_json payload ''package'') (get_json payload ''plan'')))]))"

definition payment_succeeded_variables :: "settings \<Rightarrow> dict \<Rightarrow> letter_error + dict option" where
  "payment_succeeded_variables cf payload =
     (case amount_and_item cf payload of
        Inl e \<Rightarrow> Inl e
      | Inr None \<Rightarrow> Inr None
      | Inr (Some vars) \<Rightarrow>
          (case text_or_empty (dget payload ''invoice_url'') of
             Inl e \<Rightarrow> Inl e
           | Inr url \<Rightarrow> Inr (Some (vars @ service_period payload @ unless_empty ''invoice_url'' (strip url)))))"

definition payment_failed_variables :: "notify_settings \<Rightarrow> settings \<Rightarrow> dict \<Rightarrow> letter_error + dict option" where
  "payment_failed_variables ns cf payload =
     (case amount_and_item cf payload of
        Inl e \<Rightarrow> Inl e
      | Inr None \<Rightarrow> Inr None
      | Inr (Some vars) \<Rightarrow>
          (case text_or_empty (dget payload ''decline_reason'') of
             Inl e \<Rightarrow> Inl e
           | Inr reason \<Rightarrow>
               Inr (Some (vars @ unless_empty ''decline_reason'' (humanise_decline reason)
                 @ (if dget payload ''final_attempt'' = Some (JBool True) then [(''final_attempt'', JBool True)] else [])
                 @ unless_empty ''retry_url'' (billing_page_url ns)))))"

definition subscription_ending_variables :: "notify_settings \<Rightarrow> settings \<Rightarrow> dict \<Rightarrow> dict option" where
  "subscription_ending_variables ns cf payload =
     (let end = iso_date (dget payload ''current_period_end'')
      in if end = [] then None
         else Some ([(''item_name'', JStr (item_label cf JNull (get_json payload ''plan''))), (''period_end'', JStr end)]
                @ unless_empty ''resubscribe_url'' (billing_page_url ns)))"

subsection \<open>Claiming and sending\<close>

definition notify_claim :: "string \<Rightarrow> string \<Rightarrow> provider_grant" where
  "notify_claim scope external = \<lparr>pg_provider = PROVIDER_NOTIFY, pg_scope = scope, pg_external = external\<rparr>"

definition release_claim :: "provider_grant \<Rightarrow> db \<Rightarrow> db" where
  "release_claim g d = d\<lparr>grants := filter (\<lambda>x. x \<noteq> g) (grants d)\<rparr>"

definition claim_and_send ::
    "(letter \<Rightarrow> bool) \<Rightarrow> string \<Rightarrow> string \<Rightarrow> letter \<Rightarrow> db \<Rightarrow> (letter_error + reply) \<times> db" where
  "claim_and_send publish scope external l d =
     (case claim_provider_object scope (Some external) PROVIDER_NOTIFY d of
        (False, d1) \<Rightarrow> (Inr AlreadySent, d1)
      | (True, d1) \<Rightarrow>
          if publish l then (Inr (Sent l), d1)
          else (Inl NotificationNotQueued, release_claim (notify_claim scope external) d1))"

subsection \<open>The three handlers\<close>

definition handle_payment_completed_notification ::
    "notify_settings \<Rightarrow> settings \<Rightarrow> (letter \<Rightarrow> bool) \<Rightarrow> time \<Rightarrow> dict \<Rightarrow> db \<Rightarrow> (letter_error + reply) \<times> db" where
  "handle_payment_completed_notification ns cf publish now payload d =
     (case (id_text (dget payload ''user_id''), id_text (dget payload ''transaction_id'')) of
        (Some user, Some transaction) \<Rightarrow>
          if staleness_refusal ns now (dget payload ''created_at'') \<noteq> None then (Inr Dropped, d)
          else (case payment_succeeded_variables cf payload of
                  Inl e \<Rightarrow> (Inl e, d)
                | Inr None \<Rightarrow> (Inr Dropped, d)
                | Inr (Some vars) \<Rightarrow>
                    claim_and_send publish SCOPE_NOTIFY_PAYMENT transaction
                      \<lparr>lt_type = TYPE_PAYMENT_SUCCEEDED, lt_user = user, lt_vars = vars\<rparr> d)
      | _ \<Rightarrow> (Inr Dropped, d))"

text \<open>A failure is about its invoice or its payment intent; the last attempt on an invoice has a claim of its own.\<close>

definition failed_object :: "dict \<Rightarrow> string option" where
  "failed_object payload = id_text (Some (or_json (dget payload ''invoice_id'') (get_json payload ''payment_intent_id'')))"

definition failure_key :: "dict \<Rightarrow> string \<Rightarrow> string" where
  "failure_key payload external =
     (if dtruthy payload ''final_attempt'' \<and> dtruthy payload ''invoice_id'' then external @ '':final'' else external)"

definition handle_payment_failed_notification ::
    "notify_settings \<Rightarrow> settings \<Rightarrow> (letter \<Rightarrow> bool) \<Rightarrow> time \<Rightarrow> dict \<Rightarrow> db \<Rightarrow> (letter_error + reply) \<times> db" where
  "handle_payment_failed_notification ns cf publish now payload d =
     (case (id_text (dget payload ''user_id''), failed_object payload) of
        (Some user, Some external) \<Rightarrow>
          if staleness_refusal ns now (dget payload ''created_at'') \<noteq> None then (Inr Dropped, d)
          else (case payment_failed_variables ns cf payload of
                  Inl e \<Rightarrow> (Inl e, d)
                | Inr None \<Rightarrow> (Inr Dropped, d)
                | Inr (Some vars) \<Rightarrow>
                    claim_and_send publish SCOPE_NOTIFY_PAYMENT_FAILED (failure_key payload external)
                      \<lparr>lt_type = TYPE_PAYMENT_FAILED, lt_user = user, lt_vars = vars\<rparr> d)
      | _ \<Rightarrow> (Inr Dropped, d))"

text \<open>An end that has passed is not written about, whatever the settings say.\<close>

definition has_ended :: "time \<Rightarrow> dict \<Rightarrow> bool" where
  "has_ended now payload =
     (case parse_moment (dget payload ''current_period_end'') of Some t \<Rightarrow> t \<le> now | None \<Rightarrow> False)"

definition handle_subscription_ending_notification ::
    "notify_settings \<Rightarrow> settings \<Rightarrow> (letter \<Rightarrow> bool) \<Rightarrow> time \<Rightarrow> dict \<Rightarrow> db \<Rightarrow> (letter_error + reply) \<times> db" where
  "handle_subscription_ending_notification ns cf publish now payload d =
     (let period_end = iso_date (dget payload ''current_period_end'')
      in if \<not> dtruthy payload ''cancel_at_period_end'' then (Inr Dropped, d)
         else case id_text (dget payload ''user_id'') of
           None \<Rightarrow> (Inr Dropped, d)
         | Some user \<Rightarrow>
             if period_end = [] \<or> has_ended now payload then (Inr Dropped, d)
             else (case subscription_ending_variables ns cf payload of
                     None \<Rightarrow> (Inr Dropped, d)
                   | Some vars \<Rightarrow>
                       claim_and_send publish SCOPE_NOTIFY_SUBSCRIPTION_ENDING (user @ '':'' @ period_end)
                         \<lparr>lt_type = TYPE_SUBSCRIPTION_ENDING, lt_user = user, lt_vars = vars\<rparr> d))"

text \<open>The handler each topic is subscribed to.\<close>

definition hear ::
    "notify_settings \<Rightarrow> settings \<Rightarrow> (letter \<Rightarrow> bool) \<Rightarrow> time \<Rightarrow> emitted \<Rightarrow> db \<Rightarrow> (letter_error + reply) \<times> db" where
  "hear ns cf publish now m d =
     (if em_topic m = ''payment.completed'' then handle_payment_completed_notification ns cf publish now (em_payload m) d
      else if em_topic m = ''payment.failed'' then handle_payment_failed_notification ns cf publish now (em_payload m) d
      else if em_topic m = ''subscription.changed''
      then handle_subscription_ending_notification ns cf publish now (em_payload m) d
      else (Inr Dropped, d))"

subsection \<open>The merge of two accounts\<close>

text \<open>Ids the merge cannot use are dropped; a survivor not known yet is raised, for the bus to retry.\<close>

definition handle_user_merged ::
    "(string \<Rightarrow> string) \<Rightarrow> settings \<Rightarrow> time \<Rightarrow> dict \<Rightarrow> db \<Rightarrow> error + merge_counts option \<times> db" where
  "handle_user_merged digest cf now payload d =
     (case (id_text (dget payload ''from_user_id''), id_text (dget payload ''into_user_id'')) of
        (Some from, Some into) \<Rightarrow>
          if from = into then Inr (None, d)
          else (case merge_wallets digest cf now from into d of
                  Inl (TypeError e) \<Rightarrow> Inr (None, d)
                | Inl (ValueError e) \<Rightarrow> Inr (None, d)
                | Inl e \<Rightarrow> Inl e
                | Inr (counts, d') \<Rightarrow> Inr (Some counts, d'))
      | _ \<Rightarrow> Inr (None, d))"

end
