(* ===== verification/Paying.thy ===== *)
theory Paying
  imports Failed_Payments Provider_Side
begin

section \<open>What the paying handlers do besides the money\<close>

text \<open>
  A completed checkout and a paid invoice write claims, subscriptions and the wallet's tables, none of
  which the event log, the operator's windows or the outbox can see (\<open>silent\<close>); what they say to the
  outside is one payment announced to a user of the application, with fields of a known form, and the
  state of a subscription. Any relation that silent writes and these two announcements
  respect therefore relates the database before and after such a handler: the contract
  \<open>paying_moves\<close>, interpreted where such a relation is introduced.
\<close>

definition silent :: "db \<Rightarrow> db \<Rightarrow> bool" where
  "silent d d' = (events d' = events d \<and> comps d' = comps d \<and> outbox d' = outbox d \<and> next_id d \<le> next_id d')"

lemma silent_refl [intro!, simp]: "silent d d"
  by (simp add: silent_def)

lemma silent_trans [trans]: "silent a b \<Longrightarrow> silent b c \<Longrightarrow> silent a c"
  by (simp add: silent_def)

lemma silent_keeps: "keeps d d' \<Longrightarrow> silent d d'"
  by (simp add: keeps_def silent_def)

lemma silent_claim: "claim_provider_object scope ext prov d = (b, d') \<Longrightarrow> silent d d'"
  by (drule claim_frame) (auto simp: silent_def)

lemma silent_credit: "credit cf now r d = Inr (t, d') \<Longrightarrow> silent d d'"
  by (rule silent_keeps[OF keeps_credit])

lemma silent_save_sub: "silent d (save_sub s d)"
  by (simp add: save_sub_def upd_sub_def silent_def)

lemma silent_stamp: "silent d (snd (stamp_subscription_period s d))"
  by (auto simp: stamp_subscription_period_def silent_def split: option.splits)

lemma silent_pending: "silent d (snd (apply_pending_period s d))"
proof -
  have "silent d (d1\<lparr>pendings := ps\<rparr>)" if "silent d d1" for d1 ps using that by (simp add: silent_def)
  moreover have "silent d (snd (stamp_subscription_period s' (save_sub s' d)))" for s'
    by (rule silent_trans[OF silent_save_sub silent_stamp])
  ultimately show ?thesis by (auto simp: apply_pending_period_def Let_def split: option.split prod.split)
qed

lemma silent_subscribe: "subscribe event user slug d = Inr (s, d') \<Longrightarrow> silent d d'"
  using silent_save_sub by (auto simp: subscribe_def Let_def silent_def split: if_splits)

subsection \<open>The contract\<close>

text \<open>The fields a payment carries besides the five every payment has.\<close>

definition payment_extras :: "dict \<Rightarrow> bool" where
  "payment_extras x =
     (fst ` set x \<subseteq> {''package'', ''simulated'', ''plan'', ''invoice_url'', ''period_start'', ''period_end''} \<and>
      (\<forall>v. (''invoice_url'', v) \<in> set x \<longrightarrow> (\<exists>s. v = JStr s)))"

locale paying_moves =
  fixes cf :: settings and moves :: "db \<Rightarrow> db \<Rightarrow> bool"
  assumes quietly: "silent d d' \<Longrightarrow> moves d d'"
    and steps: "moves d d' \<Longrightarrow> moves d' d'' \<Longrightarrow> moves d d''"
    and pays: "user \<in> set (cf_users cf) \<Longrightarrow> payment_extras x \<Longrightarrow> moves d (announce_payment (u_id user) t n c x d)"
    and tells: "moves d (announce_subscription s d)"
begin

lemma credit_paid:
  assumes "credit cf now r d = Inr (t, d1)" and "user \<in> set (cf_users cf)" and "payment_extras x"
  shows "moves d (announce_payment (u_id user) t n c x d1)"
  by (rule steps[OF quietly[OF silent_credit[OF assms(1)]] pays[OF assms(2,3)]])

lemma package:
  assumes "checkout_package cf now obj user pkg d = Inr (b, d')" and "user \<in> set (cf_users cf)"
  shows "moves d d'"
proof -
  obtain won d1 where c: "claim_session obj d = (won, d1)" by (rule prod.exhaust)
  then have m: "moves d d1" unfolding claim_session_def by (intro quietly silent_claim)
  let ?x = "[(''package'', JStr (cp_slug pkg))] @
    (if simulated_flag (dobj obj ''metadata'') then [(''simulated'', JBool True)] else [])"
  have x: "payment_extras ?x" by (auto simp: payment_extras_def)
  from assms(1) c have "d' = d \<or> d' = d1 \<or> (\<exists>t d2 n cur. credit cf now (package_credit obj user pkg) d1 = Inr (t, d2) \<and>
      d' = announce_payment (u_id user) t n cur ?x d2)"
    by (auto simp: checkout_package_def split: if_splits sum.splits)
  then show ?thesis using m steps[OF m credit_paid[OF _ assms(2) x]] quietly[OF silent_refl] by auto
qed

lemma month:
  assumes "checkout_bundle cf now obj user plan s d = Inr d'" and "user \<in> set (cf_users cf)"
  shows "moves d d'"
proof -
  have x: "payment_extras [(''plan'', JStr (pe_slug plan))]" by (simp add: payment_extras_def)
  have "d' = d \<or> (\<exists>r t d1 n c. credit cf now r d = Inr (t, d1) \<and> d' = announce_payment (u_id user) t n c [(''plan'', JStr (pe_slug plan))] d1)"
    using assms(1) by (auto simp: checkout_bundle_def Let_def split: if_splits sum.splits) blast
  then show ?thesis using credit_paid[OF _ assms(2) x] quietly[OF silent_refl] by auto
qed

lemma plan:
  assumes "checkout_plan cf now event user plan d = Inr (b, d')" and "user \<in> set (cf_users cf)"
  shows "moves d d'"
proof -
  let ?obj = "event_object event"
  obtain won d1 where c: "claim_session ?obj d = (won, d1)" by (rule prod.exhaust)
  then have m: "moves d d1" unfolding claim_session_def by (intro quietly silent_claim)
  show ?thesis
  proof (cases "reconcile_checkout_session cf ?obj ''subscription'' (pe_currency plan) None \<noteq> None \<or> \<not> won")
    case True
    with assms(1) c m quietly[OF silent_refl] show ?thesis by (auto simp: checkout_plan_def Let_def split: if_splits)
  next
    case False
    with assms(1) c obtain s d2 ch s' d3 d4 where
      s: "subscribe event user (pe_slug plan) d1 = Inr (s, d2)" and p: "apply_pending_period s d2 = ((ch, s'), d3)"
      and b: "checkout_bundle cf now ?obj user plan s' d3 = Inr d4" and d': "d' = announce_subscription s' d4"
      by (auto simp: checkout_plan_def Let_def split: sum.splits prod.splits)
    have "moves d2 d3" using quietly[OF silent_pending[of d2 s]] p by simp
    then show ?thesis unfolding d'
      by (intro steps[OF m steps[OF quietly[OF silent_subscribe[OF s]] steps[OF _ steps[OF month[OF b assms(2)] tells]]]])
  qed
qed

lemma checkout:
  assumes "handle_checkout_completed cf now event d = Inr (stale, d')"
  shows "moves d d'"
proof (cases "session_owner cf (event_object event)")
  case None
  with assms quietly[OF silent_refl] show ?thesis by (simp add: handle_checkout_completed_def Let_def)
next
  case (Some user)
  then have u: "user \<in> set (cf_users cf)"
    by (auto simp: session_owner_def find_user_def Let_def find_Some_iff split: option.splits if_splits)
  let ?p = "case session_package cf (event_object event) of None \<Rightarrow> Inr (True, d)
    | Some pkg \<Rightarrow> checkout_package cf now (event_object event) user pkg d"
  from assms Some obtain go d1 where p: "?p = Inr (go, d1)"
    by (cases ?p) (auto simp: handle_checkout_completed_def Let_def)
  have m: "moves d d1" using p package[OF _ u] quietly[OF silent_refl] by (auto split: option.splits)
  have "d' = d1 \<or> (\<exists>plan. checkout_plan cf now event user plan d1 = Inr (stale, d'))"
    using assms Some p by (auto simp: handle_checkout_completed_def Let_def split: if_splits option.splits)
  with m plan[OF _ u] show ?thesis by (blast intro: steps)
qed

lemma renewal:
  assumes "renew cf now obj sid s plan d = Inr d'"
  shows "moves d d'"
proof -
  obtain won d1 where c: "claim_provider_object SCOPE_INVOICE (id_text (dget obj ''id'')) ''stripe'' d = (won, d1)"
    by (rule prod.exhaust)
  then have m: "moves d d1" by (intro quietly silent_claim)
  let ?x = "(''plan'', JStr (sub_plan s)) # announce_extras
    [(''invoice_url'', JStr (invoice_document_url obj)), (''period_start'', opt_time (invoice_period_start obj)),
     (''period_end'', opt_time (invoice_period_end obj))]"
  have x: "payment_extras ?x" by (auto simp: payment_extras_def announce_extras_def)
  from assms c have "d' = d1 \<or> (\<exists>user r t d2 n cur. find_user cf (the (sub_user s)) = Some user \<and>
      credit cf now r d1 = Inr (t, d2) \<and> d' = announce_payment (u_id user) t n cur ?x d2)"
    by (auto simp: renew_def Let_def bind_eq_Some_conv split: if_splits option.splits sum.splits) blast+
  then show ?thesis
  proof (elim disjE exE conjE)
    fix user r t d2 n cur
    assume u: "find_user cf (the (sub_user s)) = Some user" and k: "credit cf now r d1 = Inr (t, d2)"
      and d': "d' = announce_payment (u_id user) t n cur ?x d2"
    from u have "user \<in> set (cf_users cf)" by (auto simp: find_user_def find_Some_iff)
    then show ?thesis unfolding d' by (rule steps[OF m credit_paid[OF k _ x]])
  qed (use m in simp)
qed

lemma invoice: "handle_invoice_paid cf now event d = Inr d' \<Longrightarrow> moves d d'"
  using renewal quietly[OF silent_refl] by (auto simp: handle_invoice_paid_def Let_def split: option.splits if_splits)

end

end
