(* ===== verification/Letter_Facts.thy ===== *)
theory Letter_Facts
  imports Letters Paying
begin

section \<open>Facts about letters\<close>

subsection \<open>Amounts are read back\<close>

definition digits_only :: "string \<Rightarrow> bool" where
  "digits_only s = list_all is_digit s"

lemma is_digit_char: "n < 10 \<Longrightarrow> is_digit (digit_char n)" "n < 10 \<Longrightarrow> int (of_char (digit_char n) - 48) = int n"
  by (simp_all add: is_digit_def digit_char_def of_char_of)

lemma digits_value_step: "digits_only s \<Longrightarrow> digits_value b acc (s @ t) =
    digits_value (b \<or> s \<noteq> []) (fold (\<lambda>c a. a * 10 + int (of_char c - 48)) s acc) t"
  by (induction s arbitrary: b acc) (simp_all add: digits_only_def)

lemma uuid_str_digits: "digits_only (uuid_str n) \<and> fold (\<lambda>c a. a * 10 + int (of_char c - 48)) (uuid_str n) 0 = int n"
proof (induction n rule: uuid_str.induct)
  case (1 n)
  show ?case
  proof (cases "n < 10")
    case True
    then show ?thesis by (subst (1 2) uuid_str.simps) (simp add: digits_only_def is_digit_char)
  next
    case False
    have "int (n div 10) * 10 + int (n mod 10) = int n" by presburger
    with 1[OF False] False show ?thesis
      by (subst (1 2) uuid_str.simps) (simp add: digits_only_def is_digit_char)
  qed
qed

lemma comma_no_digit: "\<not> is_digit CHR '',''" "\<not> is_digit CHR ''.''" "\<not> is_digit CHR ''-''" "\<not> is_digit CHR '' ''"
  by code_simp+

lemma grouped_digits: "digits_only s \<Longrightarrow> filter is_digit (grouped s) = s"
  by (induction s rule: grouped.induct) (simp_all add: digits_only_def comma_no_digit list_all_iff)

lemma thousands_digits: "filter is_digit (thousands n) = uuid_str n"
proof -
  have "digits_only (rev (uuid_str n))" using uuid_str_digits[of n] by (simp add: digits_only_def)
  from grouped_digits[OF this] show ?thesis by (simp add: thousands_def flip: rev_filter)
qed

lemma signed_digits: "filter is_digit (signed n s) = filter is_digit s"
  by (simp add: signed_def comma_no_digit)

lemma digit_is_digit: "is_digit (digit n)" "int (of_char (digit n) - 48) = n mod 10"
  using is_digit_char[of "nat (n mod 10)"] by (simp_all add: digit_def nat_less_iff)

lemma figure_read_back: "digits_value False 0 (filter is_digit (figure code n)) = Some \<bar>n\<bar>"
proof (cases "code \<in> set ZERO_DECIMAL_CURRENCIES")
  case True
  have "digits_value False 0 (uuid_str (nat \<bar>n\<bar>) @ []) = Some \<bar>n\<bar>"
    using digits_value_step[of "uuid_str (nat \<bar>n\<bar>)" False 0 "[]"] uuid_str_digits[of "nat \<bar>n\<bar>"] by simp
  with True show ?thesis by (simp add: figure_def signed_digits thousands_digits)
next
  case False
  let ?w = "uuid_str (nat (\<bar>n\<bar> div 100))"
  have d: "(\<bar>n\<bar> div 100 * 10 + \<bar>n\<bar> div 10 mod 10) * 10 + \<bar>n\<bar> mod 10 = \<bar>n\<bar>"
    using zdiv_zmult2_eq[of 10 "\<bar>n\<bar>" 10] by simp
  have w: "0 \<le> \<bar>n\<bar> div 100" by (simp add: pos_imp_zdiv_nonneg_iff)
  have "digits_value False 0 (?w @ [digit (\<bar>n\<bar> div 10), digit \<bar>n\<bar>]) =
      digits_value True (int (nat (\<bar>n\<bar> div 100))) [digit (\<bar>n\<bar> div 10), digit \<bar>n\<bar>]"
    using digits_value_step[of ?w False 0] uuid_str_digits[of "nat (\<bar>n\<bar> div 100)"] by simp
  also have "\<dots> = Some ((\<bar>n\<bar> div 100 * 10 + \<bar>n\<bar> div 10 mod 10) * 10 + \<bar>n\<bar> mod 10)"
    unfolding nat_0_le[OF w] by (simp only: digits_value.simps digit_is_digit if_True)
  also have "\<dots> = Some \<bar>n\<bar>" unfolding d by (rule refl)
  finally have v: "digits_value False 0 (?w @ [digit (\<bar>n\<bar> div 10), digit \<bar>n\<bar>]) = Some \<bar>n\<bar>" .
  have "filter is_digit (figure code n) = ?w @ [digit (\<bar>n\<bar> div 10), digit \<bar>n\<bar>]"
    using False by (simp add: figure_def signed_digits thousands_digits digit_is_digit comma_no_digit)
  with v show ?thesis by (simp only:)
qed

lemma figure_nonempty [simp]: "figure code n \<noteq> []"
  using figure_read_back[of code n] by (auto simp: figure_def signed_def)

lemma money_text_nonempty [simp]: "money_text code n \<noteq> []"
  by (simp add: money_text_def split: option.split)

subsection \<open>Dates\<close>

text \<open>The date printed for an instant is the day it lies in.\<close>

lemma utc_date_day:
  assumes "0 \<le> t"
  obtains y m day where "utc_date t = period_key_of (y, m) @ [CHR ''-'', digit (day div 10), digit day]"
    "1 \<le> m" "m \<le> 12" "1 \<le> day" "day \<le> month_days y m"
    "month_start y m + (day - 1) * day_us \<le> t" "t < month_start y m + day * day_us"
proof -
  obtain y d where y: "year_from 1970 (t div day_us) = (y, d)" by (rule prod.exhaust)
  have pos: "0 < day_us" by (simp add: day_us_def)
  have t0: "0 \<le> t div day_us" using assms pos by (simp add: pos_imp_zdiv_nonneg_iff)
  have s: "0 \<le> d" "d < year_days y" "t div day_us = days_to_year y + d" using year_from_spec[OF t0 y] by auto
  define m where "m = month_from y 1 d"
  define day where "day = d - days_before_month y m + 1"
  have m: "1 \<le> m" "m \<le> 12" "days_before_month y m \<le> d" "d < days_before_month y m + month_days y m"
    using month_from_spec[of 1 d y] s by (simp_all add: m_def)
  have q: "t div day_us = days_to_year y + days_before_month y m + day - 1" using s by (simp add: day_def)
  have b: "(t div day_us) * day_us \<le> t" "t < (t div day_us) * day_us + day_us"
    using div_mult_mod_eq[of t day_us] pos_mod_bound[OF pos, of t] pos_mod_sign[OF pos, of t] by linarith+
  show ?thesis
  proof (rule that[of y m day])
    show "utc_date t = period_key_of (y, m) @ [CHR ''-'', digit (day div 10), digit day]"
      by (simp add: utc_date_def y m_def day_def Let_def)
    show "month_start y m + (day - 1) * day_us \<le> t" "t < month_start y m + day * day_us"
      using b unfolding q month_start_def by (simp_all add: algebra_simps)
  qed (use m in \<open>simp_all add: day_def\<close>)
qed

lemma utc_date_nonempty [simp]: "utc_date t \<noteq> []"
  by (simp add: utc_date_def Let_def split_beta)

subsection \<open>Claims\<close>

text \<open>What a fact's letter is claimed under.\<close>

definition letter_claim :: "emitted \<Rightarrow> provider_grant option" where
  "letter_claim m =
     (let p = em_payload m
      in if em_topic m = ''payment.completed''
         then map_option (notify_claim SCOPE_NOTIFY_PAYMENT) (id_text (dget p ''transaction_id''))
         else if em_topic m = ''payment.failed''
         then map_option (\<lambda>x. notify_claim SCOPE_NOTIFY_PAYMENT_FAILED (failure_key p x)) (failed_object p)
         else if em_topic m = ''subscription.changed''
         then map_option (\<lambda>u. notify_claim SCOPE_NOTIFY_SUBSCRIPTION_ENDING (u @ '':'' @ iso_date (dget p ''current_period_end'')))
                (id_text (dget p ''user_id''))
         else None)"

definition is_sent :: "letter_error + reply \<Rightarrow> bool" where
  "is_sent r = (case r of Inr (Sent l) \<Rightarrow> True | _ \<Rightarrow> False)"

text \<open>A handler either sends, taking the claim of its fact and nothing else, or changes nothing.\<close>

definition one_letter :: "provider_grant option \<Rightarrow> db \<Rightarrow> (letter_error + reply) \<times> db \<Rightarrow> bool" where
  "one_letter c d out = (let (r, d') = out in
     (\<exists>g. c = Some g \<and> \<not> granted d g \<and> is_sent r \<and> d' = d\<lparr>grants := grants d @ [g]\<rparr>) \<or> (\<not> is_sent r \<and> d' = d))"

lemma one_letter_quiet [simp]: "one_letter c d (Inr Dropped, d)" "one_letter c d (Inl e, d)"
  by (simp_all add: one_letter_def is_sent_def)

lemma release_new: "\<not> granted d g \<Longrightarrow> release_claim g (d\<lparr>grants := grants d @ [g]\<rparr>) = d"
  by (cases d) (auto simp: release_claim_def granted_def filter_id_conv)

lemma send_cases:
  "claim_and_send publish scope x l d =
     (if x = [] \<or> granted d (notify_claim scope x) then (Inr AlreadySent, d)
      else if publish l then (Inr (Sent l), d\<lparr>grants := grants d @ [notify_claim scope x]\<rparr>)
      else (Inl NotificationNotQueued, d))"
  using release_new[of d "notify_claim scope x"]
  by (simp add: claim_and_send_def claim_provider_object_def claim_grant_def notify_claim_def)

lemma send_one: "one_letter (Some (notify_claim scope x)) d (claim_and_send publish scope x l d)"
  by (simp add: send_cases one_letter_def is_sent_def)

lemma completed_one:
  "em_topic m = ''payment.completed'' \<Longrightarrow>
   one_letter (letter_claim m) d (handle_payment_completed_notification ns cf publish now (em_payload m) d)"
  by (simp add: handle_payment_completed_notification_def letter_claim_def send_one split: option.split sum.split)

lemma failed_one:
  "em_topic m = ''payment.failed'' \<Longrightarrow>
   one_letter (letter_claim m) d (handle_payment_failed_notification ns cf publish now (em_payload m) d)"
  by (simp add: handle_payment_failed_notification_def letter_claim_def send_one split: option.split sum.split)

lemma ending_one:
  "em_topic m = ''subscription.changed'' \<Longrightarrow>
   one_letter (letter_claim m) d (handle_subscription_ending_notification ns cf publish now (em_payload m) d)"
  by (simp add: handle_subscription_ending_notification_def letter_claim_def send_one Let_def split: option.split)

lemma hear_one: "one_letter (letter_claim m) d (hear ns cf publish now m d)"
  using completed_one[of m] failed_one[of m] ending_one[of m] by (simp add: hear_def)

subsection \<open>Payments that were announced\<close>

text \<open>What every announced payment tells the outside, whichever handler announced it.\<close>

definition receiptable :: "settings \<Rightarrow> emitted \<Rightarrow> bool" where
  "receiptable cf m =
     (let p = em_payload m
      in em_key m \<in> u_id ` set (cf_users cf) \<and> dget p ''user_id'' = Some (JStr (em_key m)) \<and>
         (\<exists>i. dget p ''transaction_id'' = Some (JStr (uuid_str i))) \<and>
         (\<exists>n. dget p ''amount_cents'' = Some (JInt n)) \<and> (\<exists>c. dget p ''currency'' = Some (JStr c)) \<and>
         (\<exists>t. dget p ''created_at'' = Some (JTime t)) \<and>
         (\<forall>v. dget p ''invoice_url'' = Some v \<longrightarrow> (\<exists>s. v = JStr s)))"

definition told :: "settings \<Rightarrow> db \<Rightarrow> db \<Rightarrow> bool" where
  "told cf d d' = (\<exists>ms. outbox d' = outbox d @ ms \<and> (\<forall>m \<in> set ms. em_topic m = ''payment.completed'' \<longrightarrow> receiptable cf m))"

lemma dget_dmerge_from:
  "dget (dmerge d e) k = Some v \<Longrightarrow> dget d k = Some v \<or> (k, v) \<in> set e"
  by (induction e arbitrary: d) (force simp: dget_dmerge_Cons split: if_splits)+

lemma told_payment:
  assumes "user \<in> set (cf_users cf)" and "payment_extras x"
  shows "told cf d (announce_payment (u_id user) t n c x d)"
proof -
  let ?b = "[(''user_id'', JStr (u_id user)), (''amount_cents'', JInt n), (''currency'', JStr c),
    (''transaction_id'', JStr (uuid_str (txn_id t))), (''created_at'', JTime (txn_created t))]"
  have k: "fst ` set x \<subseteq> {''package'', ''simulated'', ''plan'', ''invoice_url'', ''period_start'', ''period_end''}"
    and u: "\<forall>v. (''invoice_url'', v) \<in> set x \<longrightarrow> (\<exists>s. v = JStr s)"
    using assms(2) by (simp_all add: payment_extras_def)
  have base: "dget (dmerge ?b x) f = dget ?b f"
    if "f \<in> {''user_id'', ''amount_cents'', ''currency'', ''transaction_id'', ''created_at''}" for f
    using that k by (intro dget_dmerge_notin) auto
  have url: "\<exists>s. v = JStr s" if "dget (dmerge ?b x) ''invoice_url'' = Some v" for v
    using dget_dmerge_from[OF that] u by (auto simp: dget_def)
  let ?m = "\<lparr>em_topic = ''payment.completed'', em_payload = dmerge ?b x, em_key = u_id user\<rparr>"
  have "receiptable cf ?m"
    unfolding receiptable_def Let_def using assms(1) url
    by (intro conjI) (simp_all add: base, simp_all add: dget_def)
  then show ?thesis by (simp add: told_def announce_payment_def emit_def)
qed

interpretation tells: paying_moves cf "told cf" for cf
proof
  show "told cf a d" if "silent a d" for a d using that by (simp add: told_def silent_def)
  show "told cf a e" if "told cf a d" "told cf d e" for a d e
  proof -
    from that obtain ms ns where "outbox d = outbox a @ ms" "outbox e = outbox d @ ns"
      "\<forall>m \<in> set ms \<union> set ns. em_topic m = ''payment.completed'' \<longrightarrow> receiptable cf m"
      unfolding told_def by blast
    then show ?thesis unfolding told_def by (intro exI[of _ "ms @ ns"]) simp
  qed
  show "told cf d (announce_subscription s d)" for s d by (simp add: told_def announce_subscription_def emit_def)
qed (rule told_payment)

subsection \<open>The letter of such a payment\<close>

lemma receiptable_sent:
  assumes "receiptable cf m" and "em_topic m = ''payment.completed''" and "em_key m \<noteq> []"
    and "staleness_refusal ns now (dget (em_payload m) ''created_at'') = None"
    and "\<forall>l. publish l" and "\<forall>g. letter_claim m = Some g \<longrightarrow> \<not> granted e g"
  shows "\<exists>g l n c. letter_claim m = Some g \<and>
    hear ns cf' publish now m e = (Inr (Sent l), e\<lparr>grants := grants e @ [g]\<rparr>) \<and> lt_user l = em_key m \<and>
    dget (em_payload m) ''amount_cents'' = Some (JInt n) \<and> dget (em_payload m) ''currency'' = Some (JStr c) \<and>
    dget (lt_vars l) ''amount'' = Some (JStr (money_text (lower (strip c)) n))"
proof -
  let ?p = "em_payload m"
  obtain i n c where i: "dget ?p ''transaction_id'' = Some (JStr (uuid_str i))"
    and n: "dget ?p ''amount_cents'' = Some (JInt n)" and c: "dget ?p ''currency'' = Some (JStr c)"
    and u: "dget ?p ''user_id'' = Some (JStr (em_key m))"
    and url: "\<forall>v. dget ?p ''invoice_url'' = Some v \<longrightarrow> (\<exists>s. v = JStr s)"
    using assms(1) by (auto simp: receiptable_def Let_def)
  have anytext: "\<exists>r. text_or_empty (Some (JStr s)) = Inr r" for s by (cases s) (simp_all add: text_or_empty_def)
  obtain s where s: "text_or_empty (dget ?p ''invoice_url'') = Inr s"
    using url anytext by (cases "dget ?p ''invoice_url''") (auto simp: text_or_empty_def[of None])
  have cur: "text_or_empty (Some (JStr c)) = Inr c" by (simp add: text_or_empty_def)
  have a: "amount_and_item cf' ?p = Inr (Some [(''amount'', JStr (money_text (lower (strip c)) n)),
      (''item_name'', JStr (item_label cf' (get_json ?p ''package'') (get_json ?p ''plan'')))])"
    by (simp add: amount_and_item_def format_amount_def n c cur)
  obtain vars where v: "payment_succeeded_variables cf' ?p = Inr (Some vars)"
    and va: "dget vars ''amount'' = Some (JStr (money_text (lower (strip c)) n))"
    by (rule that, simp add: payment_succeeded_variables_def a s) (simp add: dget_def)
  let ?l = "\<lparr>lt_type = TYPE_PAYMENT_SUCCEEDED, lt_user = em_key m, lt_vars = vars\<rparr>"
  have lc: "letter_claim m = Some (notify_claim SCOPE_NOTIFY_PAYMENT (uuid_str i))"
    using assms(2) by (simp add: letter_claim_def Let_def i id_text_def)
  moreover have "hear ns cf' publish now m e = (Inr (Sent ?l), e\<lparr>grants := grants e @ [notify_claim SCOPE_NOTIFY_PAYMENT (uuid_str i)]\<rparr>)"
    using assms(2-6) lc by (simp add: hear_def handle_payment_completed_notification_def u i v id_text_def send_cases)
  ultimately show ?thesis using n c va by fastforce
qed

end
