(* ===== verification/Entitlements.thy ===== *)
theory Entitlements
  imports Comps Hold_Life
begin

section \<open>The functions other modules call (entitlements.py)\<close>

text \<open>
  What the rest of a deployment sees of billing: a question about an entitlement and the money
  functions. A payload has passed its schema when a provider runs, so it is a record of typed
  fields, \<open>None\<close> for an optional one that was not sent; an answer is the dictionary the provider
  returns. The user table is the settings' user list; what the core library says of an unknown
  account (tombstone, deactivation, the row it makes on first contact) is a parameter.
\<close>

subsection \<open>Entitlements\<close>

definition REASON_NOT_IN_PLAN :: string where "REASON_NOT_IN_PLAN = ''not_in_plan''"
definition REASON_LIMIT_EXCEEDED :: string where "REASON_LIMIT_EXCEEDED = ''limit_exceeded''"
definition REASON_INSUFFICIENT_CREDITS :: string where "REASON_INSUFFICIENT_CREDITS = ''insufficient_credits''"
definition REASON_USER_UNKNOWN :: string where "REASON_USER_UNKNOWN = ''user_unknown''"
definition REASON_USER_INACTIVE :: string where "REASON_USER_INACTIVE = ''user_inactive''"
definition REASON_UNKNOWN_KEY :: string where "REASON_UNKNOWN_KEY = ''unknown_key''"
definition REASON_UNKNOWN_PLAN :: string where "REASON_UNKNOWN_PLAN = ''unknown_plan''"
definition REASON_HOLD_NOT_FOUND :: string where "REASON_HOLD_NOT_FOUND = ''hold_not_found''"
definition REASON_HOLD_NOT_HELD :: string where "REASON_HOLD_NOT_HELD = ''hold_not_held''"
definition REASON_HOLD_ALREADY_RESOLVED :: string where "REASON_HOLD_ALREADY_RESOLVED = ''hold_already_resolved''"

definition effective_plan_entry :: "settings \<Rightarrow> uid \<Rightarrow> time \<Rightarrow> db \<Rightarrow> plan_entry option" where
  "effective_plan_entry cf u now d = get_plan (cf_plans cf) (effective_plan cf u now d)"

definition declared_keys :: "settings \<Rightarrow> string list" where
  "declared_keys cf = concat (map (\<lambda>e. map fst (pe_entitlements e)) DEFAULT_PLANS) @ cf_entitlement_keys cf"

record verdict =
  vd_allowed :: bool
  vd_limit :: "int option"
  vd_reason :: "string option"

definition verdict_of :: "int \<Rightarrow> entitlement option \<Rightarrow> verdict" where
  "verdict_of quantity value =
     (case value of
        None \<Rightarrow> \<lparr>vd_allowed = True, vd_limit = None, vd_reason = None\<rparr>
      | Some (Switch b) \<Rightarrow>
          \<lparr>vd_allowed = b, vd_limit = None, vd_reason = (if b then None else Some REASON_NOT_IN_PLAN)\<rparr>
      | Some (Ceiling n) \<Rightarrow>
          \<lparr>vd_allowed = (quantity \<le> n), vd_limit = Some n,
           vd_reason = (if quantity \<le> n then None else Some REASON_LIMIT_EXCEEDED)\<rparr>)"

text \<open>\<open>quantity\<close> is 1 when the payload does not say.\<close>

definition check_entitlement :: "settings \<Rightarrow> time \<Rightarrow> uid \<Rightarrow> string \<Rightarrow> int option \<Rightarrow> db \<Rightarrow> verdict" where
  "check_entitlement cf now u key quantity d =
     (let n = (case quantity of Some q \<Rightarrow> q | None \<Rightarrow> 1)
      in if key \<notin> set (declared_keys cf) \<and> \<not> allow_unknown_entitlement_keys cf
         then \<lparr>vd_allowed = False, vd_limit = None, vd_reason = Some REASON_UNKNOWN_KEY\<rparr>
         else (case effective_plan_entry cf u now d of
                 None \<Rightarrow> if allow_unknown_plan_slugs cf then verdict_of n None
                         else \<lparr>vd_allowed = False, vd_limit = None, vd_reason = Some REASON_UNKNOWN_PLAN\<rparr>
               | Some entry \<Rightarrow> verdict_of n (map_of (pe_entitlements entry) key)))"

subsection \<open>Whose money\<close>

text \<open>
  The core library's answers about an account: whether it was deleted or deactivated at the
  issuer, and the row it materialises from an identity (\<open>ensure_shadow_user\<close>), if any.
\<close>

record accounts =
  is_tombstoned :: "uid \<Rightarrow> bool"
  is_deactivated :: "uid \<Rightarrow> bool"
  ensure_shadow :: "uid \<Rightarrow> dict \<Rightarrow> user option"

definition resolve_user :: "settings \<Rightarrow> accounts \<Rightarrow> uid \<Rightarrow> dict option \<Rightarrow> string + user" where
  "resolve_user cf ac u identity =
     (case find_user cf u of
        Some x \<Rightarrow> Inr x
      | None \<Rightarrow>
          (case identity of
             None \<Rightarrow> Inl REASON_USER_UNKNOWN
           | Some who \<Rightarrow>
               if is_tombstoned ac u \<or> is_deactivated ac u then Inl REASON_USER_INACTIVE
               else (case ensure_shadow ac u who of None \<Rightarrow> Inl REASON_USER_UNKNOWN | Some x \<Rightarrow> Inr x)))"

subsection \<open>The money functions\<close>

record charge_payload =
  pl_user :: uid
  pl_identity :: "dict option"
  pl_credits :: int
  pl_key :: string
  pl_type :: "txn_type option"
  pl_desc :: "string option"
  pl_meta :: dict
  pl_partial :: bool
  pl_expires_in :: "int option"

definition opt_int :: "int option \<Rightarrow> json" where
  "opt_int n = (case n of None \<Rightarrow> JNull | Some x \<Rightarrow> JInt x)"

definition opt_str :: "string option \<Rightarrow> json" where
  "opt_str s = (case s of None \<Rightarrow> JNull | Some x \<Rightarrow> JStr x)"

definition opt_id :: "uuid option \<Rightarrow> json" where
  "opt_id i = (case i of None \<Rightarrow> JNull | Some x \<Rightarrow> JStr (uuid_str x))"

definition or_adjustment :: "txn_type option \<Rightarrow> txn_type" where
  "or_adjustment ty = (case ty of None \<Rightarrow> ADJUSTMENT | Some t \<Rightarrow> t)"

text \<open>The answer to a refusal reads the wallet after the refused call was rolled back.\<close>

definition refused_balance :: "user \<Rightarrow> db \<Rightarrow> int \<times> db" where
  "refused_balance user d = (let (w, d1) = get_or_create_wallet (u_id user) d in (wallet_balance d1 w, d1))"

definition debit_answered :: "debit_answer \<Rightarrow> dict" where
  "debit_answered a =
     (case a of
        Whole t \<Rightarrow> [(''ok'', JBool True), (''balance'', JInt (txn_balance t)), (''reason'', JNull),
                    (''transaction_id'', JStr (uuid_str (txn_id t)))]
      | Result r \<Rightarrow> [(''ok'', JBool True), (''balance'', JInt (dr_balance r)), (''reason'', JNull),
                     (''transaction_id'', JStr (uuid_str (txn_id (dr_txn r)))), (''requested'', JInt (dr_requested r)),
                     (''debited'', JInt (dr_debited r)), (''shortfall'', JInt (dr_shortfall r)),
                     (''debt_id'', opt_id (map_option debt_id (dr_debt r)))])"

definition billing_debit :: "settings \<Rightarrow> accounts \<Rightarrow> time \<Rightarrow> charge_payload \<Rightarrow> db \<Rightarrow> error + dict \<times> db" where
  "billing_debit cf ac now p d =
     (case resolve_user cf ac (pl_user p) (pl_identity p) of
        Inl reason \<Rightarrow> Inr ([(''ok'', JBool False), (''balance'', JNull), (''reason'', JStr reason)], d)
      | Inr user \<Rightarrow>
          (case debit cf now
                  \<lparr>de_user = user, de_credits = pl_credits p, de_type = or_adjustment (pl_type p), de_desc = pl_desc p,
                   de_meta = pl_meta p, de_key = pl_key p, de_partial = pl_partial p\<rparr> d of
             Inr (a, d1) \<Rightarrow> Inr (debit_answered a, d1)
           | Inl (InsufficientCreditsError x y) \<Rightarrow>
               (let (balance, d1) = refused_balance user d
                in Inr ([(''ok'', JBool False), (''balance'', JInt balance),
                         (''reason'', JStr REASON_INSUFFICIENT_CREDITS)], d1))
           | Inl e \<Rightarrow> Inl e))"

definition billing_can_afford ::
    "settings \<Rightarrow> accounts \<Rightarrow> time \<Rightarrow> uid \<Rightarrow> dict option \<Rightarrow> int \<Rightarrow> db \<Rightarrow> error + dict" where
  "billing_can_afford cf ac now u identity credits d =
     (case resolve_user cf ac u identity of
        Inl reason \<Rightarrow> Inr [(''ok'', JBool False), (''affordable'', JBool False), (''balance'', JNull),
                           (''shortfall'', JNull), (''reason'', JStr reason)]
      | Inr user \<Rightarrow>
          (case can_afford cf now (Some user) None credits d of
             Inl e \<Rightarrow> Inl e
           | Inr a \<Rightarrow> Inr [(''ok'', JBool True), (''affordable'', JBool (af_affordable a)), (''balance'', JInt (af_balance a)),
                            (''shortfall'', JInt (af_shortfall a)),
                            (''reason'', if af_affordable a then JNull else JStr REASON_INSUFFICIENT_CREDITS)]))"

text \<open>\<open>expires_in_seconds\<close> counts from now; zero, like nothing, asks for the configured lifetime.\<close>

definition billing_hold :: "settings \<Rightarrow> accounts \<Rightarrow> time \<Rightarrow> charge_payload \<Rightarrow> db \<Rightarrow> error + dict \<times> db" where
  "billing_hold cf ac now p d =
     (case resolve_user cf ac (pl_user p) (pl_identity p) of
        Inl reason \<Rightarrow> Inr ([(''ok'', JBool False), (''hold_id'', JNull), (''balance'', JNull), (''reason'', JStr reason)], d)
      | Inr user \<Rightarrow>
          (case hold cf now
                  \<lparr>ho_user = user, ho_credits = pl_credits p, ho_type = or_adjustment (pl_type p), ho_key = pl_key p,
                   ho_desc = pl_desc p, ho_meta = pl_meta p,
                   ho_expires = (case pl_expires_in p of None \<Rightarrow> None
                                 | Some ttl \<Rightarrow> if ttl = 0 then None else Some (now + ttl * 1000000))\<rparr> d of
             Inr (h, d1) \<Rightarrow> Inr ([(''ok'', JBool True), (''hold_id'', JStr (uuid_str (hold_id h))),
                                  (''balance'', JInt (wallet_balance d1 (hold_wallet h))), (''reason'', JNull)], d1)
           | Inl (HoldKeyResolvedError h) \<Rightarrow>
               Inr ([(''ok'', JBool False), (''hold_id'', JStr (uuid_str (hold_id h))), (''balance'', JNull),
                     (''status'', JStr (hold_status_value (hold_status h))),
                     (''reason'', JStr REASON_HOLD_ALREADY_RESOLVED)], d)
           | Inl (InsufficientCreditsError x y) \<Rightarrow>
               (let (balance, d1) = refused_balance user d
                in Inr ([(''ok'', JBool False), (''hold_id'', JNull), (''balance'', JInt balance),
                         (''reason'', JStr REASON_INSUFFICIENT_CREDITS)], d1))
           | Inl e \<Rightarrow> Inl e))"

text \<open>A captured hold without its charge row (\<open>HoldChargeMissing\<close>) raises \<open>HoldStateError\<close> too.\<close>

definition capture_refused :: "string \<Rightarrow> dict" where
  "capture_refused reason =
     [(''ok'', JBool False), (''balance'', JNull), (''transaction_id'', JNull), (''reason'', JStr reason)]"

definition billing_capture ::
    "time \<Rightarrow> uuid \<Rightarrow> int option \<Rightarrow> string option \<Rightarrow> dict \<Rightarrow> db \<Rightarrow> error + dict \<times> db" where
  "billing_capture now i actual_credits desc m d =
     (case capture now i actual_credits desc m d of
        Inr (t, d1) \<Rightarrow> Inr ([(''ok'', JBool True), (''balance'', JInt (txn_balance t)),
                              (''transaction_id'', JStr (uuid_str (txn_id t))), (''reason'', JNull)], d1)
      | Inl (HoldNotFoundError _) \<Rightarrow> Inr (capture_refused REASON_HOLD_NOT_FOUND, d)
      | Inl (HoldStateError _ _) \<Rightarrow> Inr (capture_refused REASON_HOLD_NOT_HELD, d)
      | Inl (HoldChargeMissing _) \<Rightarrow> Inr (capture_refused REASON_HOLD_NOT_HELD, d)
      | Inl (InsufficientCreditsError _ _) \<Rightarrow> Inr (capture_refused REASON_INSUFFICIENT_CREDITS, d)
      | Inl e \<Rightarrow> Inl e)"

definition billing_release :: "time \<Rightarrow> uuid \<Rightarrow> db \<Rightarrow> error + dict \<times> db" where
  "billing_release now i d =
     (case release now i False d of
        Inr (h, d1) \<Rightarrow> Inr ([(''ok'', JBool True), (''balance'', JInt (wallet_balance d1 (hold_wallet h))),
                              (''status'', JStr (hold_status_value (hold_status h))), (''reason'', JNull)], d1)
      | Inl (HoldNotFoundError _) \<Rightarrow>
          Inr ([(''ok'', JBool False), (''balance'', JNull), (''status'', JNull), (''reason'', JStr REASON_HOLD_NOT_FOUND)], d)
      | Inl e \<Rightarrow> Inl e)"

end
