(* ===== verification/Event_Log.thy ===== *)
theory Event_Log
  imports Paying
begin

section \<open>The webhook event log (webhooks.py, services.apply\_stored\_event, views.StripeWebhookView)\<close>

text \<open>
  Every verified event is a row: received, then run through the handler its type is registered
  for, once. The registry merges the deployment's settings over the built-in table; a value of
  it is a function, a dotted path (resolved by an importer, for the library's own paths the
  table below), or nothing. Delivery over HTTP and the replay of stored rows share
  \<open>apply_stored_event\<close>. A handler answers the database and whether it noted the event as stale
  (the context variable of the code, cleared before the handler runs and read after it).
\<close>

subsection \<open>The registry\<close>

type_synonym handler = "settings \<Rightarrow> time \<Rightarrow> dict \<Rightarrow> db \<Rightarrow> error + bool \<times> db"

datatype registry_value = Disabled | Callable handler | Dotted string | Unusable

definition BUILTIN_STRIPE_HANDLERS :: "(string \<times> string) list" where
  "BUILTIN_STRIPE_HANDLERS =
     [(''checkout.session.completed'', ''stapel_billing.services.handle_checkout_completed''),
      (''invoice.paid'', ''stapel_billing.services.handle_invoice_paid''),
      (''invoice.payment_succeeded'', ''stapel_billing.services.handle_invoice_paid''),
      (''customer.subscription.created'', ''stapel_billing.services.handle_subscription_updated''),
      (''customer.subscription.updated'', ''stapel_billing.services.handle_subscription_updated''),
      (''customer.subscription.deleted'', ''stapel_billing.services.handle_subscription_deleted''),
      (''invoice.payment_failed'', ''stapel_billing.services.handle_invoice_payment_failed''),
      (''charge.failed'', ''stapel_billing.services.handle_charge_failed''),
      (''charge.refunded'', ''stapel_billing.services.handle_charge_refunded''),
      (''charge.dispute.created'', ''stapel_billing.services.handle_dispute_created''),
      (''charge.dispute.closed'', ''stapel_billing.services.handle_dispute_closed''),
      (''credit_note.created'', ''stapel_billing.services.handle_credit_note_created'')]"

text \<open>The functions behind the library's dotted paths; most never note a stale event.\<close>

definition quietly :: "error + db \<Rightarrow> error + bool \<times> db" where
  "quietly r = map_sum id (Pair False) r"

definition library_handlers :: "(string \<times> handler) list" where
  "library_handlers =
     [(''stapel_billing.services.handle_checkout_completed'', handle_checkout_completed),
      (''stapel_billing.services.handle_invoice_paid'', \<lambda>cf now e d. quietly (handle_invoice_paid cf now e d)),
      (''stapel_billing.services.handle_subscription_updated'', \<lambda>cf now e d. Inr (handle_subscription_updated e d)),
      (''stapel_billing.services.handle_subscription_deleted'', \<lambda>cf now e d. Inr (handle_subscription_deleted now e d)),
      (''stapel_billing.services.handle_invoice_payment_failed'', \<lambda>cf now e d. quietly (handle_invoice_payment_failed now e d)),
      (''stapel_billing.services.handle_charge_failed'', \<lambda>cf now e d. quietly (handle_charge_failed now e d)),
      (''stapel_billing.services.handle_charge_refunded'', \<lambda>cf now e d. Inr (False, handle_charge_refunded now e d)),
      (''stapel_billing.services.handle_dispute_created'', \<lambda>cf now e d. Inr (False, handle_dispute_created now e d)),
      (''stapel_billing.services.handle_dispute_closed'', \<lambda>cf now e d. quietly (handle_dispute_closed now e d)),
      (''stapel_billing.services.handle_credit_note_created'', \<lambda>cf now e d. Inr (False, handle_credit_note_created now e d))]"

definition import_string :: "(string \<Rightarrow> handler option) \<Rightarrow> string \<Rightarrow> handler option" where
  "import_string host path = (case map_of library_handlers path of Some h \<Rightarrow> Some h | None \<Rightarrow> host path)"

fun resolve :: "(string \<Rightarrow> handler option) \<Rightarrow> registry_value \<Rightarrow> error + handler option" where
  "resolve host Disabled = Inr None"
| "resolve host (Callable h) = Inr (Some h)"
| "resolve host (Dotted path) =
     (if strip path = [] then Inr None
      else case import_string host path of
             Some h \<Rightarrow> Inr (Some h)
           | None \<Rightarrow> Inl (HandlerError ''ImproperlyConfigured''))"
| "resolve host Unusable = Inl (HandlerError ''ImproperlyConfigured'')"

text \<open>Every value of the merged table is resolved on each call, so one that does not resolve raises for all types.\<close>

fun resolve_all :: "(string \<Rightarrow> handler option) \<Rightarrow> (string \<times> registry_value) list \<Rightarrow> error + (string \<times> handler option) list" where
  "resolve_all host [] = Inr []"
| "resolve_all host ((ty, v) # rest) =
     (case resolve host v of
        Inl e \<Rightarrow> Inl e
      | Inr h \<Rightarrow> (case resolve_all host rest of Inl e \<Rightarrow> Inl e | Inr hs \<Rightarrow> Inr ((ty, h) # hs)))"

definition stripe_handlers ::
    "(string \<Rightarrow> handler option) \<Rightarrow> (string \<times> registry_value) list \<Rightarrow> error + (string \<times> handler option) list" where
  "stripe_handlers host overrides =
     resolve_all host
       (fold (\<lambda>(ty, v) raw. AList.update ty v raw) overrides (map (apsnd Dotted) BUILTIN_STRIPE_HANDLERS))"

definition get_stripe_handler ::
    "(string \<Rightarrow> handler option) \<Rightarrow> (string \<times> registry_value) list \<Rightarrow> string \<Rightarrow> error + handler option" where
  "get_stripe_handler host overrides ty =
     (case stripe_handlers host overrides of
        Inl e \<Rightarrow> Inl e
      | Inr hs \<Rightarrow> Inr (case map_of hs ty of None \<Rightarrow> None | Some h \<Rightarrow> h))"

subsection \<open>One stored event\<close>

definition EVENT_PROCESSED :: string where "EVENT_PROCESSED = ''processed''"
definition EVENT_IGNORED_STALE :: string where "EVENT_IGNORED_STALE = ''ignored_stale''"
definition EVENT_DUPLICATE :: string where "EVENT_DUPLICATE = ''duplicate''"

definition upd_event :: "uuid \<Rightarrow> (webhook_event \<Rightarrow> webhook_event) \<Rightarrow> db \<Rightarrow> db" where
  "upd_event i f d = d\<lparr>events := upd_row ev_id i f (events d)\<rparr>"

definition processed_row :: "time \<Rightarrow> bool \<Rightarrow> webhook_event \<Rightarrow> webhook_event" where
  "processed_row now stale e = e\<lparr>ev_processed := Some now, ev_ignored_stale := stale, ev_error := []\<rparr>"

definition apply_stored_event ::
    "(string \<Rightarrow> error + handler option) \<Rightarrow> settings \<Rightarrow> time \<Rightarrow> uuid \<Rightarrow> dict option \<Rightarrow> db \<Rightarrow> error + string \<times> db" where
  "apply_stored_event lookup cf now log event d =
     (case get_row ev_id log (events d) of
        None \<Rightarrow> Inl (HandlerError ''DoesNotExist'')
      | Some locked \<Rightarrow>
          if ev_processed locked \<noteq> None then Inr (EVENT_DUPLICATE, d)
          else (let payload = (case event of Some p \<Rightarrow> p | None \<Rightarrow> ev_payload locked)
                in case lookup (ev_type locked) of
                     Inl e \<Rightarrow> Inl e
                   | Inr found \<Rightarrow>
                       (case (case found of None \<Rightarrow> Inr (False, d) | Some h \<Rightarrow> h cf now payload d) of
                          Inl e \<Rightarrow> Inl e
                        | Inr (stale, d1) \<Rightarrow>
                            Inr (if stale then EVENT_IGNORED_STALE else EVENT_PROCESSED,
                                 upd_event log (processed_row now stale) d1))))"

definition record_error :: "(error \<Rightarrow> string) \<Rightarrow> uuid \<Rightarrow> error \<Rightarrow> db \<Rightarrow> db" where
  "record_error text log e d = upd_event log (\<lambda>r. r\<lparr>ev_error := text e\<rparr>) d"

subsection \<open>Delivery over HTTP\<close>

record http_answer =
  ha_status :: nat
  ha_body :: string

definition ERR_400_INVALID_STRIPE_SIGNATURE :: string where
  "ERR_400_INVALID_STRIPE_SIGNATURE = ''error.400.invalid_stripe_signature''"

definition ERR_400_INVALID_WEBHOOK_PAYLOAD :: string where
  "ERR_400_INVALID_WEBHOOK_PAYLOAD = ''error.400.invalid_webhook_payload''"

definition event_by_stripe_id :: "string \<Rightarrow> db \<Rightarrow> webhook_event option" where
  "event_by_stripe_id i d = find (\<lambda>e. ev_stripe_id e = i) (events d)"

definition new_event :: "time \<Rightarrow> string \<Rightarrow> string \<Rightarrow> dict \<Rightarrow> db \<Rightarrow> webhook_event" where
  "new_event now i ty event d =
     \<lparr>ev_id = next_id d, ev_stripe_id = i, ev_type = ty, ev_payload = event, ev_processed = None,
      ev_ignored_stale = False, ev_error = [], ev_received = now\<rparr>"

text \<open>\<open>get_or_create\<close> of the row: the row and the database with it.\<close>

definition log_event :: "time \<Rightarrow> string \<Rightarrow> string \<Rightarrow> dict \<Rightarrow> db \<Rightarrow> webhook_event \<times> db" where
  "log_event now i ty event d =
     (case event_by_stripe_id i d of
        Some e \<Rightarrow> (e, d)
      | None \<Rightarrow> (let e = new_event now i ty event d in (e, d\<lparr>events := events d @ [e], next_id := Suc (next_id d)\<rparr>)))"

definition stripe_webhook_post ::
    "(string \<Rightarrow> error + handler option) \<Rightarrow> (error \<Rightarrow> string) \<Rightarrow> settings \<Rightarrow> time \<Rightarrow> error + dict \<Rightarrow> db \<Rightarrow> http_answer \<times> db" where
  "stripe_webhook_post lookup text cf now verified d =
     (case verified of
        Inl (ValueError m) \<Rightarrow> (\<lparr>ha_status = 400, ha_body = ERR_400_INVALID_STRIPE_SIGNATURE\<rparr>, d)
      | Inl e \<Rightarrow> (\<lparr>ha_status = 400, ha_body = ERR_400_INVALID_WEBHOOK_PAYLOAD\<rparr>, d)
      | Inr event \<Rightarrow>
          (case (id_text (dget event ''id''), id_text (dget event ''type'')) of
             (Some i, Some ty) \<Rightarrow>
               (let (log, d1) = log_event now i ty event d
                in if ev_processed log \<noteq> None then (\<lparr>ha_status = 200, ha_body = ''duplicate''\<rparr>, d1)
                   else case apply_stored_event lookup cf now (ev_id log) (Some event) d1 of
                          Inl e \<Rightarrow> (\<lparr>ha_status = 500, ha_body = ''error''\<rparr>, record_error text (ev_id log) e d1)
                        | Inr (outcome, d2) \<Rightarrow>
                            (\<lparr>ha_status = 200, ha_body = if outcome = EVENT_DUPLICATE then ''duplicate'' else ''ok''\<rparr>, d2))
           | _ \<Rightarrow> (\<lparr>ha_status = 400, ha_body = ERR_400_INVALID_WEBHOOK_PAYLOAD\<rparr>, d)))"

subsection \<open>Replay of stored rows\<close>

record replayed_event =
  re_stripe_id :: string
  re_type :: string
  re_received :: time
  re_previous_error :: string
  re_outcome :: string
  re_error :: "string option"

definition replayable_events :: "string list \<Rightarrow> bool \<Rightarrow> db \<Rightarrow> webhook_event list" where
  "replayable_events ids unprocessed d =
     sort_key ev_received
       (filter (\<lambda>e. ev_stripe_id e \<in> set ids \<or> (unprocessed \<and> ev_processed e = None)) (events d))"

definition replay_one ::
    "(string \<Rightarrow> error + handler option) \<Rightarrow> (error \<Rightarrow> string) \<Rightarrow> settings \<Rightarrow> time \<Rightarrow> bool \<Rightarrow> webhook_event \<Rightarrow> db \<Rightarrow> replayed_event \<times> db" where
  "replay_one lookup text cf now dry_run log d =
     (let result = \<lparr>re_stripe_id = ev_stripe_id log, re_type = ev_type log, re_received = ev_received log,
                    re_previous_error = ev_error log, re_outcome = ''pending'', re_error = None\<rparr>
      in if dry_run
         then (result\<lparr>re_outcome := if ev_processed log \<noteq> None then EVENT_DUPLICATE else ''pending''\<rparr>, d)
         else case apply_stored_event lookup cf now (ev_id log) None d of
                Inl e \<Rightarrow> (result\<lparr>re_outcome := ''error'', re_error := Some (text e)\<rparr>, record_error text (ev_id log) e d)
              | Inr (outcome, d1) \<Rightarrow> (result\<lparr>re_outcome := outcome\<rparr>, d1))"

fun replay_all ::
    "(string \<Rightarrow> error + handler option) \<Rightarrow> (error \<Rightarrow> string) \<Rightarrow> settings \<Rightarrow> time \<Rightarrow> bool \<Rightarrow> webhook_event list \<Rightarrow> db \<Rightarrow> replayed_event list \<times> db" where
  "replay_all lookup text cf now dry_run [] d = ([], d)"
| "replay_all lookup text cf now dry_run (log # logs) d =
     (let (r, d1) = replay_one lookup text cf now dry_run log d;
          (rs, d2) = replay_all lookup text cf now dry_run logs d1
      in (r # rs, d2))"

definition replay_webhook_events ::
    "(string \<Rightarrow> error + handler option) \<Rightarrow> (error \<Rightarrow> string) \<Rightarrow> settings \<Rightarrow> time \<Rightarrow> string list \<Rightarrow> bool \<Rightarrow> bool \<Rightarrow> db \<Rightarrow> replayed_event list \<times> db" where
  "replay_webhook_events lookup text cf now ids unprocessed dry_run d =
     replay_all lookup text cf now dry_run (replayable_events ids unprocessed d) d"

text \<open>The registry of a deployment that overrides nothing.\<close>

definition builtin_lookup :: "string \<Rightarrow> error + handler option" where
  "builtin_lookup = get_stripe_handler (\<lambda>_. None) []"

end
