(* ===== verification/Event_Facts.thy ===== *)
theory Event_Facts
  imports Event_Log
begin

section \<open>The contract between the event log and its handlers\<close>

text \<open>
  A handler may do anything but touch the log: the row of the event it runs for, and every other
  one, is written by the log alone. Under that contract (\<open>event_handlers\<close>) an event commits at
  most once, and a failed one is kept for the next attempt. The library's handlers keep it.
\<close>

subsection \<open>Writes that leave the log and the operator's windows alone\<close>

definition own_kept :: "db \<Rightarrow> db \<Rightarrow> bool" where
  "own_kept d d' = (events d' = events d \<and> comps d' = comps d \<and> next_id d \<le> next_id d')"

lemma own_kept_refl [intro!, simp]: "own_kept d d"
  by (simp add: own_kept_def)

lemma own_kept_trans [trans]: "own_kept a b \<Longrightarrow> own_kept b c \<Longrightarrow> own_kept a c"
  by (simp add: own_kept_def)

lemma keeps_log: "keeps d d' \<Longrightarrow> own_kept d d'"
  by (simp add: keeps_def own_kept_def)

lemma silent_own: "silent d d' \<Longrightarrow> own_kept d d'"
  by (simp add: silent_def own_kept_def)

lemmas log_claim = silent_own[OF silent_claim] and log_save_sub = silent_own[OF silent_save_sub]
  and log_stamp = silent_own[OF silent_stamp]

lemma log_announce:
  "own_kept d (announce_payment u t n c x d)" "own_kept d (announce_subscription s d)"
  by (simp_all add: announce_payment_def announce_subscription_def emit_def own_kept_def)

lemma log_save_lifecycle: "own_kept d (save_lifecycle s d)"
  unfolding save_lifecycle_def
  by (rule own_kept_trans[OF own_kept_trans[OF log_save_sub log_stamp] log_announce(2)])

lemma log_resolve: "own_kept d (snd (resolve_local_subscription obj d))"
  by (auto simp: resolve_local_subscription_def Let_def intro: log_save_sub split: option.splits)

lemma log_stash: "own_kept d (snd (stash_subscription_period obj e d))"
  by (auto simp: stash_subscription_period_def Let_def own_kept_def split: option.splits)

subsection \<open>The subscription and payment handlers\<close>

lemma log_updated: "own_kept d (snd (handle_subscription_updated event d))"
  using log_resolve[of d "event_object event"]
  by (auto simp: handle_subscription_updated_def Let_def split: prod.split option.split
      intro: own_kept_trans log_stash log_save_lifecycle)

lemma log_deleted: "own_kept d (snd (handle_subscription_deleted now event d))"
  using log_resolve[of d "event_object event"]
  by (auto simp: handle_subscription_deleted_def Let_def split: prod.split option.split
      intro: own_kept_trans log_stash log_save_lifecycle)

interpretation log: paying_moves cf own_kept
  by unfold_locales (auto intro: silent_own own_kept_trans log_announce)

lemmas log_checkout = log.checkout and log_invoice = log.invoice

lemma log_failed:
  "handle_invoice_payment_failed now event d = Inr d' \<Longrightarrow> own_kept d d'"
  "handle_charge_failed now event d = Inr d' \<Longrightarrow> own_kept d d'"
  by (auto simp: own_kept_def elim: invoice_failed_outbox charge_failed_outbox)

subsection \<open>The handlers of money going back\<close>

lemma log_book_debt: "own_kept d (snd (book_debt w n reason ty desc key t d))"
  by (simp add: book_debt_def open_debt_def Let_def split_beta write_defs own_kept_def)

lemma log_claw_back_grant: "own_kept d (snd (claw_back_grant now t credits desc m d))"
proof -
  note k = keeps_log[OF keeps_expire] keeps_log[OF keeps_fold_take] keeps_log[OF keeps_sync] keeps_log[OF keeps_writes(3)]
  show ?thesis
    unfolding claw_back_grant_def Let_def split_beta
    by (simp del: own_kept_refl) (intro conjI impI; intro own_kept_trans[OF _ log_book_debt] own_kept_trans[OF _ k(4)]
        own_kept_trans[OF _ k(3)] own_kept_trans[OF k(1) k(2)])
qed

lemma log_claw_back_remaining: "own_kept d (claw_back_remaining now obj label ev t d)"
  by (simp add: claw_back_remaining_def Let_def log_claw_back_grant)

lemma log_clawback: "own_kept d (handle_clawback now event label d)"
proof -
  have f: "own_kept d (fold (claw_back_remaining now obj label ev) gs d)" for obj ev gs d
    by (induction gs arbitrary: d) (auto intro: own_kept_trans log_claw_back_remaining)
  obtain won d1 where c: "claim_provider_object SCOPE_CLAWBACK (dstr event ''id'') ''stripe'' d = (won, d1)"
    by (rule prod.exhaust)
  show ?thesis using log_claim[OF c] own_kept_trans[OF log_claim[OF c] f]
    by (simp add: handle_clawback_def Let_def c)
qed

lemma log_give_back: "own_kept d (give_back now w n grant row ev d)"
proof -
  have r: "own_kept d (snd (restore_lot w n grant d))"
    using keeps_log[OF keeps_writes(2)] by (auto simp: restore_lot_def split: option.split)
  show ?thesis unfolding give_back_def Let_def split_beta
    by (intro own_kept_trans[OF _ keeps_log[OF keeps_writes(3)]] own_kept_trans[OF _ keeps_log[OF keeps_sync]]
        own_kept_trans[OF r keeps_log[OF keeps_expire]])
qed

lemma log_reverse:
  assumes "reverse_clawback now ev row0 d = Inr (n, d')"
  shows "own_kept d d'"
proof (cases "get_row txn_id (txn_id row0) (txns d)")
  case (Some row)
  show ?thesis
  proof (cases "dtruthy (txn_meta row) ''reversed''")
    case False
    from assms Some False obtain rc rq where i: "int_or_zero (dget (txn_meta row) ''reclaimed'') = Some rc"
      "int_or_zero (dget (txn_meta row) ''requested'') = Some rq"
      by (auto simp: reverse_clawback_def Let_def split: option.splits)
    have c: "own_kept d (cancelled now ev ox d)" for ox
      using keeps_log[OF keeps_writes(5)] by (auto simp: cancelled_def split: option.split)
    note u = keeps_log[OF keeps_writes(7)]
    note g = own_kept_trans[OF own_kept_trans[OF c log_give_back] u]
    show ?thesis
      using assms unfolding reverse_clawback_eq[OF Some False i] Let_def
      by (auto split: if_splits sum.splits intro: own_kept_trans[OF c u] own_kept_trans[OF g keeps_log[OF keeps_settle]])
  qed (use assms Some in \<open>simp add: reverse_clawback_def\<close>)
qed (use assms in \<open>simp add: reverse_clawback_def\<close>)

lemma log_reverse_all: "reverse_all now ev rs d = Inr d' \<Longrightarrow> own_kept d d'"
  by (induction rs arbitrary: d) (auto intro: own_kept_trans log_reverse split: sum.splits)

lemma log_dispute_closed:
  assumes "handle_dispute_closed now event d = Inr d'"
  shows "own_kept d d'"
proof -
  obtain won d1 where c: "claim_provider_object SCOPE_CLAWBACK (dstr event ''id'') ''stripe'' d = (won, d1)"
    by (rule prod.exhaust)
  with assms log_claim[OF c] own_kept_trans[OF log_claim[OF c] log_reverse_all] show ?thesis
    by (auto simp: handle_dispute_closed_def Let_def split: if_splits)
qed

lemma log_reconcile_all: "own_kept d (snd (reconcile_all dry now fetch ss d))"
proof (induction ss arbitrary: d)
  case (Cons s ss)
  have "own_kept d (snd (reconcile_one dry now fetch s d))"
    using reconcile_one_cases[of dry now fetch s d] log_save_sub log_save_lifecycle by (metis own_kept_refl prod.collapse)
  from own_kept_trans[OF this Cons.IH] show ?case by (simp add: Let_def split_beta)
qed simp

subsection \<open>The log under the contract\<close>

definition log_kept :: "db \<Rightarrow> db \<Rightarrow> bool" where
  "log_kept d d' = (events d' = events d \<and> next_id d \<le> next_id d')"

lemma log_kept_refl [intro!, simp]: "log_kept d d"
  by (simp add: log_kept_def)

lemma own_log: "own_kept d d' \<Longrightarrow> log_kept d d'"
  by (simp add: own_kept_def log_kept_def)

definition log_ok :: "db \<Rightarrow> bool" where
  "log_ok d = (distinct (map ev_id (events d)) \<and> (\<forall>e \<in> set (events d). ev_id e < next_id d) \<and>
     distinct (map ev_stripe_id (events d)))"

definition committed :: "string \<Rightarrow> db \<Rightarrow> bool" where
  "committed i d = (\<exists>e \<in> set (events d). ev_stripe_id e = i \<and> ev_processed e \<noteq> None)"

text \<open>A step of the log: the rows stay the rows they are, and what is committed stays committed.\<close>

definition log_moves :: "db \<Rightarrow> db \<Rightarrow> bool" where
  "log_moves d d' = (log_ok d' \<and> (\<forall>i. committed i d \<longrightarrow> committed i d'))"

lemma log_kept_ok: "log_kept d d' \<Longrightarrow> log_ok d \<Longrightarrow> log_moves d d'"
  by (fastforce simp: log_kept_def log_ok_def log_moves_def committed_def)

lemma log_moves_trans [trans]: "log_moves a b \<Longrightarrow> log_moves b c \<Longrightarrow> log_moves a c"
  by (simp add: log_moves_def)

lemma log_moves_refl: "log_ok d \<Longrightarrow> log_moves d d"
  by (simp add: log_moves_def)

lemma upd_event_events [simp]: "events (upd_event i f d) = upd_row ev_id i f (events d)"
  by (simp add: upd_event_def)

lemma upd_event_moves:
  assumes "log_ok d" and "\<And>e. ev_id (f e) = ev_id e" and "\<And>e. ev_stripe_id (f e) = ev_stripe_id e"
    and "\<And>e. ev_processed e \<noteq> None \<Longrightarrow> ev_processed (f e) \<noteq> None"
  shows "log_moves d (upd_event i f d)"
proof -
  have "log_ok (upd_event i f d)"
    using assms(1-3) map_upd_row[where g = ev_id and f = f] map_upd_row[where g = ev_stripe_id and f = f]
    by (auto simp: log_ok_def set_upd_row) (simp_all add: upd_event_def)
  moreover have "committed k (upd_event i f d)" if "committed k d" for k
  proof -
    from that obtain e where e: "e \<in> set (events d)" "ev_stripe_id e = k" "ev_processed e \<noteq> None"
      by (auto simp: committed_def)
    let ?e = "if ev_id e = i then f e else e"
    have "?e \<in> set (events (upd_event i f d))" unfolding upd_event_events set_upd_row using e(1) by (rule imageI)
    with e(2,3) assms(3,4) show ?thesis unfolding committed_def by (intro bexI[of _ ?e]) auto
  qed
  ultimately show ?thesis by (simp add: log_moves_def)
qed

lemma record_error_moves: "log_ok d \<Longrightarrow> log_moves d (record_error text i e d)"
  unfolding record_error_def by (rule upd_event_moves) simp_all

lemma processed_row_fields [simp]:
  "ev_id (processed_row now stale e) = ev_id e" "ev_stripe_id (processed_row now stale e) = ev_stripe_id e"
  "ev_processed (processed_row now stale e) = Some now"
  by (simp_all add: processed_row_def)

lemma row_unique:
  assumes "log_ok d" and "e \<in> set (events d)" and "e' \<in> set (events d)" and "ev_stripe_id e = ev_stripe_id e'"
  shows "e = e'"
  using assms by (metis distinct_map inj_onD log_ok_def)

lemma not_committed: "log_ok d \<Longrightarrow> e \<in> set (events d) \<Longrightarrow> ev_processed e = None \<Longrightarrow> \<not> committed (ev_stripe_id e) d"
  using row_unique unfolding committed_def by metis

lemma log_event_facts:
  assumes "log_ok d" and "log_event now i ty event d = (log, d1)"
  shows "log_moves d d1" "get_row ev_id (ev_id log) (events d1) = Some log" "ev_stripe_id log = i"
proof -
  have "log_ok d1 \<and> (\<forall>i. committed i d \<longrightarrow> committed i d1) \<and> log \<in> set (events d1) \<and> ev_stripe_id log = i"
  proof (cases "event_by_stripe_id i d")
    case None
    then have "i \<notin> ev_stripe_id ` set (events d)" by (auto simp: event_by_stripe_id_def find_None_iff)
    moreover have "next_id d \<notin> ev_id ` set (events d)" using assms(1) by (auto simp: log_ok_def)
    ultimately show ?thesis
      using assms None by (auto simp: log_event_def Let_def new_event_def log_ok_def committed_def less_SucI)
  next
    case (Some e)
    then have e: "e \<in> set (events d)" "ev_stripe_id e = i" by (auto simp: event_by_stripe_id_def find_Some_iff)
    with Some assms show ?thesis by (auto simp: log_event_def)
  qed
  then show "log_moves d d1" "get_row ev_id (ev_id log) (events d1) = Some log" "ev_stripe_id log = i"
    by (auto simp: log_moves_def log_ok_def get_row_distinct)
qed

text \<open>What an observer sees of one event: answers \<open>ok\<close> to its deliveries, and replays that ran it.\<close>

datatype traffic = Delivered settings time "error + dict" | Replayed settings time "string list" bool

definition about :: "string \<Rightarrow> error + dict \<Rightarrow> bool" where
  "about i verified = (case verified of Inl e \<Rightarrow> False | Inr event \<Rightarrow> id_text (dget event ''id'') = Some i)"

definition ran :: "string \<Rightarrow> replayed_event \<Rightarrow> bool" where
  "ran i r = (re_stripe_id r = i \<and> (re_outcome r = EVENT_PROCESSED \<or> re_outcome r = EVENT_IGNORED_STALE))"

fun commits :: "(string \<Rightarrow> error + handler option) \<Rightarrow> (error \<Rightarrow> string) \<Rightarrow> string \<Rightarrow> traffic list \<Rightarrow> db \<Rightarrow> nat" where
  "commits lookup text i [] d = 0"
| "commits lookup text i (Delivered cf now v # ts) d =
     (let (a, d') = stripe_webhook_post lookup text cf now v d
      in (if about i v \<and> a = \<lparr>ha_status = 200, ha_body = ''ok''\<rparr> then 1 else 0) + commits lookup text i ts d')"
| "commits lookup text i (Replayed cf now ids unprocessed # ts) d =
     (let (rs, d') = replay_webhook_events lookup text cf now ids unprocessed False d
      in length (filter (ran i) rs) + commits lookup text i ts d')"

definition room :: "string \<Rightarrow> db \<Rightarrow> nat" where
  "room i d = (if committed i d then 0 else 1)"

lemma room_moves: "log_moves d d' \<Longrightarrow> room i d' \<le> room i d"
  by (simp add: room_def log_moves_def)

lemma same_row:
  fixes xs ys :: "webhook_event list"
  assumes "map ev_id xs = map ev_id ys \<and> map ev_stripe_id xs = map ev_stripe_id ys"
    and "\<exists>r. get_row ev_id j ys = Some r \<and> ev_stripe_id r = k"
  shows "\<exists>r. get_row ev_id j xs = Some r \<and> ev_stripe_id r = k"
  using assms
proof (induction xs arbitrary: ys)
  case (Cons x xs)
  then obtain y zs where "ys = y # zs" by (cases ys) auto
  with Cons show ?case by (auto simp: get_row_def split: if_splits)
qed auto

locale event_handlers =
  fixes lookup :: "string \<Rightarrow> error + handler option"
  assumes handler_keeps: "lookup ty = Inr (Some h) \<Longrightarrow> h cf now e d = Inr (b, d') \<Longrightarrow> log_kept d d'"
begin

lemma apply_cases:
  assumes "apply_stored_event lookup cf now i ev d = Inr (out, d')"
  obtains r where "get_row ev_id i (events d) = Some r" "ev_processed r \<noteq> None" "out = EVENT_DUPLICATE" "d' = d"
  | r stale d1 where "get_row ev_id i (events d) = Some r" "ev_processed r = None" "log_kept d d1"
      "d' = upd_event i (processed_row now stale) d1" "out = (if stale then EVENT_IGNORED_STALE else EVENT_PROCESSED)"
proof (cases "get_row ev_id i (events d)")
  case None
  with assms show ?thesis by (simp add: apply_stored_event_def)
next
  case (Some r)
  show ?thesis
  proof (cases "ev_processed r = None")
    case False
    with assms Some have "out = EVENT_DUPLICATE" "d' = d" by (simp_all add: apply_stored_event_def)
    with that(1)[OF Some False] show ?thesis by blast
  next
    case True
    with assms Some obtain found where f: "lookup (ev_type r) = Inr found"
      by (cases "lookup (ev_type r)") (auto simp: apply_stored_event_def)
    obtain stale d1 where s: "log_kept d d1" "d' = upd_event i (processed_row now stale) d1"
      "out = (if stale then EVENT_IGNORED_STALE else EVENT_PROCESSED)"
    proof (cases found)
      case None
      with assms Some True f have "d' = upd_event i (processed_row now False) d" "out = EVENT_PROCESSED"
        by (auto simp: apply_stored_event_def)
      then show ?thesis by (intro that[of d False]) simp_all
    next
      case (Some h)
      with assms True f \<open>get_row ev_id i (events d) = Some r\<close> obtain stale d1
        where "h cf now (case ev of Some p \<Rightarrow> p | None \<Rightarrow> ev_payload r) d = Inr (stale, d1)"
          "d' = upd_event i (processed_row now stale) d1" "out = (if stale then EVENT_IGNORED_STALE else EVENT_PROCESSED)"
        by (auto simp: apply_stored_event_def split: sum.splits)
      with handler_keeps[OF f[unfolded Some]] that show ?thesis by blast
    qed
    show ?thesis by (rule that(2)[OF Some True s])
  qed
qed

lemma apply_room:
  assumes "log_ok d" and "get_row ev_id i (events d) = Some r" and "apply_stored_event lookup cf now i ev d = Inr (out, d')"
  shows "log_moves d d'"
    and "(if ev_stripe_id r = k \<and> out \<noteq> EVENT_DUPLICATE then 1 else 0) + room k d' \<le> room k d"
proof -
  have "log_moves d d' \<and> (ev_stripe_id r = k \<and> out \<noteq> EVENT_DUPLICATE \<longrightarrow> \<not> committed k d \<and> committed k d')"
    using assms(3)
  proof (cases rule: apply_cases)
    case 1
    with log_moves_refl[OF assms(1)] show ?thesis by simp
  next
    case (2 r' stale d1)
    with assms(2) have r: "r' = r" "r \<in> set (events d)" "ev_id r = i" using get_row_Some by fastforce+
    have m1: "log_moves d d1" by (rule log_kept_ok[OF 2(3) assms(1)])
    then have "log_moves d1 d'" unfolding 2(4) by (intro upd_event_moves) (simp_all add: log_moves_def)
    with m1 have "log_moves d d'" by (rule log_moves_trans)
    moreover have "processed_row now stale r \<in> set (events d')"
      using r(2,3) 2(3) unfolding 2(4) upd_event_events set_upd_row log_kept_def by force
    then have "committed (ev_stripe_id r) d'"
      unfolding committed_def by (intro bexI[of _ "processed_row now stale r"]) simp_all
    moreover have "\<not> committed (ev_stripe_id r) d" using not_committed[OF assms(1) r(2)] 2(2) r(1) by simp
    ultimately show ?thesis by blast
  qed
  then show "log_moves d d'" and "(if ev_stripe_id r = k \<and> out \<noteq> EVENT_DUPLICATE then 1 else 0) + room k d' \<le> room k d"
    using room_moves[of d d' k] by (auto simp: room_def)
qed

lemma post_room:
  assumes "log_ok d" and "stripe_webhook_post lookup text cf now v d = (a, d')"
  shows "log_moves d d' \<and> (if about i v \<and> a = \<lparr>ha_status = 200, ha_body = ''ok''\<rparr> then 1 else 0) + room i d' \<le> room i d"
proof (cases v)
  case (Inl e)
  with assms log_moves_refl[OF assms(1)] show ?thesis by (cases e) (auto simp: stripe_webhook_post_def about_def)
next
  case (Inr event)
  show ?thesis
  proof (cases "\<exists>k ty. id_text (dget event ''id'') = Some k \<and> id_text (dget event ''type'') = Some ty")
    case False
    with assms Inr log_moves_refl[OF assms(1)] show ?thesis
      by (auto simp: stripe_webhook_post_def split: option.splits)
  next
    case True
    then obtain k ty where k: "id_text (dget event ''id'') = Some k" "id_text (dget event ''type'') = Some ty" by blast
    obtain log d1 where l: "log_event now k ty event d = (log, d1)" by (rule prod.exhaust)
    note f = log_event_facts[OF assms(1) l]
    have ok1: "log_ok d1" using f(1) by (simp add: log_moves_def)
    have about: "about i v \<longleftrightarrow> k = i" using Inr k by (auto simp: about_def)
    note body = assms(2)[unfolded stripe_webhook_post_def Inr sum.case k option.case prod.case l Let_def]
    show ?thesis
    proof (cases "ev_processed log = None")
      case False
      with body f(1) room_moves[OF f(1), of i] show ?thesis by auto
    next
      case True
      show ?thesis
      proof (cases "apply_stored_event lookup cf now (ev_id log) (Some event) d1")
        case (Inl e)
        with body True have "a = \<lparr>ha_status = 500, ha_body = ''error''\<rparr>" "d' = record_error text (ev_id log) e d1" by auto
        with log_moves_trans[OF f(1) record_error_moves[OF ok1]] room_moves show ?thesis by fastforce
      next
        case (Inr p)
        obtain out d2 where p: "p = (out, d2)" by (rule prod.exhaust)
        with body True Inr have "d' = d2" "a = \<lparr>ha_status = 200, ha_body = if out = EVENT_DUPLICATE then ''duplicate'' else ''ok''\<rparr>"
          by auto
        with apply_room(1)[OF ok1 f(2) Inr[unfolded p]] apply_room(2)[OF ok1 f(2) Inr[unfolded p], of i] log_moves_trans[OF f(1)] room_moves[OF f(1), of i] f(3) about
        show ?thesis by (auto split: if_splits)
      qed
    qed
  qed
qed

lemma replay_one_keys:
  assumes "replay_one lookup text cf now False log d = (r1, d1)"
  shows "map ev_id (events d1) = map ev_id (events d) \<and> map ev_stripe_id (events d1) = map ev_stripe_id (events d)"
proof (cases "apply_stored_event lookup cf now (ev_id log) None d")
  case (Inl x)
  with assms show ?thesis by (auto simp: replay_one_def record_error_def map_upd_row)
next
  case (Inr p)
  obtain out d3 where p: "p = (out, d3)" by (rule prod.exhaust)
  with assms Inr have "d1 = d3" by (auto simp: replay_one_def)
  from Inr[unfolded p] this show ?thesis by (cases rule: apply_cases) (auto simp: log_kept_def map_upd_row)
qed

lemma replay_one_room:
  assumes "log_ok d" and "replay_one lookup text cf now False log d = (r1, d1)"
    and "get_row ev_id (ev_id log) (events d) = Some r" and "ev_stripe_id r = ev_stripe_id log"
  shows "log_moves d d1 \<and> (if ran i r1 then 1 else 0) + room i d1 \<le> room i d"
proof (cases "apply_stored_event lookup cf now (ev_id log) None d")
  case (Inl x)
  with assms(2) have "d1 = record_error text (ev_id log) x d" "re_outcome r1 = ''error''" by (auto simp: replay_one_def)
  with record_error_moves[OF assms(1)] room_moves[of d d1] show ?thesis
    by (auto simp: ran_def EVENT_PROCESSED_def EVENT_IGNORED_STALE_def)
next
  case (Inr p)
  obtain out d3 where p: "p = (out, d3)" by (rule prod.exhaust)
  with assms(2) Inr have "d1 = d3" "re_outcome r1 = out" "re_stripe_id r1 = ev_stripe_id log" by (auto simp: replay_one_def)
  with apply_room(1)[OF assms(1,3) Inr[unfolded p]] apply_room(2)[OF assms(1,3) Inr[unfolded p], of i] assms(4) show ?thesis
    by (auto simp: ran_def EVENT_PROCESSED_def EVENT_IGNORED_STALE_def EVENT_DUPLICATE_def split: if_splits)
qed

text \<open>A replay that does not fail leaves its event processed, by itself or by an earlier run.\<close>

lemma replay_one_commits:
  assumes "log_ok d" and "replay_one lookup text cf now False log d = (r1, d1)"
    and "get_row ev_id (ev_id log) (events d) = Some r" and "ev_stripe_id r = ev_stripe_id log"
  shows "re_stripe_id r1 = ev_stripe_id log \<and> (re_outcome r1 \<noteq> ''error'' \<longrightarrow> committed (ev_stripe_id log) d1)"
proof (cases "apply_stored_event lookup cf now (ev_id log) None d")
  case (Inl x)
  with assms(2) show ?thesis by (auto simp: replay_one_def)
next
  case (Inr p)
  obtain out d3 where p: "p = (out, d3)" by (rule prod.exhaust)
  with assms(2) Inr have e: "d1 = d3" "re_stripe_id r1 = ev_stripe_id log" by (auto simp: replay_one_def)
  have "committed (ev_stripe_id log) d3"
    using Inr[unfolded p]
  proof (cases rule: apply_cases)
    case (1 r')
    then show ?thesis using assms(3,4) get_row_Some[OF assms(3)] by (auto simp: committed_def)
  next
    case 2
    have "out \<noteq> EVENT_DUPLICATE" unfolding 2(5) by (simp add: EVENT_PROCESSED_def EVENT_IGNORED_STALE_def EVENT_DUPLICATE_def)
    with apply_room(2)[OF assms(1,3) Inr[unfolded p], of "ev_stripe_id r"] assms(4) show ?thesis
      by (auto simp: room_def split: if_splits)
  qed
  with e show ?thesis by simp
qed

lemma replay_all_room:
  assumes "log_ok d" and "replay_all lookup text cf now False logs d = (rs, d')"
    and "\<forall>log \<in> set logs. \<exists>r. get_row ev_id (ev_id log) (events d) = Some r \<and> ev_stripe_id r = ev_stripe_id log"
  shows "log_moves d d' \<and> length (filter (ran i) rs) + room i d' \<le> room i d \<and>
    map re_stripe_id rs = map ev_stripe_id logs \<and> (\<forall>r \<in> set rs. re_outcome r \<noteq> ''error'' \<longrightarrow> committed (re_stripe_id r) d')"
  using assms
proof (induction logs arbitrary: d rs)
  case (Cons log logs)
  obtain r1 d1 where one: "replay_one lookup text cf now False log d = (r1, d1)" by (rule prod.exhaust)
  obtain rs1 d2 where rest: "replay_all lookup text cf now False logs d1 = (rs1, d2)" by (rule prod.exhaust)
  from Cons.prems(2) one rest have e: "rs = r1 # rs1" "d' = d2" by auto
  obtain r where r: "get_row ev_id (ev_id log) (events d) = Some r" "ev_stripe_id r = ev_stripe_id log" using Cons.prems(3) by auto
  note step = replay_one_room[OF Cons.prems(1) one r, of i] and fin = replay_one_commits[OF Cons.prems(1) one r]
  have same: "\<exists>r. get_row ev_id j (events d1) = Some r \<and> ev_stripe_id r = k"
    if "\<exists>r. get_row ev_id j (events d) = Some r \<and> ev_stripe_id r = k" for j k
    using replay_one_keys[OF one] that by (rule same_row)
  have ih: "log_moves d1 d' \<and> length (filter (ran i) rs1) + room i d' \<le> room i d1 \<and>
      map re_stripe_id rs1 = map ev_stripe_id logs \<and> (\<forall>r \<in> set rs1. re_outcome r \<noteq> ''error'' \<longrightarrow> committed (re_stripe_id r) d')"
    using Cons.IH[of d1 rs1] step rest e(2) Cons.prems(3) same by (simp add: log_moves_def)
  then have "committed k d1 \<Longrightarrow> committed k d'" for k by (simp add: log_moves_def)
  with step ih fin log_moves_trans show ?case unfolding e by (auto split: if_splits)
qed (auto simp: log_moves_refl)

lemma replay_room:
  assumes "log_ok d" and "replay_webhook_events lookup text cf now ids un False d = (rs, d')"
  shows "log_moves d d' \<and> length (filter (ran i) rs) + room i d' \<le> room i d"
    and "map re_stripe_id rs = map ev_stripe_id (replayable_events ids un d)"
    and "\<forall>r \<in> set rs. re_outcome r \<noteq> ''error'' \<longrightarrow> committed (re_stripe_id r) d'"
  using replay_all_room[OF assms(1) assms(2)[unfolded replay_webhook_events_def]] assms(1)
  by (auto simp: replayable_events_def log_ok_def get_row_distinct)

lemma commits_room: "log_ok d \<Longrightarrow> commits lookup text i ts d \<le> room i d"
proof (induction ts arbitrary: d)
  case (Cons t ts)
  show ?case
  proof (cases t)
    case (Delivered cf now v)
    obtain a d' where p: "stripe_webhook_post lookup text cf now v d = (a, d')" by (rule prod.exhaust)
    with post_room[OF Cons.prems p, of i] Cons.IH[of d'] Delivered show ?thesis by (simp add: log_moves_def)
  next
    case (Replayed cf now ids un)
    obtain rs d' where p: "replay_webhook_events lookup text cf now ids un False d = (rs, d')" by (rule prod.exhaust)
    with replay_room(1)[OF Cons.prems p, of i] Cons.IH[of d'] Replayed show ?thesis by (simp add: log_moves_def)
  qed
qed simp

end

subsection \<open>The library's handlers keep the contract\<close>

lemma resolve_all_mem:
  assumes "resolve_all host raw = Inr hs" and "(ty, h) \<in> set hs"
  shows "\<exists>v. (ty, v) \<in> set raw \<and> resolve host v = Inr h"
  using assms
proof (induction raw arbitrary: hs)
  case (Cons p raw)
  obtain k v where p: "p = (k, v)" by (rule prod.exhaust)
  from Cons.prems(1) p obtain g gs where "resolve host v = Inr g" "resolve_all host raw = Inr gs" "hs = (k, g) # gs"
    by (auto split: sum.splits)
  with Cons.IH[of gs] Cons.prems(2) p show ?case by auto
qed simp

lemma quietly_Inr: "quietly r = Inr (b, d') \<Longrightarrow> r = Inr d'"
  by (cases r) (auto simp: quietly_def)

lemma library_handler_keeps:
  assumes "(p, h) \<in> set library_handlers" and "h cf now e d = Inr (b, d')"
  shows "own_kept d d'"
proof -
  have c: "own_kept d (handle_charge_refunded now e d)" "own_kept d (handle_dispute_created now e d)"
    "own_kept d (handle_credit_note_created now e d)"
    by (simp_all add: handle_charge_refunded_def handle_dispute_created_def handle_credit_note_created_def log_clawback)
  have s: "own_kept d d'" if "handle_subscription_updated e d = (b, d') \<or> handle_subscription_deleted now e d = (b, d')"
    using that log_updated[of d e] log_deleted[of d now e] by auto
  from assms show ?thesis
    unfolding library_handlers_def list.set insert_iff empty_iff prod.inject
    by (elim disjE conjE FalseE)
      (auto dest!: quietly_Inr simp: c s intro: log_checkout log_invoice log_failed log_dispute_closed)
qed

interpretation shipped: event_handlers builtin_lookup
proof
  fix ty h cf now e d b d'
  assume "builtin_lookup ty = Inr (Some h)" and run: "h cf now e d = Inr (b, d')"
  then obtain hs where hs: "stripe_handlers (\<lambda>_. None) [] = Inr hs" "map_of hs ty = Some (Some h)"
    by (auto simp: builtin_lookup_def get_stripe_handler_def split: sum.splits option.splits)
  from resolve_all_mem[OF hs(1)[unfolded stripe_handlers_def] map_of_SomeD[OF hs(2)]]
  obtain path where "resolve (\<lambda>_. None) (Dotted path) = Inr (Some h)" by auto
  then have "map_of library_handlers path = Some h"
    by (auto simp: import_string_def split: if_splits option.splits)
  from own_log[OF library_handler_keeps[OF map_of_SomeD[OF this] run]] show "log_kept d d'" .
qed

text \<open>The library's own paths always resolve.\<close>

lemma builtin_resolves:
  assumes "q \<in> snd ` set BUILTIN_STRIPE_HANDLERS"
  shows "ok (resolve host (Dotted q))"
proof -
  have "list_all (\<lambda>q. strip q \<noteq> [] \<and> \<not> Option.is_none (map_of library_handlers q)) (map snd BUILTIN_STRIPE_HANDLERS)"
    by code_simp
  with assms have "\<exists>h. map_of library_handlers q = Some h" by (auto simp: list_all_iff Option.is_none_def)
  then show ?thesis by (auto simp: import_string_def)
qed

text \<open>A dotted path that does not import stops every event, not only the type it is registered for.\<close>

lemma one_bad_path_stops_all:
  assumes "strip path \<noteq> []" and "import_string host path = None"
  shows "get_stripe_handler host [(''customer.updated'', Dotted path)] ty = Inl (HandlerError ''ImproperlyConfigured'')"
proof -
  have r: "resolve_all host (raw @ [(k, Dotted path)]) = Inl (HandlerError ''ImproperlyConfigured'')"
    if "\<And>k v. (k, v) \<in> set raw \<Longrightarrow> ok (resolve host v)" for raw k
    using that assms
  proof (induction raw)
    case (Cons p raw)
    obtain k' v where p: "p = (k', v)" by (rule prod.exhaust)
    with Cons.prems(1)[of k' v] obtain h where "resolve host v = Inr h" by (auto simp: ok_iff)
    moreover have "resolve_all host (raw @ [(k, Dotted path)]) = Inl (HandlerError ''ImproperlyConfigured'')"
      using Cons.prems by (intro Cons.IH) auto
    ultimately show ?case using p by simp
  qed simp
  have fresh: "''customer.updated'' \<notin> fst ` set (map (apsnd Dotted) BUILTIN_STRIPE_HANDLERS)"
    by (simp add: BUILTIN_STRIPE_HANDLERS_def)
  have app: "AList.update k v xs = xs @ [(k, v)]" if "k \<notin> fst ` set xs" for k and v :: registry_value and xs
    using that by (induction xs) auto
  have "resolve_all host (map (apsnd Dotted) BUILTIN_STRIPE_HANDLERS @ [(''customer.updated'', Dotted path)]) =
      Inl (HandlerError ''ImproperlyConfigured'')"
  proof (rule r)
    fix k v
    assume "(k, v) \<in> set (map (apsnd Dotted) BUILTIN_STRIPE_HANDLERS)"
    then obtain x where x: "x \<in> set BUILTIN_STRIPE_HANDLERS" "(k, v) = apsnd Dotted x" unfolding set_map by (rule imageE)
    from x(2) have "v = Dotted (snd x)" by (simp add: apsnd_def map_prod_def split_beta)
    with builtin_resolves[OF imageI[OF x(1)]] show "ok (resolve host v)" by blast
  qed
  then show ?thesis unfolding get_stripe_handler_def stripe_handlers_def fold_simps prod.case id_apply app[OF fresh] by simp
qed

end
