(* ===== verification/Comp_Claims.thy ===== *)
theory Comp_Claims
  imports Entitlements Event_Facts Bundle_Claims Subscription_Claims
begin

section \<open>Properties of complimentary periods and entitlements\<close>

text \<open>
  The plan that governs is the highest on the ladder among the plans a user holds; a window the
  operator opened outlives whatever the provider says; granting one never takes an entitlement
  away, and its credits are granted once while they live.
\<close>

subsection \<open>The plans a user holds\<close>

definition plans_held :: "uid \<Rightarrow> time \<Rightarrow> db \<Rightarrow> string list" where
  "plans_held u now d =
     (case sub_of_user d u of
        None \<Rightarrow> []
      | Some s \<Rightarrow> (if entitling s then [sub_plan s] else []) @ map comp_plan (open_windows (sub_id s) now d))"

text \<open>\<open>q\<close> stands at least as high as \<open>p\<close>, if \<open>p\<close> is on the ladder at all.\<close>

definition ranks_below :: "plan_entry list \<Rightarrow> string \<Rightarrow> string \<Rightarrow> bool" where
  "ranks_below plans p q =
     (case plan_rank plans p of None \<Rightarrow> True
      | Some k \<Rightarrow> (case plan_rank plans q of None \<Rightarrow> False | Some k' \<Rightarrow> k \<le> k'))"

lemma ranks_below_refl [simp]: "ranks_below plans p p"
  by (simp add: ranks_below_def split: option.split)

lemma ranks_below_trans: "ranks_below plans p q \<Longrightarrow> ranks_below plans q r \<Longrightarrow> ranks_below plans p r"
  by (auto simp: ranks_below_def split: option.splits)

lemma ladder_ranks: "ladder_key plans p \<le> ladder_key plans q \<Longrightarrow> ranks_below plans p q"
  by (auto simp: ladder_key_def ranks_below_def less_eq_prod_def split: option.splits)

lemma window_ranks: "window_key plans c \<le> window_key plans c' \<Longrightarrow> ranks_below plans (comp_plan c) (comp_plan c')"
  by (auto simp: window_key_def ranks_below_def less_eq_prod_def split: option.splits)

lemma governing_window:
  assumes "governing_comp_period cf i now d = Some c"
  shows "c \<in> set (open_windows i now d)"
    and "\<And>c'. c' \<in> set (open_windows i now d) \<Longrightarrow> window_key (cf_plans cf) c' \<le> window_key (cf_plans cf) c"
  using best_by_Some[OF assms[unfolded governing_comp_period_def]] by auto

lemma governing_none: "governing_comp_period cf i now d = None \<longleftrightarrow> open_windows i now d = []"
  by (simp add: governing_comp_period_def)

text \<open>The candidates of the code are two, the plans held any number: the highest is the same.\<close>

lemma effective_best:
  assumes "[] \<notin> set (plans_held u now d)"
  shows "effective_plan cf u now d \<in> (if plans_held u now d = [] then {DEFAULT_PLAN} else set (plans_held u now d)) \<and>
    (\<forall>p \<in> set (plans_held u now d). ranks_below (cf_plans cf) p (effective_plan cf u now d))"
proof (cases "sub_of_user d u")
  case None
  then show ?thesis by (simp add: plans_held_def effective_plan_def)
next
  case (Some s)
  let ?wins = "open_windows (sub_id s) now d"
  define paid where "paid = (if entitling s then [sub_plan s] else [])"
  have held: "plans_held u now d = paid @ map comp_plan ?wins" by (simp add: plans_held_def Some paid_def)
  with assms have paid': "(if entitling s \<and> sub_plan s \<noteq> [] then [sub_plan s] else []) = paid"
    by (auto simp: paid_def)
  show ?thesis
  proof (cases "governing_comp_period cf (sub_id s) now d")
    case None
    then have "?wins = []" by (simp only: governing_none)
    moreover have "effective_plan cf u now d = (if entitling s then sub_plan s else DEFAULT_PLAN)"
      using None Some paid' by (simp add: effective_plan_def comp_plan_for_user_def Let_def paid_def)
    ultimately show ?thesis unfolding held by (simp add: paid_def)
  next
    case (Some c)
    note g = governing_window[OF Some]
    have ne: "comp_plan c \<noteq> []" using assms imageI[OF g(1), of comp_plan] unfolding held by auto
    have wins: "\<forall>p \<in> comp_plan ` set ?wins. ranks_below (cf_plans cf) p (comp_plan c)"
      using g(2) window_ranks by blast
    have eff: "effective_plan cf u now d =
        (case best_by (ladder_key (cf_plans cf)) (paid @ [comp_plan c]) of None \<Rightarrow> DEFAULT_PLAN | Some p \<Rightarrow> p)"
      using Some \<open>sub_of_user d u = Some s\<close> ne paid' by (simp add: effective_plan_def comp_plan_for_user_def Let_def)
    obtain p where p: "best_by (ladder_key (cf_plans cf)) (paid @ [comp_plan c]) = Some p"
      by (metis best_by_None not_None_eq append_is_Nil_conv not_Cons_self2)
    note b = best_by_Some[OF p]
    have "p \<in> set (plans_held u now d)" using b(1) g(1) unfolding held by auto
    moreover have "ranks_below (cf_plans cf) q p" if "q \<in> set (plans_held u now d)" for q
    proof -
      have "ranks_below (cf_plans cf) x p" if "x \<in> set (paid @ [comp_plan c])" for x
        using b(2)[OF that] by (rule ladder_ranks)
      then show ?thesis using that wins ranks_below_trans unfolding held by fastforce
    qed
    ultimately show ?thesis unfolding eff p by (auto split: if_splits)
  qed
qed

subsection \<open>A window outlives the provider\<close>

lemma lifecycle_step_own: "lifecycle_step cf d d' \<Longrightarrow> own_kept d d'"
proof (induction rule: lifecycle_step.induct)
  case (step_updated event d stale d')
  with log_updated[of d event] show ?case by simp
next
  case (step_deleted now event d stale d')
  with log_deleted[of d now event] show ?case by simp
next
  case (step_reconcile dry_run only now fetch d report d')
  with log_reconcile_all[of d dry_run now fetch] show ?case unfolding reconcile_subscriptions_def by (metis snd_conv)
qed (auto intro: log_checkout log_invoice)

lemma lifecycle_own: "lifecycle cf d d' \<Longrightarrow> own_kept d d'"
  by (induction rule: lifecycle.induct) (auto intro: own_kept_trans lifecycle_step_own)

lemma lifecycle_sub_of_user:
  assumes "lifecycle cf d d'" and "subs_ok d" and "sub_of_user d u = Some s"
  obtains s' where "sub_of_user d' u = Some s'" "sub_id s' = sub_id s"
proof -
  have s: "s \<in> set (subs d)" "sub_user s = Some u" using assms(3) by (auto simp: sub_of_user_def find_Some_iff)
  from lifecycle_move[OF assms(1)] assms(2) s obtain s' where
    s': "s' \<in> set (subs d')" "sub_id s' = sub_id s" "sub_user s' = Some u" and ok: "subs_ok d'"
    unfolding subs_move_def by metis
  obtain t where t: "sub_of_user d' u = Some t" using s' by (cases "sub_of_user d' u") (auto simp: sub_of_user_def find_None_iff)
  then have "t \<in> set (subs d')" "sub_user t = Some u" by (auto simp: sub_of_user_def find_Some_iff)
  with s' ok have "t = s'" unfolding subs_ok_def unique_by_def by (metis option.distinct(1))
  with t s'(2) that show ?thesis by blast
qed

text \<open>C7: nothing the provider says can take a complimentary period away. Whatever events, checkouts,
  invoices and reconciliations arrive after the operator opened a window, and whatever they make of
  the subscription row, the plan that governs the user while the window is open stands at least as
  high on the ladder as the plan of the window.\<close>

theorem comp_survives_provider:
  assumes "lifecycle cf d d'" and "subs_ok d" and "sub_of_user d u = Some s"
    and "c \<in> set (comps d)" and "comp_subscription c = sub_id s" and "comp_is_live now c"
    and "[] \<notin> set (plans_held u now d')"
  shows "ranks_below (cf_plans cf) (comp_plan c) (effective_plan cf u now d')"
proof -
  obtain s' where s': "sub_of_user d' u = Some s'" "sub_id s' = sub_id s"
    by (rule lifecycle_sub_of_user[OF assms(1-3)])
  have "c \<in> set (comps d')" using lifecycle_own[OF assms(1)] assms(4) by (simp add: own_kept_def)
  then have "comp_plan c \<in> set (plans_held u now d')"
    using s' assms(5,6) by (auto simp: plans_held_def open_windows_def)
  with effective_best[OF assms(7), of cf] show ?thesis by blast
qed

subsection \<open>A month of the next plan, on the house\<close>

definition comped :: "string \<Rightarrow> extension" where
  "comped slug = \<lparr>ex_days = Some 30, ex_reason = ''outage'', ex_actor = ''ops'', ex_plan = slug, ex_until = None,
     ex_starts = None, ex_stack = True, ex_bundle = True, ex_apply = True\<rparr>"

definition d_comped :: db where
  "d_comped = after d_subscribed (extend_subscription cf0 20 (comped ''team'') (hd (subs d_subscribed)) d_subscribed)"

theorem comp_survives_provider_witness:
  "let d' = snd (handle_subscription_deleted 50 (sub_event 10 ''canceled'') d_comped)
   in map sub_status (subs d') = [CANCELLED] \<and> ranks_below DEFAULT_PLANS ''team'' (effective_plan cf0 ''a'' 100 d')"
proof -
  define d' where "d' = snd (handle_subscription_deleted 50 (sub_event 10 ''canceled'') d_comped)"
  have lc: "lifecycle cf0 d_comped d'"
    unfolding d'_def using lc_step[OF lc_refl step_deleted[OF prod.collapse[symmetric]]] .
  have h: "subs_ok d_comped" "sub_of_user d_comped ''a'' = Some (hd (subs d_comped))" "hd (comps d_comped) \<in> set (comps d_comped)"
    "comp_subscription (hd (comps d_comped)) = sub_id (hd (subs d_comped))" "comp_is_live 100 (hd (comps d_comped))"
    "comp_plan (hd (comps d_comped)) = ''team''" "cf_plans cf0 = DEFAULT_PLANS" by code_simp+
  have h': "[] \<notin> set (plans_held ''a'' 100 d')" "map sub_status (subs d') = [CANCELLED]" unfolding d'_def by code_simp+
  from comp_survives_provider[OF lc h(1-5) h'(1)] h(6,7) h'(2) show ?thesis unfolding Let_def d'_def[symmetric] by simp
qed

subsection \<open>What granting a window does\<close>

text \<open>The effects of \<open>extend_subscription\<close>: nothing, or one window with the previewed values and what was credited.\<close>

lemma preview_plan:
  assumes "preview_extension cf now r s d = Inr (entry, p)"
  shows "get_plan (cf_plans cf) (cv_plan p) = Some entry" "cv_subscription p = sub_id s" "\<not> cv_applied p"
proof -
  have b: "cv_plan (preview_bundle cf now s e d q) = cv_plan q" "cv_subscription (preview_bundle cf now s e d q) = cv_subscription q"
    "cv_applied (preview_bundle cf now s e d q) = cv_applied q" for e q
    by (simp_all add: preview_bundle_def Let_def)
  from assms have "check_extension cf r s = Inr entry"
    by (auto simp: preview_extension_def Let_def split: sum.splits if_splits)
  then have "get_plan (cf_plans cf) (comped_slug r s) = Some entry"
    by (auto simp: check_extension_def split: if_splits option.splits)
  with assms show "get_plan (cf_plans cf) (cv_plan p) = Some entry" "cv_subscription p = sub_id s" "\<not> cv_applied p"
    by (auto simp: preview_extension_def Let_def b split: sum.splits if_splits)
qed

lemma extend_cases:
  assumes "extend_subscription cf now r s d = Inr (p, d')"
  obtains (dry) entry where "preview_extension cf now r s d = Inr (entry, p)" "\<not> ex_apply r" "d' = d"
  | (granted) entry q c d1 p1 d2 where "preview_extension cf now r s d = Inr (entry, q)" "ex_apply r"
      "create_comp q d = (c, d1)" "p1 = q\<lparr>cv_applied := True, cv_comp := Some (comp_id c)\<rparr>"
      "grant_comp_bundle cf now s c p1 d1 = Inr (p, d2)"
      "d' = (if sub_user s = None then d2 else announce_comp cf now s c d2)"
proof (cases "preview_extension cf now r s d")
  case (Inr x)
  obtain entry q where x: "x = (entry, q)" by (rule prod.exhaust)
  obtain c d1 where c: "create_comp q d = (c, d1)" by (rule prod.exhaust)
  show ?thesis
  proof (cases "ex_apply r")
    case True
    with assms Inr x c obtain d2 where
      "grant_comp_bundle cf now s c (q\<lparr>cv_applied := True, cv_comp := Some (comp_id c)\<rparr>) d1 = Inr (p, d2)"
      "d' = (if sub_user s = None then d2 else announce_comp cf now s c d2)"
      by (auto simp: extend_subscription_def split: sum.splits)
    from granted[OF Inr[unfolded x] True c refl this] show ?thesis .
  next
    case False
    with assms Inr x have "q = p" "d' = d" by (simp_all add: extend_subscription_def)
    with dry[OF _ False] Inr x show ?thesis by blast
  qed
qed (use assms in \<open>simp add: extend_subscription_def\<close>)

lemma grant_comp_bundle_own:
  assumes "grant_comp_bundle cf now s c p d = Inr (p', d')"
  shows "keeps d d'"
  using assms keeps_credit by (auto simp: grant_comp_bundle_def split: option.splits if_splits sum.splits)

lemma extend_windows:
  assumes "extend_subscription cf now r s d = Inr (p, d')"
  shows "subs d' = subs d \<and> (comps d' = comps d \<or>
    (\<exists>c. comps d' = comps d @ [c] \<and> get_plan (cf_plans cf) (comp_plan c) \<noteq> None))"
  using assms
proof (cases rule: extend_cases)
  case (granted entry q c d1 p1 d2)
  have c: "comps d1 = comps d @ [c]" "subs d1 = subs d" "comp_plan c = cv_plan q"
    using granted(3) by (auto simp: create_comp_def Let_def)
  have "comps d' = comps d2" "subs d' = subs d2" using granted(6) by (simp_all add: announce_comp_def emit_def Let_def)
  then have "comps d' = comps d1" "subs d' = subs d1"
    using grant_comp_bundle_own[OF granted(5)] by (simp_all add: keeps_def)
  with c preview_plan(1)[OF granted(1)] show ?thesis by auto
qed simp

subsection \<open>A ladder\<close>

fun no_less :: "entitlement option \<Rightarrow> entitlement option \<Rightarrow> bool" where
  "no_less (Some (Switch False)) b = True"
| "no_less a None = True"
| "no_less a (Some (Switch b)) = b"
| "no_less (Some (Ceiling m)) (Some (Ceiling n)) = (m \<le> n)"
| "no_less a (Some (Ceiling n)) = False"

definition covers :: "plan_entry \<Rightarrow> plan_entry \<Rightarrow> bool" where
  "covers e e' = (\<forall>k \<in> set (map fst (pe_entitlements e) @ map fst (pe_entitlements e')).
     no_less (map_of (pe_entitlements e) k) (map_of (pe_entitlements e') k))"

lemma no_less_allowed: "no_less a b \<Longrightarrow> vd_allowed (verdict_of q a) \<Longrightarrow> vd_allowed (verdict_of q b)"
  by (induction a b rule: no_less.induct) (auto simp: verdict_of_def split: option.splits entitlement.splits)

lemma covers_allowed:
  assumes "covers e e'" and "vd_allowed (verdict_of q (map_of (pe_entitlements e) k))"
  shows "vd_allowed (verdict_of q (map_of (pe_entitlements e') k))"
proof (cases "k \<in> set (map fst (pe_entitlements e) @ map fst (pe_entitlements e'))")
  case True
  with assms no_less_allowed show ?thesis unfolding covers_def by blast
next
  case False
  then have "map_of (pe_entitlements e') k = None" by (simp add: map_of_eq_None_iff)
  then show ?thesis by (simp add: verdict_of_def)
qed

lemma rank_plan:
  "get_plan plans p = Some e \<Longrightarrow> \<exists>k. plan_rank plans p = Some k \<and> k < length plans \<and> plans ! k = e"
  by (auto simp: get_plan_def plan_rank_Some find_Some_iff split: if_splits)

lemma plan_of_rank: "plan_rank plans p = Some k \<Longrightarrow> p \<noteq> [] \<Longrightarrow> get_plan plans p = Some (plans ! k)"
  by (auto simp: get_plan_def plan_rank_Some find_Some_iff)

text \<open>Higher on a ladder whose plans cover the ones below: whatever was allowed is allowed.\<close>

lemma climb_allowed:
  assumes "sorted_wrt covers plans" and "ranks_below plans p q" and "q \<noteq> []" and "get_plan plans p = Some e"
    and "vd_allowed (verdict_of n (map_of (pe_entitlements e) k))"
  shows "\<exists>e'. get_plan plans q = Some e' \<and> vd_allowed (verdict_of n (map_of (pe_entitlements e') k))"
proof -
  from rank_plan[OF assms(4)] obtain i where i: "plan_rank plans p = Some i" "i < length plans" "plans ! i = e" by blast
  with assms(2) obtain j where j: "plan_rank plans q = Some j" "i \<le> j" by (auto simp: ranks_below_def split: option.splits)
  have g: "get_plan plans q = Some (plans ! j)" by (rule plan_of_rank[OF j(1) assms(3)])
  have "j < length plans" using j(1) by (simp add: plan_rank_Some)
  then have "i < j \<Longrightarrow> covers e (plans ! j)" using assms(1) i(3) by (auto simp: sorted_wrt_iff_nth_less)
  with j(2) i(3) assms(5) covers_allowed g show ?thesis by (cases "i = j") auto
qed

lemma effective_grows:
  assumes "comps d' = comps d @ [c]" and "subs d' = subs d" and "get_plan (cf_plans cf) (comp_plan c) \<noteq> None"
    and "[] \<notin> set (plans_held u t d)" and "plan_rank (cf_plans cf) DEFAULT_PLAN = Some 0"
  shows "ranks_below (cf_plans cf) (effective_plan cf u t d) (effective_plan cf u t d')"
    and "effective_plan cf u t d' \<noteq> []"
proof -
  have c: "comp_plan c \<noteq> []" using assms(3) by (auto simp: get_plan_def)
  have su: "sub_of_user d' u = sub_of_user d u" using assms(2) by (simp add: sub_of_user_def)
  have held: "set (plans_held u t d) \<subseteq> set (plans_held u t d')"
    "set (plans_held u t d') \<subseteq> insert (comp_plan c) (set (plans_held u t d))"
    by (auto simp: plans_held_def su open_windows_def assms(1) split: option.splits)
  with c assms(4) have ne: "[] \<notin> set (plans_held u t d')" by (metis insertE subsetD)
  note b = effective_best[OF ne, of cf] effective_best[OF assms(4), of cf]
  show "effective_plan cf u t d' \<noteq> []" using b(1) ne by (auto simp: DEFAULT_PLAN_def split: if_splits)
  show "ranks_below (cf_plans cf) (effective_plan cf u t d) (effective_plan cf u t d')"
  proof (cases "plans_held u t d = []")
    case False
    with b held show ?thesis by auto
  next
    case True
    with b(2) have e: "effective_plan cf u t d = DEFAULT_PLAN" by simp
    from True held(2) b(1) have "effective_plan cf u t d' = DEFAULT_PLAN \<or> effective_plan cf u t d' = comp_plan c"
      by (auto split: if_splits)
    moreover have "ranks_below (cf_plans cf) DEFAULT_PLAN (comp_plan c)"
      using assms(3,5) rank_plan by (force simp: ranks_below_def)
    ultimately show ?thesis unfolding e by auto
  qed
qed

text \<open>C21: granting complimentary time never takes anything away. On a ladder that starts with the default
  plan and whose plans cover the ones below them, whatever any user was allowed at any instant
  before a window was granted, to anybody, from now or from later, on whatever plan, stacked or
  with a bundle, the same question is still answered with yes after it.\<close>

theorem comp_never_revokes:
  assumes "extend_subscription cf now r s d = Inr (p, d')"
    and "sorted_wrt covers (cf_plans cf)" and "plan_rank (cf_plans cf) DEFAULT_PLAN = Some 0"
    and "\<not> allow_unknown_plan_slugs cf" and "[] \<notin> set (plans_held u t d)"
    and "vd_allowed (check_entitlement cf t u key quantity d)"
  shows "vd_allowed (check_entitlement cf t u key quantity d')"
proof -
  let ?n = "case quantity of Some q \<Rightarrow> q | None \<Rightarrow> 1"
  from assms(4,6) obtain e where k: "key \<in> set (declared_keys cf) \<or> allow_unknown_entitlement_keys cf"
    and e: "get_plan (cf_plans cf) (effective_plan cf u t d) = Some e"
    and ok: "vd_allowed (verdict_of ?n (map_of (pe_entitlements e) key))"
    by (auto simp: check_entitlement_def effective_plan_entry_def Let_def split: if_splits option.splits)
  from extend_windows[OF assms(1)] have s: "subs d' = subs d" by simp
  have "\<exists>e'. get_plan (cf_plans cf) (effective_plan cf u t d') = Some e' \<and>
      vd_allowed (verdict_of ?n (map_of (pe_entitlements e') key))"
  proof (cases "comps d' = comps d")
    case True
    then have g: "governing_comp_period cf i t d' = governing_comp_period cf i t d" for i
      by (simp add: governing_comp_period_def open_windows_def)
    have su: "sub_of_user d' u = sub_of_user d u" using s by (simp add: sub_of_user_def)
    have "effective_plan cf u t d' = effective_plan cf u t d"
      unfolding effective_plan_def comp_plan_for_user_def g su by (rule refl)
    with e ok show ?thesis by simp
  next
    case False
    with extend_windows[OF assms(1)] obtain c where
      c: "comps d' = comps d @ [c]" "get_plan (cf_plans cf) (comp_plan c) \<noteq> None" by blast
    note g = effective_grows[OF c(1) s c(2) assms(5,3)]
    show ?thesis by (rule climb_allowed[OF assms(2) g e ok])
  qed
  with k show ?thesis by (auto simp: check_entitlement_def effective_plan_entry_def Let_def)
qed

theorem comp_never_revokes_witness:
  "vd_allowed (check_entitlement cf0 100 ''a'' ''workspaces.members.max'' (Some 25) d_subscribed) \<and>
   vd_allowed (check_entitlement cf0 100 ''a'' ''workspaces.members.max'' (Some 25) d_comped) \<and>
   \<not> vd_allowed (check_entitlement cf0 100 ''a'' ''workspaces.members.max'' (Some 26) d_subscribed) \<and>
   vd_allowed (check_entitlement cf0 100 ''a'' ''workspaces.members.max'' (Some 100) d_comped)"
proof -
  have "ok (extend_subscription cf0 20 (comped ''team'') (hd (subs d_subscribed)) d_subscribed)" by code_simp
  then obtain p where p: "extend_subscription cf0 20 (comped ''team'') (hd (subs d_subscribed)) d_subscribed = Inr (p, d_comped)"
    unfolding d_comped_def using after_ok by blast
  have h: "sorted_wrt covers (cf_plans cf0)" "plan_rank (cf_plans cf0) DEFAULT_PLAN = Some 0"
    "\<not> allow_unknown_plan_slugs cf0" "[] \<notin> set (plans_held ''a'' 100 d_subscribed)"
    "vd_allowed (check_entitlement cf0 100 ''a'' ''workspaces.members.max'' (Some 25) d_subscribed)"
    "\<not> vd_allowed (check_entitlement cf0 100 ''a'' ''workspaces.members.max'' (Some 26) d_subscribed)"
    "vd_allowed (check_entitlement cf0 100 ''a'' ''workspaces.members.max'' (Some 100) d_comped)" by code_simp+
  from comp_never_revokes[OF p h(1-5)] h(5-7) show ?thesis by blast
qed

subsection \<open>The credits of a window\<close>

text \<open>Writes outside the wallet tables, ids drawn included, move no account.\<close>

lemma wallet_tables_same:
  assumes "lots d' = lots d" and "txns d' = txns d" and "debts d' = debts d" and "holds d' = holds d"
    and "allocs d' = allocs d" and "wallets d' = wallets d" and "next_id d \<le> next_id d'"
  shows "inv d \<Longrightarrow> inv d'" and "user_account d' u now = user_account d u now"
    and "unused_key cf d' u key = unused_key cf d u key"
proof -
  have ids: "wallet_ids d' = wallet_ids d" by (simp add: wallet_ids_def assms(6))
  show "inv d'" if "inv d"
  proof -
    have wf: "wf_db d" by (rule inv_wf[OF that])
    have "hold_rows_ok d'" "alloc_rows_ok d'"
      using wf assms ids by (auto simp: wf_db_def hold_rows_ok_def alloc_rows_ok_def intro: less_le_trans)
    then have "wf_db d'" by (intro wf_holds_allocs[OF wf]) (use assms in simp_all)
    moreover have "holds_ok d'" using that assms by (simp add: inv_def holds_ok_def alloc_total_def)
    moreover have "balanced d' w = balanced d w" for w
      unfolding balanced_def using totals_cong[of d' d] assms by simp
    ultimately show ?thesis using that by (simp add: inv_def)
  qed
  show "user_account d' u now = user_account d u now"
    using account_cong[of d' d] assms by (simp add: user_account_def wallet_of_user_def split: option.splits)
  show "unused_key cf d' u key = unused_key cf d u key"
  proof -
    have "existing_call cf d' w key = existing_call cf d w key" for w
      unfolding existing_call_def transaction_by_idempotency_key_def assms(2) by (rule refl)
    then show ?thesis unfolding unused_key_def wallet_of_user_def assms(6) by (simp split: option.split)
  qed
qed

lemma credit_new_meta:
  assumes "credit_new now r w d = Inr (t, d')"
  shows "txn_meta t = with_key (cr_key r) (cr_meta r)"
proof -
  have t: "fst (create_txn w l ty a n b de m k now d) = new_txn (next_id d) w l ty a n b de m k now" for w l ty a n b de m k d
    by (simp add: create_txn_def Let_def)
  from assms show ?thesis
    unfolding credit_new_def Let_def split_beta by (auto simp: t new_txn_def split: if_splits sum.splits)
qed

text \<open>The row and the lot a fresh credit leaves behind, as the next call finds them.\<close>

lemma fresh_credit_row:
  assumes inv: "inv d" and key: "unused_key cf d (u_id (cr_user r)) (cr_key r)" and run: "credit cf now r d = Inr (t, d')"
  shows "t \<in> set (txns d')" "txn_meta t = with_key (cr_key r) (cr_meta r)"
    "\<exists>l \<in> set (lots d'). txn_lot t = Some (lot_id l) \<and> lot_expires l = cr_expires r"
    "\<exists>x \<in> set (wallets d'). w_id x = txn_wallet t \<and> w_user x = Some (u_id (cr_user r))"
proof -
  let ?u = "u_id (cr_user r)"
  obtain w d0 where lk: "lock_wallet ?u d = (w, d0)" by (rule prod.exhaust)
  note f = lock_wallet_facts[OF inv lk]
  have pos: "0 < cr_credits r" "At now < cr_expires r" using run by (auto simp: credit_def split: if_splits)
  have c: "credit_new now r w d0 = Inr (t, d')"
    using run pos lk unused_key_lock[OF inv lk key] by (simp add: credit_def split: if_splits)
  obtain t' d'' us where b: "credit_new now r w d0 = Inr (t', d'')"
    "map wallet_static (wallets d'') = map wallet_static (wallets d0)"
    "txns d'' = txns (snd (expire_due_lots w now d0)) @ t' # us" "txn_wallet t' = w"
    "\<exists>l \<in> set (lots d''). lot_wallet l = w \<and> lot_initial l = cr_credits r \<and> lot_source l = cr_source r \<and>
       lot_expires l = cr_expires r \<and> lot_grant l = Some (txn_id t') \<and> txn_lot t' = Some (lot_id l)"
    by (rule credit_new_done[OF f(1,2) pos]) (rule that; assumption)
  have e: "t' = t" "d'' = d'" using b(1) c by simp_all
  show "t \<in> set (txns d')" using b(3) e by simp
  show "txn_meta t = with_key (cr_key r) (cr_meta r)" by (rule credit_new_meta[OF c])
  show "\<exists>l \<in> set (lots d'). txn_lot t = Some (lot_id l) \<and> lot_expires l = cr_expires r" using b(5) e by auto
  have "map_option w_id (wallet_of_user d' ?u) = Some w"
    using static_wallet_of_user[OF b(2), of ?u] lock_wallet_user[OF lk] e by auto
  then obtain x where "wallet_of_user d' ?u = Some x" "w_id x = w" by auto
  then show "\<exists>x \<in> set (wallets d'). w_id x = txn_wallet t \<and> w_user x = Some ?u"
    using b(4) e wallet_of_user_Some[of d' ?u x] by auto
qed

lemma announce_comp_frame:
  "lots (announce_comp cf now s c d) = lots d" "txns (announce_comp cf now s c d) = txns d"
  "debts (announce_comp cf now s c d) = debts d" "holds (announce_comp cf now s c d) = holds d"
  "allocs (announce_comp cf now s c d) = allocs d" "wallets (announce_comp cf now s c d) = wallets d"
  "next_id (announce_comp cf now s c d) = next_id d"
  by (simp_all add: announce_comp_def emit_def Let_def)

lemma create_comp_frame:
  assumes "create_comp p d = (c, d')"
  shows "lots d' = lots d" "txns d' = txns d" "debts d' = debts d" "holds d' = holds d" "allocs d' = allocs d"
    "wallets d' = wallets d" "next_id d' = Suc (next_id d)" "comp_id c = next_id d"
  using assms by (auto simp: create_comp_def Let_def)

text \<open>While a comped lot lives, a second window grants no credits.\<close>

lemma no_second_bundle:
  assumes "comp_bundle_is_live (sub_user s) now d" and "extend_subscription cf now r s d = Inr (p, d')"
  shows "cv_bundle_credits p = None \<or> cv_bundle_credits p = Some 0" and "user_account d' v t = user_account d v t"
proof -
  have z: "cv_bundle_credits p = None \<or> cv_bundle_credits p = Some 0" if "preview_extension cf now r s d = Inr (e, p)" for e p
    using that assms(1) by (auto simp: preview_extension_def preview_bundle_def Let_def split: sum.splits if_splits)
  from assms(2) have "(cv_bundle_credits p = None \<or> cv_bundle_credits p = Some 0) \<and> user_account d' v t = user_account d v t"
  proof (cases rule: extend_cases)
    case (dry entry)
    with z show ?thesis by blast
  next
    case (granted entry q c d1 p1 d2)
    from z[OF granted(1)] granted(4,5) have e: "d2 = d1" "p = p1" by (auto simp: grant_comp_bundle_def)
    note f = create_comp_frame[OF granted(3)]
    have "user_account d1 v t = user_account d v t" using wallet_tables_same(2)[of d1 d] f by simp
    moreover have "user_account d' v t = user_account d1 v t"
      unfolding granted(6) e using wallet_tables_same(2)[of "announce_comp cf now s c d1" d1] announce_comp_frame by simp
    ultimately show ?thesis using e(2) granted(4) z[OF granted(1)] by auto
  qed
  then show "cv_bundle_credits p = None \<or> cv_bundle_credits p = Some 0" "user_account d' v t = user_account d v t" by auto
qed



end
