(* ===== verification/Comm_Claims.thy ===== *)
theory Comm_Claims
  imports Comp_Claims Hold_Claims
begin

section \<open>Properties of the functions other modules call\<close>

text \<open>
  Calls arrive over a transport that delivers at least once. Each money function keeps the
  contract \<open>at_least_once\<close>: a second delivery gives the first one's answer and leaves the
  database alone. And a question about an entitlement is answered with yes exactly when the
  highest plan the user holds says so.
\<close>

subsection \<open>At-least-once delivery\<close>

primrec deliveries :: "(time \<Rightarrow> db \<Rightarrow> error + 'a \<times> db) \<Rightarrow> time list \<Rightarrow> db \<Rightarrow> (error + 'a) list \<times> db" where
  "deliveries call [] d = ([], d)"
| "deliveries call (t # ts) d =
     (case call t d of
        Inl e \<Rightarrow> (let (as, d') = deliveries call ts d in (Inl e # as, d'))
      | Inr (a, d1) \<Rightarrow> (let (as, d') = deliveries call ts d1 in (Inr a # as, d')))"

locale at_least_once =
  fixes call :: "time \<Rightarrow> db \<Rightarrow> error + 'a \<times> db" and ready :: "db \<Rightarrow> bool"
  assumes again: "ready d \<Longrightarrow> call now d = Inr (a, d') \<Longrightarrow> now \<le> later \<Longrightarrow> call later d' = Inr (a, d')"
begin

lemma settled: "\<forall>t \<in> set ts. call t d = Inr (a, d) \<Longrightarrow> deliveries call ts d = (replicate (length ts) (Inr a), d)"
  by (induction ts) simp_all

lemma many:
  assumes "ready d" and "call now d = Inr (a, d')" and "\<forall>t \<in> set ts. now \<le> t"
  shows "deliveries call (now # ts) d = (replicate (Suc (length ts)) (Inr a), d')"
  using settled[of ts d' a] again[OF assms(1,2)] assms(2,3) by simp

end

subsection \<open>Refusals stay refusals\<close>

lemma live_later:
  assumes "wf_db d" and "now \<le> later"
  shows "live_balance d w later \<le> live_balance d w now"
proof -
  have "(\<Sum>l\<leftarrow>filter (live_lot later) ls. lot_remaining l) \<le> (\<Sum>l\<leftarrow>filter (live_lot now) ls. lot_remaining l)"
    if "\<forall>l \<in> set ls. 0 \<le> lot_remaining l" for ls
    using that
  proof (induction ls)
    case (Cons l ls)
    have "live_lot now l" if "live_lot later l" using that assms(2) by (cases "lot_expires l") (auto simp: live_lot_def)
    with Cons show ?case by auto
  qed simp
  moreover have "\<forall>l \<in> set (wallet_lots d w). 0 \<le> lot_remaining l"
    using wf_lots_ok[OF assms(1)] by (auto simp: lots_ok_def wallet_lots_def)
  ultimately show ?thesis unfolding live_balance_def by blast
qed

lemma lock_wallet_twice: "lock_wallet u d = (w, d0) \<Longrightarrow> lock_wallet u d0 = (w, d0)"
  using lock_wallet_user[of u d w d0] by (auto simp: lock_wallet_def get_or_create_wallet_def)

lemma debit_again:
  assumes inv: "inv d" and run: "debit cf now r d = Inr (a, d')" and key: "de_key r \<noteq> []" and plain: "plain_meta (de_meta r)"
  shows "debit cf later r d' = Inr (a, d')"
proof -
  let ?u = "u_id (de_user r)"
  obtain w d0 where lk: "lock_wallet ?u d = (w, d0)" by (rule prod.exhaust)
  show ?thesis
  proof (cases "existing_call cf d0 w (de_key r)")
    case (Some t)
    with run lk lock_wallet_twice[OF lk] show ?thesis by (auto simp: debit_def split: if_splits)
  next
    case None
    have "unused_key cf d ?u (de_key r)"
    proof (cases "wallet_of_user d ?u")
      case (Some x)
      with lk None show ?thesis by (simp add: unused_key_def lock_wallet_def get_or_create_wallet_def)
    qed (simp add: unused_key_def)
    from debit_replayed[OF inv run key this plain] show ?thesis .
  qed
qed

lemma debit_refused_again:
  assumes inv: "inv d" and lk: "lock_wallet (u_id (de_user r)) d = (w, d0)" and le: "now \<le> later"
    and run: "debit cf now r d = Inl (InsufficientCreditsError x y)"
  shows "\<exists>x' y'. debit cf later r d0 = Inl (InsufficientCreditsError x' y')"
proof -
  note f = lock_wallet_facts[OF inv lk]
  from run lk have pos: "0 < de_credits r" and new: "existing_call cf d0 w (de_key r) = None"
    and b: "debit_new cf now r w d0 = Inl (InsufficientCreditsError x y)"
    by (auto simp: debit_def split: if_splits option.splits)
  have charged: "\<not> meter_only cf (Some (de_user r))" using b by (auto simp: debit_new_def Let_def)
  have "\<not> de_credits r \<le> live_balance d0 w now \<and> \<not> de_partial r"
    using debit_new_account[OF f(1,2) charged pos, of now] b by (auto simp: spec_debit_def account_of_def split: if_splits)
  then have short: "\<not> de_partial r" "live_balance d0 w later < de_credits r"
    using live_later[OF inv_wf[OF f(1)] le, of w] by auto
  from debit_new_refused[OF f(1,2) charged pos short] new pos lock_wallet_twice[OF lk] show ?thesis
    by (simp add: debit_def)
qed

lemma find_upd_row:
  assumes "\<And>x. P (f x) = P x"
  shows "find P (rev (upd_row rid i f xs)) = map_option (\<lambda>x. if rid x = i then f x else x) (find P (rev xs))"
proof -
  have "find P (map g ys) = map_option g (find P ys)" if "\<And>x. P (g x) = P x" for g ys using that by (induction ys) auto
  from this[of "\<lambda>x. if rid x = i then f x else x"] assms show ?thesis by (simp add: upd_row_def rev_map)
qed

lemma hold_again:
  assumes inv: "inv d" and run: "hold cf now r d = Inr (h, d')" and plain: "\<not> was_waived (ho_meta r)"
  shows "hold cf later (r\<lparr>ho_expires := e\<rparr>) d' = Inr (h, d')"
proof -
  obtain w d0 where lk: "lock_wallet (u_id (ho_user r)) d = (w, d0)" by (rule prod.exhaust)
  note f = lock_wallet_facts[OF inv lk]
  have pre: "0 < ho_credits r" "ho_key r \<noteq> []" using run by (auto simp: hold_def split: if_splits)
  from run lk have "lock_wallet (u_id (ho_user r)) d' = (w, d') \<and> existing_hold d' w (ho_key r) = Some h \<and> hold_status h = HELD"
  proof (cases rule: hold_cases)
    case short
    with lock_wallet_twice[OF lk] show ?thesis by simp
  next
    case (new existing)
    obtain h2 d2 where n: "hold_new cf now r w existing d0 = Inr (h2, d2)" "inv d2"
      "map wallet_static (wallets d2) = map wallet_static (wallets d0)"
      "h2 \<in> set (holds d2)" "hold_status h2 = HELD" "hold_key h2 = ho_key r" "hold_wallet h2 = w"
      "hold_id h2 = (case existing of None \<Rightarrow> hold_id h2 | Some x \<Rightarrow> hold_id x)"
      by (rule hold_new_done[OF f(1,2) new(4,3) refl hold_new_fits[OF f(1,2) new(4,2)] plain]) (rule that; assumption)
    have e: "h2 = h" "d2 = d'" using n(1) new(2) by simp_all
    note n = n[unfolded e] and hs = hold_new_holds[OF f(1,2) new(2)]
    have "existing_hold d' w (ho_key r) = Some h"
    proof (cases existing)
      case None
      with hs n(6,7) show ?thesis by (simp add: existing_hold_def)
    next
      case (Some x)
      let ?f = "rearm r (hold_credits h) (hold_meta h) (hold_expires h)"
      have ex: "existing_hold d0 w (ho_key r) = Some x" using new(1) Some by simp
      have hs': "holds d' = upd_row hold_id (hold_id x) ?f (holds d0)" using hs Some by simp
      have "find (\<lambda>y. hold_wallet y = w \<and> hold_key y = ho_key r) (rev (upd_row hold_id (hold_id x) ?f (holds d0))) =
          map_option (\<lambda>y. if hold_id y = hold_id x then ?f y else y)
            (find (\<lambda>y. hold_wallet y = w \<and> hold_key y = ho_key r) (rev (holds d0)))"
        by (rule find_upd_row) (simp add: rearm_def)
      then have found: "existing_hold d' w (ho_key r) = Some (?f x)" using ex by (simp add: existing_hold_def hs')
      have "?f x = h"
        using existing_hold_row[OF found] n(4,8) Some same_hold[OF inv_wf[OF n(2)]] by (simp add: rearm_def)
      with found show ?thesis by simp
    qed
    with lock_wallet_after[OF lk n(3)] n(5) show ?thesis by simp
  qed
  with pre show ?thesis by (simp add: hold_def)
qed

lemma hold_refused_again:
  assumes inv: "inv d" and lk: "lock_wallet (u_id (ho_user r)) d = (w, d0)" and le: "now \<le> later"
    and run: "hold cf now r d = Inl (InsufficientCreditsError x y)"
  shows "\<exists>x' y'. hold cf later (r\<lparr>ho_expires := e\<rparr>) d0 = Inl (InsufficientCreditsError x' y')"
proof -
  note f = lock_wallet_facts[OF inv lk]
  from run lk have pos: "0 < ho_credits r" "ho_key r \<noteq> []" and
    b: "hold_new cf now r w (existing_hold d0 w (ho_key r)) d0 = Inl (InsufficientCreditsError x y)" and
    st: "case existing_hold d0 w (ho_key r) of None \<Rightarrow> True | Some h \<Rightarrow> hold_status h \<noteq> CAPTURED \<and> hold_status h \<noteq> HELD"
    by (auto simp: hold_def split: if_splits option.splits)
  let ?d1 = "snd (expire_due_lots w now d0)"
  have charged: "\<not> meter_only cf (Some (ho_user r))" using b by (auto simp: hold_new_def Let_def split: prod.splits)
  with b have "live_balance ?d1 w now < ho_credits r"
    using pos by (auto simp: hold_new_def Let_def consume_lots_cases split: prod.splits if_splits)
  with expire_live[OF inv_wf[OF f(1)] f(2), of now w] live_later[OF inv_wf[OF f(1)] le, of w]
  have "live_balance d0 w later < ho_credits r" by simp
  then have "hold_new cf later (r\<lparr>ho_expires := e\<rparr>) w ex d0 = Inl (InsufficientCreditsError (live_balance d0 w later) (ho_credits r))"
    for ex using hold_new_refused[OF f(1,2), of cf "r\<lparr>ho_expires := e\<rparr>"] charged pos(1) by simp
  with pos st lock_wallet_twice[OF lk] show ?thesis
    by (auto simp: hold_def split: option.splits)
qed

lemma capture_refused_again:
  assumes inv: "inv d" and le: "now \<le> later" and run: "capture now i ac desc m d = Inl e"
  shows "case e of InsufficientCreditsError x y \<Rightarrow> (\<exists>x' y'. capture later i ac desc m d = Inl (InsufficientCreditsError x' y'))
    | _ \<Rightarrow> capture later i ac desc m d = Inl e"
proof (cases "load_hold_for_update i d")
  case (Inl e')
  with run show ?thesis by (auto simp: capture_def load_hold_for_update_def split: option.splits)
next
  case (Inr hw)
  then obtain h where l: "load_hold_for_update i d = Inr (h, hold_wallet h)" "h \<in> set (holds d)"
    using load_hold by (cases hw) metis
  let ?a = "case ac of None \<Rightarrow> hold_credits h | Some n \<Rightarrow> n"
  show ?thesis
  proof (cases "hold_status h = HELD \<and> 0 \<le> ?a \<and> \<not> was_waived (hold_meta h)")
    case True
    with run l have b: "capture_held h (hold_wallet h) ?a desc m now d = Inl e" by (simp add: capture_def Let_def not_less)
    let ?d1 = "snd (expire_due_lots (hold_wallet h) now d)"
    from b have "hold_credits h < ?a \<and> live_balance ?d1 (hold_wallet h) now < ?a - hold_credits h"
      by (auto simp: capture_held_def adjust_to_def Let_def consume_lots_cases split: sum.splits if_splits prod.splits)
    moreover have "live_balance ?d1 (hold_wallet h) now = live_balance d (hold_wallet h) now"
      by (rule expire_live[OF inv_wf[OF inv] hold_wallet_known[OF inv_wf[OF inv] l(2)]])
    ultimately have s: "hold_credits h < ?a" "live_balance d (hold_wallet h) now < ?a - hold_credits h"
      "live_balance d (hold_wallet h) later < ?a - hold_credits h"
      using live_later[OF inv_wf[OF inv] le, of "hold_wallet h"] by auto
    have "capture_held h (hold_wallet h) ?a desc m t d =
        Inl (InsufficientCreditsError (live_balance d (hold_wallet h) t) (?a - hold_credits h))" if "t = now \<or> t = later" for t
      using that s by (intro capture_held_refused[OF inv l(2)]) auto
    with b l True show ?thesis by (auto simp: capture_def Let_def not_less)
  next
    case False
    with run l show ?thesis by (auto simp: capture_def Let_def split: option.splits if_splits)
  qed
qed

lemma release_again:
  assumes inv: "inv d" and run: "release now i ex d = Inr (h, d')"
  shows "release later i ex d' = Inr (h, d')"
  using run
proof (cases rule: release_cases)
  case (idle x)
  with load_row[OF inv_wf[OF inv] idle(1)] show ?thesis by (simp add: release_def)
next
  case (full x)
  from release_twice[OF inv full(1,3)] run full(2) show ?thesis by blast
qed

subsection \<open>The four money functions keep the contract\<close>

text \<open>
  A payload as its schema admits it, whose metadata does not carry the keys the library itself
  writes on a charge.
\<close>

definition plain_charge :: "charge_payload \<Rightarrow> bool" where
  "plain_charge p = (pl_key p \<noteq> [] \<and> plain_meta (pl_meta p))"

lemma refused_balance_lock:
  assumes "lock_wallet (u_id user) d = (w, d0)"
  shows "refused_balance user d = (wallet_balance d0 w, d0)" "refused_balance user d0 = (wallet_balance d0 w, d0)"
  using assms lock_wallet_twice[OF assms] by (simp_all add: refused_balance_def lock_wallet_def)

interpretation debit_call: at_least_once "\<lambda>t. billing_debit cf ac t p" "\<lambda>d. inv d \<and> plain_charge p" for cf ac p
proof
  fix d now a d' later
  assume r: "inv d \<and> plain_charge p" and run: "billing_debit cf ac now p d = Inr (a, d')" and le: "now \<le> (later :: time)"
  show "billing_debit cf ac later p d' = Inr (a, d')"
  proof (cases "resolve_user cf ac (pl_user p) (pl_identity p)")
    case (Inr user)
    let ?r = "\<lparr>de_user = user, de_credits = pl_credits p, de_type = or_adjustment (pl_type p), de_desc = pl_desc p,
      de_meta = pl_meta p, de_key = pl_key p, de_partial = pl_partial p\<rparr>"
    obtain w d0 where lk: "lock_wallet (u_id (de_user ?r)) d = (w, d0)" by (rule prod.exhaust)
    show ?thesis
    proof (cases "debit cf now ?r d")
      case (Inr x)
      then obtain b e where b: "debit cf now ?r d = Inr (b, e)" by (cases x) auto
      with run \<open>resolve_user _ _ _ _ = Inr user\<close> have "e = d'" "a = debit_answered b" by (auto simp: billing_debit_def)
      with debit_again[OF _ b, of later] r \<open>resolve_user _ _ _ _ = Inr user\<close> show ?thesis
        by (simp add: billing_debit_def plain_charge_def)
    next
      case (Inl e)
      with run \<open>resolve_user _ _ _ _ = Inr user\<close> obtain x y where e: "debit cf now ?r d = Inl (InsufficientCreditsError x y)"
        by (cases e) (auto simp: billing_debit_def)
      from debit_refused_again[OF conjunct1[OF r] lk le e] obtain x' y' where
        "debit cf later ?r d0 = Inl (InsufficientCreditsError x' y')" by blast
      with e run \<open>resolve_user _ _ _ _ = Inr user\<close> refused_balance_lock[of user d w d0] lk show ?thesis
        by (auto simp: billing_debit_def Let_def)
    qed
  qed (use run in \<open>auto simp: billing_debit_def\<close>)
qed

interpretation hold_call: at_least_once "\<lambda>t. billing_hold cf ac t p" "\<lambda>d. inv d \<and> plain_charge p" for cf ac p
proof
  fix d now a d' later
  assume r: "inv d \<and> plain_charge p"
    and run: "billing_hold cf ac now p d = Inr (a, d')" and le: "now \<le> (later :: time)"
  show "billing_hold cf ac later p d' = Inr (a, d')"
  proof (cases "resolve_user cf ac (pl_user p) (pl_identity p)")
    case (Inr user)
    let ?r = "\<lparr>ho_user = user, ho_credits = pl_credits p, ho_type = or_adjustment (pl_type p), ho_key = pl_key p,
      ho_desc = pl_desc p, ho_meta = pl_meta p, ho_expires = None\<rparr>"
    let ?e = "\<lambda>t. case pl_expires_in p of None \<Rightarrow> None | Some ttl \<Rightarrow> if ttl = 0 then None else Some (t + ttl * 1000000)"
    let ?q = "\<lambda>t. ?r\<lparr>ho_expires := ?e t\<rparr>"
    have c: "billing_hold cf ac t p x = (case hold cf t (?q t) x of
        Inr (h, d1) \<Rightarrow> Inr ([(''ok'', JBool True), (''hold_id'', JStr (uuid_str (hold_id h))),
          (''balance'', JInt (wallet_balance d1 (hold_wallet h))), (''reason'', JNull)], d1)
      | Inl (HoldKeyResolvedError h) \<Rightarrow> Inr ([(''ok'', JBool False), (''hold_id'', JStr (uuid_str (hold_id h))), (''balance'', JNull),
          (''status'', JStr (hold_status_value (hold_status h))), (''reason'', JStr REASON_HOLD_ALREADY_RESOLVED)], x)
      | Inl (InsufficientCreditsError _ _) \<Rightarrow> (let (balance, d1) = refused_balance user x
          in Inr ([(''ok'', JBool False), (''hold_id'', JNull), (''balance'', JInt balance),
            (''reason'', JStr REASON_INSUFFICIENT_CREDITS)], d1))
      | Inl e \<Rightarrow> Inl e)" for t x using Inr by (simp add: billing_hold_def)
    obtain w d0 where lk: "lock_wallet (u_id (ho_user (?q now))) d = (w, d0)" by (rule prod.exhaust)
    show ?thesis
    proof (cases "hold cf now (?q now) d")
      case (Inr x)
      then obtain h e where h: "hold cf now (?q now) d = Inr (h, e)" by (cases x) auto
      with run c have "e = d'" by auto
      with hold_again[OF conjunct1[OF r] h, of later "?e later"] r run h c show ?thesis by (simp add: plain_charge_def plain_meta_def)
    next
      case (Inl e)
      show ?thesis
      proof (cases e)
        case (InsufficientCreditsError x y)
        from hold_refused_again[OF conjunct1[OF r] lk le Inl[unfolded InsufficientCreditsError], of "?e later"] obtain x' y' where
          "hold cf later (?q later) d0 = Inl (InsufficientCreditsError x' y')" by auto
        with Inl InsufficientCreditsError run c refused_balance_lock[of user d w d0] lk show ?thesis by (auto simp: Let_def)
      next
        case (HoldKeyResolvedError h)
        with Inl run c have d': "d' = d" by auto
        have "hold cf later (?q later) d = Inl (HoldKeyResolvedError h)"
          using Inl HoldKeyResolvedError lk
          by (auto simp: hold_def hold_new_def Let_def consume_lots_cases split: if_splits option.splits sum.splits prod.splits)
        with d' run Inl HoldKeyResolvedError c show ?thesis by auto
      qed (use Inl run c in auto)
    qed
  qed (use run in \<open>auto simp: billing_hold_def\<close>)
qed

interpretation capture_call: at_least_once "\<lambda>t. billing_capture t i ac desc m" inv for i ac desc m
proof
  fix d now a d' later
  assume r: "inv d" and run: "billing_capture now i ac desc m d = Inr (a, d')" and le: "now \<le> (later :: time)"
  show "billing_capture later i ac desc m d' = Inr (a, d')"
  proof (cases "capture now i ac desc m d")
    case (Inr x)
    then obtain t e where t: "capture now i ac desc m d = Inr (t, e)" by (cases x) auto
    with run have "e = d'" by (auto simp: billing_capture_def)
    with capture_replayed[OF r t, of later] run t show ?thesis by (simp add: billing_capture_def)
  next
    case (Inl e)
    with run have "d' = d" by (cases e) (auto simp: billing_capture_def)
    with capture_refused_again[OF r le Inl] run Inl show ?thesis by (cases e) (auto simp: billing_capture_def)
  qed
qed

interpretation release_call: at_least_once "\<lambda>t. billing_release t i" inv for i
proof
  fix d now a d' later
  assume r: "inv d" and run: "billing_release now i d = Inr (a, d')" and le: "now \<le> (later :: time)"
  show "billing_release later i d' = Inr (a, d')"
  proof (cases "release now i False d")
    case (Inr x)
    then obtain h e where h: "release now i False d = Inr (h, e)" by (cases x) auto
    with run have "e = d'" by (auto simp: billing_release_def)
    with release_again[OF r h, of later] run h show ?thesis by (simp add: billing_release_def)
  next
    case (Inl e)
    have "release later i False d = Inl e"
      using Inl by (auto simp: release_def load_hold_for_update_def split: option.splits if_splits)
    moreover have "d' = d" using Inl run by (cases e) (auto simp: billing_release_def)
    ultimately show ?thesis using run Inl by (simp add: billing_release_def)
  qed
qed

datatype money_call =
    CallDebit charge_payload | CallHold charge_payload
  | CallCapture uuid "int option" "string option" dict | CallRelease uuid

fun serve :: "settings \<Rightarrow> accounts \<Rightarrow> money_call \<Rightarrow> time \<Rightarrow> db \<Rightarrow> error + dict \<times> db" where
  "serve cf ac (CallDebit p) now d = billing_debit cf ac now p d"
| "serve cf ac (CallHold p) now d = billing_hold cf ac now p d"
| "serve cf ac (CallCapture i n desc m) now d = billing_capture now i n desc m d"
| "serve cf ac (CallRelease i) now d = billing_release now i d"

fun admissible :: "money_call \<Rightarrow> bool" where
  "admissible (CallDebit p) = plain_charge p"
| "admissible (CallHold p) = plain_charge p"
| "admissible _ = True"

text \<open>C6: at-least-once delivery charges once. Whatever a debit, hold, capture or release call answered
  over the transport, a yes, a refusal for lack of credits, an unknown account or a hold in the
  wrong state, any number of further deliveries of the same call, however much later, give that
  answer again and leave the database as the first one left it.\<close>

theorem money_calls_redelivered:
  assumes "inv d" and "admissible c" and "serve cf ac c now d = Inr (a, d')" and "\<forall>t \<in> set ts. now \<le> t"
  shows "deliveries (serve cf ac c) (now # ts) d = (replicate (Suc (length ts)) (Inr a), d')"
proof (cases c)
  case (CallDebit p)
  have "serve cf ac c = (\<lambda>t. billing_debit cf ac t p)" by (rule ext)+ (simp add: CallDebit)
  with debit_call.many[of d p cf ac now a d' ts] assms CallDebit show ?thesis by simp
next
  case (CallHold p)
  have "serve cf ac c = (\<lambda>t. billing_hold cf ac t p)" by (rule ext)+ (simp add: CallHold)
  with hold_call.many[of d p cf ac now a d' ts] assms CallHold show ?thesis by simp
next
  case (CallCapture i n desc m)
  have "serve cf ac c = (\<lambda>t. billing_capture t i n desc m)" by (rule ext)+ (simp add: CallCapture)
  with capture_call.many[of d now i n desc m a d' ts] assms CallCapture show ?thesis by simp
next
  case (CallRelease i)
  have "serve cf ac c = (\<lambda>t. billing_release t i)" by (rule ext)+ (simp add: CallRelease)
  with release_call.many[of d now i a d' ts] assms CallRelease show ?thesis by simp
qed

definition no_accounts :: accounts where
  "no_accounts = \<lparr>is_tombstoned = (\<lambda>_. False), is_deactivated = (\<lambda>_. False), ensure_shadow = (\<lambda>_ _. None)\<rparr>"

definition charge_of :: "int \<Rightarrow> string \<Rightarrow> charge_payload" where
  "charge_of n key = \<lparr>pl_user = ''a'', pl_identity = None, pl_credits = n, pl_key = key, pl_type = None, pl_desc = None,
     pl_meta = [], pl_partial = False, pl_expires_in = None\<rparr>"

theorem money_calls_redelivered_witness:
  "\<exists>a b d'. deliveries (serve cf0 no_accounts (CallDebit (charge_of 7 ''k''))) [20, 30, 99] d_two = ([Inr a, Inr a, Inr a], d') \<and>
     dget a ''ok'' = Some (JBool True) \<and> dget a ''balance'' = Some (JInt 8) \<and>
     deliveries (serve cf0 no_accounts (CallHold (charge_of 16 ''job''))) [20, 99] d_two = ([Inr b, Inr b], d_two) \<and>
     dget b ''reason'' = Some (JStr ''insufficient_credits'')"
proof -
  let ?c = "CallDebit (charge_of 7 ''k'')" and ?h = "CallHold (charge_of 16 ''job'')"
  have adm: "admissible ?c" "admissible ?h" by code_simp+
  have run: "case serve cf0 no_accounts ?c 20 d_two of Inl e \<Rightarrow> False
      | Inr (a, d') \<Rightarrow> dget a ''ok'' = Some (JBool True) \<and> dget a ''balance'' = Some (JInt 8)"
    "case serve cf0 no_accounts ?h 20 d_two of Inl e \<Rightarrow> False
      | Inr (a, d') \<Rightarrow> d' = d_two \<and> dget a ''reason'' = Some (JStr ''insufficient_credits'')" by code_simp+
  from run(1) obtain a d' where a: "serve cf0 no_accounts ?c 20 d_two = Inr (a, d')" "dget a ''ok'' = Some (JBool True)"
    "dget a ''balance'' = Some (JInt 8)" by (auto split: sum.splits)
  from run(2) obtain b where b: "serve cf0 no_accounts ?h 20 d_two = Inr (b, d_two)"
    "dget b ''reason'' = Some (JStr ''insufficient_credits'')" by (auto split: sum.splits)
  have "deliveries (serve cf0 no_accounts ?c) [20, 30, 99] d_two = ([Inr a, Inr a, Inr a], d')"
    using money_calls_redelivered[OF inv_samples(1) adm(1) a(1), of "[30, 99]"] by (simp del: deliveries.simps serve.simps)
  moreover have "deliveries (serve cf0 no_accounts ?h) [20, 99] d_two = ([Inr b, Inr b], d_two)"
    using money_calls_redelivered[OF inv_samples(1) adm(2) b(1), of "[99]"] by (simp del: deliveries.simps serve.simps)
  ultimately show ?thesis using a(2,3) b(2) by blast
qed

subsection \<open>Who may do what\<close>

definition grants_use :: "plan_entry \<Rightarrow> string \<Rightarrow> int \<Rightarrow> bool" where
  "grants_use e key n =
     (case map_of (pe_entitlements e) key of None \<Rightarrow> True | Some (Switch b) \<Rightarrow> b | Some (Ceiling m) \<Rightarrow> n \<le> m)"

lemma verdict_grants: "vd_allowed (verdict_of n (map_of (pe_entitlements e) key)) = grants_use e key n"
  by (simp add: verdict_of_def grants_use_def split: option.split entitlement.split)

text \<open>C11: an entitlement is answered with yes exactly when the key is one the deployment declares and the
  highest-ranked plan the user holds, paid, complimentary or, holding none, the default one, is in the
  catalogue and does not withhold it. A misspelt key, a plan missing from the catalogue and a lapsed
  plan are all answered with no.\<close>

theorem entitlement_exact:
  assumes "\<not> allow_unknown_entitlement_keys cf" and "\<not> allow_unknown_plan_slugs cf"
    and "[] \<notin> set (plans_held u now d)"
  shows "vd_allowed (check_entitlement cf now u key quantity d) \<longleftrightarrow>
    key \<in> set (declared_keys cf) \<and>
    (\<exists>p e. p \<in> (if plans_held u now d = [] then {DEFAULT_PLAN} else set (plans_held u now d)) \<and>
       (\<forall>q \<in> set (plans_held u now d). ranks_below (cf_plans cf) q p) \<and> get_plan (cf_plans cf) p = Some e \<and>
       grants_use e key (case quantity of None \<Rightarrow> 1 | Some n \<Rightarrow> n))"
proof -
  let ?n = "case quantity of None \<Rightarrow> 1 | Some n \<Rightarrow> n" and ?eff = "effective_plan cf u now d" and ?held = "plans_held u now d"
  note b = effective_best[OF assms(3), of cf]
  have only: "p = ?eff" if p: "p \<in> (if ?held = [] then {DEFAULT_PLAN} else set ?held)"
    "\<forall>q \<in> set ?held. ranks_below (cf_plans cf) q p" "get_plan (cf_plans cf) p = Some e" for p e
  proof (cases "?held = []")
    case False
    with b p have "ranks_below (cf_plans cf) p ?eff" "ranks_below (cf_plans cf) ?eff p" by auto
    moreover from rank_plan[OF p(3)] obtain k where "plan_rank (cf_plans cf) p = Some k" by blast
    ultimately show ?thesis by (auto simp: ranks_below_def dest: plan_rank_inj split: option.splits)
  qed (use b p in simp)
  have "vd_allowed (check_entitlement cf now u key quantity d) \<longleftrightarrow> key \<in> set (declared_keys cf) \<and>
      (\<exists>e. get_plan (cf_plans cf) ?eff = Some e \<and> grants_use e key ?n)"
    using assms(1,2)
    by (cases "get_plan (cf_plans cf) ?eff") (auto simp: check_entitlement_def effective_plan_entry_def Let_def verdict_grants)
  also have "\<dots> \<longleftrightarrow> key \<in> set (declared_keys cf) \<and> (\<exists>p e. p \<in> (if ?held = [] then {DEFAULT_PLAN} else set ?held) \<and>
       (\<forall>q \<in> set ?held. ranks_below (cf_plans cf) q p) \<and> get_plan (cf_plans cf) p = Some e \<and> grants_use e key ?n)"
    using b only by blast
  finally show ?thesis .
qed

theorem entitlement_exact_witness:
  "vd_allowed (check_entitlement cf0 100 ''a'' ''workspaces.org'' None d_comped) \<and>
   plans_held ''a'' 100 d_comped = [''pro'', ''team''] \<and>
   \<not> vd_allowed (check_entitlement cf0 100 ''a'' ''workspaces.orgs'' None d_comped)"
proof -
  have h: "\<not> allow_unknown_entitlement_keys cf0" "\<not> allow_unknown_plan_slugs cf0" "[] \<notin> set (plans_held ''a'' 100 d_comped)"
    "plans_held ''a'' 100 d_comped = [''pro'', ''team'']" "''workspaces.org'' \<in> set (declared_keys cf0)"
    "''workspaces.orgs'' \<notin> set (declared_keys cf0)" "ranks_below (cf_plans cf0) ''pro'' ''team''"
    "case get_plan (cf_plans cf0) ''team'' of None \<Rightarrow> False | Some e \<Rightarrow> grants_use e ''workspaces.org'' 1" by code_simp+
  from h(8) obtain e where e: "get_plan (cf_plans cf0) ''team'' = Some e" "grants_use e ''workspaces.org'' 1"
    by (auto split: option.splits)
  have "''team'' \<in> (if plans_held ''a'' 100 d_comped = [] then {DEFAULT_PLAN} else set (plans_held ''a'' 100 d_comped))"
    "\<forall>q \<in> set (plans_held ''a'' 100 d_comped). ranks_below (cf_plans cf0) q ''team''" using h(7) by (simp_all add: h(4))
  with entitlement_exact[OF h(1-3), of "''workspaces.org''" None] h(5) e
  have "vd_allowed (check_entitlement cf0 100 ''a'' ''workspaces.org'' None d_comped)" by auto
  moreover from entitlement_exact[OF h(1-3), of "''workspaces.orgs''" None] h(6)
  have "\<not> vd_allowed (check_entitlement cf0 100 ''a'' ''workspaces.orgs'' None d_comped)" by blast
  ultimately show ?thesis using h(4) by blast
qed

end
