(* ===== verification/Erasure_Claims.thy ===== *)
theory Erasure_Claims
  imports Erasure Comm_Claims
begin

section \<open>Properties of erasure\<close>

text \<open>
  After an erasure nothing names the subject and their free text is gone; every amount, and every
  row of everybody else, is what it was; a redelivered erasure reports zeroes and does nothing.
\<close>

lemma kept_metadata_twice [simp]: "kept_metadata (kept_metadata m) = kept_metadata m"
  by (simp add: kept_metadata_def)

lemma kept_metadata_keys: "fst ` set (kept_metadata m) \<subseteq> set LEDGER_METADATA_KEYS"
  by (auto simp: kept_metadata_def)

lemma nothing_to_scrub_wiped [simp]: "nothing_to_scrub (Some []) (kept_metadata m)"
  by (simp add: nothing_to_scrub_def unset_def)

definition subject_wallets :: "uid \<Rightarrow> db \<Rightarrow> uuid list" where
  "subject_wallets u d = map w_id (filter (\<lambda>x. w_user x = Some u) (wallets d))"

text \<open>The fields of the database after an erasure.\<close>

lemma erase_fields:
  assumes "u \<noteq> []" and "erase_subject digest ''account'' (Some u) d = (c, d')"
  shows "wallets d' = map (\<lambda>x. if w_user x = Some u then erased_wallet digest u x else x) (wallets d)"
    "subs d' = map (\<lambda>s. if sub_user s = Some u then erased_subscription digest u s else s) (subs d)"
    "txns d' = snd (scrub_txns (subject_wallets u d) (txns d))" "holds d' = snd (scrub_holds (subject_wallets u d) (holds d))"
    "debts d' = snd (scrub_debts (subject_wallets u d) (debts d))"
    "events d' = snd (scrub_webhook_payloads (real_ids sub_customer_id (filter (\<lambda>s. sub_user s = Some u) (subs d)))
       (real_ids sub_stripe_id (filter (\<lambda>s. sub_user s = Some u) (subs d))) (events d))"
    "lots d' = lots d" "allocs d' = allocs d" "comps d' = comps d" "grants d' = grants d" "next_id d' = next_id d"
  using assms by (auto simp: erase_subject_def SUBJECT_TYPES_def Let_def subject_wallets_def split: prod.splits)

text \<open>A scrubbed table is a map that keeps whatever the scrub keeps.\<close>

lemma scrubbed_map:
  assumes "\<And>r. g (wipe r) = g r"
  shows "map g (snd (scrub_free_text mine clean wipe rows)) = map g rows"
  using assms by (simp add: scrub_free_text_def)

lemma scrubbed_row:
  assumes "r \<in> set (snd (scrub_free_text mine clean wipe rows))" and "\<And>r. mine (wipe r) = mine r" and "\<And>r. clean (wipe r)"
  shows "mine r \<Longrightarrow> clean r" and "\<not> mine r \<Longrightarrow> r \<in> set rows"
  using assms by (auto simp: scrub_free_text_def)

lemma unscrubbed_row: "r \<in> set rows \<Longrightarrow> \<not> mine r \<Longrightarrow> r \<in> set (snd (scrub_free_text mine clean wipe rows))"
  by (force simp: scrub_free_text_def image_iff)

lemma scrub_again:
  assumes "\<forall>r \<in> set rows. \<not> mine r"
  shows "scrub_free_text mine clean wipe rows = (0, rows)"
  using assms by (auto simp: scrub_free_text_def intro: map_idI)

subsection \<open>What is gone\<close>

definition said_nothing :: "string option \<Rightarrow> dict \<Rightarrow> bool" where
  "said_nothing desc m = (unset desc \<and> fst ` set m \<subseteq> set LEDGER_METADATA_KEYS)"

lemma clean_says_nothing: "nothing_to_scrub desc m \<Longrightarrow> said_nothing desc m"
  using kept_metadata_keys[of m] by (simp add: nothing_to_scrub_def said_nothing_def)

definition forgotten :: "uid \<Rightarrow> uuid list \<Rightarrow> db \<Rightarrow> bool" where
  "forgotten u ws d =
     ((\<forall>x \<in> set (wallets d). w_user x \<noteq> Some u) \<and> (\<forall>s \<in> set (subs d). sub_user s \<noteq> Some u) \<and>
      (\<forall>t \<in> set (txns d). txn_wallet t \<in> set ws \<longrightarrow> said_nothing (txn_desc t) (txn_meta t)) \<and>
      (\<forall>h \<in> set (holds d). hold_wallet h \<in> set ws \<longrightarrow> said_nothing (hold_desc h) (hold_meta h)) \<and>
      (\<forall>x \<in> set (debts d). debt_wallet x \<in> set ws \<longrightarrow> said_nothing (debt_desc x) (debt_meta x)))"

lemma payload_field_erased [simp]: "payload_field ERASED_PAYLOAD f = None"
  by (simp add: payload_field_def ERASED_PAYLOAD_def dobj_def dget_def)

lemma describes_erased [simp]: "ev_payload e = ERASED_PAYLOAD \<Longrightarrow> \<not> describes cs ss e"
  by (simp add: describes_def)

lemma erased_forgotten:
  assumes "u \<noteq> []" and "erase_subject digest ''account'' (Some u) d = (c, d')"
  shows "forgotten u (subject_wallets u d) d'"
proof -
  note f = erase_fields[OF assms]
  have "\<forall>x \<in> set (wallets d'). w_user x \<noteq> Some u" "\<forall>s \<in> set (subs d'). sub_user s \<noteq> Some u"
    by (auto simp: f(1,2) erased_wallet_def erased_subscription_def)
  moreover have "said_nothing (txn_desc t) (txn_meta t)" if "t \<in> set (txns d')" "txn_wallet t \<in> set (subject_wallets u d)" for t
    using scrubbed_row(1)[OF that(1)[unfolded f(3) scrub_txns_def]] that(2) by (auto intro: clean_says_nothing)
  moreover have "said_nothing (hold_desc h) (hold_meta h)" if "h \<in> set (holds d')" "hold_wallet h \<in> set (subject_wallets u d)" for h
    using scrubbed_row(1)[OF that(1)[unfolded f(4) scrub_holds_def]] that(2) by (auto intro: clean_says_nothing)
  moreover have "said_nothing (debt_desc x) (debt_meta x)" if "x \<in> set (debts d')" "debt_wallet x \<in> set (subject_wallets u d)" for x
    using scrubbed_row(1)[OF that(1)[unfolded f(5) scrub_debts_def]] that(2) by (auto intro: clean_says_nothing)
  ultimately show ?thesis unfolding forgotten_def by blast
qed

lemma real_ids_mem: "x \<in> set ss \<Longrightarrow> f x = Some i \<Longrightarrow> i \<noteq> [] \<Longrightarrow> i \<in> set (real_ids f ss)"
  by (force simp: real_ids_def unset_def)

text \<open>No stored payload names one of the customers or subscriptions any more.\<close>

lemma payloads_gone:
  assumes "e \<in> set (snd (scrub_webhook_payloads cs ss es))"
  shows "\<not> describes cs ss e"
  using assms by (auto simp: scrub_webhook_payloads_def Let_def split: if_splits)

lemma erase_again:
  assumes "\<forall>x \<in> set (wallets d). w_user x \<noteq> Some u" and "\<forall>s \<in> set (subs d). sub_user s \<noteq> Some u" and "u \<noteq> []"
  shows "erase_subject digest ''account'' (Some u) d =
    (Some \<lparr>ec_wallets = 0, ec_subscriptions = 0, ec_transactions = 0, ec_holds = 0, ec_debts = 0, ec_events = 0\<rparr>, d)"
proof -
  have n: "filter (\<lambda>x. w_user x = Some u) (wallets d) = []" "filter (\<lambda>s. sub_user s = Some u) (subs d) = []"
    using assms(1,2) by (simp_all add: filter_empty_conv)
  have m: "map (\<lambda>x. if w_user x = Some u then erased_wallet digest u x else x) (wallets d) = wallets d"
    "map (\<lambda>s. if sub_user s = Some u then erased_subscription digest u s else s) (subs d) = subs d"
    using assms(1,2) by (auto intro: map_idI)
  have z: "scrub_txns [] ts = (0, ts)" "scrub_holds [] hs = (0, hs)" "scrub_debts [] xs = (0, xs)"
    "scrub_webhook_payloads [] [] es = (0, es)" for ts hs xs es
    by (simp_all add: scrub_txns_def scrub_holds_def scrub_debts_def scrub_again scrub_webhook_payloads_def describes_def)
  show ?thesis using assms(3)
    by (simp add: erase_subject_def SUBJECT_TYPES_def Let_def n m z real_ids_def)
qed


subsection \<open>What stays\<close>

text \<open>A row without its free text and its owner's name.\<close>

definition txn_bill :: "txn \<Rightarrow> txn" where
  "txn_bill t = t\<lparr>txn_desc := None, txn_meta := []\<rparr>"

definition hold_bill :: "hold \<Rightarrow> hold" where
  "hold_bill h = h\<lparr>hold_desc := None, hold_meta := []\<rparr>"

definition debt_bill :: "debt \<Rightarrow> debt" where
  "debt_bill x = x\<lparr>debt_desc := None, debt_meta := []\<rparr>"

definition wallet_bill :: "wallet \<Rightarrow> wallet" where
  "wallet_bill x = x\<lparr>w_user := None, w_pseudonym := []\<rparr>"

lemma bill_fields [simp]:
  "txn_id (txn_bill t) = txn_id t" "txn_wallet (txn_bill t) = txn_wallet t" "txn_delta (txn_bill t) = txn_delta t"
  "hold_id (hold_bill h) = hold_id h" "hold_wallet (hold_bill h) = hold_wallet h" "hold_status (hold_bill h) = hold_status h"
  "debt_id (debt_bill x) = debt_id x" "debt_wallet (debt_bill x) = debt_wallet x" "debt_initial (debt_bill x) = debt_initial x"
  "debt_outstanding (debt_bill x) = debt_outstanding x" "debt_settled (debt_bill x) = debt_settled x"
  "debt_txn (debt_bill x) = debt_txn x" "w_id (wallet_bill y) = w_id y"
  by (simp_all add: txn_bill_def hold_bill_def debt_bill_def wallet_bill_def)

text \<open>Tables that agree after a projection agree in everything read through it.\<close>

lemma all_through: "map g xs = map g ys \<Longrightarrow> (\<And>x. P (g x) = P x) \<Longrightarrow> (\<forall>x \<in> set xs. P x) = (\<forall>y \<in> set ys. P y)"
  by (metis (no_types, lifting) image_iff list.set_map)

lemma map_through: "map g xs = map g ys \<Longrightarrow> (\<And>x. f (g x) = f x) \<Longrightarrow> map f xs = map f ys"
  by (metis (no_types, lifting) map_eq_conv map_map o_apply)

lemma erased_bills:
  assumes "u \<noteq> []" and "erase_subject digest ''account'' (Some u) d = (c, d')"
  shows "map txn_bill (txns d') = map txn_bill (txns d)" "map hold_bill (holds d') = map hold_bill (holds d)"
    "map debt_bill (debts d') = map debt_bill (debts d)" "map wallet_bill (wallets d') = map wallet_bill (wallets d)"
proof -
  note f = erase_fields[OF assms]
  show "map txn_bill (txns d') = map txn_bill (txns d)" unfolding f(3) scrub_txns_def by (rule scrubbed_map) (simp add: txn_bill_def)
  show "map hold_bill (holds d') = map hold_bill (holds d)" unfolding f(4) scrub_holds_def by (rule scrubbed_map) (simp add: hold_bill_def)
  show "map debt_bill (debts d') = map debt_bill (debts d)" unfolding f(5) scrub_debts_def by (rule scrubbed_map) (simp add: debt_bill_def)
  show "map wallet_bill (wallets d') = map wallet_bill (wallets d)" by (simp add: f(1) wallet_bill_def erased_wallet_def)
qed

lemma erased_hold:
  assumes "u \<noteq> []" and "erase_subject digest ''account'' (Some u) d = (c, d')" and "h \<in> set (holds d')"
  obtains h0 where "h0 \<in> set (holds d)" "hold_bill h = hold_bill h0" "hold_credits h = hold_credits h0"
    "was_waived (hold_meta h) \<Longrightarrow> was_waived (hold_meta h0)"
proof -
  have "MARKER \<notin> set LEDGER_METADATA_KEYS" by code_simp
  then have "dget (kept_metadata m) MARKER = None" for m
    using kept_metadata_keys[of m] by (auto simp: dget_def map_of_eq_None_iff)
  then have w: "\<not> was_waived (kept_metadata m)" for m by (simp add: was_waived_def dtruthy_def)
  from assms(3) obtain h0 where "h0 \<in> set (holds d)" "h = h0 \<or> h = h0\<lparr>hold_desc := Some [], hold_meta := kept_metadata (hold_meta h0)\<rparr>"
    unfolding erase_fields(4)[OF assms(1,2)] scrub_holds_def scrub_free_text_def by (auto split: if_splits)
  with w that show ?thesis by (auto simp: hold_bill_def)
qed

lemma erased_totals:
  assumes "u \<noteq> []" and "erase_subject digest ''account'' (Some u) d = (c, d')"
  shows "ledger_total d' w = ledger_total d w" "alloc_total d' i = alloc_total d i" "reserved d' w = reserved d w"
    "outstanding_debt d' w = outstanding_debt d w" "lot_total d' w = lot_total d w" "live_balance d' w now = live_balance d w now"
    "account_of d' w now = account_of d w now"
proof -
  note f = erase_fields[OF assms] and b = erased_bills[OF assms]
  show l: "ledger_total d' w = ledger_total d w"
    unfolding ledger_total_def by (rule arg_cong[where f = sum_list], rule map_through[OF b(1)]) simp
  show a: "alloc_total d' i = alloc_total d i" for i by (simp add: alloc_total_def f(8))
  show r: "reserved d' w = reserved d w"
    unfolding reserved_def a by (rule arg_cong[where f = sum_list], rule map_through[OF b(2)]) (simp add: held_in_def)
  show o: "outstanding_debt d' w = outstanding_debt d w"
    unfolding outstanding_sum by (rule arg_cong[where f = sum_list], rule map_through[OF b(3)]) simp
  show "lot_total d' w = lot_total d w" "live_balance d' w now = live_balance d w now"
    using totals_cong(1)[of d' d] live_balance_cong[of d' d] f(7) by simp_all
  with o r show "account_of d' w now = account_of d w now" by (simp add: account_of_def)
qed

lemma erased_inv:
  assumes "u \<noteq> []" and "erase_subject digest ''account'' (Some u) d = (c, d')" and "inv d"
  shows "inv d'"
proof -
  note f = erase_fields[OF assms(1,2)] and b = erased_bills[OF assms(1,2)] and t = erased_totals[OF assms(1,2)]
  have wf: "wf_db d" by (rule inv_wf[OF assms(3)])
  note parts = wf_db_def[THEN iffD1, OF wf]
  have wid: "map w_id (wallets d') = map w_id (wallets d)" by (rule map_through[OF b(4)]) simp
  then have ids: "wallet_ids d' = wallet_ids d" unfolding wallet_ids_def by (metis list.set_map)
  have "wallets_ok d'" "lots_ok d'" using parts by (simp_all add: wallets_ok_def lots_ok_def ids wid f(7,11))
  moreover have "txns_ok d'"
    using parts map_through[OF b(1), of txn_id] all_through[OF b(1), of "\<lambda>t. txn_id t < next_id d \<and> txn_wallet t \<in> wallet_ids d"]
    by (simp add: txns_ok_def ids f(11))
  moreover have "hold_rows_ok d'"
    using parts map_through[OF b(2), of hold_id] all_through[OF b(2), of "\<lambda>h. hold_id h < next_id d \<and> hold_wallet h \<in> wallet_ids d"]
    by (simp add: hold_rows_ok_def ids f(11))
  moreover have "debts_ok d'"
    using parts map_through[OF b(3), of debt_id] all_through[OF b(3), of "\<lambda>x. debt_id x < next_id d \<and> debt_wallet x \<in> wallet_ids d \<and>
      0 \<le> debt_outstanding x \<and> debt_outstanding x \<le> debt_initial x \<and> (\<forall>g. debt_txn x = Some g \<longrightarrow> g < next_id d)"]
    by (simp add: debts_ok_def ids f(11))
  moreover have "lot_refs_ok d'"
  proof -
    have "(\<exists>t \<in> set (txns d'). txn_id t = g \<and> txn_wallet t = w) = (\<exists>t \<in> set (txns d). txn_id t = g \<and> txn_wallet t = w)" for g w
      using all_through[OF b(1), of "\<lambda>t. \<not> (txn_id t = g \<and> txn_wallet t = w)"] by auto
    with parts show ?thesis by (simp add: lot_refs_ok_def ids f(7))
  qed
  moreover have "alloc_rows_ok d'"
  proof -
    have "(\<exists>h \<in> set (holds d'). hold_id h = j \<and> (\<exists>l \<in> set (lots d). lot_id l = k \<and> lot_wallet l = hold_wallet h)) =
        (\<exists>h \<in> set (holds d). hold_id h = j \<and> (\<exists>l \<in> set (lots d). lot_id l = k \<and> lot_wallet l = hold_wallet h))" for j k
      using all_through[OF b(2), of "\<lambda>h. \<not> (hold_id h = j \<and> (\<exists>l \<in> set (lots d). lot_id l = k \<and> lot_wallet l = hold_wallet h))"] by auto
    with parts show ?thesis by (simp add: alloc_rows_ok_def f(7,8,11))
  qed
  ultimately have "wf_db d'" by (simp add: wf_db_def)
  moreover have "holds_ok d'"
    unfolding holds_ok_def
  proof (intro ballI impI)
    fix h assume h: "h \<in> set (holds d')" "hold_status h = HELD"
    from erased_hold[OF assms(1,2) h(1)] obtain h0 where h0: "h0 \<in> set (holds d)" "hold_bill h = hold_bill h0"
      "hold_credits h = hold_credits h0" "was_waived (hold_meta h) \<Longrightarrow> was_waived (hold_meta h0)" by blast
    have "hold_status h0 = HELD" "hold_id h0 = hold_id h" using h0(2) h(2) bill_fields(4,6) by metis+
    with h0 assms(3) show "0 \<le> hold_credits h \<and> alloc_total d' (hold_id h) = hold_credits h \<and>
        (was_waived (hold_meta h) \<longrightarrow> hold_credits h = 0)"
      by (auto simp: inv_def holds_ok_def t(2))
  qed
  moreover have "balanced d' w" for w using assms(3) by (simp add: inv_def balanced_def t(1,3,5))
  ultimately show ?thesis by (simp add: inv_def)
qed

text \<open>C27: an erasure keeps the bill. Every ledger row, reservation, debt and wallet stands as it was but for
  its free text and its owner's name, every lot is untouched, every wallet's live, owed and reserved
  credits are what they were and everybody else's account is too, the books still balance, and all of
  the subject's wallets carry one pseudonym.\<close>

theorem erasure_keeps_bill:
  assumes "u \<noteq> []" and "erase_subject digest ''account'' (Some u) d = (c, d')" and "inv d"
  shows "inv d' \<and> map txn_bill (txns d') = map txn_bill (txns d) \<and> map hold_bill (holds d') = map hold_bill (holds d) \<and>
    map debt_bill (debts d') = map debt_bill (debts d) \<and> map wallet_bill (wallets d') = map wallet_bill (wallets d) \<and>
    lots d' = lots d \<and> allocs d' = allocs d \<and> (\<forall>w now. account_of d' w now = account_of d w now) \<and>
    (\<forall>v now. v \<noteq> u \<longrightarrow> user_account d' v now = user_account d v now) \<and>
    (\<forall>x \<in> set (wallets d'). w_id x \<in> set (subject_wallets u d) \<longrightarrow> w_pseudonym x = pseudonymize digest u)"
proof -
  note f = erase_fields[OF assms(1,2)]
  have other: "map_option w_id (wallet_of_user d' v) = map_option w_id (wallet_of_user d v)" if "v \<noteq> u" for v
  proof -
    have "map_option w_id (find (\<lambda>x. w_user x = Some v) (map (\<lambda>x. if w_user x = Some u then erased_wallet digest u x else x) xs)) =
        map_option w_id (find (\<lambda>x. w_user x = Some v) xs)" for xs
      using that by (induction xs) (auto simp: erased_wallet_def)
    then show ?thesis by (simp add: wallet_of_user_def f(1))
  qed
  have "user_account d' v now = user_account d v now" if "v \<noteq> u" for v now
    using other[OF that] erased_totals(7)[OF assms(1,2)] by (auto simp: user_account_def split: option.splits)
  moreover have "w_pseudonym x = pseudonymize digest u" if "x \<in> set (wallets d')" "w_id x \<in> set (subject_wallets u d)" for x
  proof -
    from that(1) obtain y where y: "y \<in> set (wallets d)" "x = (if w_user y = Some u then erased_wallet digest u y else y)"
      by (auto simp: f(1))
    from that(2) obtain z where z: "z \<in> set (wallets d)" "w_user z = Some u" "w_id z = w_id x" by (auto simp: subject_wallets_def)
    have "w_id y = w_id x" using y(2) by (simp add: erased_wallet_def)
    moreover have "distinct (map w_id (wallets d))" using inv_wf[OF assms(3)] by (simp add: wf_db_def wallets_ok_def)
    ultimately have "y = z" using y(1) z(1,3) by (metis distinct_map inj_onD)
    with y(2) z(2) show ?thesis by (simp add: erased_wallet_def)
  qed
  ultimately show ?thesis
    using erased_inv[OF assms] erased_bills[OF assms(1,2)] erased_totals(7)[OF assms(1,2)] f(7,8) by blast
qed

subsection \<open>One subject\<close>

definition d_person :: db where
  "d_person = d_held\<lparr>
     subs := [(new_subscription 90 ''a'' ''pro'')\<lparr>sub_stripe_id := Some ''sub_1'', sub_customer_id := Some ''cus_1''\<rparr>],
     events := [\<lparr>ev_id = 91, ev_stripe_id = ''evt_1'', ev_type = ''customer.updated'',
       ev_payload = [(''data'', JObj [(''object'', JObj [(''customer'', JStr ''cus_1''), (''email'', JStr ''a@x'')])])],
       ev_processed = None, ev_ignored_stale = False, ev_error = ''boom'', ev_received = 1\<rparr>],
     next_id := 92\<rparr>"

lemma inv_person: "inv d_person"
proof -
  have "next_id d_held \<le> 92" by code_simp
  then show ?thesis by (intro wallet_tables_same(1)[OF _ _ _ _ _ _ _ inv_samples(2)]) (simp_all add: d_person_def)
qed


theorem erasure_keeps_bill_witness:
  "let d' = snd (erase_subject rev ''account'' (Some ''a'') d_person)
   in inv d' \<and> account_of d' 0 20 = account_of d_person 0 20 \<and> map w_pseudonym (wallets d') = [''erased:a''] \<and>
      map txn_delta (txns d') = map txn_delta (txns d_person)"
proof -
  obtain c d' where e: "erase_subject rev ''account'' (Some ''a'') d_person = (c, d')" by (rule prod.exhaust)
  have h: "''a'' \<noteq> []" "map w_pseudonym (wallets (snd (erase_subject rev ''account'' (Some ''a'') d_person))) = [''erased:a'']"
    by code_simp+
  note k = erasure_keeps_bill[OF h(1) e inv_person]
  from k have "map txn_bill (txns d') = map txn_bill (txns d_person)" by blast
  then have "map txn_delta (txns d') = map txn_delta (txns d_person)" by (rule map_through) (rule bill_fields(3))
  with k h(2) show ?thesis unfolding Let_def e snd_conv by blast
qed

subsection \<open>What erasure does not do\<close>

text \<open>
  The payloads are found by the ids of the subject's subscription rows. A customer who only ever
  bought packages has none, and every stored event about them stays as it is.
\<close>

lemma one_off_payloads_stay:
  assumes "u \<noteq> []" and "\<forall>s \<in> set (subs d). sub_user s \<noteq> Some u"
  shows "events (snd (erase_subject digest ''account'' (Some u) d)) = events d"
proof -
  have "filter (\<lambda>s. sub_user s = Some u) (subs d) = []" using assms(2) by (simp add: filter_empty_conv)
  then show ?thesis using assms(1)
    by (simp add: erase_subject_def SUBJECT_TYPES_def Let_def real_ids_def scrub_webhook_payloads_def describes_def split_beta)
qed

text \<open>
  The flags that keep comped and simulated credits out of the revenue are not accounting keys: once
  their owner is erased, those rows count as money.
\<close>

lemma erased_comp_counts_as_money:
  "real_money (txns d_comped) = [] \<and>
   map txn_delta (real_money (txns (snd (erase_subject rev ''account'' (Some ''a'') d_comped)))) = [300]"
  by code_simp

text \<open>
  Nor is the marker of a metered reservation: captured after its owner's erasure, it is charged for.
\<close>

lemma erased_metered_hold_charged:
  "let d = after empty_db (hold cf_metered 20 ((reserve 7 ''job'')\<lparr>ho_user := bob\<rparr>) empty_db);
       i = hold_id (hd (holds d)); d' = snd (erase_subject rev ''account'' (Some ''b'') d)
   in ok (capture 30 i (Some 5) None [] d) \<and> \<not> ok (capture 30 i (Some 5) None [] d')"
  by code_simp

end
