(* ===== verification/View_Claims.thy ===== *)
theory View_Claims
  imports Views Provider_Claims Redirect_Claims Letter_Claims
begin

section \<open>Properties of the views\<close>

subsection \<open>Refusals\<close>

text \<open>The most a refused call leaves behind: an empty wallet of the caller.\<close>

definition at_most_a_wallet :: "uid \<Rightarrow> db \<Rightarrow> db \<Rightarrow> bool" where
  "at_most_a_wallet u d d' = (d' = d \<or> d' = snd (get_or_create_wallet u d))"

lemma one_wallet_accounts:
  assumes "inv d" and "at_most_a_wallet u d d'"
  shows "user_account d' v now = user_account d v now"
proof (cases "d' = d")
  case False
  obtain w d0 where l: "lock_wallet u d = (w, d0)" by (rule prod.exhaust)
  with False assms(2) have d': "d' = d0" by (simp add: at_most_a_wallet_def lock_wallet_def)
  note f = lock_wallet_facts[OF assms(1) l]
  show ?thesis
  proof (cases "v = u")
    case True
    with lock_wallet_account[OF assms(1) l, of now] user_account_after[OF l refl, of now] show ?thesis by (simp add: d')
  next
    case False
    have "account_of d0 x now = account_of d x now" for x by (rule account_cong) (simp_all add: f)
    with lock_wallet_other[OF l False] show ?thesis by (simp add: d' user_account_def split: option.split)
  qed
qed simp

lemma checkout_post_site: "snd (checkout_post gw cf c q s) = s"
  by (auto simp: checkout_post_def split: option.split sum.split)

lemma portal_get_site: "snd (portal_get gw c r s) = s"
  by (simp add: portal_get_def Let_def split: sum.split)

lemma unanswered_respond:
  assumes "respond gw cf rt now c call s = (a, s')" and "\<forall>p. a \<noteq> Answered p"
  shows "si_recharge s' = si_recharge s \<and> at_most_a_wallet (u_id (ca_user c)) (si_db s) (si_db s')"
proof (cases call)
  case (PatchWallet q)
  obtain w d where g: "get_or_create_wallet (u_id (ca_user c)) (si_db s) = (w, d)" by (rule prod.exhaust)
  from PatchWallet assms show ?thesis
    by (auto simp: wallet_patch_def g Let_def at_most_a_wallet_def split: option.splits)
next
  case (PostCheckout q)
  with assms(1) checkout_post_site[of gw cf c q s] show ?thesis by (simp add: at_most_a_wallet_def)
next
  case (GetPortal r)
  with assms(1) portal_get_site[of gw c r s] show ?thesis by (simp add: at_most_a_wallet_def)
next
  case PostCancel
  with assms show ?thesis
    by (auto simp: cancel_post_def Let_def at_most_a_wallet_def split: option.splits if_splits sum.splits)
next
  case (PostSimulated hex p)
  with assms show ?thesis
    by (auto simp: simulated_post_def at_most_a_wallet_def split: sum.splits error.splits prod.splits)
next
  case (PostDebit q)
  with assms show ?thesis
    by (auto simp: debit_post_def at_most_a_wallet_def split: option.splits sum.splits error.splits prod.splits)
qed (use assms in \<open>auto simp: wallet_get_def transactions_get_def catalog_get_def subscription_get_def Let_def split: prod.splits option.splits\<close>)


definition caller0 :: caller where
  "caller0 = \<lparr>ca_user = alice, ca_username = ''alice'', ca_authenticated = True, ca_anonymous = False, ca_staff = False, ca_service = True\<rparr>"

definition gw0 :: gateway where
  "gw0 = \<lparr>gw_redirects = rs0, gw_bracketed = (\<lambda>_. True), gw_provider = ps0, gw_api = api0\<rparr>"

definition site0 :: site where
  "site0 = \<lparr>si_db = empty_db, si_recharge = (\<lambda>_. \<lparr>rg_enabled = False, rg_threshold = 0, rg_package = None, rg_alert = 0\<rparr>)\<rparr>"

definition rt0 :: row_times where
  "rt0 = \<lparr>rt_created = (\<lambda>_. 0), rt_updated = (\<lambda>_. 0)\<rparr>"


subsection \<open>The wallet page\<close>

lemma live_lots_sum: "(\<Sum>l\<leftarrow>live_lots_ordered d w now. lot_remaining l) = live_balance d w now"
proof -
  have "mset (live_lots_ordered d w now) = mset (filter (live_lot now) (wallet_lots d w))" by (simp add: live_lots_ordered_def)
  then show ?thesis unfolding live_balance_def by (metis sum_mset_sum_list mset_map)
qed

lemma open_holds_sum:
  assumes "holds_ok d"
  shows "(\<Sum>h\<leftarrow>open_holds d w. hold_credits h) = reserved d w"
proof -
  have "(\<Sum>h\<leftarrow>open_holds d w. hold_credits h) = (\<Sum>h\<leftarrow>filter (held_in w) (holds d). hold_credits h)"
    by (simp add: open_holds_def held_in_def[abs_def] rev_map[symmetric])
  also have "\<dots> = (\<Sum>h\<leftarrow>filter (held_in w) (holds d). alloc_total d (hold_id h))"
    using assms by (intro arg_cong[where f = sum_list] map_cong) (auto simp: holds_ok_def held_in_def)
  finally show ?thesis by (simp add: reserved_def sum_list_map_filter')
qed

text \<open>The first dated lot of a list in spend order expires before every other dated lot.\<close>

lemma first_dated_earliest:
  assumes "sorted (map lot_expires ls)" and "l \<in> set ls" and "lot_expires l = At t"
  shows "\<exists>e. first_dated ls = Some e \<and> er_expires e \<le> t \<and> (\<exists>x \<in> set ls. lot_expires x = At (er_expires e) \<and> lot_remaining x = er_credits e)"
  using assms
proof (induction ls)
  case (Cons y ls)
  show ?case
  proof (cases "lot_expires y")
    case (At t')
    with Cons.prems have "t' \<le> t" by (cases "l = y") auto
    with At show ?thesis by simp
  next
    case Never
    with Cons.prems have "l \<in> set ls" by auto
    with Cons.prems(1) have "lot_expires y \<le> lot_expires l" by auto
    with Never Cons.prems(3) show ?thesis by simp
  qed
qed simp


lemma inv_bought: "inv d_bought"
proof -
  let ?o = "event_object (package_session ''cs_1'' ''paid'' 500)"
  let ?p = "hd DEFAULT_CREDIT_PACKAGES"
  have h: "session_owner cf0 ?o = Some alice" "session_package cf0 ?o = Some ?p" "session_plan cf0 ?o = None"
    "reconcile_checkout_session cf0 ?o ''payment'' (cp_currency ?p) (Some (cp_price_cents ?p)) = None"
    "id_text (dget ?o ''id'') = Some ''cs_1''" "\<not> granted empty_db (session_claim ''cs_1'')" "0 < cp_credits ?p"
    by code_simp+
  from package_checkout[OF inv_empty h, of 20] show ?thesis by (auto simp: d_bought_def)
qed


subsection \<open>Cancelling\<close>

lemma find_map_user:
  assumes "\<And>s. sub_user (f s) = sub_user s"
  shows "find (\<lambda>s. sub_user s = Some u) (map f ss) = map_option f (find (\<lambda>s. sub_user s = Some u) ss)"
  using assms by (induction ss) auto

text \<open>A write that keeps owner, id, plan and status of every subscription changes nobody's plan.\<close>

lemma plan_kept:
  assumes "subs d' = map f (subs d)" and "comps d' = comps d"
    and "\<And>s. s \<in> set (subs d) \<Longrightarrow> sub_id (f s) = sub_id s \<and> sub_plan (f s) = sub_plan s \<and> sub_status (f s) = sub_status s"
    and "\<And>s. sub_user (f s) = sub_user s"
  shows "effective_plan cf u t d' = effective_plan cf u t d"
proof -
  have s: "sub_of_user d' u = map_option f (sub_of_user d u)"
    unfolding sub_of_user_def assms(1) by (rule find_map_user[OF assms(4)])
  show ?thesis
  proof (cases "sub_of_user d u")
    case None
    then show ?thesis by (simp add: effective_plan_def s)
  next
    case (Some x)
    then have "x \<in> set (subs d)" by (auto simp: sub_of_user_def find_Some_iff)
    from assms(3)[OF this] show ?thesis
      by (simp add: effective_plan_def comp_plan_for_user_def governing_comp_period_def open_windows_def s Some assms(2) entitling_def)
  qed
qed

text \<open>C16: a cancel that is answered has been accepted by the provider, and takes nothing that was paid for:
  it marks the caller's subscription as leaving at the end of its period and moves no other column of
  any row; the plan that governs any user at any instant is what it was, and the page shows the period
  and whether it entitles exactly as before.\<close>

theorem cancel_keeps_period:
  assumes "request gw cf rt now c PostCancel s = (Answered p, s')" and "subs_ok (si_db s)"
  shows "\<exists>x y. sub_of_user (si_db s) (u_id (ca_user c)) = Some x \<and> is_paid x \<and>
    cancel_subscription (gw_provider gw) (gw_api gw) (the (sub_stripe_id x)) = Inr y \<and>
    si_db s' = si_db s\<lparr>subs := map (\<lambda>z. if sub_id z = sub_id x then z\<lparr>sub_cancelled_at := Some now, sub_cancel_at_end := True\<rparr> else z)
      (subs (si_db s))\<rparr> \<and>
    effective_plan cf' v t (si_db s') = effective_plan cf' v t (si_db s) \<and>
    (\<exists>r. p = SubscriptionPage r \<and> sr_cancel_at_end r \<and> sr_cancelled_at r = Some now \<and> sr_period_end r = sub_period_end x \<and>
       sr_plan r = sub_plan x \<and> sr_is_active r = is_active now x)"
proof -
  from assms(1) obtain x y where x: "sub_of_user (si_db s) (u_id (ca_user c)) = Some x" "is_paid x"
    and y: "cancel_subscription (gw_provider gw) (gw_api gw) (the (sub_stripe_id x)) = Inr y"
    and p: "p = SubscriptionPage (sub_to_dto now (cancelled_row now x))" "s' = s\<lparr>si_db := save_sub (cancelled_row now x) (si_db s)\<rparr>"
    by (auto simp: request_def cancel_post_def Let_def split: if_splits option.splits sum.splits)
  have m: "x \<in> set (subs (si_db s))" using x(1) by (auto simp: sub_of_user_def find_Some_iff)
  let ?f = "\<lambda>z. if sub_id z = sub_id x then z\<lparr>sub_cancelled_at := Some now, sub_cancel_at_end := True\<rparr> else z"
  have one: "z = x" if "z \<in> set (subs (si_db s))" "sub_id z = sub_id x" for z
    using assms(2) that m by (auto simp: subs_ok_def distinct_map inj_on_def)
  have d': "si_db s' = si_db s\<lparr>subs := map ?f (subs (si_db s))\<rparr>"
  proof -
    have i: "sub_id (cancelled_row now x) = sub_id x" by (simp add: cancelled_row_def)
    have h: "map (\<lambda>r. if sub_id r = sub_id x then cancelled_row now x else r) (subs (si_db s)) = map ?f (subs (si_db s))"
      by (rule map_cong[OF refl]) (auto simp: cancelled_row_def dest: one)
    show ?thesis unfolding p(2) save_sub_def upd_sub_def upd_row_def i h by simp
  qed
  have "effective_plan cf' v t (si_db s') = effective_plan cf' v t (si_db s)"
    by (rule plan_kept[where f = ?f]) (simp_all add: d')
  moreover have "\<exists>r. p = SubscriptionPage r \<and> sr_cancel_at_end r \<and> sr_cancelled_at r = Some now \<and> sr_period_end r = sub_period_end x \<and>
      sr_plan r = sub_plan x \<and> sr_is_active r = is_active now x"
    by (simp add: p(1) sub_to_dto_def cancelled_row_def is_active_def)
  ultimately show ?thesis using x y d' by blast
qed

theorem cancel_keeps_period_witness:
  "\<exists>p s'. request gw0 cf0 rt0 20 caller0 PostCancel (site0\<lparr>si_db := d_subscribed\<rparr>) = (Answered p, s') \<and>
     effective_plan cf0 ''a'' 30 (si_db s') = ''pro''"
proof -
  let ?s = "site0\<lparr>si_db := d_subscribed\<rparr>"
  obtain a s' where q: "request gw0 cf0 rt0 20 caller0 PostCancel ?s = (a, s')" by (rule prod.exhaust)
  have "case fst (request gw0 cf0 rt0 20 caller0 PostCancel ?s) of Answered p \<Rightarrow> True | _ \<Rightarrow> False" by code_simp
  then obtain p where p: "a = Answered p" by (cases a) (simp_all add: q)
  have o: "subs_ok (si_db ?s)" by code_simp
  have e: "effective_plan cf0 ''a'' 30 (si_db ?s) = ''pro''" by code_simp
  from cancel_keeps_period[OF q[unfolded p] o, of cf0 "''a''" 30] q p e show ?thesis by auto
qed

subsection \<open>From the click to the credits\<close>

text \<open>What an answered checkout asked the provider for: where the browser may come back to, and what is sold.\<close>

lemma checkout_answered:
  assumes "request gw cf rt now c (PostCheckout q) s = (Answered (CheckoutPage r), s')"
  obtains su cu where "s' = s" "validate_checkout cf q = None"
    "resolve_redirect (gw_bracketed gw) (gw_redirects gw) (cq_success_url q) rs_success_url ''/billing/success'' = Inr su"
    "resolve_redirect (gw_bracketed gw) (gw_redirects gw) (cq_cancel_url q) rs_cancel_url ''/billing/cancel'' = Inr cu"
    "create_checkout_session (gw_provider gw) (gw_api gw) cf (ca_user c) (cq_package q) (cq_plan q) su cu
       = Inr (ck_checkout_url r, ck_session_id r)"
  using assms
  by (auto simp: request_def checkout_post_def redirect_answer_def provider_answer_def
      split: if_splits option.splits sum.splits redirect_error.splits provider_error.splits)

text \<open>C28: what is sold is what is granted. When the application answered a user's request for a package with a
  session, and the provider, which repeats what it was asked, reports that session completed, the
  buyer's account moves by the specification of a credit of exactly that package that repays debt
  first and nobody else's moves; the credits sit in a lot that never expires, one payment of the
  catalogue price is announced to the buyer, and the session is claimed.\<close>

theorem sold_is_granted:
  assumes "request gw cf rt now c (PostCheckout q) s = (Answered (CheckoutPage r), s')" and "is_configured (gw_provider gw)"
    and "cq_package q = Some slug" and "slug \<noteq> []" and "find_user cf (u_id (ca_user c)) = Some (ca_user c)"
    and "u_id (ca_user c) \<noteq> []" and "inv d" and "package_by_slug (cf_packages cf) slug = Some pkg" and "0 < cp_credits pkg"
    and "\<forall>su cu. completed_session (package_request (ca_user c) pkg su cu) discount (event_object event)"
    and "dget (event_object event) ''id'' = Some (JStr (ck_session_id r))" and "ck_session_id r \<noteq> []"
    and "\<not> granted d (session_claim (ck_session_id r))"
  shows "\<exists>d' (t :: txn). handle_checkout_completed cf later event d = Inr (False, d') \<and> inv d' \<and>
    user_account d' (u_id (ca_user c)) later = spec_credit (cp_credits pkg) True (user_account d (u_id (ca_user c)) later) \<and>
    (\<forall>v. v \<noteq> u_id (ca_user c) \<longrightarrow> user_account d' v later = user_account d v later) \<and>
    (\<exists>l \<in> set (lots d'). lot_source l = PURCHASE \<and> lot_initial l = cp_credits pkg \<and> lot_expires l = Never \<and>
       lot_grant l = Some (txn_id t)) \<and>
    (\<exists>m. outbox d' = outbox d @ [m] \<and> em_topic m = ''payment.completed'' \<and> em_key m = u_id (ca_user c) \<and>
       dget (em_payload m) ''amount_cents'' = Some (JInt (cp_price_cents pkg)) \<and>
       dget (em_payload m) ''transaction_id'' = Some (JStr (uuid_str (txn_id t)))) \<and>
    granted d' (session_claim (ck_session_id r))"
proof -
  obtain su cu where v: "validate_checkout cf q = None"
    and k: "create_checkout_session (gw_provider gw) (gw_api gw) cf (ca_user c) (cq_package q) (cq_plan q) su cu
       = Inr (ck_checkout_url r, ck_session_id r)"
    by (rule checkout_answered[OF assms(1)])
  have pl: "unset (cq_plan q)" using v assms(3,4) by (auto simp: validate_checkout_def Let_def unset_def split: if_splits)
  from k have k': "create_checkout_session (gw_provider gw) (gw_api gw) cf (ca_user c) (Some slug) None su cu
       = Inr (ck_checkout_url r, ck_session_id r)"
    using assms(3,4) by (simp add: create_checkout_session_def unset_def)
  have cs: "\<forall>p. package_by_slug (cf_packages cf) slug = Some p \<longrightarrow>
      completed_session (package_request (ca_user c) p su cu) discount (event_object event) \<and> 0 < cp_credits p"
    using assms(8-10) by simp
  from bought_is_granted[OF k' assms(2,4,5,6,7) cs assms(11-13), of later] assms(8) show ?thesis by auto
qed

lemma session_read: "completed_session (package_request user pkg su cu) n obj = completed_session (package_request user pkg [] []) n obj"
  by (simp add: completed_session_def package_request_fields)

theorem sold_is_granted_witness:
  "\<exists>d'. handle_checkout_completed cf0 30 (package_session ''cs_1'' ''paid'' 500) empty_db = Inr (False, d') \<and>
     user_account d' ''a'' 30 = \<lparr>ac_live = 500, ac_owed = 0, ac_held = 0\<rparr>"
proof -
  let ?q = "\<lparr>cq_package = Some ''starter'', cq_plan = None, cq_success_url = Some ''https://app.test/ok'', cq_cancel_url = None\<rparr>"
  let ?r = "\<lparr>ck_checkout_url = ''https://pay.test/cs_1'', ck_session_id = ''cs_1''\<rparr>"
  let ?o = "event_object (package_session ''cs_1'' ''paid'' 500)"
  let ?p = "hd DEFAULT_CREDIT_PACKAGES"
  have "fst (request gw0 cf0 rt0 20 caller0 (PostCheckout ?q) site0) = Answered (CheckoutPage ?r)" by code_simp
  then obtain s' where q: "request gw0 cf0 rt0 20 caller0 (PostCheckout ?q) site0 = (Answered (CheckoutPage ?r), s')"
    by (metis prod.collapse)
  have h: "is_configured (gw_provider gw0)" "cq_package ?q = Some ''starter''" "''starter'' \<noteq> []"
    "find_user cf0 (u_id (ca_user caller0)) = Some (ca_user caller0)" "u_id (ca_user caller0) \<noteq> []"
    "package_by_slug (cf_packages cf0) ''starter'' = Some ?p" "0 < cp_credits ?p"
    "dget ?o ''id'' = Some (JStr (ck_session_id ?r))" "ck_session_id ?r \<noteq> []" "\<not> granted empty_db (session_claim (ck_session_id ?r))"
    "u_id (ca_user caller0) = ''a''"
    "spec_credit (cp_credits ?p) True (user_account empty_db (u_id (ca_user caller0)) 30) = \<lparr>ac_live = 500, ac_owed = 0, ac_held = 0\<rparr>"
    by code_simp+
  have "completed_session (package_request (ca_user caller0) ?p [] []) 0 ?o"
    using completed_starter by (simp add: caller0_def)
  then have c: "\<forall>su cu. completed_session (package_request (ca_user caller0) ?p su cu) 0 ?o" using session_read by blast
  from sold_is_granted[OF q h(1-5) inv_empty h(6,7) c h(8-10), of 30] show ?thesis
    unfolding h(11) h(12)[unfolded h(11)] by (elim exE conjE) (intro exI conjI; assumption)
qed

subsection \<open>Pages that mislead\<close>

text \<open>
  The list of transactions stops at a hundred rows and says there are no more. And the balance on the
  wallet page is the cached one: after a deadline and before the sweep it counts credits no lot of the
  page holds.
\<close>

definition d_many :: db where
  "d_many = d_bought\<lparr>txns := replicate 101 (hd (txns d_bought))\<rparr>"

lemma hundred_rows_and_no_more:
  "case fst (request gw0 cf0 rt0 20 caller0 GetTransactions (site0\<lparr>si_db := d_many\<rparr>)) of
     Answered (TransactionsPage r) \<Rightarrow> length (tl_transactions r) = 100 \<and> \<not> tl_has_more r | _ \<Rightarrow> False"
  by code_simp

definition d_expired :: db where
  "d_expired = d_bought\<lparr>lots := map (\<lambda>l. l\<lparr>lot_expires := At 25\<rparr>) (lots d_bought)\<rparr>"

lemma stale_balance_shown:
  "case fst (request gw0 cf0 rt0 30 caller0 GetWallet (site0\<lparr>si_db := d_expired\<rparr>)) of
     Answered (WalletPage r) \<Rightarrow> wr_balance r = 500 \<and> wr_lots r = [] | _ \<Rightarrow> False"
  by code_simp


end
