(* ===== verification/Export_Claims.thy ===== *)
theory Export_Claims
  imports Export View_Claims
begin

section \<open>Properties of the export\<close>

text \<open>The books a subject is shown balance, they are the subject's alone, and an erased subject has none.\<close>

definition column :: "string \<Rightarrow> dict list \<Rightarrow> int" where
  "column k rows = (\<Sum>r\<leftarrow>rows. case dint r k of Some n \<Rightarrow> n | None \<Rightarrow> 0)"

definition held_rows :: "data_export \<Rightarrow> dict list" where
  "held_rows e = filter (\<lambda>r. dget r ''status'' = Some (JStr ''held'')) (xp_holds e)"

definition due_rows :: "data_export \<Rightarrow> dict list" where
  "due_rows e = filter (\<lambda>r. dget r ''settled_at'' = Some JNull) (xp_debts e)"

lemma column_map [simp]: "column k (map f xs) = (\<Sum>x\<leftarrow>xs. case dint (f x) k of Some n \<Rightarrow> n | None \<Rightarrow> 0)"
  by (simp add: column_def comp_def)

lemma column_rev [simp]: "column k (rev xs) = column k xs"
  by (simp add: column_def rev_map[symmetric])

lemma exported_figures [simp]:
  "dint (exported_txn t) ''credits_delta'' = Some (txn_delta t)"
  "dint (exported_lot c l) ''credits_remaining'' = Some (lot_remaining l)"
  "dint (exported_hold c h) ''credits'' = Some (hold_credits h)"
  "dget (exported_hold c h) ''status'' = Some (JStr (hold_status_value (hold_status h)))"
  "dint (exported_debt c x) ''credits_outstanding'' = Some (debt_outstanding x)"
  "dget (exported_debt c x) ''settled_at'' = Some (or_null JTime (debt_settled x))"
  by (simp_all add: exported_txn_def exported_lot_def exported_hold_def exported_debt_def dint_def dget_def)

lemma held_text [simp]: "hold_status_value s = ''held'' \<longleftrightarrow> s = HELD"
  by (cases s) simp_all

lemma or_null_null [simp]: "or_null JTime v = JNull \<longleftrightarrow> v = None"
  by (cases v) (simp_all add: or_null_def)

text \<open>
  The export of an account that exists: its ledger column adds up to what its lots hold and its held
  reservations keep; its unsettled debts to what is owed.
\<close>

theorem export_balances:
  assumes "inv d" and "wallet_of_user d u = Some x"
  shows "column ''credits_delta'' (xp_transactions (export created u d)) =
      column ''credits_remaining'' (xp_lots (export created u d)) + column ''credits'' (held_rows (export created u d))"
    and "column ''credits'' (held_rows (export created u d)) = ac_held (user_account d u now)"
    and "column ''credits_outstanding'' (due_rows (export created u d)) = ac_owed (user_account d u now)"
proof -
  let ?w = "w_id x"
  have h: "column ''credits'' (held_rows (export created u d)) = reserved d ?w"
  proof -
    have "held_rows (export created u d) = map (exported_hold created) (open_holds d ?w)"
      by (simp add: held_rows_def export_def assms(2) filter_map comp_def open_holds_def rev_filter conj_commute)
    then show ?thesis using open_holds_sum[of d ?w] assms(1) by (simp add: inv_def)
  qed
  have "column ''credits_delta'' (xp_transactions (export created u d)) = ledger_total d ?w"
    by (simp add: export_def assms(2) ledger_total_def rev_map[symmetric] sum_list_map_filter')
  moreover have "column ''credits_remaining'' (xp_lots (export created u d)) = lot_total d ?w"
    by (simp add: export_def assms(2) lot_total_def lot_sum_def in_wallet_def wallet_lots_def sum_list_map_filter')
  ultimately show "column ''credits_delta'' (xp_transactions (export created u d)) =
      column ''credits_remaining'' (xp_lots (export created u d)) + column ''credits'' (held_rows (export created u d))"
    using assms(1) h by (simp add: inv_def balanced_def)
  show "column ''credits'' (held_rows (export created u d)) = ac_held (user_account d u now)"
    by (simp add: h user_account_def assms(2) account_of_def)
  have "(\<Sum>y\<leftarrow>debts d. if debt_wallet y = ?w \<and> debt_settled y = None then debt_outstanding y else 0) =
      (\<Sum>y\<leftarrow>debts d. if debt_wallet y = ?w \<and> debt_settled y = None \<and> 0 < debt_outstanding y then debt_outstanding y else 0)"
  proof (intro arg_cong[where f = sum_list] map_cong refl)
    fix y assume "y \<in> set (debts d)"
    then have "0 \<le> debt_outstanding y" using assms(1) by (auto simp: inv_def wf_db_def debts_ok_def)
    then show "(if debt_wallet y = ?w \<and> debt_settled y = None then debt_outstanding y else 0) =
        (if debt_wallet y = ?w \<and> debt_settled y = None \<and> 0 < debt_outstanding y then debt_outstanding y else 0)" by simp
  qed
  then show "column ''credits_outstanding'' (due_rows (export created u d)) = ac_owed (user_account d u now)"
    by (simp add: due_rows_def export_def assms(2) filter_map comp_def user_account_def account_of_def outstanding_debt_def
        open_debts_def sum_list_map_filter' conj_commute)
qed

text \<open>Nothing of an erased subject is left to export.\<close>

theorem erased_exports_nothing:
  assumes "u \<noteq> []" and "erase_subject digest ''account'' (Some u) d = (c, d')"
  shows "export created u d' =
    \<lparr>xp_wallet = [], xp_lots = [], xp_holds = [], xp_debts = [], xp_transactions = [], xp_subscription = []\<rparr>"
proof -
  note f = erase_fields[OF assms]
  have "wallet_of_user d' u = None" "sub_of_user d' u = None"
    by (auto simp: wallet_of_user_def sub_of_user_def find_None_iff f(1,2) erased_wallet_def erased_subscription_def)
  then show ?thesis by (simp add: export_def)
qed

text \<open>Everybody else is given what they were given before: the erasure reads and writes no row of theirs.\<close>

lemma scrub_others:
  assumes "\<And>r. mine r \<Longrightarrow> \<not> Q r" and "\<And>r. Q (wipe r) = Q r"
  shows "filter Q (snd (scrub_free_text mine clean wipe rows)) = filter Q rows"
  using assms by (induction rows) (auto simp: scrub_free_text_def)

lemma find_kept:
  assumes "\<And>x. P (f x) \<longleftrightarrow> P x" and "\<And>x. P x \<Longrightarrow> f x = x"
  shows "find P (map f xs) = find P xs"
  using assms by (induction xs) auto

theorem others_export_stands:
  assumes "inv d" and "u \<noteq> []" and "v \<noteq> u" and "erase_subject digest ''account'' (Some u) d = (c, d')"
  shows "export created v d' = export created v d"
proof -
  note f = erase_fields[OF assms(2,4)]
  have w: "wallet_of_user d' v = wallet_of_user d v"
    unfolding wallet_of_user_def f(1) using assms(3) by (intro find_kept) (auto simp: erased_wallet_def)
  have s: "sub_of_user d' v = sub_of_user d v"
    unfolding sub_of_user_def f(2) using assms(3) by (intro find_kept) (auto simp: erased_subscription_def)
  show ?thesis
  proof (cases "wallet_of_user d v")
    case (Some x)
    have n: "w_id x \<notin> set (subject_wallets u d)"
    proof
      assume "w_id x \<in> set (subject_wallets u d)"
      then obtain y where y: "y \<in> set (wallets d)" "w_user y = Some u" "w_id y = w_id x" by (auto simp: subject_wallets_def)
      from wallet_of_user_Some[OF Some] have x: "x \<in> set (wallets d)" "w_user x = Some v" by simp_all
      have "y = x" using assms(1) y(1,3) x(1) by (auto simp: inv_def wf_db_def wallets_ok_def distinct_map inj_on_def)
      with x y assms(3) show False by simp
    qed
    have "filter (\<lambda>t. txn_wallet t = w_id x) (txns d') = filter (\<lambda>t. txn_wallet t = w_id x) (txns d)"
      "filter (\<lambda>h. hold_wallet h = w_id x) (holds d') = filter (\<lambda>h. hold_wallet h = w_id x) (holds d)"
      "filter (\<lambda>y. debt_wallet y = w_id x) (debts d') = filter (\<lambda>y. debt_wallet y = w_id x) (debts d)"
      unfolding f(3-5) scrub_txns_def scrub_holds_def scrub_debts_def using n by (intro scrub_others; auto)+
    then show ?thesis by (simp add: export_def w s Some wallet_lots_def f(7))
  qed (simp add: export_def w s)
qed

end
