(* ===== verification/Staff.thy ===== *)
theory Staff
  imports Comps Event_Log
begin

section \<open>What staff can do (admin.py, management/commands)\<close>

text \<open>
  Two actions of the admin and four commands: the same services, called by a person. What a form
  says, what a command prints and what the admin's log keeps are data here; how a row or an instant
  is spelled in them is not. A form's fields are texts, the rows ticked are the list they select. An
  admin action is not one transaction: each call of a service is, so what went before a raise stays.
\<close>

record admin_request =
  aq_username :: string
  aq_user_id :: string
  aq_perms :: "string list"
  aq_post :: "(string \<times> string) list"

definition posted :: "admin_request \<Rightarrow> string \<Rightarrow> string" where
  "posted q key = strip (case map_of (aq_post q) key of Some s \<Rightarrow> s | None \<Rightarrow> [])"

subsection \<open>Granting credits from the wallet list\<close>

definition MAX_WALLETS_PER_GRANT :: nat where "MAX_WALLETS_PER_GRANT = 25"

datatype grant_message =
    NotPositive
  | NoReason
  | SelectAllRefused
  | TooManyWallets
  | NoOwner uuid
  | GrantRefused uuid
  | AlreadyGranted uuid uuid int
  | BalanceNow uuid int uuid
  | GrantedTo nat
  | NothingGranted nat

text \<open>An entry of the admin's own log: the wallet, the credits, the reason, the ledger row, the balance.\<close>

record grant_entry =
  ge_wallet :: uuid
  ge_credits :: int
  ge_reason :: string
  ge_txn :: uuid
  ge_balance :: int

record grant_run =
  gn_said :: "grant_message list"
  gn_logged :: "grant_entry list"
  gn_raised :: "error option"

text \<open>A missing field, like one that is not a number, counts as nothing to grant.\<close>

definition posted_credits :: "admin_request \<Rightarrow> int" where
  "posted_credits q =
     (case Option.bind (map_of (aq_post q) ''grant_credits'') py_int of Some n \<Rightarrow> n | None \<Rightarrow> 0)"

definition acting :: "admin_request \<Rightarrow> string" where
  "acting q = (if aq_username q \<noteq> [] then aq_username q else if aq_user_id q \<noteq> [] then aq_user_id q else ''admin'')"

definition form_key :: "string \<Rightarrow> uuid \<Rightarrow> string" where
  "form_key token w = (if token = [] then [] else token @ '':'' @ uuid_str w)"

definition has_grant_credits_permission :: "admin_request \<Rightarrow> bool" where
  "has_grant_credits_permission q = (''billing.grant_credits'' \<in> set (aq_perms q))"

text \<open>One row per wallet; a row older than the submission is one an earlier submission wrote.\<close>

fun grant_each ::
    "settings \<Rightarrow> time \<Rightarrow> int \<Rightarrow> string \<Rightarrow> string \<Rightarrow> string \<Rightarrow> wallet list \<Rightarrow> db \<Rightarrow> grant_run \<times> db" where
  "grant_each cf now n reason actor token [] d = (\<lparr>gn_said = [], gn_logged = [], gn_raised = None\<rparr>, d)"
| "grant_each cf now n reason actor token (w # ws) d =
     (case w_user w of
        None \<Rightarrow>
          (let (r, d') = grant_each cf now n reason actor token ws d in (r\<lparr>gn_said := NoOwner (w_id w) # gn_said r\<rparr>, d'))
      | Some u \<Rightarrow>
          (case grant_credits cf now (find_user cf u) n reason actor (form_key token (w_id w)) Never [] d of
             Inl (ValueError e) \<Rightarrow>
               (let (r, d') = grant_each cf now n reason actor token ws d
                in (r\<lparr>gn_said := GrantRefused (w_id w) # gn_said r\<rparr>, d'))
           | Inl e \<Rightarrow> (\<lparr>gn_said = [], gn_logged = [], gn_raised = Some e\<rparr>, d)
           | Inr (t, d1) \<Rightarrow>
               (let (r, d') = grant_each cf now n reason actor token ws d1; balance = wallet_balance d1 (w_id w)
                in if txn_created t < now
                   then (r\<lparr>gn_said := AlreadyGranted (w_id w) (txn_id t) balance # gn_said r\<rparr>, d')
                   else (r\<lparr>gn_said := BalanceNow (w_id w) balance (txn_id t) # gn_said r,
                           gn_logged := \<lparr>ge_wallet = w_id w, ge_credits = n, ge_reason = reason, ge_txn = txn_id t,
                                         ge_balance = balance\<rparr> # gn_logged r\<rparr>, d'))))"

fun is_replay :: "grant_message \<Rightarrow> bool" where
  "is_replay (AlreadyGranted w t b) = True"
| "is_replay _ = False"

text \<open>The last line: what was granted, or, when nothing was and a resubmission was noticed, that.\<close>

definition summed_up :: "grant_run \<Rightarrow> grant_run" where
  "summed_up r =
     (let granted = length (gn_logged r); replayed = length (filter is_replay (gn_said r))
      in if gn_raised r \<noteq> None then r
         else if 0 < granted then r\<lparr>gn_said := gn_said r @ [GrantedTo granted]\<rparr>
         else if 0 < replayed then r\<lparr>gn_said := gn_said r @ [NothingGranted replayed]\<rparr>
         else r)"

definition refused :: "grant_message \<Rightarrow> grant_run" where
  "refused m = \<lparr>gn_said = [m], gn_logged = [], gn_raised = None\<rparr>"

definition grant_credits_action ::
    "settings \<Rightarrow> time \<Rightarrow> admin_request \<Rightarrow> wallet list \<Rightarrow> db \<Rightarrow> grant_run \<times> db" where
  "grant_credits_action cf now q selected d =
     (let n = posted_credits q; reason = posted q ''grant_reason''
      in if \<not> has_grant_credits_permission q then (\<lparr>gn_said = [], gn_logged = [], gn_raised = None\<rparr>, d)
         else if n \<le> 0 then (refused NotPositive, d)
         else if reason = [] then (refused NoReason, d)
         else if map_of (aq_post q) ''select_across'' \<in> {Some ''1'', Some ''true'', Some ''True''}
         then (refused SelectAllRefused, d)
         else if MAX_WALLETS_PER_GRANT < length selected then (refused TooManyWallets, d)
         else (let (r, d') = grant_each cf now n reason (acting q) (posted q ''grant_token'') selected d
               in (summed_up r, d')))"

subsection \<open>Complimentary time from the subscription list\<close>

datatype extend_message =
    NoDays
  | NoExtendReason
  | ExtendRefused uuid
  | ExtendedUntil uuid string time uuid
  | ExtendedCount nat

record extend_entry =
  ee_subscription :: uuid
  ee_comp :: uuid
  ee_days :: int
  ee_plan :: string
  ee_ends :: time
  ee_reason :: string

record extend_run =
  en_said :: "extend_message list"
  en_logged :: "extend_entry list"
  en_raised :: "error option"

definition has_extend_subscription_permission :: "admin_request \<Rightarrow> bool" where
  "has_extend_subscription_permission q = (''billing.extend_subscription'' \<in> set (aq_perms q))"

text \<open>The days are read inside the \<open>try\<close>: a text that is no number refuses each row.\<close>

definition extend_row ::
    "settings \<Rightarrow> time \<Rightarrow> string \<Rightarrow> string \<Rightarrow> string \<Rightarrow> bool \<Rightarrow> subscription \<Rightarrow> db \<Rightarrow> error + comp_period_preview \<times> db" where
  "extend_row cf now days reason actor stack s d =
     (case py_int days of
        None \<Rightarrow> Inl (ValueError ''invalid literal for int'')
      | Some n \<Rightarrow>
          extend_subscription cf now
            \<lparr>ex_days = Some n, ex_reason = reason, ex_actor = actor, ex_plan = [], ex_until = None, ex_starts = None,
             ex_stack = stack, ex_bundle = False, ex_apply = True\<rparr> s d)"

fun extend_each ::
    "settings \<Rightarrow> time \<Rightarrow> string \<Rightarrow> string \<Rightarrow> string \<Rightarrow> bool \<Rightarrow> subscription list \<Rightarrow> db \<Rightarrow> extend_run \<times> db" where
  "extend_each cf now days reason actor stack [] d = (\<lparr>en_said = [], en_logged = [], en_raised = None\<rparr>, d)"
| "extend_each cf now days reason actor stack (s # ss) d =
     (case extend_row cf now days reason actor stack s d of
        Inl (ValueError e) \<Rightarrow>
          (let (r, d') = extend_each cf now days reason actor stack ss d
           in (r\<lparr>en_said := ExtendRefused (sub_id s) # en_said r\<rparr>, d'))
      | Inl e \<Rightarrow> (\<lparr>en_said = [], en_logged = [], en_raised = Some e\<rparr>, d)
      | Inr (p, d1) \<Rightarrow>
          (let (r, d') = extend_each cf now days reason actor stack ss d1;
               comp = (case cv_comp p of Some c \<Rightarrow> c | None \<Rightarrow> 0)
           in (r\<lparr>en_said := ExtendedUntil (sub_id s) (cv_plan p) (cv_ends p) comp # en_said r,
                 en_logged := \<lparr>ee_subscription = sub_id s, ee_comp = comp, ee_days = cv_days p, ee_plan = cv_plan p,
                               ee_ends = cv_ends p, ee_reason = reason\<rparr> # en_logged r\<rparr>, d')))"

definition extend_subscription_action ::
    "settings \<Rightarrow> time \<Rightarrow> admin_request \<Rightarrow> subscription list \<Rightarrow> db \<Rightarrow> extend_run \<times> db" where
  "extend_subscription_action cf now q selected d =
     (let days = (case map_of (aq_post q) ''extend_days'' of Some s \<Rightarrow> s | None \<Rightarrow> []); reason = posted q ''extend_reason'';
          stack = (case map_of (aq_post q) ''extend_stack'' of Some s \<Rightarrow> s \<noteq> [] | None \<Rightarrow> False)
      in if \<not> has_extend_subscription_permission q then (\<lparr>en_said = [], en_logged = [], en_raised = None\<rparr>, d)
         else if days = [] then (\<lparr>en_said = [NoDays], en_logged = [], en_raised = None\<rparr>, d)
         else if reason = [] then (\<lparr>en_said = [NoExtendReason], en_logged = [], en_raised = None\<rparr>, d)
         else (let (r, d') = extend_each cf now days reason (aq_username q) stack selected d; n = length (en_logged r)
               in (if en_raised r = None \<and> 0 < n then r\<lparr>en_said := en_said r @ [ExtendedCount n]\<rparr> else r, d')))"

end
