(* ===== verification/Commands.thy ===== *)
theory Commands
  imports Staff
begin

section \<open>The management commands (management/commands)\<close>

text \<open>
  A command reads its options, calls a service and says what happened. \<open>Refusal\<close> is the framework's
  \<open>CommandError\<close>, \<open>Raised\<close> an exception nothing catches, both a failing exit; a command that finishes
  may still exit with an error. The reader of \<open>--until\<close> (with the deployment's time zone) and the
  name of the shell user are arguments.
\<close>

datatype refusal =
    CreditsNotPositive
  | ReasonEmpty
  | ActorEmpty
  | AmbiguousAccount
  | NoAccount
  | ServiceRefused string
  | NoSubscriptionRow
  | UnknownProviderId
  | NoPeriodEnd
  | PeriodOver
  | NotADatetime
  | NothingSelected

datatype 'a command = Refusal refusal | Raised error | Done 'a

subsection \<open>billing\_grant\_credits\<close>

record grant_options =
  go_account :: string
  go_credits :: int
  go_reason :: string
  go_actor :: string
  go_key :: string
  go_dry_run :: bool

record grant_report =
  gr_wallet :: uuid
  gr_txn :: "txn option"
  gr_before :: int
  gr_after :: int
  gr_replayed :: bool

definition run_grant :: "settings \<Rightarrow> time \<Rightarrow> grant_options \<Rightarrow> db \<Rightarrow> grant_report command \<times> db" where
  "run_grant cf now op d =
     (if go_credits op \<le> 0 then (Refusal CreditsNotPositive, d)
      else if strip (go_reason op) = [] then (Refusal ReasonEmpty, d)
      else if strip (go_actor op) = [] then (Refusal ActorEmpty, d)
      else case resolve_account cf (go_account op) of
             Inl AmbiguousAccountError \<Rightarrow> (Refusal AmbiguousAccount, d)
           | Inl AccountNotFoundError \<Rightarrow> (Refusal NoAccount, d)
           | Inl e \<Rightarrow> (Raised e, d)
           | Inr user \<Rightarrow>
               (let (w, d0) = get_or_create_wallet (u_id user) d; before = wallet_balance d0 w
                in if go_dry_run op
                   then (Done \<lparr>gr_wallet = w, gr_txn = None, gr_before = before, gr_after = before + go_credits op,
                               gr_replayed = False\<rparr>, d0)
                   else case grant_credits cf now (Some user) (go_credits op) (go_reason op) (go_actor op) (go_key op)
                               Never [] d0 of
                          Inl (ValueError e) \<Rightarrow> (Refusal (ServiceRefused e), d0)
                        | Inl e \<Rightarrow> (Raised e, d0)
                        | Inr (t, d1) \<Rightarrow>
                            (Done \<lparr>gr_wallet = w, gr_txn = Some t, gr_before = before, gr_after = wallet_balance d1 w,
                                   gr_replayed = txn_created t < now\<rparr>, d1)))"

subsection \<open>billing\_extend\_subscription\<close>

text \<open>Exactly one of user and subscription, and one of the three lengths, is given: the parser sees to it.\<close>

record extend_options =
  eo_user :: "string option"
  eo_subscription :: "string option"
  eo_days :: "int option"
  eo_until :: "string option"
  eo_until_period_end :: bool
  eo_reason :: string
  eo_plan :: "string option"
  eo_actor :: "string option"
  eo_bundle :: bool
  eo_stack :: bool
  eo_apply :: bool

definition extended_subscription :: "extend_options \<Rightarrow> db \<Rightarrow> refusal + subscription" where
  "extended_subscription op d =
     (if \<not> unset (eo_user op)
      then (case sub_of_user d (the (eo_user op)) of None \<Rightarrow> Inl NoSubscriptionRow | Some s \<Rightarrow> Inr s)
      else (case find (\<lambda>s. sub_stripe_id s = eo_subscription op) (subs d) of None \<Rightarrow> Inl UnknownProviderId | Some s \<Rightarrow> Inr s))"

definition window_end ::
    "(string \<Rightarrow> error + time option) \<Rightarrow> time \<Rightarrow> extend_options \<Rightarrow> subscription \<Rightarrow> (refusal + error) + time option" where
  "window_end parse_datetime now op s =
     (if eo_until_period_end op
      then (case sub_period_end s of
              None \<Rightarrow> Inl (Inl NoPeriodEnd)
            | Some e \<Rightarrow> if e \<le> now then Inl (Inl PeriodOver) else Inr (Some e))
      else if unset (eo_until op) then Inr None
      else (case parse_datetime (the (eo_until op)) of
              Inl e \<Rightarrow> Inl (Inr e)
            | Inr None \<Rightarrow> Inl (Inl NotADatetime)
            | Inr (Some t) \<Rightarrow> Inr (Some t)))"

datatype extend_line =
    TimeUntil bool string uuid time
  | TimeDays bool int string uuid
  | Window time time
  | Upgrade string string
  | BundleCredits string "int option" "string option" "int option" int "time option"
  | NoCredits "bundle_note option"
  | Because string
  | GivenBy string
  | StackedOn uuid
  | Written uuid
  | DryRun

definition extend_head :: "time option \<Rightarrow> comp_period_preview \<Rightarrow> extend_line" where
  "extend_head until p =
     (if until \<noteq> None then TimeUntil (cv_applied p) (cv_plan p) (cv_subscription p) (cv_ends p)
      else TimeDays (cv_applied p) (cv_days p) (cv_plan p) (cv_subscription p))"

definition extend_body :: "bool \<Rightarrow> comp_period_preview \<Rightarrow> extend_line list" where
  "extend_body asked_bundle p =
     [Window (cv_starts p) (cv_ends p)]
     @ (case cv_upgrade_from p of Some b \<Rightarrow> if b = [] then [] else [Upgrade b (cv_plan p)] | None \<Rightarrow> [])
     @ (if \<not> asked_bundle then []
        else case cv_bundle_credits p of
               Some n \<Rightarrow>
                 if n = 0 then [NoCredits (cv_note p)]
                 else [BundleCredits (cv_plan p) (cv_plan_credits p) (cv_baseline_plan p) (cv_baseline_credits p) n
                         (cv_bundle_expires p)]
             | None \<Rightarrow> [NoCredits (cv_note p)])
     @ [Because (cv_reason p), GivenBy (cv_granted_by p)]
     @ (case cv_stacked_on p of Some c \<Rightarrow> [StackedOn c] | None \<Rightarrow> [])"

definition extend_lines :: "bool \<Rightarrow> time option \<Rightarrow> comp_period_preview \<Rightarrow> extend_line list" where
  "extend_lines asked_bundle until p =
     extend_head until p # extend_body asked_bundle p
     @ [(case cv_comp p of Some c \<Rightarrow> if cv_applied p then Written c else DryRun | None \<Rightarrow> DryRun)]"

definition run_extend ::
    "settings \<Rightarrow> (string \<Rightarrow> error + time option) \<Rightarrow> string \<Rightarrow> time \<Rightarrow> extend_options \<Rightarrow> db \<Rightarrow> extend_line list command \<times> db" where
  "run_extend cf parse_datetime shell_user now op d =
     (case extended_subscription op d of
        Inl r \<Rightarrow> (Refusal r, d)
      | Inr s \<Rightarrow>
          (case window_end parse_datetime now op s of
             Inl (Inl r) \<Rightarrow> (Refusal r, d)
           | Inl (Inr e) \<Rightarrow> (Raised e, d)
           | Inr until \<Rightarrow>
               (case extend_subscription cf now
                       \<lparr>ex_days = eo_days op, ex_reason = eo_reason op,
                        ex_actor = (if unset (eo_actor op) then shell_user else the (eo_actor op)),
                        ex_plan = (case eo_plan op of Some p \<Rightarrow> p | None \<Rightarrow> []), ex_until = until, ex_starts = None,
                        ex_stack = eo_stack op, ex_bundle = eo_bundle op, ex_apply = eo_apply op\<rparr> s d of
                  Inl (ValueError e) \<Rightarrow> (Refusal (ServiceRefused e), d)
                | Inl e \<Rightarrow> (Raised e, d)
                | Inr (p, d') \<Rightarrow> (Done (extend_lines (eo_bundle op) until p), d'))))"

subsection \<open>billing\_reconcile\_subscriptions\<close>

datatype row_line =
    Unreadable string string string
  | Gone string string
  | InOrder string string
  | Drifted bool string string "(string \<times> json \<times> json) list"

definition row_line :: "bool \<Rightarrow> subscription_reconciliation \<Rightarrow> row_line" where
  "row_line dry_run r =
     (let sid = rc_stripe_id r; row = rc_subscription r
      in case rc_error r of
           Some e \<Rightarrow> if e = [] then (if rc_missing r then Gone sid row else InOrder sid row) else Unreadable sid row e
         | None \<Rightarrow>
             if rc_missing r then Gone sid row
             else if rc_changed r = [] then InOrder sid row
             else Drifted dry_run sid row
                    (map (\<lambda>f. (f, get_json (rc_before r) f, get_json (rc_after r) f)) (rc_changed r)))"

fun failed_line :: "row_line \<Rightarrow> bool" where
  "failed_line (Unreadable s r e) = True"
| "failed_line _ = False"

fun gone_line :: "row_line \<Rightarrow> bool" where
  "gone_line (Gone s r) = True"
| "gone_line _ = False"

fun drifted_line :: "row_line \<Rightarrow> bool" where
  "drifted_line (Drifted b s r cs) = True"
| "drifted_line _ = False"

text \<open>The lines, the four numbers of the summary, and whether the exit reports an error. A report that
  examined nothing stands for the one line that says so.\<close>

record reconcile_report =
  rr_lines :: "row_line list"
  rr_examined :: nat
  rr_changed :: nat
  rr_missing :: nat
  rr_failed :: nat
  rr_exit_error :: bool

definition reconcile_report_of :: "bool \<Rightarrow> subscription_reconciliation list \<Rightarrow> reconcile_report" where
  "reconcile_report_of dry_run results =
     (let ls = map (row_line dry_run) results; failed = length (filter failed_line ls)
      in \<lparr>rr_lines = ls, rr_examined = length results, rr_changed = length (filter drifted_line ls),
          rr_missing = length (filter gone_line ls), rr_failed = failed, rr_exit_error = (0 < failed)\<rparr>)"

definition run_reconcile ::
    "bool \<Rightarrow> string list \<Rightarrow> time \<Rightarrow> (string \<Rightarrow> string + dict option) \<Rightarrow> db \<Rightarrow> reconcile_report command \<times> db" where
  "run_reconcile dry_run ids now fetch d =
     (let (results, d') = reconcile_subscriptions dry_run ids now fetch d in (Done (reconcile_report_of dry_run results), d'))"

subsection \<open>billing\_replay\_webhook\_events\<close>

datatype event_line =
    FailedAgain string string time string
  | AlreadyProcessed string string time
  | IgnoredStale string string time
  | WouldReplay string string time string
  | Processed string string time string

definition event_line :: "bool \<Rightarrow> replayed_event \<Rightarrow> event_line" where
  "event_line dry_run r =
     (let i = re_stripe_id r; ty = re_type r; at = re_received r; prev = re_previous_error r
      in if re_outcome r = ''error'' then FailedAgain i ty at (case re_error r of Some e \<Rightarrow> e | None \<Rightarrow> [])
         else if re_outcome r = EVENT_DUPLICATE then AlreadyProcessed i ty at
         else if re_outcome r = EVENT_IGNORED_STALE then IgnoredStale i ty at
         else if dry_run then WouldReplay i ty at prev
         else Processed i ty at prev)"

text \<open>Likewise, a report without lines stands for the line that no event matched.\<close>

record replay_report =
  rp_lines :: "event_line list"
  rp_counts :: "(string \<times> nat) list"
  rp_exit_error :: bool

definition count_outcome :: "replayed_event \<Rightarrow> (string \<times> nat) list \<Rightarrow> (string \<times> nat) list" where
  "count_outcome r counts =
     AList.update (re_outcome r) (Suc (case map_of counts (re_outcome r) of Some k \<Rightarrow> k | None \<Rightarrow> 0)) counts"

definition replay_report_of :: "bool \<Rightarrow> replayed_event list \<Rightarrow> replay_report" where
  "replay_report_of dry_run results =
     (let counts = fold count_outcome results []
      in \<lparr>rp_lines = map (event_line dry_run) results, rp_counts = counts,
          rp_exit_error = (case map_of counts ''error'' of Some k \<Rightarrow> 0 < k | None \<Rightarrow> False)\<rparr>)"

definition run_replay ::
    "(string \<Rightarrow> error + handler option) \<Rightarrow> (error \<Rightarrow> string) \<Rightarrow> settings \<Rightarrow> time \<Rightarrow> string list \<Rightarrow> bool \<Rightarrow> bool \<Rightarrow> db
     \<Rightarrow> replay_report command \<times> db" where
  "run_replay lookup text cf now ids unprocessed dry_run d =
     (if ids = [] \<and> \<not> unprocessed then (Refusal NothingSelected, d)
      else let (results, d') = replay_webhook_events lookup text cf now ids unprocessed dry_run d
           in (Done (replay_report_of dry_run results), d'))"

end
