(* ===== verification/Event_Claims.thy ===== *)
theory Event_Claims
  imports Event_Facts Subscription_Claims
begin

section \<open>Properties of the event log\<close>

text \<open>
  An event takes effect at most once over deliveries and replays together, and an event whose
  handler raised takes no effect, stays in the log, and is the same event when it is run again.
\<close>

text \<open>C39: an event commits at most once. However its deliveries and the replays of the log are mixed,
  whatever the handlers answer, raise or find stale, whatever the settings were at each attempt, and
  however often the same id arrives with whatever body: at most one delivery is answered ok or one
  replay runs it, never both, and an event that is already processed is never run.\<close>

theorem event_commits_once:
  assumes "log_ok d"
  shows "commits builtin_lookup text i ts d \<le> (if committed i d then 0 else 1)"
  using shipped.commits_room[OF assms] by (simp add: room_def)

definition subscription_updated :: dict where
  "subscription_updated =
     [(''id'', JStr ''evt_1''), (''type'', JStr ''customer.subscription.updated'')] @ sub_event 100 ''past_due''"

theorem event_commits_once_witness:
  "commits builtin_lookup (\<lambda>_. ''error'') ''evt_1''
     [Delivered cf0 10 (Inr subscription_updated), Replayed cf0 11 [''evt_1''] True, Delivered cf0 12 (Inr subscription_updated)]
     d_subscribed = 1"
proof -
  let ?ts = "[Delivered cf0 10 (Inr subscription_updated), Replayed cf0 11 [''evt_1''] True,
    Delivered cf0 12 (Inr subscription_updated)]"
  have "log_ok d_subscribed" by (simp add: log_ok_def d_subscribed_def empty_db_def)
  from event_commits_once[OF this, of "\<lambda>_. ''error''" "''evt_1''" ?ts]
  have "commits builtin_lookup (\<lambda>_. ''error'') ''evt_1'' ?ts d_subscribed \<le> 1" by (simp split: if_splits)
  moreover have "1 \<le> commits builtin_lookup (\<lambda>_. ''error'') ''evt_1'' ?ts d_subscribed" by code_simp
  ultimately show ?thesis by simp
qed

text \<open>C40: a failed delivery is not lost. When the handler of a new event raises, nothing but the log has moved;
  the log holds the event as it came, unprocessed and with the error; every replay of what is unprocessed
  picks it up; and from there a replay of the stored row does exactly what another delivery of the event
  would do, under whatever settings it is then run.\<close>

theorem failed_delivery_recoverable:
  assumes "log_ok d" and "id_text (dget event ''id'') = Some i" and "id_text (dget event ''type'') = Some ty"
    and "event_by_stripe_id i d = None"
    and "stripe_webhook_post builtin_lookup text cf now (Inr event) d = (a, d')" and "ha_status a = 500"
  shows "d'\<lparr>events := events d, next_id := next_id d\<rparr> = d \<and>
    (\<exists>e. event_by_stripe_id i d' = Some e \<and> ev_payload e = event \<and> ev_type e = ty \<and> ev_processed e = None \<and>
       e \<in> set (replayable_events [] True d')) \<and>
    snd (replay_webhook_events builtin_lookup text cf' later [i] False False d') =
      snd (stripe_webhook_post builtin_lookup text cf' later (Inr event) d')"
proof -
  define e0 where "e0 = new_event now i ty event d"
  define d1 where "d1 = d\<lparr>events := events d @ [e0], next_id := Suc (next_id d)\<rparr>"
  have l: "log_event now i ty event d = (e0, d1)" using assms(4) by (simp add: log_event_def e0_def d1_def Let_def)
  note f = log_event_facts[OF assms(1) l]
  have e0: "ev_id e0 = next_id d" "ev_stripe_id e0 = i" "ev_type e0 = ty" "ev_payload e0 = event" "ev_processed e0 = None"
    by (simp_all add: e0_def new_event_def)
  note body = assms(5)[unfolded stripe_webhook_post_def sum.case assms(2,3) option.case prod.case l Let_def]
  obtain x where x: "apply_stored_event builtin_lookup cf now (ev_id e0) (Some event) d1 = Inl x"
    using body e0(5) assms(6) by (auto split: sum.splits)
  have d': "d' = record_error text (ev_id e0) x d1" using body e0(5) x by simp
  define e where "e = e0\<lparr>ev_error := text x\<rparr>"
  have fresh: "next_id d \<notin> ev_id ` set (events d)" using assms(1) by (auto simp: log_ok_def)
  have ev: "events d' = events d @ [e]"
    unfolding d' record_error_def upd_event_events using fresh
    by (simp add: d1_def e_def e0(1) upd_row_fresh)
  have same: "d'\<lparr>events := events d, next_id := next_id d\<rparr> = d"
    by (simp add: d' record_error_def upd_event_def d1_def)
  have found: "event_by_stripe_id i d' = Some e"
    using assms(4) by (simp add: event_by_stripe_id_def ev find_append e_def e0)
  have mem: "e \<in> set (replayable_events [] True d')" by (simp add: replayable_events_def ev e_def e0)
  have "ev_stripe_id r \<noteq> i" if "r \<in> set (events d)" for r
    using assms(4) that by (auto simp: event_by_stripe_id_def find_None_iff)
  then have rows: "replayable_events [i] False d' = [e]"
    by (simp add: replayable_events_def ev e_def e0 filter_empty_conv)
  have row: "get_row ev_id (ev_id e) (events d') = Some e"
  proof -
    have "find (\<lambda>r. ev_id r = next_id d) (events d) = None" using fresh by (force simp: find_None_iff)
    then show ?thesis by (simp add: get_row_def ev find_append e_def e0)
  qed
  have dup: "apply_stored_event builtin_lookup cf' later (ev_id e) None d' = apply_stored_event builtin_lookup cf' later (ev_id e) (Some event) d'"
    using row by (simp add: apply_stored_event_def e_def e0)
  have p0: "ev_processed e = None" by (simp add: e_def e0)
  have log: "log_event later i ty event d' = (e, d')" using found by (simp add: log_event_def)
  have "snd (replay_webhook_events builtin_lookup text cf' later [i] False False d') =
      snd (stripe_webhook_post builtin_lookup text cf' later (Inr event) d')"
    unfolding replay_webhook_events_def rows stripe_webhook_post_def sum.case assms(2,3) option.case prod.case log Let_def
    by (simp add: replay_one_def dup p0 Let_def split: sum.split prod.split)
  with same found mem show ?thesis by (simp add: e_def e0)
qed

definition declined_charge :: dict where
  "declined_charge =
     [(''id'', JStr ''evt_2''), (''type'', JStr ''charge.failed''),
      (''data'', JObj [(''object'', JObj [(''subscription'', JStr ''sub_1''), (''amount'', JStr ''x'')])])]"

theorem failed_delivery_recoverable_witness:
  "let (a, d') = stripe_webhook_post builtin_lookup (\<lambda>_. ''error'') cf0 10 (Inr declined_charge) d_subscribed
   in ha_status a = 500 \<and> subs d' = subs d_subscribed \<and>
      (\<exists>e. event_by_stripe_id ''evt_2'' d' = Some e \<and> ev_processed e = None \<and> ev_payload e = declined_charge)"
proof -
  obtain a d' where p: "stripe_webhook_post builtin_lookup (\<lambda>_. ''error'') cf0 10 (Inr declined_charge) d_subscribed = (a, d')"
    by (rule prod.exhaust)
  have "log_ok d_subscribed" by (simp add: log_ok_def d_subscribed_def empty_db_def)
  note f = failed_delivery_recoverable[OF this _ _ _ p, where i = "''evt_2''" and ty = "''charge.failed''"]
  have c: "id_text (dget declined_charge ''id'') = Some ''evt_2''" "id_text (dget declined_charge ''type'') = Some ''charge.failed''"
    "event_by_stripe_id ''evt_2'' d_subscribed = None"
    "ha_status (fst (stripe_webhook_post builtin_lookup (\<lambda>_. ''error'') cf0 10 (Inr declined_charge) d_subscribed)) = 500"
    by code_simp+
  with p have a: "ha_status a = 500" by simp
  from f[OF c(1-3) a] have "subs (d'\<lparr>events := events d_subscribed, next_id := next_id d_subscribed\<rparr>) = subs d_subscribed"
    and "\<exists>e. event_by_stripe_id ''evt_2'' d' = Some e \<and> ev_processed e = None \<and> ev_payload e = declined_charge" by auto
  with p a show ?thesis by simp
qed

end
