(* ===== verification/Staff_Claims.thy ===== *)
theory Staff_Claims
  imports Commands Comp_Claims Event_Claims
begin

section \<open>What staff can do: properties\<close>

text \<open>
  A form that is sent twice grants once; a command that exits cleanly did what it says; what a dry
  run promises. A batch of calls each under its own key is a contract of its own, \<open>keyed_batch\<close>,
  interpreted on the manual grant.
\<close>

subsection \<open>A batch of keyed calls\<close>

fun run_batch :: "('k \<Rightarrow> 'd \<Rightarrow> 'e + 'a \<times> 'd) \<Rightarrow> 'k list \<Rightarrow> 'd \<Rightarrow> ('e + 'a list) \<times> 'd" where
  "run_batch act [] d = (Inr [], d)"
| "run_batch act (k # ks) d =
     (case act k d of
        Inl e \<Rightarrow> (Inl e, d)
      | Inr (a, d1) \<Rightarrow> (let (r, d2) = run_batch act ks d1 in (map_sum id (Cons a) r, d2)))"

lemma run_batch_ConsE:
  assumes "run_batch act (k # ks) d = (Inr as, d')"
  obtains a d1 bs where "act k d = Inr (a, d1)" "run_batch act ks d1 = (Inr bs, d')" "as = a # bs"
proof (cases "act k d")
  case (Inl e)
  with assms show ?thesis by simp
next
  case (Inr p)
  obtain a d1 where p: "p = (a, d1)" by (rule prod.exhaust)
  obtain r d2 where r: "run_batch act ks d1 = (r, d2)" by (rule prod.exhaust)
  with assms Inr p that[of a d1] show ?thesis by (cases r) auto
qed

text \<open>
  \<open>settled d k a\<close>: the call under \<open>k\<close> has been answered with \<open>a\<close>. A call settles its key, a settled
  key is answered again without a trace, and calls under other keys leave it settled.
\<close>

locale keyed_batch =
  fixes act :: "time \<Rightarrow> 'k \<Rightarrow> 'd \<Rightarrow> 'e + 'a \<times> 'd" and fine :: "'d \<Rightarrow> 'k \<Rightarrow> bool" and settled :: "'d \<Rightarrow> 'k \<Rightarrow> 'a \<Rightarrow> bool"
  assumes settles: "fine d k \<Longrightarrow> act now k d = Inr (a, d') \<Longrightarrow> settled d' k a"
    and again: "settled d k a \<Longrightarrow> act now k d = Inr (a, d)"
    and stays: "settled d k a \<Longrightarrow> fine d j \<Longrightarrow> act now j d = Inr (b, d') \<Longrightarrow> j \<noteq> k \<Longrightarrow> settled d' k a"
    and stays_fine: "fine d k \<Longrightarrow> fine d j \<Longrightarrow> act now j d = Inr (b, d') \<Longrightarrow> fine d' k"
begin

lemma settled_stays:
  assumes "run_batch (act now) ks d = (Inr as, d')" and "settled d k a" and "\<forall>j \<in> set ks. fine d j" and "k \<notin> set ks"
  shows "settled d' k a"
  using assms
proof (induction ks arbitrary: d as)
  case (Cons j js)
  obtain b d1 bs where one: "act now j d = Inr (b, d1)" and rest: "run_batch (act now) js d1 = (Inr bs, d')"
    by (rule run_batch_ConsE[OF Cons.prems(1)])
  have "settled d1 k a" using stays[OF Cons.prems(2) _ one] Cons.prems(3,4) by auto
  moreover have "\<forall>i \<in> set js. fine d1 i" using stays_fine[OF _ _ one] Cons.prems(3) by auto
  ultimately show ?case using Cons.IH[OF rest] Cons.prems(4) by auto
qed simp

lemma settles_all:
  assumes "run_batch (act now) ks d = (Inr as, d')" and "\<forall>k \<in> set ks. fine d k" and "distinct ks"
  shows "list_all2 (settled d') ks as"
  using assms
proof (induction ks arbitrary: d as)
  case (Cons k ks)
  obtain a d1 bs where one: "act now k d = Inr (a, d1)" and rest: "run_batch (act now) ks d1 = (Inr bs, d')"
    and as: "as = a # bs" by (rule run_batch_ConsE[OF Cons.prems(1)])
  have f: "\<forall>j \<in> set ks. fine d1 j" using stays_fine[OF _ _ one] Cons.prems(2) by auto
  have "settled d' k a" using settled_stays[OF rest settles[OF _ one] f] Cons.prems(2,3) by auto
  with Cons.IH[OF rest f] Cons.prems(3) show ?case by (simp add: as)
qed simp

text \<open>A batch run again is answered the same and leaves no trace.\<close>

lemma replays_all: "list_all2 (settled d) ks as \<Longrightarrow> run_batch (act now) ks d = (Inr as, d)"
  by (induction rule: list_all2_induct) (simp_all add: again)

lemma batch_once:
  assumes "run_batch (act now) ks d = (Inr as, d')" and "\<forall>k \<in> set ks. fine d k" and "distinct ks"
  shows "run_batch (act later) ks d' = (Inr as, d')"
  by (rule replays_all[OF settles_all[OF assms]])

end

subsection \<open>A credit writes rows of its wallet only\<close>

definition rows_of :: "uuid \<Rightarrow> db \<Rightarrow> db \<Rightarrow> bool" where
  "rows_of w d d' = (\<exists>ts. txns d' = txns d @ ts \<and> (\<forall>t \<in> set ts. txn_wallet t = w))"

lemma rows_of_trans [trans]: "rows_of w d d1 \<Longrightarrow> rows_of w d1 d' \<Longrightarrow> rows_of w d d'"
  unfolding rows_of_def by (metis append.assoc in_set_conv_decomp set_append Un_iff)

lemma rows_of_same: "txns d' = txns d \<Longrightarrow> rows_of w d d'"
  by (simp add: rows_of_def)

lemma rows_of_one: "txns d' = txns d @ [t] \<Longrightarrow> txn_wallet t = w \<Longrightarrow> rows_of w d d'"
  by (simp add: rows_of_def)

lemma rows_expire: "rows_of w d (snd (expire_due_lots w now d))"
proof -
  have "rows_of w x (expire_walk w now ls r x)" for ls r x
  proof (induction ls arbitrary: r x)
    case (Cons l ls)
    let ?y = "snd (create_txn w (Some (lot_id l)) EXPIRATION None (- lot_remaining l) (r - lot_remaining l)
      (Some (''Credits expired ('' @ lot_source_label (lot_source l) @ '')''))
      [(''lot_id'', JStr (uuid_str (lot_id l))), (''source'', JStr (lot_source_value (lot_source l))),
       (''expires_at'', deadline_json (lot_expires l))] [] now (upd_lot (lot_id l) (\<lambda>x. x\<lparr>lot_remaining := 0\<rparr>) x))"
    have y: "rows_of w x ?y" by (simp add: rows_of_def create_txn_frame upd_lot_def new_txn_def)
    have e: "expire_walk w now (l # ls) r x = expire_walk w now ls (r - lot_remaining l) ?y"
      by (simp add: Let_def split_beta)
    show ?case unfolding e by (rule rows_of_trans[OF y Cons.IH])
  qed (simp add: rows_of_same)
  then show ?thesis by (simp add: expire_due_lots_snd sync_balance_frame rows_of_def)
qed

lemma rows_settle:
  assumes "settle_debts w now d = Inr (n, d')"
  shows "rows_of w d d'"
proof -
  have walk: "rows_of w x d'" if "settle_walk w now xs c x = Inr (n, d')" for xs c x
    using that
  proof (induction xs arbitrary: c x)
    case (Cons y ys)
    let ?amt = "min (debt_outstanding y) (live_balance x w now)"
    show ?case
    proof (cases "live_balance x w now \<le> 0")
      case True
      with Cons.prems show ?thesis by (simp add: settle_walk_Cons rows_of_same)
    next
      case False
      with Cons.prems obtain taken d1 where eq: "consume_lots w ?amt now x = Inr (taken, d1)"
        and rest: "settle_walk w now ys (c + ?amt) (settle_step w now y ?amt taken d1) = Inr (n, d')"
        by (auto simp: settle_walk_Cons split: sum.splits)
      have "rows_of w x (settle_step w now y ?amt taken d1)"
        by (simp add: rows_of_def settle_step_def create_txn_frame new_txn_def upd_debt_frame sync_balance_frame consume_lots_frame[OF eq])
      with Cons.IH[OF rest] rows_of_trans show ?thesis by blast
    qed
  qed (simp add: rows_of_same)
  show ?thesis
    using assms walk by (auto simp: settle_debts_def Let_def rows_of_same split: if_splits)
qed

lemma rows_credit_new:
  assumes "credit_new now r w d = Inr (t, d')"
  shows "rows_of w d d'" "txn_created t = now"
proof -
  let ?d1 = "snd (expire_due_lots w now d)"
  let ?d3 = "snd (sync_balance w now (snd (create_lot w (cr_source r) (cr_credits r) (cr_expires r) None ?d1)))"
  let ?l = "fst (create_lot w (cr_source r) (cr_credits r) (cr_expires r) None ?d1)"
  let ?b = "fst (sync_balance w now (snd (create_lot w (cr_source r) (cr_credits r) (cr_expires r) None ?d1)))"
  let ?c = "create_txn w (Some ?l) (cr_type r) (cr_amount r) (cr_credits r) ?b (cr_desc r)
            (with_key (cr_key r) (cr_meta r)) (cr_key r) now ?d3"
  let ?d5 = "upd_lot ?l (\<lambda>x. x\<lparr>lot_grant := Some (txn_id (fst ?c))\<rparr>) (snd ?c)"
  have body: "credit_new now r w d = (if cr_settle r
      then (case settle_debts w now ?d5 of Inl e \<Rightarrow> Inl e | Inr (n, d6) \<Rightarrow> Inr (fst ?c, d6)) else Inr (fst ?c, ?d5))"
    unfolding credit_new_def Let_def split_beta by (cases "settle_debts w now ?d5") (simp_all add: split_beta)
  have t: "fst ?c = t" using assms unfolding body by (auto split: if_splits sum.splits)
  then show "txn_created t = now" by (auto simp: create_txn_def Let_def new_txn_def)
  have "rows_of w ?d1 ?d5"
    by (rule rows_of_one[where t = "fst ?c"]) (simp_all add: create_txn_frame new_txn_def sync_balance_frame create_lot_frame upd_lot_def)
  with rows_expire have a: "rows_of w d ?d5" by (rule rows_of_trans)
  from assms[unfolded body] have "d' = ?d5 \<or> (\<exists>n. settle_debts w now ?d5 = Inr (n, d'))" by (auto split: if_splits sum.splits)
  with a rows_settle rows_of_trans show "rows_of w d d'" by blast
qed

text \<open>So a lookup in another wallet finds what it found.\<close>

lemma rows_of_lookup:
  assumes "rows_of w d d'" and "v \<noteq> w"
  shows "existing_call cf d' v key = existing_call cf d v key"
proof -
  obtain ts where ts: "txns d' = txns d @ ts" "\<forall>t \<in> set ts. txn_wallet t = w" using assms(1) by (auto simp: rows_of_def)
  have "find (\<lambda>t. txn_wallet t = v \<and> P t) (rev ts @ xs) = find (\<lambda>t. txn_wallet t = v \<and> P t) xs" for P xs
    using ts(2) assms(2) by (induction ts rule: rev_induct) auto
  then show ?thesis by (simp add: existing_call_def transaction_by_idempotency_key_def ts(1) cong: option.case_cong)
qed

subsection \<open>The form of the wallet list\<close>

definition owned :: "wallet list \<Rightarrow> (uuid \<times> uid) list" where
  "owned ws = List.map_filter (\<lambda>w. map_option (Pair (w_id w)) (w_user w)) ws"

lemma owned_simps [simp]:
  "owned [] = []" "w_user w = None \<Longrightarrow> owned (w # ws) = owned ws"
  "w_user w = Some u \<Longrightarrow> owned (w # ws) = (w_id w, u) # owned ws"
  by (simp_all add: owned_def List.map_filter_def)

lemma owned_mem: "(i, u) \<in> set (owned ws) \<longleftrightarrow> (\<exists>w \<in> set ws. w_id w = i \<and> w_user w = Some u)"
proof (induction ws)
  case (Cons w ws)
  then show ?case by (cases "w_user w") auto
qed simp

text \<open>One call of the form, a wallet whose owner has it, a call that was answered.\<close>

definition form_grant ::
    "settings \<Rightarrow> int \<Rightarrow> string \<Rightarrow> string \<Rightarrow> string \<Rightarrow> time \<Rightarrow> uuid \<times> uid \<Rightarrow> db \<Rightarrow> error + txn \<times> db" where
  "form_grant cf n reason actor token now k d =
     grant_credits cf now (find_user cf (snd k)) n reason actor (form_key token (fst k)) Never [] d"

definition owns :: "db \<Rightarrow> uuid \<times> uid \<Rightarrow> bool" where
  "owns d k = (inv d \<and> map_option w_id (wallet_of_user d (snd k)) = Some (fst k))"

definition form_settled :: "settings \<Rightarrow> int \<Rightarrow> string \<Rightarrow> string \<Rightarrow> string \<Rightarrow> db \<Rightarrow> uuid \<times> uid \<Rightarrow> txn \<Rightarrow> bool" where
  "form_settled cf n reason actor token d k t =
     (owns d k \<and> 0 < n \<and> strip reason \<noteq> [] \<and> strip actor \<noteq> [] \<and> find_user cf (snd k) \<noteq> None \<and>
      existing_call cf d (fst k) (form_key token (fst k)) = Some t)"

lemma owns_lock: "owns d k \<Longrightarrow> lock_wallet (snd k) d = (fst k, d)"
  by (auto simp: owns_def lock_wallet_def get_or_create_wallet_def)

lemma owns_other:
  assumes "owns d j" and "owns d k" and "j \<noteq> k"
  shows "fst j \<noteq> fst k" "snd j \<noteq> snd k"
proof -
  show u: "snd j \<noteq> snd k" using assms by (cases j; cases k) (auto simp: owns_def)
  show "fst j \<noteq> fst k"
  proof -
    obtain x y where x: "wallet_of_user d (snd j) = Some x" "w_id x = fst j"
      and y: "wallet_of_user d (snd k) = Some y" "w_id y = fst k" using assms(1,2) by (auto simp: owns_def)
    have "inv d" using assms(1) by (simp add: owns_def)
    from wallet_of_user_distinct[OF inv_wf[OF this] x(1) y(1) u] x(2) y(2) show ?thesis by simp
  qed
qed

text \<open>A call replays its row or writes a new one.\<close>

lemma form_grant_cases:
  assumes "owns d k" and "form_grant cf n reason actor token now k d = Inr (t, d')"
  obtains (replayed) "existing_call cf d (fst k) (form_key token (fst k)) = Some t" "d' = d"
    | (fresh) r where "existing_call cf d (fst k) (form_key token (fst k)) = None" "credit_new now r (fst k) d = Inr (t, d')"
        "cr_key r = form_key token (fst k)" "cr_credits r = n" "cr_settle r" "cr_expires r = Never" "u_id (cr_user r) = snd k"
        "credit cf now r d = Inr (t, d')"
proof -
  obtain y r where y: "find_user cf (snd k) = Some y" and r: "credit cf now r d = Inr (t, d')" "cr_user r = y"
    "cr_key r = form_key token (fst k)" "cr_credits r = n" "cr_settle r" "cr_expires r = Never"
    using assms(2)[unfolded form_grant_def] by (rule grant_is_credit)
  have u: "u_id (cr_user r) = snd k" using y r(2) by (auto simp: find_user_def find_Some_iff)
  from owns_lock[OF assms(1)] have lk: "lock_wallet (u_id (cr_user r)) d = (fst k, d)" by (simp add: u)
  have i: "inv d" using assms(1) by (simp add: owns_def)
  from credit_cases[OF i r(1) lk] r u show ?thesis using that by metis
qed

lemma form_grant_arguments:
  assumes "form_grant cf n reason actor token now k d = Inr (t, d')"
  shows "0 < n" "strip reason \<noteq> []" "strip actor \<noteq> []" "find_user cf (snd k) \<noteq> None" "inv d \<Longrightarrow> inv d'"
  using grant_is_credit[OF assms[unfolded form_grant_def]] grant_inv[OF _ assms[unfolded form_grant_def]]
  by (metis option.distinct(1))+

lemma form_grant_owns:
  assumes "owns d j" and "form_grant cf n reason actor token now j d = Inr (t, d')" and "owns d k"
  shows "owns d' k"
  using assms(1,2)
proof (cases rule: form_grant_cases)
  case replayed
  with assms(3) show ?thesis by simp
next
  case (fresh r)
  have i: "inv d" using assms(1) by (simp add: owns_def)
  have lk: "lock_wallet (u_id (cr_user r)) d = (fst j, d)" using owns_lock[OF assms(1)] fresh(7) by simp
  have "map_option w_id (wallet_of_user d' (snd k)) = map_option w_id (wallet_of_user d (snd k))"
    by (rule static_wallet_of_user[OF credit_static[OF i fresh(8) lk]])
  with assms(3) form_grant_arguments(5)[OF assms(2) i] show ?thesis by (simp add: owns_def)
qed

lemma form_grant_settles:
  assumes "owns d k" and "form_grant cf n reason actor token now k d = Inr (t, d')" and "token \<noteq> []"
  shows "form_settled cf n reason actor token d' k t"
proof -
  have "existing_call cf d' (fst k) (form_key token (fst k)) = Some t"
    using assms(1,2)
  proof (cases rule: form_grant_cases)
    case (fresh r)
    have pos: "0 < cr_credits r" "At now < cr_expires r" by (rule credit_arguments[OF fresh(8)])+
    have i: "inv d" "fst k \<in> wallet_ids d" using lock_wallet_facts[OF _ owns_lock[OF assms(1)]] assms(1) by (auto simp: owns_def)
    obtain t' d'' us where b: "credit_new now r (fst k) d = Inr (t', d'')"
      "txns d'' = txns (snd (expire_due_lots (fst k) now d)) @ t' # us" "\<forall>x \<in> set us. txn_key x = []"
      "txn_wallet t' = fst k" "txn_key t' = cr_key r"
      by (rule credit_new_done[OF i pos]) (rule that; assumption)
    with fresh(2,3) have e: "t' = t" "d'' = d'" "txn_key t = form_key token (fst k)" by simp_all
    show ?thesis
      by (rule existing_call_mid[OF _ b(2)[unfolded e] b(3) b(4)[unfolded e] e(3)]) (simp add: form_key_def assms(3))
  qed simp
  with form_grant_arguments[OF assms(2)] form_grant_owns[OF assms(1,2,1)] show ?thesis by (simp add: form_settled_def)
qed

lemma form_grant_again:
  assumes "form_settled cf n reason actor token d k t"
  shows "form_grant cf n reason actor token now k d = Inr (t, d)"
proof -
  obtain y where y: "find_user cf (snd k) = Some y" using assms by (auto simp: form_settled_def)
  then have "u_id y = snd k" by (auto simp: find_user_def find_Some_iff)
  with owns_lock[of d k] assms y show ?thesis
    by (simp add: form_settled_def form_grant_def grant_credits_def credit_def Let_def)
qed

lemma form_grant_lookup:
  assumes "owns d j" and "form_grant cf n reason actor token now j d = Inr (t, d')" and "owns d k" and "j \<noteq> k"
  shows "existing_call cf d' (fst k) key = existing_call cf d (fst k) key"
  using assms(1,2)
proof (cases rule: form_grant_cases)
  case (fresh r)
  then show ?thesis using rows_of_lookup[OF rows_credit_new(1)[OF fresh(2)]] owns_other(1)[OF assms(1,3,4)] by metis
qed simp

interpretation form: keyed_batch "form_grant cf n reason actor token" "\<lambda>d k. token \<noteq> [] \<and> owns d k"
  "form_settled cf n reason actor token"
proof unfold_locales
  show "form_settled cf n reason actor token d' k t"
    if "token \<noteq> [] \<and> owns d k" "form_grant cf n reason actor token now k d = Inr (t, d')" for d k now t d'
    using form_grant_settles that by blast
  show "form_grant cf n reason actor token now k d = Inr (t, d)" if "form_settled cf n reason actor token d k t" for d k t now
    by (rule form_grant_again[OF that])
  show "form_settled cf n reason actor token d' k t"
    if "form_settled cf n reason actor token d k t" "token \<noteq> [] \<and> owns d j"
      "form_grant cf n reason actor token now j d = Inr (b, d')" "j \<noteq> k" for d k t j now b d'
    using that form_grant_lookup[of d j cf n reason actor token now b d' k "form_key token (fst k)"]
      form_grant_owns[of d j cf n reason actor token now b d' k]
    by (simp add: form_settled_def)
  show "token \<noteq> [] \<and> owns d' k"
    if "token \<noteq> [] \<and> owns d k" "token \<noteq> [] \<and> owns d j" "form_grant cf n reason actor token now j d = Inr (b, d')"
    for d k j now b d'
    using form_grant_owns that by blast
qed


lemma form_grant_is_credit:
  assumes "find_user cf (snd k) \<noteq> None" and "0 < n" and "strip reason \<noteq> []" and "strip actor \<noteq> []"
  obtains r where "\<forall>d. form_grant cf n reason actor token now k d = credit cf now r d" "cr_credits r = n" "cr_settle r"
    "cr_key r = form_key token (fst k)" "cr_expires r = Never" "u_id (cr_user r) = snd k"
proof -
  obtain y where y: "find_user cf (snd k) = Some y" using assms(1) by blast
  then have "u_id y = snd k" by (auto simp: find_user_def find_Some_iff)
  with y assms(2-4) that[of "\<lparr>cr_user = y, cr_credits = n, cr_type = ADJUSTMENT, cr_source = LOT_ADJUSTMENT,
      cr_desc = Some (take 255 (''Manual grant by '' @ strip actor @ '': '' @ strip reason)), cr_amount = None,
      cr_meta = grant_metadata [] (strip reason) (strip actor), cr_expires = Never,
      cr_key = form_key token (fst k), cr_settle = True\<rparr>"]
  show ?thesis by (simp add: form_grant_def grant_credits_def Let_def)
qed

text \<open>The first submission: every owner gets the credits, once, and nobody else's account moves.\<close>

lemma form_first:
  assumes "\<forall>k \<in> set ks. owns d k \<and> existing_call cf d (fst k) (form_key token (fst k)) = None \<and> find_user cf (snd k) \<noteq> None"
    and "distinct ks" and args: "0 < n" "strip reason \<noteq> []" "strip actor \<noteq> []" and "inv d"
  shows "\<exists>as d'. run_batch (form_grant cf n reason actor token now) ks d = (Inr as, d') \<and> inv d' \<and> length as = length ks \<and>
    (\<forall>t \<in> set as. txn_created t = now) \<and>
    (\<forall>v. user_account d' v now =
       (if v \<in> snd ` set ks then spec_credit n True (user_account d v now) else user_account d v now))"
  using assms(1,2,6)
proof (induction ks arbitrary: d)
  case (Cons k ks)
  have o: "owns d k" and new: "existing_call cf d (fst k) (form_key token (fst k)) = None" and fu: "find_user cf (snd k) \<noteq> None"
    using Cons.prems(1) by auto
  obtain r where r: "\<forall>d. form_grant cf n reason actor token now k d = credit cf now r d" "cr_credits r = n" "cr_settle r"
    "cr_key r = form_key token (fst k)" "cr_expires r = Never" "u_id (cr_user r) = snd k"
    by (rule form_grant_is_credit[OF fu args, where token = token and now = now])
  have "unused_key cf d (u_id (cr_user r)) (cr_key r)"
    using o new by (auto simp: unused_key_def r(4,6) owns_def split: option.splits)
  moreover have "0 < cr_credits r" "At now < cr_expires r" using r(2,5) args(1) by simp_all
  ultimately obtain t d1 where c: "credit cf now r d = Inr (t, d1)" "inv d1"
    and mine: "user_account d1 (snd k) now = spec_credit n True (user_account d (snd k) now)"
    and other: "\<And>v. v \<noteq> snd k \<Longrightarrow> user_account d1 v now = user_account d v now"
    using fresh_credit[OF Cons.prems(3)] r(2,3,6) by metis
  have one: "form_grant cf n reason actor token now k d = Inr (t, d1)" using r(1) c(1) by simp
  have at: "txn_created t = now"
    using o one by (cases rule: form_grant_cases) (use new rows_credit_new(2) in auto)
  have "owns d1 j \<and> existing_call cf d1 (fst j) (form_key token (fst j)) = None \<and> find_user cf (snd j) \<noteq> None"
    if j: "j \<in> set ks" for j
  proof -
    have "owns d j" "existing_call cf d (fst j) (form_key token (fst j)) = None" "find_user cf (snd j) \<noteq> None" "k \<noteq> j"
      using Cons.prems(1,2) j by auto
    with form_grant_owns[OF o one] form_grant_lookup[OF o one] show ?thesis by simp
  qed
  with Cons.IH[of d1] Cons.prems(2) c(2) obtain as d' where rest:
    "run_batch (form_grant cf n reason actor token now) ks d1 = (Inr as, d')" "inv d'" "length as = length ks"
    "\<forall>t \<in> set as. txn_created t = now"
    and acc: "\<forall>v. user_account d' v now =
       (if v \<in> snd ` set ks then spec_credit n True (user_account d1 v now) else user_account d1 v now)" by auto
  have k: "snd k \<notin> snd ` set ks" using Cons.prems(1,2) owns_other(2)[OF o] by auto
  have "user_account d' v now =
       (if v \<in> snd ` set (k # ks) then spec_credit n True (user_account d v now) else user_account d v now)" for v
    using acc mine other[of v] k by (cases "v = snd k") auto
  with rest one at show ?case by auto
qed simp

text \<open>What the action says of a batch, and the rows it puts into the admin's log.\<close>

lemma grant_each_run:
  assumes "run_batch (form_grant cf n reason actor token now) (owned ws) d = (Inr as, d')"
  shows "\<exists>r. grant_each cf now n reason actor token ws d = (r, d') \<and> gn_raised r = None \<and>
    map (\<lambda>e. (ge_wallet e, ge_txn e)) (gn_logged r) =
      map (\<lambda>(k, t). (fst k, txn_id t)) (filter (\<lambda>(k, t). \<not> txn_created t < now) (zip (owned ws) as))"
  using assms
proof (induction ws arbitrary: d as)
  case (Cons w ws)
  show ?case
  proof (cases "w_user w")
    case None
    with Cons.IH[of d as] Cons.prems show ?thesis by (auto simp: split_beta)
  next
    case (Some u)
    then have "run_batch (form_grant cf n reason actor token now) ((w_id w, u) # owned ws) d = (Inr as, d')"
      using Cons.prems by simp
    then obtain t d1 bs where one: "form_grant cf n reason actor token now (w_id w, u) d = Inr (t, d1)"
      and rest: "run_batch (form_grant cf n reason actor token now) (owned ws) d1 = (Inr bs, d')" and as: "as = t # bs"
      by (rule run_batch_ConsE)
    from Cons.IH[OF rest] obtain r where "grant_each cf now n reason actor token ws d1 = (r, d')" "gn_raised r = None"
      "map (\<lambda>e. (ge_wallet e, ge_txn e)) (gn_logged r) =
        map (\<lambda>(k, t). (fst k, txn_id t)) (filter (\<lambda>(k, t). \<not> txn_created t < now) (zip (owned ws) bs))" by blast
    with Some one as show ?thesis by (simp add: form_grant_def Let_def)
  qed
qed simp

text \<open>A form the action lets through, with every wallet ticked the one wallet of a known account.\<close>

definition sendable :: "settings \<Rightarrow> admin_request \<Rightarrow> wallet list \<Rightarrow> db \<Rightarrow> bool" where
  "sendable cf q ws d =
     (has_grant_credits_permission q \<and> 0 < posted_credits q \<and> posted q ''grant_reason'' \<noteq> [] \<and>
      map_of (aq_post q) ''select_across'' = None \<and> length ws \<le> MAX_WALLETS_PER_GRANT \<and> strip (acting q) \<noteq> [] \<and>
      distinct ws \<and>
      list_all (\<lambda>w. case w_user w of None \<Rightarrow> True
        | Some u \<Rightarrow> wallet_of_user d u = Some w \<and> find_user cf u \<noteq> None) ws)"

lemma dropWhile_keeps: "x \<in> set xs \<Longrightarrow> \<not> P x \<Longrightarrow> x \<in> set (dropWhile P xs)"
  by (induction xs) auto

lemma strip_Nil: "strip s = [] \<longleftrightarrow> (\<forall>x \<in> set s. is_space x)"
proof -
  have "strip s = [] \<longleftrightarrow> (\<forall>x \<in> set (dropWhile is_space s). is_space x)"
    by (simp add: strip_def dropWhile_eq_Nil_conv)
  then show ?thesis using dropWhile_keeps[of _ s is_space] set_dropWhileD[of _ is_space s] by blast
qed

lemma strip_twice: "strip s \<noteq> [] \<Longrightarrow> strip (strip s) \<noteq> []"
proof -
  assume "strip s \<noteq> []"
  then obtain x where x: "x \<in> set s" "\<not> is_space x" using strip_Nil by blast
  then have "x \<in> set (strip s)" by (simp add: strip_def dropWhile_keeps)
  with x(2) show ?thesis using strip_Nil by blast
qed

lemma owned_ids: "map fst (owned ws) = map w_id (filter (\<lambda>w. w_user w \<noteq> None) ws)"
proof (induction ws)
  case (Cons w ws)
  then show ?case by (cases "w_user w") simp_all
qed simp

lemma sendable_owned:
  assumes "sendable cf q ws d" and "inv d"
  shows "distinct (owned ws)" and "k \<in> set (owned ws) \<Longrightarrow> owns d k \<and> find_user cf (snd k) \<noteq> None"
proof -
  have "distinct ws" "\<forall>w \<in> set ws. \<forall>u. w_user w = Some u \<longrightarrow> wallet_of_user d u = Some w"
    using assms(1) by (auto simp: sendable_def list_all_iff)
  then show "distinct (owned ws)"
  proof (induction ws)
    case (Cons w ws)
    then show ?case by (cases "w_user w") (auto simp: owned_mem)
  qed simp
next
  assume "k \<in> set (owned ws)"
  then obtain w where "w \<in> set ws" "w_id w = fst k" "w_user w = Some (snd k)" using owned_mem[of "fst k" "snd k"] by auto
  with assms show "owns d k \<and> find_user cf (snd k) \<noteq> None" by (auto simp: sendable_def list_all_iff owns_def)
qed

text \<open>The log of a run: a row for each owner, unless the rows it found are older than the run.\<close>

lemma grant_each_log:
  assumes "run_batch (form_grant cf n reason actor token now) (owned ws) d = (Inr as, d')"
    and "length as = length (owned ws)" and "\<forall>t \<in> set as. txn_created t = written"
  shows "\<exists>r. grant_each cf now n reason actor token ws d = (r, d') \<and> gn_raised r = None \<and>
    map ge_wallet (gn_logged r) = (if written < now then [] else map fst (owned ws))"
proof -
  obtain r where r: "grant_each cf now n reason actor token ws d = (r, d')" "gn_raised r = None"
    "map (\<lambda>e. (ge_wallet e, ge_txn e)) (gn_logged r) =
      map (\<lambda>(k, t). (fst k, txn_id t)) (filter (\<lambda>(k, t). \<not> txn_created t < now) (zip (owned ws) as))"
    using grant_each_run[OF assms(1)] by blast
  have "filter (\<lambda>(k, t). \<not> txn_created t < now) (zip (owned ws) as) = (if written < now then [] else zip (owned ws) as)"
    using assms(3) by (auto simp: filter_empty_conv filter_id_conv dest: set_zip_rightD)
  moreover have "map ge_wallet (gn_logged r) = map fst (map (\<lambda>e. (ge_wallet e, ge_txn e)) (gn_logged r))" by simp
  moreover have "map fst (map (\<lambda>(k, t). (fst k, txn_id t)) (zip (owned ws) as)) = map fst (map fst (zip (owned ws) as))"
    by (simp add: split_beta)
  ultimately have "map ge_wallet (gn_logged r) = (if written < now then [] else map fst (owned ws))"
    using assms(2) unfolding r(3) by simp
  with r(1,2) show ?thesis by blast
qed

lemma summed_up_fields [simp]: "gn_raised (summed_up x) = gn_raised x" "gn_logged (summed_up x) = gn_logged x"
  by (simp_all add: summed_up_def Let_def)

text \<open>C15: a form of the wallet list grants once. The first time it is sent every account behind a ticked
  wallet moves by the specification of the credit, which repays debt first, no other account moves, and
  the admin's log has one row for each; sent again, whenever that is, it changes nothing and logs nothing.\<close>

theorem form_grants_once:
  assumes ok: "sendable cf q ws d" "inv d" "posted q ''grant_token'' \<noteq> []" and later: "now < later"
    and new: "\<forall>w \<in> set ws. existing_call cf d (w_id w) (form_key (posted q ''grant_token'') (w_id w)) = None"
  shows "\<exists>r d1. grant_credits_action cf now q ws d = (r, d1) \<and> inv d1 \<and> gn_raised r = None \<and>
    map ge_wallet (gn_logged r) = map w_id (filter (\<lambda>w. w_user w \<noteq> None) ws) \<and>
    (\<forall>v. user_account d1 v now =
       (if \<exists>w \<in> set ws. w_user w = Some v then spec_credit (posted_credits q) True (user_account d v now)
        else user_account d v now)) \<and>
    (\<exists>r'. grant_credits_action cf later q ws d1 = (r', d1) \<and> gn_raised r' = None \<and> gn_logged r' = [])"
proof -
  let ?n = "posted_credits q" and ?why = "posted q ''grant_reason''" and ?token = "posted q ''grant_token''"
  let ?batch = "\<lambda>at. run_batch (form_grant cf ?n ?why (acting q) ?token at) (owned ws)"
  have act: "grant_credits_action cf at q ws x = (let (r, d') = grant_each cf at ?n ?why (acting q) ?token ws x in (summed_up r, d'))" for at x
    using ok(1) by (simp add: sendable_def grant_credits_action_def)
  note own = sendable_owned[OF ok(1,2)]
  have args: "0 < ?n" "strip ?why \<noteq> []" "strip (acting q) \<noteq> []"
    using ok(1) strip_twice by (auto simp: sendable_def posted_def)
  have mem: "\<forall>k \<in> set (owned ws). owns d k \<and> existing_call cf d (fst k) (form_key ?token (fst k)) = None \<and> find_user cf (snd k) \<noteq> None"
    using own(2) new owned_mem by (metis prod.collapse)
  from form_first[OF mem own(1) args ok(2)] obtain as d1 where b: "?batch now d = (Inr as, d1)" "inv d1"
      "length as = length (owned ws)" "\<forall>t \<in> set as. txn_created t = now"
    and acc: "\<forall>v. user_account d1 v now =
      (if v \<in> snd ` set (owned ws) then spec_credit ?n True (user_account d v now) else user_account d v now)" by blast
  have "?batch later d1 = (Inr as, d1)" using form.batch_once[OF b(1) _ own(1)] own(2) ok(3) by blast
  from grant_each_log[OF b(1,3,4)] grant_each_log[OF this b(3,4)] later
  have "\<exists>r. grant_each cf now ?n ?why (acting q) ?token ws d = (r, d1) \<and> gn_raised r = None \<and>
      map ge_wallet (gn_logged r) = map fst (owned ws)"
    and "\<exists>r. grant_each cf later ?n ?why (acting q) ?token ws d1 = (r, d1) \<and> gn_raised r = None \<and> gn_logged r = []" by auto
  moreover have "v \<in> snd ` set (owned ws) \<longleftrightarrow> (\<exists>w \<in> set ws. w_user w = Some v)" for v
    using owned_mem by force
  ultimately show ?thesis using b(2) acc by (auto simp: act owned_ids)
qed

definition staff_form :: admin_request where
  "staff_form = \<lparr>aq_username = ''ops'', aq_user_id = ''b'', aq_perms = [''billing.grant_credits''],
     aq_post = [(''grant_credits'', ''100''), (''grant_reason'', '' release test ''), (''grant_token'', ''admin-grant:1'')]\<rparr>"

theorem form_grants_once_witness:
  "\<exists>r d1. grant_credits_action cf0 20 staff_form (wallets d_two) d_two = (r, d1) \<and> map ge_wallet (gn_logged r) = [0] \<and>
     user_account d1 ''a'' 20 = \<lparr>ac_live = 115, ac_owed = 0, ac_held = 0\<rparr> \<and>
     (\<exists>r'. grant_credits_action cf0 90 staff_form (wallets d_two) d1 = (r', d1) \<and> gn_logged r' = [])"
proof -
  have h: "sendable cf0 staff_form (wallets d_two) d_two" "posted staff_form ''grant_token'' \<noteq> []"
    "list_all (\<lambda>w. existing_call cf0 d_two (w_id w) (form_key (posted staff_form ''grant_token'') (w_id w)) = None) (wallets d_two)"
    "map w_id (filter (\<lambda>w. w_user w \<noteq> None) (wallets d_two)) = [0]"
    "list_ex (\<lambda>w. w_user w = Some ''a'') (wallets d_two)"
    "spec_credit (posted_credits staff_form) True (user_account d_two ''a'' 20) = \<lparr>ac_live = 115, ac_owed = 0, ac_held = 0\<rparr>"
    by code_simp+
  have new: "\<forall>w \<in> set (wallets d_two).
    existing_call cf0 d_two (w_id w) (form_key (posted staff_form ''grant_token'') (w_id w)) = None"
    using h(3) by (simp add: list_all_iff)
  have a: "\<exists>w \<in> set (wallets d_two). w_user w = Some ''a''" using h(5) by (simp add: list_ex_iff)
  from form_grants_once[OF h(1) inv_samples(1) h(2) _ new, of 20 90] obtain r d1 where
    "grant_credits_action cf0 20 staff_form (wallets d_two) d_two = (r, d1)"
    "map ge_wallet (gn_logged r) = map w_id (filter (\<lambda>w. w_user w \<noteq> None) (wallets d_two))"
    "\<forall>v. user_account d1 v 20 = (if \<exists>w \<in> set (wallets d_two). w_user w = Some v
       then spec_credit (posted_credits staff_form) True (user_account d_two v 20) else user_account d_two v 20)"
    "\<exists>r'. grant_credits_action cf0 90 staff_form (wallets d_two) d1 = (r', d1) \<and> gn_logged r' = []" by auto
  with a h(4,6) show ?thesis by metis
qed

subsection \<open>A replay that exits cleanly\<close>

lemma counted:
  "(case map_of (fold count_outcome rs cs) x of Some k \<Rightarrow> 0 < k | None \<Rightarrow> False) \<longleftrightarrow>
   (\<exists>r \<in> set rs. re_outcome r = x) \<or> (case map_of cs x of Some k \<Rightarrow> 0 < k | None \<Rightarrow> False)"
proof (induction rs arbitrary: cs)
  case (Cons r rs)
  have "(case map_of (count_outcome r cs) x of Some k \<Rightarrow> 0 < k | None \<Rightarrow> False) \<longleftrightarrow>
      re_outcome r = x \<or> (case map_of cs x of Some k \<Rightarrow> 0 < k | None \<Rightarrow> False)"
    by (simp add: count_outcome_def update_conv')
  then show ?case unfolding fold_simps Cons.IH[of "count_outcome r cs"] by auto
qed simp

text \<open>
  The exit code can be trusted: when a replay of stored events exits cleanly, every event it selected
  is processed, whoever processed it.
\<close>

lemma clean_replay_leaves_nothing:
  assumes "run_replay builtin_lookup text cf now ids unprocessed False d = (Done p, d')" and "\<not> rp_exit_error p" and "log_ok d"
    and "e \<in> set (events d)" and "ev_stripe_id e \<in> set ids \<or> (unprocessed \<and> ev_processed e = None)"
  shows "committed (ev_stripe_id e) d'"
proof -
  obtain rs where rs: "replay_webhook_events builtin_lookup text cf now ids unprocessed False d = (rs, d')"
    and p: "p = replay_report_of False rs"
    using assms(1) by (auto simp: run_replay_def split: if_splits prod.splits)
  note f = shipped.replay_room[OF assms(3) rs]
  have "\<forall>r \<in> set rs. re_outcome r \<noteq> ''error''"
    using assms(2) counted[of rs "[]" "''error''"] by (auto simp: p replay_report_of_def Let_def)
  moreover have "ev_stripe_id e \<in> set (map re_stripe_id rs)"
    unfolding f(2) using assms(4,5) by (auto simp: replayable_events_def)
  ultimately show ?thesis using f(3) by auto
qed

subsection \<open>Dry runs\<close>

fun tense :: "extend_line \<Rightarrow> extend_line" where
  "tense (TimeUntil b plan s e) = TimeUntil False plan s e"
| "tense (TimeDays b n plan s) = TimeDays False n plan s"
| "tense l = l"

lemma preview_apply: "preview_extension cf now (r\<lparr>ex_apply := b\<rparr>) s d = preview_extension cf now r s d"
proof -
  have e: "comped_slug (r\<lparr>ex_apply := b\<rparr>) s = comped_slug r s"
    "ex_stack (r\<lparr>ex_apply := b\<rparr>) = ex_stack r" "ex_bundle (r\<lparr>ex_apply := b\<rparr>) = ex_bundle r"
    "ex_reason (r\<lparr>ex_apply := b\<rparr>) = ex_reason r" "ex_actor (r\<lparr>ex_apply := b\<rparr>) = ex_actor r"
    "ex_days (r\<lparr>ex_apply := b\<rparr>) = ex_days r" "ex_until (r\<lparr>ex_apply := b\<rparr>) = ex_until r"
    "ex_starts (r\<lparr>ex_apply := b\<rparr>) = ex_starts r"
    by (simp_all add: comped_slug_def)
  show ?thesis unfolding preview_extension_def check_extension_def window_closes_def window_opens_def is_upgrade_def e by (rule refl)
qed

text \<open>
  What a dry run of the extension prints is what the run that writes prints, but for the tense and the
  last line: the same plan, window, upgrade, credits and reasons; and it writes nothing.
\<close>

lemma dry_run_tells:
  assumes "run_extend cf parse_datetime shell now (op\<lparr>eo_apply := True\<rparr>) d = (Done ls, d')"
  shows "\<exists>ls0. run_extend cf parse_datetime shell now (op\<lparr>eo_apply := False\<rparr>) d = (Done (ls0 @ [DryRun]), d) \<and>
    (\<exists>c. map tense ls = map tense ls0 @ [Written c])"
proof -
  let ?x = "\<lambda>until b. \<lparr>ex_days = eo_days op, ex_reason = eo_reason op,
      ex_actor = (if unset (eo_actor op) then shell else the (eo_actor op)),
      ex_plan = (case eo_plan op of Some p \<Rightarrow> p | None \<Rightarrow> []), ex_until = until, ex_starts = None,
      ex_stack = eo_stack op, ex_bundle = eo_bundle op, ex_apply = b\<rparr>"
  have opt: "extended_subscription (op\<lparr>eo_apply := b\<rparr>) d = extended_subscription op d"
    "window_end parse_datetime now (op\<lparr>eo_apply := b\<rparr>) s = window_end parse_datetime now op s"
    "eo_bundle (op\<lparr>eo_apply := b\<rparr>) = eo_bundle op" for b s
    by (simp_all add: extended_subscription_def window_end_def)
  have run_is: "run_extend cf parse_datetime shell now (op\<lparr>eo_apply := b\<rparr>) d =
      (case extend_subscription cf now (?x until b) s d of
         Inl (ValueError e) \<Rightarrow> (Refusal (ServiceRefused e), d)
       | Inl e \<Rightarrow> (Raised e, d)
       | Inr (p, d') \<Rightarrow> (Done (extend_lines (eo_bundle op) until p), d'))"
    if "extended_subscription op d = Inr s" "window_end parse_datetime now op s = Inr until" for b s until
    unfolding run_extend_def opt that sum.case by simp
  obtain s until where s: "extended_subscription op d = Inr s" "window_end parse_datetime now op s = Inr until"
    using assms unfolding run_extend_def opt by (auto split: sum.splits)
  obtain p where run: "extend_subscription cf now (?x until True) s d = Inr (p, d')" and ls: "ls = extend_lines (eo_bundle op) until p"
    using assms unfolding run_is[OF s] by (auto split: sum.splits error.splits)
  have same: "preview_extension cf now (?x until True) s d = preview_extension cf now (?x until False) s d"
    using preview_apply[where r = "?x until False" and b = True] by simp
  from run obtain entry q c d1 where q: "preview_extension cf now (?x until True) s d = Inr (entry, q)" "create_comp q d = (c, d1)"
    and g: "\<exists>p2 d2. grant_comp_bundle cf now s c (q\<lparr>cv_applied := True, cv_comp := Some (comp_id c)\<rparr>) d1 = Inr (p2, d2) \<and> p = p2"
    by (auto simp: extend_subscription_def Let_def split: sum.splits prod.splits)
  from g have p: "p = q\<lparr>cv_applied := True, cv_comp := Some (comp_id c)\<rparr> \<or>
      (\<exists>x. p = q\<lparr>cv_applied := True, cv_comp := Some (comp_id c), cv_transaction := x\<rparr>)"
    by (auto simp: grant_comp_bundle_def split: option.splits sum.splits if_splits)
  have q0: "\<not> cv_applied q" "cv_comp q = None"
    using q(1) by (auto simp: preview_extension_def Let_def preview_bundle_def split: sum.splits if_splits)
  have dry: "run_extend cf parse_datetime shell now (op\<lparr>eo_apply := False\<rparr>) d = (Done (extend_lines (eo_bundle op) until q), d)"
    unfolding run_is[OF s] using q(1)[unfolded same] by (simp add: extend_subscription_def)
  have e: "cv_starts p = cv_starts q" "cv_ends p = cv_ends q" "cv_upgrade_from p = cv_upgrade_from q" "cv_plan p = cv_plan q"
    "cv_bundle_credits p = cv_bundle_credits q" "cv_note p = cv_note q" "cv_plan_credits p = cv_plan_credits q"
    "cv_baseline_plan p = cv_baseline_plan q" "cv_baseline_credits p = cv_baseline_credits q"
    "cv_bundle_expires p = cv_bundle_expires q" "cv_reason p = cv_reason q" "cv_granted_by p = cv_granted_by q"
    "cv_stacked_on p = cv_stacked_on q" "cv_days p = cv_days q" "cv_subscription p = cv_subscription q"
    "cv_applied p" "cv_comp p = Some (comp_id c)"
    using p by auto
  have "extend_body b p = extend_body b q" for b unfolding extend_body_def e by (rule refl)
  moreover have "tense (extend_head until p) = tense (extend_head until q)" by (simp add: extend_head_def e)
  ultimately have lines: "extend_lines (eo_bundle op) until q = (extend_head until q # extend_body (eo_bundle op) q) @ [DryRun]"
    "map tense (extend_lines (eo_bundle op) until p) =
      map tense (extend_head until q # extend_body (eo_bundle op) q) @ [Written (comp_id c)]"
    by (simp_all add: extend_lines_def q0 e(16,17))
  show ?thesis unfolding dry ls lines(2) lines(1) by blast
qed

text \<open>
  Three things a dry run, or the parser, does not tell. A dry run of a grant writes the wallet of an
  account that has none, and its forecast leaves out the debt the credits will pay. And an option that
  is there but empty (\<open>--user "$USER_ID"\<close> with the variable unset) selects the first subscription without a
  provider id, whoever owns it.
\<close>

definition grant_alice :: "bool \<Rightarrow> grant_options" where
  "grant_alice dry = \<lparr>go_account = ''a'', go_credits = 10, go_reason = ''test'', go_actor = ''ops'', go_key = [], go_dry_run = dry\<rparr>"

lemma dry_run_opens_wallet:
  "wallets empty_db = []" "length (wallets (snd (run_grant cf0 20 (grant_alice True) empty_db))) = 1"
  by code_simp+

lemma dry_run_forgets_debt:
  "(let d = after d_two (debit cf0 20 (use alice 20 ''k'' True) d_two)
    in case (fst (run_grant cf0 30 (grant_alice True) d), fst (run_grant cf0 30 (grant_alice False) d)) of
         (Done p, Done q) \<Rightarrow> gr_before p = 0 \<and> gr_after p = 10 \<and> gr_before q = 0 \<and> gr_after q = 5
       | _ \<Rightarrow> False)"
  by code_simp

definition extend_blank :: extend_options where
  "extend_blank = \<lparr>eo_user = Some [], eo_subscription = None, eo_days = Some 30, eo_until = None, eo_until_period_end = False,
     eo_reason = ''outage'', eo_plan = Some ''pro'', eo_actor = None, eo_bundle = False, eo_stack = False, eo_apply = True\<rparr>"

lemma blank_user_extends_stranger:
  "(let d = empty_db\<lparr>subs := [new_subscription 0 ''b'' DEFAULT_PLAN], next_id := 1\<rparr>;
        (r, d') = run_extend cf0 (\<lambda>_. Inr None) ''root'' 20 extend_blank d
    in effective_plan cf0 ''b'' 30 d = DEFAULT_PLAN \<and> effective_plan cf0 ''b'' 30 d' = ''pro'')"
  by code_simp


end
