(* ===== verification/Checks.thy ===== *)
theory Checks
  imports Entitlements Event_Log Provider_Client Redirects "HOL-Library.Char_ord" "HOL-Library.List_Lexorder"
begin

section \<open>What is refused at boot (checks.py, the schedule of tasks.py)\<close>

text \<open>
  The system checks read the configuration and answer messages: an error stops a deploy, a warning
  is printed. A message is its id with what it names. The provider setting is what importing its
  path gave; a beat schedule is its entries, each a task's name, \<open>None\<close> for an entry without one.
\<close>

datatype check_message =
    W101
  | E101 string string
  | E102 string
  | E103
  | W104
  | E104
  | W102
  | W103
  | W105 "string list"
  | W106 string int
  | E106 string

text \<open>Entries of a plan are a dictionary: the keys are named in sorted order.\<close>

definition check_plan_entitlement_keys :: "settings \<Rightarrow> check_message list" where
  "check_plan_entitlement_keys cf =
     (if allow_unknown_entitlement_keys cf then [W101]
      else concat (map (\<lambda>p. map (E101 (pe_slug p))
                              (filter (\<lambda>k. k \<notin> set (declared_keys cf)) (sort (map fst (pe_entitlements p)))))
                     (cf_plans cf)))"

definition check_default_plan_slug :: "settings \<Rightarrow> check_message list" where
  "check_default_plan_slug cf =
     (if allow_unknown_plan_slugs cf \<or> get_plan (cf_plans cf) DEFAULT_PLAN \<noteq> None then [] else [E102 DEFAULT_PLAN])"

text \<open>A provider class answers whether it is configured, or raises.\<close>

datatype provider_setting = NotImportable | NoProviderClass | ProviderClass "unit + bool"

definition stripe_class :: "provider_settings \<Rightarrow> provider_setting" where
  "stripe_class ps = ProviderClass (Inr (is_configured ps))"

definition check_payment_provider_configured :: "provider_settings \<Rightarrow> provider_setting \<Rightarrow> check_message list" where
  "check_payment_provider_configured ps cls =
     (case cls of
        NotImportable \<Rightarrow> [E103]
      | NoProviderClass \<Rightarrow> [E103]
      | ProviderClass answer \<Rightarrow>
          if allow_unconfigured_payment_provider ps then [W104]
          else (case answer of Inl u \<Rightarrow> [E104] | Inr configured \<Rightarrow> if configured then [] else [E104]))"

definition check_redirect_allowlist :: "(string \<Rightarrow> bool) \<Rightarrow> redirect_settings \<Rightarrow> redirect_error + check_message list" where
  "check_redirect_allowlist bracketed rs =
     (if allow_unvalidated_redirect_urls rs then Inr [W102]
      else map_sum id (\<lambda>os. if os = [] then [W103] else []) (allowed_origins bracketed rs))"

subsection \<open>The schedule\<close>

definition EXPIRE_LOTS_TASK_NAME :: string where "EXPIRE_LOTS_TASK_NAME = ''stapel_billing.tasks.expire_credit_lots''"
definition EXPIRE_HOLDS_TASK_NAME :: string where "EXPIRE_HOLDS_TASK_NAME = ''stapel_billing.tasks.expire_holds''"
definition RECONCILE_TASK_NAME :: string where "RECONCILE_TASK_NAME = ''stapel_billing.tasks.reconcile_wallets''"
definition GRANT_PLAN_BUNDLES_TASK_NAME :: string where
  "GRANT_PLAN_BUNDLES_TASK_NAME = ''stapel_billing.tasks.grant_plan_bundles''"

text \<open>An entry's task and when it runs: the hour (\<open>None\<close> for every hour) and the minute.\<close>

record beat_entry =
  be_task :: "string option"
  be_hour :: "nat option"
  be_minute :: nat

definition get_billing_beat_schedule :: "(string \<times> beat_entry) list" where
  "get_billing_beat_schedule =
     [(''billing-expire-credit-lots'', \<lparr>be_task = Some EXPIRE_LOTS_TASK_NAME, be_hour = None, be_minute = 5\<rparr>),
      (''billing-expire-holds'', \<lparr>be_task = Some EXPIRE_HOLDS_TASK_NAME, be_hour = None, be_minute = 25\<rparr>),
      (''billing-reconcile-wallets'', \<lparr>be_task = Some RECONCILE_TASK_NAME, be_hour = Some 4, be_minute = 40\<rparr>),
      (''billing-grant-plan-bundles'', \<lparr>be_task = Some GRANT_PLAN_BUNDLES_TASK_NAME, be_hour = Some 5, be_minute = 10\<rparr>)]"

definition scheduled :: "(string \<times> beat_entry) list \<Rightarrow> string \<Rightarrow> bool" where
  "scheduled schedule name = list_ex (\<lambda>(k, e). be_task e = Some name) schedule"

text \<open>A host without a beat schedule runs the callables itself and is not checked.\<close>

definition check_expiry_is_scheduled :: "(string \<times> beat_entry) list \<Rightarrow> check_message list" where
  "check_expiry_is_scheduled schedule =
     (let missing = filter (\<lambda>name. \<not> scheduled schedule name)
                      [EXPIRE_LOTS_TASK_NAME, EXPIRE_HOLDS_TASK_NAME, RECONCILE_TASK_NAME]
      in if schedule = [] \<or> missing = [] then [] else [W105 missing])"

definition check_plan_bundle_grants_are_scheduled :: "settings \<Rightarrow> (string \<times> beat_entry) list \<Rightarrow> check_message list" where
  "check_plan_bundle_grants_are_scheduled cf schedule =
     (if schedule = [] \<or> scheduled schedule GRANT_PLAN_BUNDLES_TASK_NAME then []
      else case get_plan (cf_plans cf) DEFAULT_PLAN of
             None \<Rightarrow> []
           | Some entry \<Rightarrow> if pe_monthly entry \<le> 0 then [] else [W106 DEFAULT_PLAN (pe_monthly entry)])"

subsection \<open>Webhook handlers\<close>

text \<open>What a path resolves to is a function here, so the test for a callable never fails.\<close>

definition check_stripe_webhook_handlers ::
    "(string \<Rightarrow> handler option) \<Rightarrow> (string \<times> registry_value) list \<Rightarrow> check_message list" where
  "check_stripe_webhook_handlers host overrides =
     concat (map (\<lambda>(ty, v). case resolve host v of Inl e \<Rightarrow> [E106 ty] | Inr h \<Rightarrow> []) overrides)"

subsection \<open>What runs\<close>

definition registered_stripe_events ::
    "(string \<Rightarrow> handler option) \<Rightarrow> (string \<times> registry_value) list \<Rightarrow> error + string list" where
  "registered_stripe_events host overrides =
     map_sum id (\<lambda>hs. sort (map fst (filter (\<lambda>(k, h). \<not> Option.is_none h) hs))) (stripe_handlers host overrides)"

end
