(* ===== verification/Check_Claims.thy ===== *)
theory Check_Claims
  imports Checks Event_Facts Redirect_Claims Provider_Claims
begin

section \<open>What a clean boot promises\<close>

text \<open>
  The checks exist so that a deployment that boots without a message does not refuse its customers for
  a mistake of its configuration. Each lemma reads one check; the property puts them together.
\<close>

subsection \<open>Entitlements\<close>

lemma clean_keys:
  assumes "check_plan_entitlement_keys cf = []" and "p \<in> set (cf_plans cf)" and "k \<in> fst ` set (pe_entitlements p)"
  shows "k \<in> set (declared_keys cf)"
proof (rule ccontr)
  assume n: "k \<notin> set (declared_keys cf)"
  have "\<forall>p \<in> set (cf_plans cf). filter (\<lambda>k. k \<notin> set (declared_keys cf)) (sort (map fst (pe_entitlements p))) = []"
    using assms(1) by (auto simp: check_plan_entitlement_keys_def split: if_splits)
  with assms(2,3) n show False by (auto simp: filter_empty_conv)
qed

text \<open>A key some plan mentions is judged by the plan a user holds, and that plan is known.\<close>

lemma clean_entitlement:
  assumes "check_plan_entitlement_keys cf = []" and "check_default_plan_slug cf = []" and "\<not> allow_unknown_plan_slugs cf"
    and "p \<in> set (cf_plans cf)" and "k \<in> fst ` set (pe_entitlements p)" and "sub_of_user d u = None"
  shows "\<exists>e. get_plan (cf_plans cf) DEFAULT_PLAN = Some e \<and>
    check_entitlement cf now u k quantity d =
      verdict_of (case quantity of Some q \<Rightarrow> q | None \<Rightarrow> 1) (map_of (pe_entitlements e) k)"
proof -
  obtain e where e: "get_plan (cf_plans cf) DEFAULT_PLAN = Some e"
    using assms(2,3) by (auto simp: check_default_plan_slug_def split: if_splits)
  have "effective_plan cf u now d = DEFAULT_PLAN" using assms(6) by (simp add: effective_plan_def)
  with e clean_keys[OF assms(1,4,5)] show ?thesis
    by (simp add: check_entitlement_def effective_plan_entry_def Let_def)
qed

subsection \<open>Payments\<close>

lemma clean_provider:
  "check_payment_provider_configured ps (stripe_class ps) = [] \<Longrightarrow> is_configured ps"
  by (auto simp: check_payment_provider_configured_def stripe_class_def split: if_splits)

lemma text_field_answer: "text_field obj key \<noteq> Inl (ProviderNotConfiguredError why)"
  by (simp add: text_field_def split: option.split json.split)

lemma opened_session_answer: "opened_session api r \<noteq> Inl (ProviderNotConfiguredError why)"
  using text_field_answer by (auto simp: opened_session_def split: sum.splits)

lemma configured_serves:
  assumes "is_configured ps"
  shows "create_checkout_session ps api cf user package plan s c \<noteq> Inl (ProviderNotConfiguredError why)"
    "cancel_subscription ps api i \<noteq> Inl (ProviderNotConfiguredError why)"
    "fetch_subscription ps api i \<noteq> Inl (ProviderNotConfiguredError why)"
proof -
  show "create_checkout_session ps api cf user package plan s c \<noteq> Inl (ProviderNotConfiguredError why)"
    using assms opened_session_answer by (simp add: create_checkout_session_def split: option.split)
  show "cancel_subscription ps api i \<noteq> Inl (ProviderNotConfiguredError why)"
    using assms by (simp add: cancel_subscription_def split: sum.split)
  show "fetch_subscription ps api i \<noteq> Inl (ProviderNotConfiguredError why)"
    using assms by (simp add: fetch_subscription_def split: sum.split api_error.split)
qed

subsection \<open>Webhooks\<close>

lemma resolve_all_ok:
  assumes "\<And>k v. (k, v) \<in> set raw \<Longrightarrow> ok (resolve host v)"
  shows "ok (resolve_all host raw)"
  using assms
proof (induction raw)
  case (Cons p raw)
  obtain k v where p: "p = (k, v)" by (rule prod.exhaust)
  with Cons.prems[of k v] obtain h where "resolve host v = Inr h" by (auto simp: ok_iff)
  moreover obtain hs where "resolve_all host raw = Inr hs" using Cons by (auto simp: ok_iff)
  ultimately show ?case using p by (simp add: ok_iff)
qed (simp add: ok_iff)

lemma update_mem:
  assumes "(k, v) \<in> set (AList.update a b xs)"
  shows "(k, v) = (a, b) \<or> (k, v) \<in> set xs"
  using assms by (induction xs) (auto split: if_splits)

lemma clean_handlers:
  assumes "check_stripe_webhook_handlers host overrides = []"
  shows "ok (stripe_handlers host overrides)"
proof -
  have o: "ok (resolve host v)" if "(k, v) \<in> set overrides" for k v
    using assms that by (fastforce simp: check_stripe_webhook_handlers_def ok_iff split: sum.splits)
  have m: "ok (resolve host v)"
    if "set os \<subseteq> set overrides" and "\<And>k v. (k, v) \<in> set raw \<Longrightarrow> ok (resolve host v)"
      and "(k, v) \<in> set (fold (\<lambda>(ty, v) raw. AList.update ty v raw) os raw)" for os raw k v
    using that
  proof (induction os arbitrary: raw)
    case (Cons q os)
    obtain a b where q: "q = (a, b)" by (rule prod.exhaust)
    have "ok (resolve host v)" if "(k, v) \<in> set (AList.update a b raw)" for k v
      using update_mem[OF that] Cons.prems(1,2) o q by auto
    with Cons.IH[of "AList.update a b raw"] Cons.prems q show ?case by auto
  qed auto
  have b: "ok (resolve host v)" if "(k, v) \<in> set (map (apsnd Dotted) BUILTIN_STRIPE_HANDLERS)" for k v
  proof -
    from that obtain x where x: "x \<in> set BUILTIN_STRIPE_HANDLERS" "(k, v) = apsnd Dotted x" unfolding set_map by (rule imageE)
    from x(2) have "v = Dotted (snd x)" by (simp add: apsnd_def map_prod_def split_beta)
    with builtin_resolves[OF imageI[OF x(1)]] show ?thesis by blast
  qed
  show ?thesis unfolding stripe_handlers_def by (rule resolve_all_ok) (rule m[OF subset_refl b]; assumption)
qed

lemma clean_dispatch:
  assumes "check_stripe_webhook_handlers host overrides = []"
  shows "ok (get_stripe_handler host overrides ty)"
  using clean_handlers[OF assms] by (auto simp: get_stripe_handler_def ok_iff split: option.splits)

subsection \<open>The schedule\<close>

text \<open>The schedule the library offers is one its own checks accept, alone or added to a host's.\<close>

lemma shipped_schedule_clean:
  "check_expiry_is_scheduled (get_billing_beat_schedule @ own) = []"
  "check_plan_bundle_grants_are_scheduled cf (get_billing_beat_schedule @ own) = []"
proof -
  have "list_all (scheduled get_billing_beat_schedule)
      [EXPIRE_LOTS_TASK_NAME, EXPIRE_HOLDS_TASK_NAME, RECONCILE_TASK_NAME, GRANT_PLAN_BUNDLES_TASK_NAME]"
    by code_simp
  moreover have "scheduled get_billing_beat_schedule n \<Longrightarrow> scheduled (get_billing_beat_schedule @ own) n" for n
    by (simp add: scheduled_def)
  ultimately show "check_expiry_is_scheduled (get_billing_beat_schedule @ own) = []"
    "check_plan_bundle_grants_are_scheduled cf (get_billing_beat_schedule @ own) = []"
    by (simp_all add: check_expiry_is_scheduled_def check_plan_bundle_grants_are_scheduled_def Let_def)
qed

subsection \<open>Together\<close>



text \<open>
  The check of the redirect origins is not one of them: an origin that does not parse is neither reported nor
  skipped, it makes the check itself raise, and every redirect the request supplies with it.
\<close>

lemma bad_origin_crashes_check:
  "check_redirect_allowlist b (rs0\<lparr>rs_allowed := [''https://app.test:x'']\<rparr>) = Inl UrlValueError"
  "resolve_redirect b (rs0\<lparr>rs_allowed := [''https://app.test:x'']\<rparr>) (Some ''https://www.test/ok'') rs_success_url []
     = Inl UrlValueError"
  by code_simp+

end
